(* ===== verification/Zodex_Prelude.thy ===== *)
theory Zodex_Prelude
  imports Main "HOL-Library.Word"
begin

text \<open>
  Shared vocabulary of the development.

  A Rust \<^verbatim>\<open>String\<close>, \<^verbatim>\<open>&str\<close> or \<^verbatim>\<open>Vec<u8>\<close> is the HOL type \<^typ>\<open>string\<close>, read as the list of
  its UTF-8 \<^emph>\<open>bytes\<close> (a HOL \<^typ>\<open>char\<close> is exactly one byte).  Hence \<^const>\<open>length\<close> is Rust's
  \<^verbatim>\<open>len()\<close>, slicing is \<^const>\<open>take\<close>/\<^const>\<open>drop\<close>, and the character-level operations of the
  standard library are defined below from the bytes, the way the standard library does it.
  Sizes, counters and instants are natural numbers; where the code saturates or checks a
  machine bound the bound is written out.  A fallible operation returns \<open>string + 'a\<close>:
  \<^term>\<open>Inl\<close> carries the error text the code builds, \<^term>\<open>Inr\<close> the value.
\<close>

type_synonym rstr = string
type_synonym 'a res = "string + 'a"

named_theorems rust_str \<open>definitions of the string operations of the standard library\<close>

section \<open>Machine bounds\<close>

definition u64_max :: nat where
  "u64_max = 18446744073709551615"

definition usize_max :: nat where
  "usize_max = 18446744073709551615"

definition sat_add :: "nat \<Rightarrow> nat \<Rightarrow> nat" where
  "sat_add a b = min (a + b) usize_max"

definition sat_mul :: "nat \<Rightarrow> nat \<Rightarrow> nat" where
  "sat_mul a b = min (a * b) usize_max"

definition checked_mul_u64 :: "nat \<Rightarrow> nat \<Rightarrow> nat option" where
  "checked_mul_u64 a b = (if a * b \<le> u64_max then Some (a * b) else None)"

section \<open>Bytes and characters\<close>

abbreviation byte :: "char \<Rightarrow> nat" where
  "byte c \<equiv> of_char c"

abbreviation nl :: char where
  "nl \<equiv> CHR 10"

abbreviation cr :: char where
  "cr \<equiv> CHR 13"

definition is_cont :: "char \<Rightarrow> bool" where
  "is_cont c \<longleftrightarrow> 128 \<le> byte c \<and> byte c < 192"

definition is_char_boundary :: "rstr \<Rightarrow> nat \<Rightarrow> bool" where
  "is_char_boundary s i =
     (if i = 0 then True
      else if length s \<le> i then i = length s
      else \<not> is_cont (s ! i))"

definition chars_count :: "rstr \<Rightarrow> nat" where
  "chars_count s = length (filter (\<lambda>c. \<not> is_cont c) s)"

definition is_ascii_digit :: "char \<Rightarrow> bool" where
  "is_ascii_digit c \<longleftrightarrow> 48 \<le> byte c \<and> byte c \<le> 57"

definition is_ascii_upper :: "char \<Rightarrow> bool" where
  "is_ascii_upper c \<longleftrightarrow> 65 \<le> byte c \<and> byte c \<le> 90"

definition is_ascii_lower :: "char \<Rightarrow> bool" where
  "is_ascii_lower c \<longleftrightarrow> 97 \<le> byte c \<and> byte c \<le> 122"

definition is_ascii_alphanumeric :: "char \<Rightarrow> bool" where
  "is_ascii_alphanumeric c \<longleftrightarrow> is_ascii_digit c \<or> is_ascii_upper c \<or> is_ascii_lower c"

definition is_ascii_hexdigit :: "char \<Rightarrow> bool" where
  "is_ascii_hexdigit c \<longleftrightarrow>
     is_ascii_digit c \<or> 65 \<le> byte c \<and> byte c \<le> 70 \<or> 97 \<le> byte c \<and> byte c \<le> 102"

definition to_lower :: "char \<Rightarrow> char" where
  "to_lower c = (if is_ascii_upper c then char_of (byte c + 32) else c)"

definition to_ascii_lowercase :: "rstr \<Rightarrow> rstr" where
  "to_ascii_lowercase s = map to_lower s"

section \<open>Prefixes, searching, splitting\<close>

definition starts_with :: "'a list \<Rightarrow> 'a list \<Rightarrow> bool" where
  "starts_with s p \<longleftrightarrow> take (length p) s = p"

definition ends_with :: "'a list \<Rightarrow> 'a list \<Rightarrow> bool" where
  "ends_with s p \<longleftrightarrow> length p \<le> length s \<and> drop (length s - length p) s = p"

definition strip_prefix :: "'a list \<Rightarrow> 'a list \<Rightarrow> 'a list option" where
  "strip_prefix p s = (if starts_with s p then Some (drop (length p) s) else None)"

definition strip_suffix :: "'a list \<Rightarrow> 'a list \<Rightarrow> 'a list option" where
  "strip_suffix p s = (if ends_with s p then Some (take (length s - length p) s) else None)"

fun find_sub :: "'a list \<Rightarrow> 'a list \<Rightarrow> nat option" where
  "find_sub p [] = (if p = [] then Some 0 else None)"
| "find_sub p (c # s) =
     (if starts_with (c # s) p then Some 0 else map_option Suc (find_sub p s))"

definition str_contains :: "'a list \<Rightarrow> 'a list \<Rightarrow> bool" where
  "str_contains s p \<longleftrightarrow> find_sub p s \<noteq> None"

fun split_on :: "'a \<Rightarrow> 'a list \<Rightarrow> 'a list list" where
  "split_on d [] = [[]]"
| "split_on d (c # cs) =
     (if c = d then [] # split_on d cs
      else (case split_on d cs of [] \<Rightarrow> [[c]] | w # ws \<Rightarrow> (c # w) # ws))"

fun split_inclusive :: "'a \<Rightarrow> 'a list \<Rightarrow> 'a list list" where
  "split_inclusive d [] = []"
| "split_inclusive d (c # cs) =
     (if c = d then [c] # split_inclusive d cs
      else (case split_inclusive d cs of [] \<Rightarrow> [[c]] | w # ws \<Rightarrow> (c # w) # ws))"

definition strip_line_ending :: "rstr \<Rightarrow> rstr" where
  "strip_line_ending l =
     (case strip_suffix [nl] l of
        None \<Rightarrow> l
      | Some l' \<Rightarrow> (case strip_suffix [cr] l' of None \<Rightarrow> l' | Some l'' \<Rightarrow> l''))"

definition str_lines :: "rstr \<Rightarrow> rstr list" where
  "str_lines s = map strip_line_ending (split_inclusive nl s)"

fun first_index :: "('a \<Rightarrow> bool) \<Rightarrow> 'a list \<Rightarrow> nat option" where
  "first_index P [] = None"
| "first_index P (x # xs) = (if P x then Some 0 else map_option Suc (first_index P xs))"

text \<open>\<^verbatim>\<open>split_once(pattern)\<close>, \<^verbatim>\<open>rsplit_once(char)\<close>, \<^verbatim>\<open>trim_matches(char)\<close> and \<^verbatim>\<open>join(sep)\<close>.\<close>

definition split_once :: "'a list \<Rightarrow> 'a list \<Rightarrow> ('a list \<times> 'a list) option" where
  "split_once p s = map_option (\<lambda>i. (take i s, drop (i + length p) s)) (find_sub p s)"

definition rsplit_once :: "'a \<Rightarrow> 'a list \<Rightarrow> ('a list \<times> 'a list) option" where
  "rsplit_once c s =
     map_option (\<lambda>i. (take (length s - Suc i) s, drop (length s - i) s)) (first_index (\<lambda>d. d = c) (rev s))"

definition trim_start_matches :: "'a \<Rightarrow> 'a list \<Rightarrow> 'a list" where
  "trim_start_matches c s = dropWhile (\<lambda>d. d = c) s"

definition trim_end_matches :: "'a \<Rightarrow> 'a list \<Rightarrow> 'a list" where
  "trim_end_matches c s = rev (dropWhile (\<lambda>d. d = c) (rev s))"

definition trim_matches :: "'a \<Rightarrow> 'a list \<Rightarrow> 'a list" where
  "trim_matches c s = trim_end_matches c (trim_start_matches c s)"

fun join_with :: "'a list \<Rightarrow> 'a list list \<Rightarrow> 'a list" where
  "join_with sep [] = []"
| "join_with sep [w] = w"
| "join_with sep (w # v # ws) = w @ sep @ join_with sep (v # ws)"

section \<open>Results\<close>

text \<open>
  The \<^verbatim>\<open>?\<close> operator and \<^verbatim>\<open>anyhow\<close>'s \<^verbatim>\<open>with_context\<close>.  An error is the text of its whole chain,
  outermost message first, joined the way \<^verbatim>\<open>error_chain_string\<close> does.
\<close>

definition and_then :: "'a res \<Rightarrow> ('a \<Rightarrow> 'b res) \<Rightarrow> 'b res" where
  "and_then r f = (case r of Inl e \<Rightarrow> Inl e | Inr x \<Rightarrow> f x)"

definition with_ctx :: "rstr \<Rightarrow> 'a res \<Rightarrow> 'a res" where
  "with_ctx msg r = (case r of Inl e \<Rightarrow> Inl (msg @ '': '' @ e) | Inr x \<Rightarrow> Inr x)"

definition ok_or :: "'a option \<Rightarrow> rstr \<Rightarrow> 'a res" where
  "ok_or x e = (case x of None \<Rightarrow> Inl e | Some v \<Rightarrow> Inr v)"

lemma and_then_simps [simp]: "and_then (Inl e) f = Inl e" "and_then (Inr x) f = f x"
  by (simp_all add: and_then_def)

lemma and_then_Inr: "and_then r f = Inr y \<longleftrightarrow> (\<exists>x. r = Inr x \<and> f x = Inr y)"
  by (auto simp: and_then_def split: sum.splits)

lemma with_ctx_Inr [simp]: "with_ctx m r = Inr x \<longleftrightarrow> r = Inr x"
  by (auto simp: with_ctx_def split: sum.splits)

lemma with_ctx_simps [simp]: "with_ctx m (Inr x) = Inr x" "with_ctx m (Inl e) = Inl (m @ '': '' @ e)"
  by (simp_all add: with_ctx_def)

lemma ok_or_Inr [simp]: "ok_or x e = Inr v \<longleftrightarrow> x = Some v"
  by (auto simp: ok_or_def split: option.splits)

section \<open>Whitespace\<close>

text \<open>
  \<^verbatim>\<open>char::is_whitespace\<close> is the Unicode property White\_Space.  \<open>ws_prefix s\<close> is the byte width of
  a leading white-space scalar of \<open>s\<close> (0 when there is none), \<open>ws_suffix\<close> the same at the end of
  the string, read on the reversed bytes.
\<close>

definition is_ascii_ws :: "char \<Rightarrow> bool" where
  "is_ascii_ws c \<longleftrightarrow> 9 \<le> byte c \<and> byte c \<le> 13 \<or> byte c = 32"

fun ws3 :: "nat \<Rightarrow> nat \<Rightarrow> nat \<Rightarrow> bool" where
  "ws3 a b c \<longleftrightarrow>
     a = 225 \<and> b = 154 \<and> c = 128 \<or>
     a = 226 \<and> b = 128 \<and> (128 \<le> c \<and> c \<le> 138 \<or> c = 168 \<or> c = 169 \<or> c = 175) \<or>
     a = 226 \<and> b = 129 \<and> c = 159 \<or>
     a = 227 \<and> b = 128 \<and> c = 128"

definition ws_prefix :: "rstr \<Rightarrow> nat" where
  "ws_prefix s =
     (case s of
        [] \<Rightarrow> 0
      | a # s1 \<Rightarrow>
          if is_ascii_ws a then 1
          else (case s1 of
              [] \<Rightarrow> 0
            | b # s2 \<Rightarrow>
                if byte a = 194 \<and> (byte b = 133 \<or> byte b = 160) then 2
                else (case s2 of
                    [] \<Rightarrow> 0
                  | c # _ \<Rightarrow> if ws3 (byte a) (byte b) (byte c) then 3 else 0)))"

definition ws_suffix :: "rstr \<Rightarrow> nat" where
  "ws_suffix r =
     (case r of
        [] \<Rightarrow> 0
      | c # r1 \<Rightarrow>
          if is_ascii_ws c then 1
          else (case r1 of
              [] \<Rightarrow> 0
            | b # r2 \<Rightarrow>
                if byte b = 194 \<and> (byte c = 133 \<or> byte c = 160) then 2
                else (case r2 of
                    [] \<Rightarrow> 0
                  | a # _ \<Rightarrow> if ws3 (byte a) (byte b) (byte c) then 3 else 0)))"

lemma ws_prefix_le: "ws_prefix s \<le> length s"
  by (auto simp: ws_prefix_def split: list.splits)

lemma ws_suffix_le: "ws_suffix s \<le> length s"
  by (auto simp: ws_suffix_def split: list.splits)

lemma ws_Nil [simp]: "ws_prefix [] = 0" "ws_suffix [] = 0"
  by (simp_all add: ws_prefix_def ws_suffix_def)

function trim_start :: "rstr \<Rightarrow> rstr" where
  "trim_start s = (if ws_prefix s = 0 then s else trim_start (drop (ws_prefix s) s))"
  by pat_completeness auto
termination
  by (relation "measure length") (auto intro!: diff_less)

function trim_rev :: "rstr \<Rightarrow> rstr" where
  "trim_rev r = (if ws_suffix r = 0 then r else trim_rev (drop (ws_suffix r) r))"
  by pat_completeness auto
termination
  by (relation "measure length") (auto intro!: diff_less)

declare trim_start.simps [simp del] trim_rev.simps [simp del]

lemma trim_start_le: "length (trim_start s) \<le> length s"
proof (induction s rule: trim_start.induct)
  case (1 s)
  then show ?case by (subst trim_start.simps) (auto intro: order_trans)
qed

definition trim_end :: "rstr \<Rightarrow> rstr" where
  "trim_end s = rev (trim_rev (rev s))"

definition trim :: "rstr \<Rightarrow> rstr" where
  "trim s = trim_end (trim_start s)"

section \<open>Decimal numbers\<close>

definition digit_char :: "nat \<Rightarrow> char" where
  "digit_char d = char_of (48 + d)"

fun show_nat :: "nat \<Rightarrow> rstr" where
  "show_nat n = (if n < 10 then [digit_char n] else show_nat (n div 10) @ [digit_char (n mod 10)])"

declare show_nat.simps [simp del]

definition show_int :: "int \<Rightarrow> rstr" where
  "show_int i = (if i < 0 then ''-'' @ show_nat (nat (- i)) else show_nat (nat i))"

definition digits_val :: "nat \<Rightarrow> rstr \<Rightarrow> nat" where
  "digits_val acc s = foldl (\<lambda>a c. 10 * a + (byte c - 48)) acc s"

text \<open>\<^verbatim>\<open>str::parse::<u64>()\<close> on a string of ASCII digits: empty input and overflow are errors.\<close>

definition parse_u64_digits :: "rstr \<Rightarrow> nat option" where
  "parse_u64_digits s =
     (if s \<noteq> [] \<and> list_all is_ascii_digit s \<and> digits_val 0 s \<le> u64_max
      then Some (digits_val 0 s) else None)"

section \<open>Lemmas on the string operations\<close>

lemma starts_with_append [simp]: "starts_with (p @ s) p"
  by (simp add: starts_with_def)

lemma starts_with_iff: "starts_with s p \<longleftrightarrow> (\<exists>r. s = p @ r)"
  by (metis append_eq_conv_conj append_take_drop_id starts_with_def)

lemma starts_with_Nil [simp]: "starts_with s []"
  by (simp add: starts_with_def)

lemma starts_with_Cons [simp]:
  "starts_with (c # s) (d # p) \<longleftrightarrow> c = d \<and> starts_with s p"
  by (simp add: starts_with_def)

lemma starts_with_Nil_Cons [simp]: "\<not> starts_with [] (d # p)"
  by (simp add: starts_with_def)

lemma strip_prefix_append [simp]: "strip_prefix p (p @ s) = Some s"
  by (simp add: strip_prefix_def)

lemma strip_prefix_Some: "strip_prefix p s = Some r \<longleftrightarrow> s = p @ r"
  by (auto simp: strip_prefix_def starts_with_iff)

lemma ends_with_iff: "ends_with s p \<longleftrightarrow> (\<exists>r. s = r @ p)"
proof
  assume "ends_with s p"
  then have "s = take (length s - length p) s @ p"
    by (metis append_take_drop_id ends_with_def)
  then show "\<exists>r. s = r @ p" by blast
qed (auto simp: ends_with_def)

lemma strip_suffix_append [simp]: "strip_suffix p (s @ p) = Some s"
  by (simp add: strip_suffix_def ends_with_def)

lemma strip_suffix_Some: "strip_suffix p s = Some r \<longleftrightarrow> s = r @ p"
  by (auto simp: strip_suffix_def ends_with_iff)

lemma find_sub_Some_le: "find_sub p s = Some i \<Longrightarrow> i + length p \<le> length s"
proof (induction p s arbitrary: i rule: find_sub.induct)
  case (2 p c s)
  show ?case
  proof (cases "starts_with (c # s) p")
    case True
    then obtain r where "c # s = p @ r" by (auto simp: starts_with_iff)
    then have "length (c # s) = length p + length r" by (metis length_append)
    with "2.prems" True show ?thesis by simp
  next
    case False
    with 2 show ?thesis by force
  qed
qed (simp split: if_splits)

lemma find_sub_Some_match: "find_sub p s = Some i \<Longrightarrow> starts_with (drop i s) p"
  by (induction p s arbitrary: i rule: find_sub.induct) (auto split: if_splits)

lemma find_sub_Some_first:
  "find_sub p s = Some i \<Longrightarrow> j < i \<Longrightarrow> \<not> starts_with (drop j s) p"
proof (induction p s arbitrary: i j rule: find_sub.induct)
  case (2 p c s)
  then show ?case by (cases j) (auto split: if_splits)
qed (auto split: if_splits)

lemma find_sub_None: "find_sub p s = None \<Longrightarrow> \<not> starts_with (drop j s) p"
proof (induction p s arbitrary: j rule: find_sub.induct)
  case (2 p c s)
  then show ?case by (cases j) (auto split: if_splits)
qed (auto simp: starts_with_def split: if_splits)

lemma concat_split_inclusive [simp]: "concat (split_inclusive d s) = s"
  by (induction s) (auto split: list.splits)

lemma split_on_nonempty [simp]: "split_on d s \<noteq> []"
  by (induction s) (auto split: list.splits)

lemma split_on_no_delim: "w \<in> set (split_on d s) \<Longrightarrow> d \<notin> set w"
  by (induction s arbitrary: w) (force split: if_splits list.splits)+

lemma split_on_free: "d \<notin> set s \<Longrightarrow> split_on d s = [s]"
  by (induction s) auto

lemma split_on_append: "d \<notin> set a \<Longrightarrow> split_on d (a @ d # b) = a # split_on d b"
  by (induction a) auto

lemma join_split_on: "join_with [d] (split_on d s) = s"
proof (induction s)
  case (Cons c s)
  obtain w ws where ws: "split_on d s = w # ws" by (meson neq_Nil_conv split_on_nonempty)
  with Cons show ?case by (cases ws) auto
qed simp

lemma trim_matches_id: "s \<noteq> [] \<Longrightarrow> hd s \<noteq> c \<Longrightarrow> last s \<noteq> c \<Longrightarrow> trim_matches c s = s"
proof -
  assume s: "s \<noteq> []" "hd s \<noteq> c" "last s \<noteq> c"
  then have "dropWhile (\<lambda>d. d = c) s = s" "dropWhile (\<lambda>d. d = c) (rev s) = rev s"
    using dropWhile_eq_self_iff [of "\<lambda>d. d = c"] by (blast, simp add: hd_rev dropWhile_eq_self_iff)
  then show ?thesis by (simp add: trim_matches_def trim_start_matches_def trim_end_matches_def)
qed

lemma trim_matches_ends:
  assumes "trim_matches c s \<noteq> []"
  shows "hd (trim_matches c s) \<noteq> c \<and> last (trim_matches c s) \<noteq> c"
proof -
  define t where "t = dropWhile (\<lambda>d. d = c) s"
  define u where "u = dropWhile (\<lambda>d. d = c) (rev t)"
  have r: "trim_matches c s = rev u"
    by (simp add: trim_matches_def trim_start_matches_def trim_end_matches_def t_def u_def)
  with assms have u: "u \<noteq> []" by simp
  then have "hd u \<noteq> c" unfolding u_def by (meson hd_dropWhile)
  moreover have "hd (rev u) = hd t"
  proof -
    obtain v where "rev t = v @ u" unfolding u_def by (metis takeWhile_dropWhile_id)
    then have "t = rev u @ rev v" by (metis rev_append rev_rev_ident)
    with u show ?thesis by simp
  qed
  moreover have "t \<noteq> []" using u u_def by auto
  then have "hd t \<noteq> c" unfolding t_def by (meson hd_dropWhile)
  ultimately show ?thesis using u r by (simp add: last_rev)
qed

lemma trim_matches_set: "set (trim_matches c s) \<subseteq> set s"
  unfolding trim_matches_def trim_start_matches_def trim_end_matches_def
  by (metis set_dropWhileD set_rev subsetI)

lemma find_sub_single: "c \<notin> set a \<Longrightarrow> find_sub [c] (a @ c # b) = Some (length a)"
  by (induction a) auto

lemma find_sub_absent: "c \<notin> set s \<Longrightarrow> c \<in> set p \<Longrightarrow> find_sub p s = None"
proof (induction s)
  case (Cons d s)
  then show ?case by (auto simp: starts_with_def) (metis in_set_takeD set_ConsD)
qed auto

lemma split_once_single: "c \<notin> set a \<Longrightarrow> split_once [c] (a @ c # b) = Some (a, b)"
  by (simp add: split_once_def find_sub_single)

lemma split_once_absent: "c \<notin> set s \<Longrightarrow> c \<in> set p \<Longrightarrow> split_once p s = None"
  by (simp add: split_once_def find_sub_absent)

lemma split_once_Some: "split_once p s = Some (a, b) \<Longrightarrow> s = a @ p @ b"
  unfolding split_once_def
  by (auto dest!: find_sub_Some_match simp: starts_with_iff)
     (metis append.assoc append_take_drop_id drop_drop add.commute append_eq_conv_conj)

lemma first_index_Some:
  "first_index P xs = Some i \<Longrightarrow> i < length xs \<and> P (xs ! i) \<and> (\<forall>j<i. \<not> P (xs ! j))"
proof (induction xs arbitrary: i)
  case (Cons x xs)
  show ?case
  proof (cases "P x")
    case False
    with Cons.prems obtain k where k: "first_index P xs = Some k" "i = Suc k" by auto
    from Cons.IH [OF k(1)] k(2) False show ?thesis
      by (auto simp: nth_Cons split: nat.splits)
  qed (use Cons.prems in auto)
qed simp

lemma first_index_None: "first_index P xs = None \<longleftrightarrow> (\<forall>x \<in> set xs. \<not> P x)"
  by (induction xs) auto

definition plain_byte :: "char \<Rightarrow> bool" where
  "plain_byte c \<longleftrightarrow> byte c < 128 \<and> \<not> is_ascii_ws c"

lemma ws_prefix_plain: "plain_byte c \<Longrightarrow> ws_prefix (c # s) = 0"
  by (auto simp: ws_prefix_def plain_byte_def split: list.splits)

lemma ws_suffix_plain: "plain_byte c \<Longrightarrow> ws_suffix (c # s) = 0"
  by (auto simp: ws_suffix_def plain_byte_def split: list.splits)

lemma trim_plain:
  assumes "s \<noteq> []" "plain_byte (hd s)" "plain_byte (last s)"
  shows "trim s = s"
proof -
  have "trim_start s = s" using assms(1,2) by (cases s) (simp_all add: trim_start.simps ws_prefix_plain)
  moreover have "trim_rev (rev s) = rev s"
    using assms(1,3) by (cases "rev s") (auto simp: trim_rev.simps ws_suffix_plain rev_eq_Cons_iff)
  ultimately show ?thesis by (simp add: trim_def trim_end_def)
qed

lemma digit_plain: "is_ascii_digit c \<Longrightarrow> plain_byte c"
  by (auto simp: plain_byte_def is_ascii_digit_def is_ascii_ws_def)

text \<open>The equations with which \<open>simp\<close> evaluates string operations on concrete strings.\<close>

declare
  trim_def [rust_str] trim_end_def [rust_str] trim_start.simps [rust_str] trim_rev.simps [rust_str]
  ws_prefix_def [rust_str] ws_suffix_def [rust_str] is_ascii_ws_def [rust_str]
  chars_count_def [rust_str] is_cont_def [rust_str] split_once_def [rust_str] rsplit_once_def [rust_str]
  str_contains_def [rust_str] ends_with_def [rust_str] strip_suffix_def [rust_str]
  strip_prefix_def [rust_str] trim_matches_def [rust_str] trim_start_matches_def [rust_str]
  trim_end_matches_def [rust_str] is_ascii_digit_def [rust_str] is_ascii_upper_def [rust_str]
  is_ascii_lower_def [rust_str] is_ascii_alphanumeric_def [rust_str] is_ascii_hexdigit_def [rust_str]
  to_ascii_lowercase_def [rust_str] to_lower_def [rust_str] ok_or_def [rust_str]

section \<open>Lemmas on decimal numbers\<close>

lemma byte_digit_char: "d < 10 \<Longrightarrow> byte (digit_char d) = 48 + d"
  by (simp add: digit_char_def of_char_of)

lemma is_ascii_digit_digit_char: "d < 10 \<Longrightarrow> is_ascii_digit (digit_char d)"
  by (simp add: is_ascii_digit_def byte_digit_char)

lemma show_nat_digits: "c \<in> set (show_nat n) \<Longrightarrow> is_ascii_digit c"
proof (induction n rule: show_nat.induct)
  case (1 n)
  then show ?case
    by (subst (asm) show_nat.simps) (auto simp: is_ascii_digit_digit_char split: if_splits)
qed

lemma show_nat_nonempty [simp]: "show_nat n \<noteq> []"
  by (subst show_nat.simps) simp

lemma digits_val_append: "digits_val a (s @ t) = digits_val (digits_val a s) t"
  by (simp add: digits_val_def)

lemma digits_val_show_nat: "digits_val 0 (show_nat n) = n"
proof (induction n rule: show_nat.induct)
  case (1 n)
  show ?case
  proof (cases "n < 10")
    case True
    then show ?thesis by (subst show_nat.simps) (simp add: digits_val_def byte_digit_char)
  next
    case False
    with 1 have "digits_val 0 (show_nat (n div 10)) = n div 10" by blast
    with False show ?thesis
      by (subst show_nat.simps) (simp add: digits_val_append, simp add: digits_val_def byte_digit_char)
  qed
qed

lemma parse_u64_show_nat: "n \<le> u64_max \<Longrightarrow> parse_u64_digits (show_nat n) = Some n"
  by (auto simp: parse_u64_digits_def digits_val_show_nat list_all_iff dest: show_nat_digits)

end
