(* ===== verification/Redaction.thy ===== *)
theory Redaction
  imports Zodex_Prelude
begin

text \<open>
  Redaction of the \<^verbatim>\<open>?key=\<close> capability in log text (\<^verbatim>\<open>src/redaction.rs\<close>).  The cursor loop of the
  source is shown equal to a left-to-right scan, from which the security property follows: the
  redacted text does not depend on the value of the key.
\<close>

definition REDACTED_QUERY_VALUE :: rstr where
  "REDACTED_QUERY_VALUE = ''<redacted>''"

definition is_param_name_char :: "char \<Rightarrow> bool" where
  "is_param_name_char ch \<longleftrightarrow> is_ascii_alphanumeric ch \<or> ch = CHR ''_'' \<or> ch = CHR ''-''"

definition is_query_delimiter :: "char \<Rightarrow> bool" where
  "is_query_delimiter ch \<longleftrightarrow>
     ch \<in> set [CHR ''&'', CHR 35, CHR '' '', CHR 9, cr, nl, CHR 34, CHR 39, CHR '','', CHR '')'',
             CHR '']'', CHR ''}'', CHR ''>'']"

definition is_param_start :: "rstr \<Rightarrow> nat \<Rightarrow> bool" where
  "is_param_start tx start =
     (if start = 0 then True else \<not> is_param_name_char (tx ! (start - 1)))"

function value_end_from :: "rstr \<Rightarrow> nat \<Rightarrow> nat" where
  "value_end_from tx i =
     (if i < length tx then
        (if is_query_delimiter (tx ! i) then i else value_end_from tx (Suc i))
      else i)"
  by pat_completeness auto
termination
  by (relation "measure (\<lambda>(t, i). length t - i)") auto

declare value_end_from.simps [simp del]

lemma value_end_from_ge: "i \<le> value_end_from tx i"
proof (induction tx i rule: value_end_from.induct)
  case (1 tx i)
  then show ?case by (subst value_end_from.simps) (auto intro: Suc_leD)
qed

text \<open>The loop of \<^verbatim>\<open>redact_query_param\<close>: \<open>cursor\<close> into the text, \<open>acc\<close> the output so far.  The token
  is \<^verbatim>\<open>param=\<close>, never empty, so the cursor advances in every round.\<close>

function redact_loop :: "rstr \<Rightarrow> rstr \<Rightarrow> rstr \<Rightarrow> nat \<Rightarrow> rstr \<Rightarrow> rstr" where
  "redact_loop tx param repl cursor acc =
     (let token = param @ ''='' in
      if cursor \<le> length tx then
        (case find_sub token (drop cursor tx) of
           None \<Rightarrow> acc @ drop cursor tx
         | Some relative_start \<Rightarrow>
             (let start = cursor + relative_start in
              if \<not> is_param_start tx start then
                (let keep_until = start + length token
                 in redact_loop tx param repl keep_until
                      (acc @ take (keep_until - cursor) (drop cursor tx)))
              else
                redact_loop tx param repl (value_end_from tx (start + length token))
                  (acc @ take relative_start (drop cursor tx) @ token @ repl)))
      else acc)"
  by pat_completeness auto
termination
proof (relation "measure (\<lambda>(t, p, r, c, a). Suc (length t) - c)", goal_cases)
  case (3 tx param repl cursor acc token rel start)
  have "start + length token \<le> value_end_from tx (start + length token)"
    by (rule value_end_from_ge)
  with 3 show ?case by auto
qed auto

declare redact_loop.simps [simp del]

definition redact_query_param :: "rstr \<Rightarrow> rstr \<Rightarrow> rstr \<Rightarrow> rstr" where
  "redact_query_param tx param repl = redact_loop tx param repl 0 []"

definition redact_api_key_query_params :: "rstr \<Rightarrow> rstr" where
  "redact_api_key_query_params tx = redact_query_param tx ''key'' REDACTED_QUERY_VALUE"

section \<open>The scan\<close>

text \<open>The same transformation as one pass; the first argument says whether a parameter name may
  start here, that is, whether the preceding byte is no name character.\<close>

function redact_scan :: "bool \<Rightarrow> rstr \<Rightarrow> rstr" where
  "redact_scan b [] = []"
| "redact_scan b (c # s) =
     (if b \<and> starts_with (c # s) ''key='' then
        ''key='' @ REDACTED_QUERY_VALUE @
        redact_scan True (dropWhile (\<lambda>d. \<not> is_query_delimiter d) (drop 3 s))
      else c # redact_scan (\<not> is_param_name_char c) s)"
  by pat_completeness auto
termination
proof (relation "measure (length \<circ> snd)", goal_cases)
  case (2 b c s)
  have "length (dropWhile (\<lambda>d. \<not> is_query_delimiter d) (drop 3 s)) \<le> length (drop 3 s)"
    by (rule length_dropWhile_le)
  then show ?case by simp
qed auto

declare redact_scan.simps(2) [simp del]

lemma delimiter_not_name: "is_query_delimiter c \<Longrightarrow> \<not> is_param_name_char c"
  by (auto simp: is_query_delimiter_def is_param_name_char_def is_ascii_alphanumeric_def
      is_ascii_digit_def is_ascii_upper_def is_ascii_lower_def)

lemma key_not_delimiter [simp]:
  "\<not> is_query_delimiter CHR ''k''" "\<not> is_query_delimiter CHR ''e''"
  "\<not> is_query_delimiter CHR ''y''" "\<not> is_query_delimiter CHR ''=''"
  by (simp_all add: is_query_delimiter_def)

lemma name_chars [simp]:
  "is_param_name_char CHR ''k''" "is_param_name_char CHR ''e''" "is_param_name_char CHR ''y''"
  "\<not> is_param_name_char CHR ''=''"
  by (simp_all add: is_param_name_char_def is_ascii_alphanumeric_def is_ascii_digit_def
      is_ascii_upper_def is_ascii_lower_def)

lemma value_end_dropWhile:
  "i \<le> length tx \<Longrightarrow>
     drop (value_end_from tx i) tx = dropWhile (\<lambda>d. \<not> is_query_delimiter d) (drop i tx) \<and>
     value_end_from tx i \<le> length tx"
proof (induction tx i rule: value_end_from.induct)
  case (1 tx i)
  show ?case
  proof (cases "i < length tx")
    case True
    then have "drop i tx = tx ! i # drop (Suc i) tx" by (simp add: Cons_nth_drop_Suc)
    with True "1.IH" [OF True] show ?thesis by (auto simp: value_end_from.simps [of tx i])
  next
    case False
    then have "value_end_from tx i = i" by (simp add: value_end_from.simps [of tx i])
    with False "1.prems" show ?thesis by simp
  qed
qed

lemma redact_scan_no_token:
  "find_sub ''key='' s = None \<Longrightarrow> redact_scan b s = s"
  by (induction s arbitrary: b) (auto simp: redact_scan.simps(2) split: if_splits)

lemma redact_scan_skip:
  "find_sub ''key='' s = Some i \<Longrightarrow>
     redact_scan b s =
       take i s @ redact_scan (if i = 0 then b else \<not> is_param_name_char (s ! (i - 1))) (drop i s)"
proof (induction s arbitrary: b i)
  case (Cons c s)
  show ?case
  proof (cases "starts_with (c # s) ''key=''")
    case True
    with Cons.prems show ?thesis by simp
  next
    case False
    with Cons.prems obtain j where j: "find_sub ''key='' s = Some j" "i = Suc j" by auto
    have "redact_scan b (c # s) = c # redact_scan (\<not> is_param_name_char c) s"
      using False by (auto simp: redact_scan.simps(2))
    with Cons.IH [OF j(1), of "\<not> is_param_name_char c"] j(2) show ?thesis
      by (cases j) simp_all
  qed
qed (simp split: if_splits)

lemma redact_scan_key:
  "redact_scan b (''key='' @ s) =
     (if b then ''key='' @ REDACTED_QUERY_VALUE @
           redact_scan True (dropWhile (\<lambda>d. \<not> is_query_delimiter d) s)
      else ''key='' @ redact_scan True s)"
  by (simp add: redact_scan.simps(2) starts_with_def)

lemma redact_loop_step:
  "cursor \<le> length tx \<Longrightarrow>
     redact_loop tx ''key'' repl cursor acc =
       (case find_sub ''key='' (drop cursor tx) of
          None \<Rightarrow> acc @ drop cursor tx
        | Some i \<Rightarrow>
            (if \<not> is_param_start tx (cursor + i)
             then redact_loop tx ''key'' repl (cursor + i + 4) (acc @ take (i + 4) (drop cursor tx))
             else redact_loop tx ''key'' repl (value_end_from tx (cursor + i + 4))
                    (acc @ take i (drop cursor tx) @ ''key='' @ repl)))"
  by (subst redact_loop.simps) (simp add: Let_def eval_nat_numeral split: option.split)

text \<open>The cursor of the source loop always stands where a name may start.\<close>

lemma redact_loop_scan:
  "cursor \<le> length tx \<Longrightarrow>
     (cursor = 0 \<or> \<not> is_param_name_char (tx ! (cursor - 1)) \<or>
        cursor = length tx \<or> is_query_delimiter (tx ! cursor)) \<Longrightarrow>
     redact_loop tx ''key'' REDACTED_QUERY_VALUE cursor acc =
       acc @ redact_scan True (drop cursor tx)"
proof (induction "length tx - cursor" arbitrary: cursor acc rule: less_induct)
  case less
  show ?case
  proof (cases "find_sub ''key='' (drop cursor tx)")
    case None
    with less.prems(1) show ?thesis
      by (simp add: redact_loop_step redact_scan_no_token)
  next
    case (Some i)
    define st where "st = cursor + i"
    have le: "i + 4 \<le> length (drop cursor tx)" using find_sub_Some_le [OF Some] by simp
    then have le': "st + 4 \<le> length tx" by (simp add: st_def)
    obtain r where r: "drop st tx = ''key='' @ r"
      using find_sub_Some_match [OF Some] by (auto simp: starts_with_iff st_def add.commute)
    have r4: "drop (st + 4) tx = r"
      using arg_cong [OF r, of "drop 4"] by (simp add: add.commute)
    have first: "i = 0 \<Longrightarrow> is_param_start tx st"
      using less.prems le' r
      by (auto simp: is_param_start_def st_def)
        (metis Cons_nth_drop_Suc append_Cons key_not_delimiter(1) less_le_trans list.inject
          zero_less_numeral add.right_neutral length_drop less_add_same_cancel1 not_less)
    have prev: "(if i = 0 then True else \<not> is_param_name_char (drop cursor tx ! (i - 1)))
        = is_param_start tx st"
      using first le by (auto simp: is_param_start_def st_def)
    have scan: "redact_scan True (drop cursor tx) =
        take i (drop cursor tx) @ redact_scan (is_param_start tx st) (''key='' @ r)"
      using redact_scan_skip [OF Some, of True] prev r
      by (simp add: st_def add.commute)
    show ?thesis
    proof (cases "is_param_start tx st")
      case False
      have eq: "tx ! (st + 3) = CHR ''=''"
        using arg_cong [OF r, of "\<lambda>l. l ! 3"] le' by (simp add: numeral_eq_Suc)
      have IH: "redact_loop tx ''key'' REDACTED_QUERY_VALUE (st + 4) a = a @ redact_scan True r" for a
      proof -
        have "length tx - (st + 4) < length tx - cursor" using le' by (simp add: st_def)
        moreover have "\<not> is_param_name_char (tx ! (st + 4 - 1))"
          using eq by (simp add: add.commute)
        ultimately show ?thesis using less.hyps [of "st + 4" a] le' r4 by simp
      qed
      have "drop i (drop cursor tx) = ''key='' @ r" using r by (simp add: st_def add.commute)
      then have piece: "take (i + 4) (drop cursor tx) = take i (drop cursor tx) @ ''key=''"
        by (simp add: take_add)
      have "redact_loop tx ''key'' REDACTED_QUERY_VALUE cursor acc =
          redact_loop tx ''key'' REDACTED_QUERY_VALUE (st + 4) (acc @ take (i + 4) (drop cursor tx))"
        using less.prems(1) Some False by (simp add: redact_loop_step st_def)
      also have "\<dots> = acc @ redact_scan True (drop cursor tx)"
        unfolding IH scan piece using False redact_scan_key [of False r] by simp
      finally show ?thesis .
    next
      case True
      define v where "v = value_end_from tx (st + 4)"
      have v: "drop v tx = dropWhile (\<lambda>d. \<not> is_query_delimiter d) r" "v \<le> length tx" "st + 4 \<le> v"
        using value_end_dropWhile [OF le'] value_end_from_ge [of "st + 4" tx] r4
        by (simp_all add: v_def)
      have "v = length tx \<or> is_query_delimiter (tx ! v)"
      proof (cases "v < length tx")
        case True
        then have nz: "dropWhile (\<lambda>d. \<not> is_query_delimiter d) r \<noteq> []"
          using v(1) by (metis drop_eq_Nil not_less)
        have "tx ! v = hd (dropWhile (\<lambda>d. \<not> is_query_delimiter d) r)"
          using True v(1) by (simp add: hd_drop_conv_nth [symmetric])
        with hd_dropWhile [OF nz] show ?thesis by simp
      qed (use v(2) in simp)
      then have IH: "redact_loop tx ''key'' REDACTED_QUERY_VALUE v a =
          a @ redact_scan True (dropWhile (\<lambda>d. \<not> is_query_delimiter d) r)" for a
        using less.hyps [of v a] v by (simp add: st_def)
      have "redact_loop tx ''key'' REDACTED_QUERY_VALUE cursor acc =
          redact_loop tx ''key'' REDACTED_QUERY_VALUE v
            (acc @ take i (drop cursor tx) @ ''key='' @ REDACTED_QUERY_VALUE)"
        using less.prems(1) Some True by (simp add: redact_loop_step st_def v_def)
      also have "\<dots> = acc @ redact_scan True (drop cursor tx)"
        unfolding IH scan using True redact_scan_key [of True r] by simp
      finally show ?thesis .
    qed
  qed
qed

lemma redact_api_key_scan: "redact_api_key_query_params tx = redact_scan True tx"
  by (simp add: redact_api_key_query_params_def redact_query_param_def redact_loop_scan)

section \<open>Properties\<close>

lemma key_overlap:
  assumes "starts_with (pre @ ''key='' @ s) ''key=''" and "pre \<noteq> []"
  shows "\<exists>q. pre = ''key='' @ q"
proof -
  consider a where "pre = [a]" | a b where "pre = [a, b]" | a b c where "pre = [a, b, c]"
    | a b c d q where "pre = a # b # c # d # q"
    using assms(2) by (metis list.exhaust)
  then show ?thesis using assms(1) by cases simp_all
qed

lemma dropWhile_value:
  assumes v: "list_all (\<lambda>c. \<not> is_query_delimiter c) v" "list_all (\<lambda>c. \<not> is_query_delimiter c) w"
    and rest: "rest = [] \<or> is_query_delimiter (hd rest)"
  shows "(\<exists>p. dropWhile (\<lambda>d. \<not> is_query_delimiter d) (q @ ''key='' @ v @ rest) = p @ ''key='' @ v @ rest \<and>
              dropWhile (\<lambda>d. \<not> is_query_delimiter d) (q @ ''key='' @ w @ rest) = p @ ''key='' @ w @ rest \<and>
              length p \<le> length q \<and> p \<noteq> [] \<and> last p = last q) \<or>
         (dropWhile (\<lambda>d. \<not> is_query_delimiter d) (q @ ''key='' @ v @ rest) = rest \<and>
          dropWhile (\<lambda>d. \<not> is_query_delimiter d) (q @ ''key='' @ w @ rest) = rest)"
proof (induction q)
  case Nil
  have "dropWhile (\<lambda>d. \<not> is_query_delimiter d) rest = rest"
    using rest by (cases rest) auto
  with v show ?case by (simp add: dropWhile_append2 list_all_iff)
next
  case (Cons c q)
  show ?case
  proof (cases "is_query_delimiter c")
    case True
    then show ?thesis by (intro disjI1 exI [of _ "c # q"]) simp
  next
    case False
    from Cons.IH show ?thesis
    proof (elim disjE exE conjE)
      fix p
      assume "dropWhile (\<lambda>d. \<not> is_query_delimiter d) (q @ ''key='' @ v @ rest) = p @ ''key='' @ v @ rest"
        "dropWhile (\<lambda>d. \<not> is_query_delimiter d) (q @ ''key='' @ w @ rest) = p @ ''key='' @ w @ rest"
        "length p \<le> length q" "p \<noteq> []" "last p = last q"
      moreover from this have "q \<noteq> []" by auto
      ultimately show ?thesis using False by (intro disjI1 exI [of _ p]) simp
    qed (use False in simp)
  qed
qed

lemma redact_scan_hides_value:
  assumes v: "list_all (\<lambda>c. \<not> is_query_delimiter c) v" "list_all (\<lambda>c. \<not> is_query_delimiter c) w"
    and rest: "rest = [] \<or> is_query_delimiter (hd rest)"
  shows "(if pre = [] then b else \<not> is_param_name_char (last pre)) \<Longrightarrow>
     redact_scan b (pre @ ''key='' @ v @ rest) = redact_scan b (pre @ ''key='' @ w @ rest)"
proof (induction pre arbitrary: b rule: length_induct)
  case (1 pre)
  have dv: "dropWhile (\<lambda>d. \<not> is_query_delimiter d) (u @ rest) = rest"
    if "list_all (\<lambda>c. \<not> is_query_delimiter c) u" for u
    using that rest by (cases rest) (auto simp: dropWhile_append2 list_all_iff)
  show ?case
  proof (cases pre)
    case Nil
    with "1.prems" show ?thesis
      using redact_scan_key [of b "v @ rest"] redact_scan_key [of b "w @ rest"]
      by (simp add: dv [OF v(1)] dv [OF v(2)])
  next
    case (Cons c pre')
    show ?thesis
    proof (cases "b \<and> starts_with (pre @ ''key='' @ v @ rest) ''key=''")
      case True
      then obtain q where q: "pre = ''key='' @ q" using key_overlap [of pre "v @ rest"] Cons by auto
      have s: "redact_scan b (pre @ ''key='' @ u @ rest) = ''key='' @ REDACTED_QUERY_VALUE @
          redact_scan True (dropWhile (\<lambda>d. \<not> is_query_delimiter d) (q @ ''key='' @ u @ rest))" for u
        using True redact_scan_key [of True "q @ ''key='' @ u @ rest"] by (simp add: q)
      from dropWhile_value [OF v rest, of q] show ?thesis
      proof (elim disjE exE conjE)
        fix p
        assume d: "dropWhile (\<lambda>d. \<not> is_query_delimiter d) (q @ ''key='' @ v @ rest) = p @ ''key='' @ v @ rest"
          "dropWhile (\<lambda>d. \<not> is_query_delimiter d) (q @ ''key='' @ w @ rest) = p @ ''key='' @ w @ rest"
          and p: "length p \<le> length q" "p \<noteq> []" "last p = last q"
        then have "q \<noteq> []" by auto
        with "1.prems" p(3) q have "\<not> is_param_name_char (last p)" by simp
        with "1.IH" p(1,2) q have
          "redact_scan True (p @ ''key='' @ v @ rest) = redact_scan True (p @ ''key='' @ w @ rest)"
          by simp
        then show ?thesis unfolding s d by (rule arg_cong)
      next
        assume d: "dropWhile (\<lambda>d. \<not> is_query_delimiter d) (q @ ''key='' @ v @ rest) = rest"
          "dropWhile (\<lambda>d. \<not> is_query_delimiter d) (q @ ''key='' @ w @ rest) = rest"
        show ?thesis unfolding s d ..
      qed
    next
      case False
      then have nt: "\<not> (b \<and> starts_with (pre @ ''key='' @ w @ rest) ''key='')"
        using key_overlap [of pre "w @ rest"] Cons by auto
      have "redact_scan b (pre @ ''key='' @ u @ rest) =
          c # redact_scan (\<not> is_param_name_char c) (pre' @ ''key='' @ u @ rest)"
        if "\<not> (b \<and> starts_with (pre @ ''key='' @ u @ rest) ''key='')" for u
        using that unfolding Cons append_Cons redact_scan.simps(2) by (rule if_not_P)
      moreover have "redact_scan (\<not> is_param_name_char c) (pre' @ ''key='' @ v @ rest) =
          redact_scan (\<not> is_param_name_char c) (pre' @ ''key='' @ w @ rest)"
        using "1.IH" "1.prems" Cons by (auto split: if_splits)
      ultimately show ?thesis using False nt by simp
    qed
  qed
qed

text \<open>
  C29: redaction hides the capability: if a \<^verbatim>\<open>key=\<close> parameter stands anywhere in a log text (at the
  start, or after a byte that cannot be part of a parameter name) and its value extends to the next
  delimiter or to the end, the redacted text is the same whatever the value is.
\<close>

theorem redaction_hides_key_value:
  assumes "list_all (\<lambda>c. \<not> is_query_delimiter c) v" and "list_all (\<lambda>c. \<not> is_query_delimiter c) w"
    and "rest = [] \<or> is_query_delimiter (hd rest)"
    and "pre = [] \<or> \<not> is_param_name_char (last pre)"
  shows "redact_api_key_query_params (pre @ ''key='' @ v @ rest) =
         redact_api_key_query_params (pre @ ''key='' @ w @ rest)"
  unfolding redact_api_key_scan
  using assms by (intro redact_scan_hides_value) auto

theorem redaction_hides_key_value_witness:
  "redact_api_key_query_params ''GET /mcp?key=s3cret&x=1'' =
   redact_api_key_query_params ''GET /mcp?key=other&x=1''"
  using redaction_hides_key_value [of "''s3cret''" "''other''" "''&x=1''" "''GET /mcp?''"]
  by (simp add: is_query_delimiter_def is_param_name_char_def is_ascii_alphanumeric_def
      is_ascii_digit_def is_ascii_upper_def is_ascii_lower_def)

text \<open>
  text that contains no \<^verbatim>\<open>key=\<close> is left unchanged.
\<close>

theorem redaction_leaves_other_text:
  "\<not> str_contains s ''key='' \<Longrightarrow> redact_api_key_query_params s = s"
  by (simp add: redact_api_key_scan redact_scan_no_token str_contains_def)

theorem redaction_leaves_other_text_witness:
  "redact_api_key_query_params ''https://host/mcp?q=1'' = ''https://host/mcp?q=1''"
  by (rule redaction_leaves_other_text) (simp add: str_contains_def)

end
