(* ===== verification/Human_Units.thy ===== *)
theory Human_Units
  imports Zodex_Prelude
begin

text \<open>
  Human-readable durations and sizes of the Local configuration (\<^verbatim>\<open>src/local/parse.rs\<close>):
  \<^verbatim>\<open>HumanDuration\<close> and \<^verbatim>\<open>StorageSize\<close> with their parsers and printers.  Serialization prints and
  deserialization parses, so the round trip is what keeps a saved configuration readable.
\<close>

definition backquote :: "rstr \<Rightarrow> rstr" where
  "backquote s = ''`'' @ s @ ''`''"

fun duration_multiplier :: "rstr \<Rightarrow> rstr \<Rightarrow> nat res" where
  "duration_multiplier raw unit =
     (if unit \<in> set [''s'', ''sec'', ''secs'', ''second'', ''seconds''] then Inr 1
      else if unit \<in> set [''m'', ''min'', ''mins'', ''minute'', ''minutes''] then Inr 60
      else if unit \<in> set [''h'', ''hr'', ''hrs'', ''hour'', ''hours''] then Inr 3600
      else if unit \<in> set [''d'', ''day'', ''days''] then Inr 86400
      else if unit = [] then
        Inl (''duration '' @ backquote raw @ '' is missing a unit; use s, min, h, or d'')
      else Inl (''unsupported duration unit '' @ backquote unit @ ''; use s, min, h, or d''))"

fun size_multiplier :: "rstr \<Rightarrow> rstr \<Rightarrow> nat res" where
  "size_multiplier raw unit =
     (if unit \<in> set [''b'', ''bytes''] then Inr 1
      else if unit \<in> set [''kb'', ''kib''] then Inr 1024
      else if unit \<in> set [''mb'', ''mib''] then Inr (1024 * 1024)
      else if unit \<in> set [''gb'', ''gib''] then Inr (1024 * 1024 * 1024)
      else if unit = [] then
        Inl (''size '' @ backquote raw @ '' is missing a unit; use b, kb, mb, or gb'')
      else Inl (''unsupported size unit '' @ backquote unit @ ''; use b, kb, mb, or gb''))"

definition parse_human_duration :: "rstr \<Rightarrow> nat res" where
  "parse_human_duration raw =
     (let trimmed = trim raw in
      if trimmed = [] then Inl ''duration must not be empty''
      else
        let amount_raw = takeWhile is_ascii_digit trimmed;
            unit_raw = dropWhile is_ascii_digit trimmed
        in if amount_raw = [] then
             Inl (''duration '' @ backquote raw @ '' must start with a positive integer'')
           else (case parse_u64_digits amount_raw of
               None \<Rightarrow> Inl (''failed to parse duration '' @ backquote raw)
             | Some amount \<Rightarrow>
                 if amount = 0 then Inl ''duration must be greater than zero''
                 else (case duration_multiplier raw (to_ascii_lowercase unit_raw) of
                     Inl e \<Rightarrow> Inl e
                   | Inr multiplier \<Rightarrow>
                       (case checked_mul_u64 amount multiplier of
                          None \<Rightarrow> Inl (''duration '' @ backquote raw @ '' is too large'')
                        | Some n \<Rightarrow> Inr n))))"

definition parse_storage_size :: "rstr \<Rightarrow> nat res" where
  "parse_storage_size raw =
     (let trimmed = trim raw in
      if trimmed = [] then Inl ''size must not be empty''
      else
        let amount_raw = takeWhile is_ascii_digit trimmed;
            unit_raw = dropWhile is_ascii_digit trimmed
        in if amount_raw = [] then
             Inl (''size '' @ backquote raw @ '' must start with a positive integer'')
           else (case parse_u64_digits amount_raw of
               None \<Rightarrow> Inl (''failed to parse size '' @ backquote raw)
             | Some amount \<Rightarrow>
                 if amount = 0 then Inl ''size must be greater than zero''
                 else (case size_multiplier raw (to_ascii_lowercase unit_raw) of
                     Inl e \<Rightarrow> Inl e
                   | Inr multiplier \<Rightarrow>
                       (case checked_mul_u64 amount multiplier of
                          None \<Rightarrow> Inl (''size '' @ backquote raw @ '' is too large'')
                        | Some n \<Rightarrow> Inr n))))"

definition display_duration :: "nat \<Rightarrow> rstr" where
  "display_duration seconds =
     (if seconds mod 86400 = 0 then show_nat (seconds div 86400) @ ''d''
      else if seconds mod 3600 = 0 then show_nat (seconds div 3600) @ ''h''
      else if seconds mod 60 = 0 then show_nat (seconds div 60) @ ''min''
      else show_nat seconds @ ''s'')"

definition display_size :: "nat \<Rightarrow> rstr" where
  "display_size bytes =
     (let KIB = 1024; MIB = 1024 * KIB; GIB = 1024 * MIB in
      if bytes mod GIB = 0 then show_nat (bytes div GIB) @ ''gb''
      else if bytes mod MIB = 0 then show_nat (bytes div MIB) @ ''mb''
      else if bytes mod KIB = 0 then show_nat (bytes div KIB) @ ''kb''
      else show_nat bytes @ ''b'')"

section \<open>Trimming and splitting an amount with its unit\<close>

lemma amount_unit_split:
  assumes "u \<noteq> []" "\<not> is_ascii_digit (hd u)" "plain_byte (last u)"
  shows "trim (show_nat n @ u) = show_nat n @ u"
    and "takeWhile is_ascii_digit (show_nat n @ u) = show_nat n"
    and "dropWhile is_ascii_digit (show_nat n @ u) = u"
proof -
  have d: "\<And>c. c \<in> set (show_nat n) \<Longrightarrow> is_ascii_digit c" by (rule show_nat_digits)
  show "trim (show_nat n @ u) = show_nat n @ u"
    using assms d by (intro trim_plain) (auto intro: digit_plain)
  show "takeWhile is_ascii_digit (show_nat n @ u) = show_nat n"
    using assms(1,2) d by (cases u) (auto simp: takeWhile_append2)
  show "dropWhile is_ascii_digit (show_nat n @ u) = u"
    using assms(1,2) d by (cases u) (auto simp: dropWhile_append2)
qed

lemma parse_duration_amount:
  assumes "0 < n" "n * k \<le> u64_max" "0 < k"
    and u: "u \<noteq> []" "\<not> is_ascii_digit (hd u)" "plain_byte (last u)"
    and k: "\<And>raw. duration_multiplier raw (to_ascii_lowercase u) = Inr k"
  shows "parse_human_duration (show_nat n @ u) = Inr (n * k)"
proof -
  have "n \<le> n * k" using assms(3) by simp
  with assms(2) have "n \<le> u64_max" by linarith
  with assms show ?thesis
    by (simp add: parse_human_duration_def amount_unit_split [OF u] parse_u64_show_nat
        checked_mul_u64_def del: duration_multiplier.simps)
qed

lemma parse_size_amount:
  assumes "0 < n" "n * k \<le> u64_max" "0 < k"
    and u: "u \<noteq> []" "\<not> is_ascii_digit (hd u)" "plain_byte (last u)"
    and k: "\<And>raw. size_multiplier raw (to_ascii_lowercase u) = Inr k"
  shows "parse_storage_size (show_nat n @ u) = Inr (n * k)"
proof -
  have "n \<le> n * k" using assms(3) by simp
  with assms(2) have "n \<le> u64_max" by linarith
  with assms show ?thesis
    by (simp add: parse_storage_size_def amount_unit_split [OF u] parse_u64_show_nat
        checked_mul_u64_def del: size_multiplier.simps)
qed

lemmas unit_eval = to_ascii_lowercase_def to_lower_def is_ascii_upper_def is_ascii_digit_def
  plain_byte_def is_ascii_ws_def

lemma mult_of_mod0: "n mod k = 0 \<Longrightarrow> n div k * k = (n::nat)"
  by (simp add: mod_0_imp_dvd)

lemma div_pos_of_mod0: "0 < n \<Longrightarrow> n mod k = 0 \<Longrightarrow> 0 < n div (k::nat)"
  by (metis gr0I mult_is_0 mult_of_mod0)

section \<open>Properties\<close>

text \<open>
  every positive duration survives being printed and parsed again, whatever unit the printer
  chooses.
\<close>

theorem duration_round_trip:
  assumes "0 < n" and "n \<le> u64_max"
  shows "parse_human_duration (display_duration n) = Inr n"
proof -
  have p: "parse_human_duration (show_nat (n div k) @ u) = Inr n"
    if "n mod k = 0" "0 < k" "u \<noteq> []" "\<not> is_ascii_digit (hd u)" "plain_byte (last u)"
      "\<And>raw. duration_multiplier raw (to_ascii_lowercase u) = Inr k" for k u
    using parse_duration_amount [of "n div k" k u] that assms
    by (simp add: mult_of_mod0 div_pos_of_mod0 del: duration_multiplier.simps)
  have d: "n mod 86400 = 0 \<Longrightarrow> parse_human_duration (show_nat (n div 86400) @ ''d'') = Inr n"
    by (rule p) (simp_all add: unit_eval)
  have h: "n mod 3600 = 0 \<Longrightarrow> parse_human_duration (show_nat (n div 3600) @ ''h'') = Inr n"
    by (rule p) (simp_all add: unit_eval)
  have m: "n mod 60 = 0 \<Longrightarrow> parse_human_duration (show_nat (n div 60) @ ''min'') = Inr n"
    by (rule p) (simp_all add: unit_eval)
  have s: "parse_human_duration (show_nat n @ ''s'') = Inr n"
    using p [of 1 "''s''"] by (simp add: unit_eval)
  show ?thesis using d h m s by (simp add: display_duration_def)
qed

theorem duration_round_trip_witness:
  "parse_human_duration (display_duration 5400) = Inr 5400"
  by (rule duration_round_trip) (simp_all add: u64_max_def)

text \<open>
  every positive storage size survives being printed and parsed again.
\<close>

theorem storage_size_round_trip:
  assumes "0 < n" and "n \<le> u64_max"
  shows "parse_storage_size (display_size n) = Inr n"
proof -
  have p: "parse_storage_size (show_nat (n div k) @ u) = Inr n"
    if "n mod k = 0" "0 < k" "u \<noteq> []" "\<not> is_ascii_digit (hd u)" "plain_byte (last u)"
      "\<And>raw. size_multiplier raw (to_ascii_lowercase u) = Inr k" for k u
    using parse_size_amount [of "n div k" k u] that assms
    by (simp add: mult_of_mod0 div_pos_of_mod0 del: size_multiplier.simps)
  have g: "n mod 1073741824 = 0 \<Longrightarrow> parse_storage_size (show_nat (n div 1073741824) @ ''gb'') = Inr n"
    by (rule p) (simp_all add: unit_eval)
  have m: "n mod 1048576 = 0 \<Longrightarrow> parse_storage_size (show_nat (n div 1048576) @ ''mb'') = Inr n"
    by (rule p) (simp_all add: unit_eval)
  have k: "n mod 1024 = 0 \<Longrightarrow> parse_storage_size (show_nat (n div 1024) @ ''kb'') = Inr n"
    by (rule p) (simp_all add: unit_eval)
  have s: "parse_storage_size (show_nat n @ ''b'') = Inr n"
    using p [of 1 "''b''"] by (simp add: unit_eval)
  show ?thesis using g m k s by (simp add: display_size_def Let_def)
qed

theorem storage_size_round_trip_witness:
  "parse_storage_size (display_size 524288000) = Inr 524288000"
  by (rule storage_size_round_trip) (simp_all add: u64_max_def)

text \<open>
  an accepted duration is positive, fits in 64 bits, and is the decimal amount times the
  length of one of the four units; so a zero, an overflow and a missing or unknown unit are always
  rejected.
\<close>

theorem accepted_duration_is_sound:
  assumes "parse_human_duration raw = Inr n"
  shows "0 < n \<and> n \<le> u64_max \<and>
    (\<exists>k \<in> {1, 60, 3600, 86400}. n = digits_val 0 (takeWhile is_ascii_digit (trim raw)) * k) \<and>
    dropWhile is_ascii_digit (trim raw) \<noteq> []"
proof -
  define amount_raw where "amount_raw = takeWhile is_ascii_digit (trim raw)"
  define unit where "unit = to_ascii_lowercase (dropWhile is_ascii_digit (trim raw))"
  obtain amount k where *: "parse_u64_digits amount_raw = Some amount" "0 < amount"
    "duration_multiplier raw unit = Inr k" "checked_mul_u64 amount k = Some n"
    using assms
    by (auto simp: parse_human_duration_def Let_def amount_raw_def unit_def
        simp del: duration_multiplier.simps split: if_splits option.splits sum.splits)
  from *(3) have k: "k \<in> {1, 60, 3600, 86400}" "unit \<noteq> []" by (auto split: if_splits)
  from *(1) have "amount = digits_val 0 amount_raw" by (auto simp: parse_u64_digits_def split: if_splits)
  moreover from *(4) have "n = amount * k" "n \<le> u64_max"
    by (auto simp: checked_mul_u64_def split: if_splits)
  moreover from k(2) have "dropWhile is_ascii_digit (trim raw) \<noteq> []"
    by (auto simp: unit_def to_ascii_lowercase_def)
  ultimately show ?thesis using *(2) k(1) by (auto simp: amount_raw_def)
qed

theorem accepted_duration_is_sound_witness:
  "0 < (7200::nat) \<and> dropWhile is_ascii_digit (trim (display_duration 7200)) \<noteq> []"
  using accepted_duration_is_sound [OF duration_round_trip, of 7200] by (simp add: u64_max_def)

end
