(* ===== verification/Config.thy ===== *)
theory Config
  imports Zodex_Prelude
begin

text \<open>
  The service configuration (\<^verbatim>\<open>src/config.rs\<close>): its fields, its defaults and the clamping of
  requested yield times and timeouts.  \<^verbatim>\<open>Ord::clamp\<close> panics when its bounds are reversed, so
  \<open>rust_clamp\<close> is partial; loading and saving the file is I/O and not modelled.
\<close>

record publisher_installation =
  pi_account :: rstr
  pi_installation_id :: nat
  pi_default_base :: rstr

record publish_target =
  pt_id :: rstr
  pt_repo :: rstr
  pt_default_base :: rstr
  pt_installation_id :: nat

record config =
  bind_host :: rstr
  service_port :: nat
  api_key :: rstr
  cfg_max_sessions :: nat
  default_exec_timeout_ms :: nat
  max_exec_timeout_ms :: nat
  default_exec_yield_time_ms :: nat
  default_write_yield_time_ms :: nat
  cfg_max_output_chars :: nat
  reader_app_id :: "nat option"
  reader_installation_id :: "nat option"
  reader_private_key_path :: rstr
  publisher_socket_path :: rstr
  publisher_private_key_path :: rstr
  publisher_app_id :: "nat option"
  publisher_client_id :: "rstr option"
  agent_user :: rstr
  agent_home :: rstr
  default_workdir :: rstr
  publisher_user :: rstr
  service_group :: rstr
  publisher_branch_prefix :: rstr
  publisher_max_bundle_bytes :: nat
  publisher_max_title_chars :: nat
  publisher_max_body_chars :: nat
  publisher_installations :: "publisher_installation list"
  publisher_targets :: "publish_target list"

definition default_installation :: publisher_installation where
  "default_installation = \<lparr>pi_account = [], pi_installation_id = 0, pi_default_base = ''main''\<rparr>"

definition default_target :: publish_target where
  "default_target = \<lparr>pt_id = [], pt_repo = [], pt_default_base = ''main'', pt_installation_id = 0\<rparr>"

definition default_config :: config where
  "default_config = \<lparr>
     bind_host = ''0.0.0.0'',
     service_port = 8080,
     api_key = ''change-me'',
     cfg_max_sessions = 64,
     default_exec_timeout_ms = 7200000,
     max_exec_timeout_ms = 7200000,
     default_exec_yield_time_ms = 10000,
     default_write_yield_time_ms = 10000,
     cfg_max_output_chars = 200000,
     reader_app_id = None,
     reader_installation_id = None,
     reader_private_key_path = ''/etc/zodex/reader/private-key.pem'',
     publisher_socket_path = ''/var/lib/zodex/publisher/run/zodex-prd.sock'',
     publisher_private_key_path = ''/etc/zodex/publisher/private-key.pem'',
     publisher_app_id = None,
     publisher_client_id = None,
     agent_user = ''zodex-agent'',
     agent_home = ''/home/zodex-agent'',
     default_workdir = ''/workspace'',
     publisher_user = ''zodex-publisher'',
     service_group = ''zodex'',
     publisher_branch_prefix = ''agent'',
     publisher_max_bundle_bytes = 128 * 1024 * 1024,
     publisher_max_title_chars = 240,
     publisher_max_body_chars = 16000,
     publisher_installations = [],
     publisher_targets = []\<rparr>"

definition MIN_YIELD_MS :: nat where "MIN_YIELD_MS = 50"

definition MAX_YIELD_MS :: nat where "MAX_YIELD_MS = 60000"

definition MIN_EXEC_TIMEOUT_MS :: nat where "MIN_EXEC_TIMEOUT_MS = 1000"

text \<open>\<^verbatim>\<open>Ord::clamp(min, max)\<close>: \<open>None\<close> is the panic for \<^verbatim>\<open>min > max\<close>.\<close>

definition rust_clamp :: "nat \<Rightarrow> nat \<Rightarrow> nat \<Rightarrow> nat option" where
  "rust_clamp lo hi x = (if lo \<le> hi then Some (if x < lo then lo else if x > hi then hi else x) else None)"

definition unwrap_or :: "'a option \<Rightarrow> 'a \<Rightarrow> 'a" where
  "unwrap_or x d = (case x of None \<Rightarrow> d | Some v \<Rightarrow> v)"

definition clamp_exec_yield_ms :: "config \<Rightarrow> nat option \<Rightarrow> nat option" where
  "clamp_exec_yield_ms cfg requested =
     rust_clamp MIN_YIELD_MS MAX_YIELD_MS (unwrap_or requested (default_exec_yield_time_ms cfg))"

definition clamp_write_yield_ms :: "config \<Rightarrow> nat option \<Rightarrow> nat option" where
  "clamp_write_yield_ms cfg requested =
     rust_clamp MIN_YIELD_MS MAX_YIELD_MS (unwrap_or requested (default_write_yield_time_ms cfg))"

definition clamp_exec_timeout_ms :: "config \<Rightarrow> nat option \<Rightarrow> nat option" where
  "clamp_exec_timeout_ms cfg requested =
     rust_clamp MIN_EXEC_TIMEOUT_MS (max_exec_timeout_ms cfg)
       (unwrap_or requested (default_exec_timeout_ms cfg))"

lemma rust_clamp_Some: "rust_clamp lo hi x = Some y \<Longrightarrow> lo \<le> y \<and> y \<le> hi"
  by (auto simp: rust_clamp_def split: if_splits)

lemma rust_clamp_None: "rust_clamp lo hi x = None \<longleftrightarrow> hi < lo"
  by (auto simp: rust_clamp_def)

lemma clamp_yield_total:
  "\<exists>y. clamp_exec_yield_ms cfg r = Some y \<and> 50 \<le> y \<and> y \<le> 60000"
  "\<exists>y. clamp_write_yield_ms cfg r = Some y \<and> 50 \<le> y \<and> y \<le> 60000"
  by (simp_all add: clamp_exec_yield_ms_def clamp_write_yield_ms_def rust_clamp_def
      MIN_YIELD_MS_def MAX_YIELD_MS_def)

text \<open>
  the yield times handed to the session layer always lie between 50 ms and 60 s; a timeout lies
  between one second and the configured maximum, and computing it panics exactly when the
  configured maximum is below one second.
\<close>

theorem clamped_times_are_bounded:
  "(\<exists>y. clamp_exec_yield_ms cfg r = Some y \<and> 50 \<le> y \<and> y \<le> 60000) \<and>
   (\<exists>y. clamp_write_yield_ms cfg r = Some y \<and> 50 \<le> y \<and> y \<le> 60000) \<and>
   (case clamp_exec_timeout_ms cfg r of
      None \<Rightarrow> max_exec_timeout_ms cfg < 1000
    | Some t \<Rightarrow> 1000 \<le> t \<and> t \<le> max_exec_timeout_ms cfg)"
  using clamp_yield_total [of cfg r]
  by (auto simp: clamp_exec_timeout_ms_def rust_clamp_None MIN_EXEC_TIMEOUT_MS_def
      dest: rust_clamp_Some split: option.splits)

end
