(* ===== verification/Publisher_Validation.thy ===== *)
theory Publisher_Validation
  imports Config
begin

text \<open>
  The request types of the publisher daemon (\<^verbatim>\<open>src/publisher/api.rs\<close>), the checks it makes before
  it mints a GitHub token (\<^verbatim>\<open>src/publisher/validation.rs\<close>) and the recognition of GitHub remotes
  (\<^verbatim>\<open>src/publisher/git.rs\<close>).  Reading the mode file, decoding its JSON, the clock and the random
  branch suffix are parameters.
\<close>

section \<open>Data\<close>

record publish_pr_request =
  pr_repo_id :: rstr
  pr_base :: "rstr option"
  pr_title :: rstr
  pr_body :: rstr
  pr_draft :: bool

record direct_push_request =
  dp_repo :: rstr
  dp_src :: rstr
  dp_dst :: rstr
  dp_force :: bool
  dp_src_oid :: "rstr option"
  dp_src_object_type :: "rstr option"

record direct_push_response =
  dpr_repo :: rstr
  dpr_dst :: rstr

record publish_pr_response =
  prr_pr_url :: rstr
  prr_branch :: rstr
  prr_pull_number :: nat

datatype publisher_request = PublishPr publish_pr_request | DirectPush direct_push_request

datatype publisher_response =
  PublishPrResp publish_pr_response | DirectPushResp direct_push_response

record github_yolo_repo_grant =
  grant_repo :: rstr
  grant_expires_at :: "nat option"

record github_mode_record =
  gm_mode :: rstr
  gm_all_installed :: bool
  gm_repos :: "rstr list"
  gm_repo_grants :: "github_yolo_repo_grant list"
  gm_expires_at :: "nat option"

section \<open>Repository names and remotes\<close>

definition normalize_github_repo :: "rstr \<Rightarrow> rstr option" where
  "normalize_github_repo path =
     (let trimmed = trim_matches (CHR ''/'') path;
          trimmed = unwrap_or (strip_suffix ''.git'' trimmed) trimmed
      in case split_on (CHR ''/'') trimmed of
           [owner, repo] \<Rightarrow> if owner = [] \<or> repo = [] then None else Some (owner @ ''/'' @ repo)
         | _ \<Rightarrow> None)"

text \<open>\<^verbatim>\<open>git.rs\<close> has its own copy of the function.\<close>

definition normalize_github_repo_path :: "rstr \<Rightarrow> rstr option" where
  "normalize_github_repo_path path =
     (let trimmed = trim_matches (CHR ''/'') path;
          trimmed = unwrap_or (strip_suffix ''.git'' trimmed) trimmed
      in case split_on (CHR ''/'') trimmed of
           [owner, repo] \<Rightarrow> if owner = [] \<or> repo = [] then None else Some (owner @ ''/'' @ repo)
         | _ \<Rightarrow> None)"

definition github_remote_host_is_supported :: "rstr \<Rightarrow> bool" where
  "github_remote_host_is_supported host =
     (let normalized = to_ascii_lowercase (trim_end_matches (CHR ''.'') host)
      in normalized = ''github.com'' \<or> normalized = ''www.github.com'')"

definition github_remote_authority_is_supported :: "rstr \<Rightarrow> bool" where
  "github_remote_authority_is_supported authority =
     github_remote_host_is_supported
       (hd (split_on (CHR '':'') (unwrap_or (map_option snd (rsplit_once (CHR ''@'') authority)) authority)))"

definition parse_github_remote_repo :: "rstr \<Rightarrow> rstr option" where
  "parse_github_remote_repo remote_url =
     (let trimmed = trim remote_url;
          by_authority = (\<lambda>rest.
            case split_once ''/'' rest of
              None \<Rightarrow> None
            | Some (authority, path) \<Rightarrow>
                if \<not> github_remote_authority_is_supported authority then None
                else normalize_github_repo_path path)
      in if trimmed = [] then None
         else case split_once ''://'' trimmed of
           Some (_, rest) \<Rightarrow> by_authority rest
         | None \<Rightarrow>
             (case split_once '':'' trimmed of
                Some (authority, path) \<Rightarrow>
                  if str_contains authority ''@'' then
                    (if \<not> github_remote_host_is_supported
                            (unwrap_or (map_option snd (rsplit_once (CHR ''@'') authority)) authority)
                     then None else normalize_github_repo_path path)
                  else by_authority trimmed
              | None \<Rightarrow> by_authority trimmed))"

section \<open>GitHub mode\<close>

definition not_expired :: "nat option \<Rightarrow> nat \<Rightarrow> bool" where
  "not_expired expires now = (case expires of Some e \<Rightarrow> \<not> e \<le> now | None \<Rightarrow> True)"

definition github_yolo_all_installed_active :: "github_mode_record \<Rightarrow> nat \<Rightarrow> bool" where
  "github_yolo_all_installed_active record now =
     (if \<not> gm_all_installed record then False else not_expired (gm_expires_at record) now)"

definition github_yolo_repo_grant_active :: "github_yolo_repo_grant \<Rightarrow> nat \<Rightarrow> bool" where
  "github_yolo_repo_grant_active grant now = not_expired (grant_expires_at grant) now"

definition github_yolo_active_legacy_repos :: "github_mode_record \<Rightarrow> nat \<Rightarrow> bool" where
  "github_yolo_active_legacy_repos record now \<longleftrightarrow>
     gm_repo_grants record = [] \<and> \<not> gm_all_installed record \<and>
     not_expired (gm_expires_at record) now \<and> gm_repos record \<noteq> []"

definition github_mode_expired :: "github_mode_record \<Rightarrow> nat \<Rightarrow> bool" where
  "github_mode_expired record now \<longleftrightarrow>
     \<not> github_yolo_all_installed_active record now \<and>
     \<not> list_ex (\<lambda>grant. github_yolo_repo_grant_active grant now) (gm_repo_grants record) \<and>
     \<not> github_yolo_active_legacy_repos record now"

text \<open>\<open>clock = None\<close> is a system clock before the Unix epoch.\<close>

definition current_epoch_seconds :: "nat option \<Rightarrow> nat res" where
  "current_epoch_seconds clock = ok_or clock ''system clock is before the Unix epoch''"

definition github_mode_allows_repo :: "nat option \<Rightarrow> github_mode_record \<Rightarrow> rstr \<Rightarrow> bool" where
  "github_mode_allows_repo clock record repo =
     (case current_epoch_seconds clock of
        Inl _ \<Rightarrow> False
      | Inr now \<Rightarrow>
          github_yolo_all_installed_active record now
          \<or> list_ex (\<lambda>grant. grant_repo grant = repo \<and> github_yolo_repo_grant_active grant now)
              (gm_repo_grants record)
          \<or> github_yolo_active_legacy_repos record now
              \<and> list_ex (\<lambda>allowed. allowed = repo) (gm_repos record))"

definition load_active_github_yolo_mode ::
  "rstr res \<Rightarrow> (rstr \<Rightarrow> github_mode_record res) \<Rightarrow> nat option \<Rightarrow> github_mode_record res" where
  "load_active_github_yolo_mode mode_file from_json clock =
     and_then (with_ctx ''failed to read GitHub mode state at /var/lib/zodex/mode/state.json'' mode_file)
       (\<lambda>raw. and_then (with_ctx ''failed to parse GitHub mode state'' (from_json raw))
       (\<lambda>record.
          if gm_mode record \<noteq> ''yolo'' then Inl ''GitHub YOLO mode is not active''
          else and_then (current_epoch_seconds clock)
            (\<lambda>now. if github_mode_expired record now then Inl ''GitHub YOLO mode has expired''
                   else Inr record)))"

section \<open>Requests\<close>

definition resolve_publisher_target :: "config \<Rightarrow> rstr \<Rightarrow> publish_target option" where
  "resolve_publisher_target cfg repo =
     (case find (\<lambda>target. pt_repo target = repo \<and> pt_installation_id target \<noteq> 0) (publisher_targets cfg) of
        Some target \<Rightarrow> Some target
      | None \<Rightarrow>
          (case split_once ''/'' repo of
             None \<Rightarrow> None
           | Some (account, _) \<Rightarrow>
               (case find (\<lambda>i. pi_account i = account \<and> pi_installation_id i \<noteq> 0)
                      (publisher_installations cfg) of
                  None \<Rightarrow> None
                | Some i \<Rightarrow> Some \<lparr>pt_id = repo, pt_repo = repo, pt_default_base = pi_default_base i,
                                  pt_installation_id = pi_installation_id i\<rparr>)))"

definition validate_publish_request :: "config \<Rightarrow> publish_pr_request \<Rightarrow> publish_target res" where
  "validate_publish_request cfg request =
     and_then (ok_or (resolve_publisher_target cfg (pr_repo_id request))
        (''repo is not covered by publisher installation config: '' @ pr_repo_id request))
     (\<lambda>target.
        if trim (pt_repo target) = [] then
          Inl (''publisher target '' @ pt_id target @ '' has an empty repo value'')
        else if trim (pt_default_base target) = [] then
          Inl (''publisher target '' @ pt_id target @ '' has an empty default base'')
        else if pt_installation_id target = 0 then
          Inl (''publisher target '' @ pt_id target @ '' is missing installation_id'')
        else if trim (pr_title request) = [] then Inl ''PR title cannot be empty''
        else if publisher_max_title_chars cfg < chars_count (pr_title request) then
          Inl (''PR title exceeds limit ('' @ show_nat (chars_count (pr_title request)) @ '' > ''
               @ show_nat (publisher_max_title_chars cfg) @ '')'')
        else if publisher_max_body_chars cfg < chars_count (pr_body request) then
          Inl (''PR body exceeds limit ('' @ show_nat (chars_count (pr_body request)) @ '' > ''
               @ show_nat (publisher_max_body_chars cfg) @ '')'')
        else if (case pr_base request of Some base \<Rightarrow> trim base = [] | None \<Rightarrow> False) then
          Inl ''base branch cannot be empty when provided''
        else Inr target)"

definition sanitize_branch_prefix :: "rstr \<Rightarrow> rstr" where
  "sanitize_branch_prefix prefix =
     (let cleaned = filter (\<lambda>ch. is_ascii_alphanumeric ch \<or> ch \<in> {CHR ''-'', CHR ''_'', CHR ''/''}) prefix;
          cleaned = trim_matches (CHR ''/'') cleaned
      in if cleaned = [] then ''agent'' else cleaned)"

text \<open>\<open>now\<close> is the clock in seconds, \<open>sample\<close> the eight characters drawn from \<^verbatim>\<open>Alphanumeric\<close>.\<close>

definition build_publish_branch_name :: "nat \<Rightarrow> rstr \<Rightarrow> rstr \<Rightarrow> rstr" where
  "build_publish_branch_name now sample prefix =
     sanitize_branch_prefix prefix @ ''/'' @ show_nat now @ ''-'' @ to_ascii_lowercase sample"

fun first_error :: "('a \<Rightarrow> rstr option) \<Rightarrow> 'a list \<Rightarrow> rstr option" where
  "first_error f [] = None"
| "first_error f (x # xs) = (case f x of Some e \<Rightarrow> Some e | None \<Rightarrow> first_error f xs)"

definition validate_publisher_config :: "(rstr \<Rightarrow> bool) \<Rightarrow> config \<Rightarrow> unit res" where
  "validate_publisher_config path_exists cfg =
     and_then (ok_or (publisher_app_id cfg)
       ''publisher_app_id must be configured before starting the publisher daemon'')
     (\<lambda>app_id.
        if app_id = 0 then Inl ''publisher_app_id must be non-zero''
        else if trim (publisher_private_key_path cfg) = [] then
          Inl ''publisher_private_key_path must be configured''
        else if \<not> path_exists (publisher_private_key_path cfg) then
          Inl (''publisher private key file not found: '' @ publisher_private_key_path cfg)
        else if publisher_targets cfg = [] \<and> publisher_installations cfg = [] then
          Inl ''publisher_targets or publisher_installations must contain at least one allowed repo scope''
        else case first_error (\<lambda>target.
            if trim (pt_id target) = [] \<or> trim (pt_repo target) = [] then
              Some ''publisher target entries require both id and repo''
            else if pt_installation_id target = 0 then
              Some (''publisher target '' @ pt_id target @ '' must define installation_id'')
            else None) (publisher_targets cfg) of
          Some e \<Rightarrow> Inl e
        | None \<Rightarrow> (case first_error (\<lambda>i.
            if trim (pi_account i) = [] then Some ''publisher installation entries require account''
            else if pi_installation_id i = 0 then
              Some (''publisher installation '' @ pi_account i @ '' must define installation_id'')
            else None) (publisher_installations cfg) of
          Some e \<Rightarrow> Inl e
        | None \<Rightarrow> Inr ()))"

definition validate_git_object_id :: "rstr \<Rightarrow> unit res" where
  "validate_git_object_id raw =
     (if \<not> (length raw = 40 \<or> length raw = 64) \<or> \<not> list_all is_ascii_hexdigit raw
      then Inl ''direct push source object id is invalid'' else Inr ())"

definition validate_direct_push_request ::
  "rstr res \<Rightarrow> (rstr \<Rightarrow> github_mode_record res) \<Rightarrow> nat option \<Rightarrow> nat option
    \<Rightarrow> config \<Rightarrow> direct_push_request \<Rightarrow> publish_target res" where
  "validate_direct_push_request mode_file from_json clock1 clock2 cfg request =
     and_then (ok_or (normalize_github_repo (dp_repo request)) ''repo must be in owner/repo form'')
     (\<lambda>repo.
        if repo \<noteq> dp_repo request then Inl ''direct push repo must be normalized as owner/repo''
        else if trim (dp_dst request) = [] \<or> \<not> starts_with (dp_dst request) ''refs/'' then
          Inl ''direct push destination must be a full refs/ name''
        else if str_contains (dp_dst request) ''..'' \<or> str_contains (dp_dst request) [CHR 92]
                \<or> ends_with (dp_dst request) ''/'' then
          Inl ''direct push destination ref is invalid''
        else if dp_src request \<noteq> [] \<and>
                (str_contains (dp_src request) ''..'' \<or> str_contains (dp_src request) [CHR 92]
                 \<or> ends_with (dp_src request) ''/'') then
          Inl ''direct push source ref is invalid''
        else and_then (case dp_src_oid request of
              Some src_oid \<Rightarrow> validate_git_object_id src_oid | None \<Rightarrow> Inr ())
          (\<lambda>_. and_then (load_active_github_yolo_mode mode_file from_json clock1)
            (\<lambda>mode.
               if \<not> github_mode_allows_repo clock2 mode repo then
                 Inl (''YOLO mode is not active for repo '' @ repo)
               else ok_or (resolve_publisher_target cfg repo)
                 (''repo '' @ repo @ '' is not covered by publisher installation config''))))"

section \<open>Lemmas\<close>

definition plain_segment :: "rstr \<Rightarrow> bool" where
  "plain_segment w \<longleftrightarrow> w \<noteq> [] \<and> CHR ''/'' \<notin> set w"

lemma normalize_github_repo_path_eq: "normalize_github_repo_path = normalize_github_repo"
  by (rule ext) (simp add: normalize_github_repo_path_def normalize_github_repo_def)

lemma normalize_github_repo_sound:
  assumes "normalize_github_repo p = Some r"
  obtains owner name where "r = owner @ ''/'' @ name" "plain_segment owner" "plain_segment name"
    "\<exists>t. t = r \<and> (trim_matches (CHR ''/'') p = t @ ''.git'' \<or> trim_matches (CHR ''/'') p = t)"
proof -
  define t where "t = trim_matches (CHR ''/'') p"
  define u where "u = unwrap_or (strip_suffix ''.git'' t) t"
  from assms obtain owner name where ws: "split_on (CHR ''/'') u = [owner, name]"
    and ne: "owner \<noteq> []" "name \<noteq> []" and r: "r = owner @ ''/'' @ name"
    by (auto simp: normalize_github_repo_def t_def u_def Let_def split: list.splits if_splits)
  have "u = r" using join_split_on [of "CHR ''/''" u] ws r by simp
  moreover have "t = u @ ''.git'' \<or> t = u"
    unfolding u_def by (cases "strip_suffix ''.git'' t") (auto simp: strip_suffix_Some unwrap_or_def)
  moreover have "CHR ''/'' \<notin> set owner" "CHR ''/'' \<notin> set name"
    using split_on_no_delim [of _ "CHR ''/''" u] ws by auto
  ultimately show ?thesis using that r ne unfolding t_def plain_segment_def by blast
qed

lemma normalize_github_repo_canonical:
  assumes "plain_segment owner" "plain_segment name" "\<not> ends_with (owner @ ''/'' @ name) ''.git''"
  shows "normalize_github_repo (owner @ ''/'' @ name) = Some (owner @ ''/'' @ name)"
    and "normalize_github_repo (owner @ ''/'' @ name @ ''.git'') = Some (owner @ ''/'' @ name)"
proof -
  let ?r = "owner @ ''/'' @ name"
  have hl: "hd ?r \<noteq> CHR ''/''" "last ?r \<noteq> CHR ''/''"
    using assms(1,2) by (auto simp: plain_segment_def dest: last_in_set hd_in_set)
  have split: "split_on (CHR ''/'') ?r = [owner, name]"
    using assms(1,2) by (simp add: plain_segment_def split_on_append split_on_free)
  have "trim_matches (CHR ''/'') ?r = ?r" using hl by (intro trim_matches_id) auto
  moreover have "strip_suffix ''.git'' ?r = None" using assms(3) by (simp add: strip_suffix_def)
  ultimately show "normalize_github_repo ?r = Some ?r"
    using split assms(1,2) by (simp add: normalize_github_repo_def plain_segment_def unwrap_or_def)
  have "trim_matches (CHR ''/'') (?r @ ''.git'') = ?r @ ''.git''"
    using hl assms(1) by (intro trim_matches_id) (auto simp: plain_segment_def)
  moreover have "strip_suffix ''.git'' (?r @ ''.git'') = Some ?r" by (simp add: strip_suffix_Some)
  ultimately have "normalize_github_repo (?r @ ''.git'') = Some ?r"
    using split assms(1,2) by (simp add: normalize_github_repo_def plain_segment_def unwrap_or_def)
  then show "normalize_github_repo (owner @ ''/'' @ name @ ''.git'') = Some ?r" by simp
qed

lemma github_mode_allows_repo_Some:
  "github_mode_allows_repo (Some now) record repo \<longleftrightarrow>
     gm_all_installed record \<and> not_expired (gm_expires_at record) now \<or>
     (\<exists>grant \<in> set (gm_repo_grants record). grant_repo grant = repo \<and> not_expired (grant_expires_at grant) now) \<or>
     gm_repo_grants record = [] \<and> \<not> gm_all_installed record \<and> repo \<in> set (gm_repos record)
       \<and> not_expired (gm_expires_at record) now"
  by (auto simp: github_mode_allows_repo_def current_epoch_seconds_def ok_or_def list_ex_iff
      github_yolo_all_installed_active_def github_yolo_repo_grant_active_def
      github_yolo_active_legacy_repos_def)

lemma resolve_publisher_target_sound:
  assumes "resolve_publisher_target cfg repo = Some t"
  shows "pt_repo t = repo" "pt_installation_id t \<noteq> 0"
    "t \<in> set (publisher_targets cfg) \<or>
     (\<exists>i \<in> set (publisher_installations cfg). \<exists>rest. repo = pi_account i @ ''/'' @ rest \<and>
        pi_installation_id i = pt_installation_id t \<and> pi_default_base i = pt_default_base t)"
  using assms
  by (auto simp: resolve_publisher_target_def find_Some_iff nth_mem
      split: option.splits dest!: split_once_Some) (metis nth_mem)+

lemma load_active_github_yolo_mode_Inr:
  assumes "load_active_github_yolo_mode f j c = Inr record"
  shows "gm_mode record = ''yolo'' \<and> (\<exists>raw now. f = Inr raw \<and> j raw = Inr record \<and> c = Some now
           \<and> \<not> github_mode_expired record now)"
  using assms
  by (auto simp: load_active_github_yolo_mode_def and_then_Inr current_epoch_seconds_def split: if_splits)

section \<open>Properties\<close>

text \<open>
  the two checks the daemon makes on the GitHub mode agree: a mode record is refused as
  expired exactly when at that instant it would allow no repository at all.
\<close>

theorem mode_expired_iff_nothing_allowed:
  "github_mode_expired record now \<longleftrightarrow> (\<forall>repo. \<not> github_mode_allows_repo (Some now) record repo)"
proof
  assume *: "\<forall>repo. \<not> github_mode_allows_repo (Some now) record repo"
  have "\<not> not_expired (gm_expires_at record) now \<or> gm_repo_grants record \<noteq> [] \<or> gm_repos record = []"
    if "\<not> gm_all_installed record"
    using * [rule_format, of "hd (gm_repos record)"] that
    by (cases "gm_repos record") (auto simp: github_mode_allows_repo_Some)
  with * show "github_mode_expired record now"
    by (auto simp: github_mode_expired_def github_mode_allows_repo_Some list_ex_iff
        github_yolo_all_installed_active_def github_yolo_repo_grant_active_def
        github_yolo_active_legacy_repos_def)
qed (auto simp: github_mode_expired_def github_mode_allows_repo_Some list_ex_iff
       github_yolo_all_installed_active_def github_yolo_repo_grant_active_def
       github_yolo_active_legacy_repos_def)

text \<open>
  C4: a direct push that passes validation names a canonical \<^verbatim>\<open>owner/name\<close> repository and a full
  destination ref without \<^verbatim>\<open>..\<close>, its object id is 40 or 64 hexadecimal digits, the mode file says
  \<^verbatim>\<open>yolo\<close> and grants this very repository at the moment of the second clock reading (all
  installed repositories, a repository grant or a legacy list entry, none of them expired), and
  the target it will be pushed to is that repository under a configured installation.
\<close>

theorem accepted_direct_push_is_authorised:
  assumes "validate_direct_push_request mode_file from_json clock1 clock2 cfg request = Inr target"
  shows "(\<exists>owner name. dp_repo request = owner @ ''/'' @ name \<and> plain_segment owner \<and> plain_segment name) \<and>
    starts_with (dp_dst request) ''refs/'' \<and> \<not> str_contains (dp_dst request) ''..'' \<and>
    (\<forall>oid. dp_src_oid request = Some oid \<longrightarrow>
       (length oid = 40 \<or> length oid = 64) \<and> list_all is_ascii_hexdigit oid) \<and>
    (\<exists>raw mode now. mode_file = Inr raw \<and> from_json raw = Inr mode \<and> gm_mode mode = ''yolo'' \<and>
       clock2 = Some now \<and>
       (gm_all_installed mode \<and> not_expired (gm_expires_at mode) now \<or>
        (\<exists>grant \<in> set (gm_repo_grants mode).
           grant_repo grant = dp_repo request \<and> not_expired (grant_expires_at grant) now) \<or>
        gm_repo_grants mode = [] \<and> \<not> gm_all_installed mode \<and> dp_repo request \<in> set (gm_repos mode)
          \<and> not_expired (gm_expires_at mode) now)) \<and>
    pt_repo target = dp_repo request \<and> pt_installation_id target \<noteq> 0 \<and>
    (target \<in> set (publisher_targets cfg) \<or>
     (\<exists>i \<in> set (publisher_installations cfg). \<exists>rest. dp_repo request = pi_account i @ ''/'' @ rest \<and>
        pi_installation_id i = pt_installation_id target \<and> pi_default_base i = pt_default_base target))"
proof -
  from assms have n: "normalize_github_repo (dp_repo request) = Some (dp_repo request)"
    and d: "starts_with (dp_dst request) ''refs/''" "\<not> str_contains (dp_dst request) ''..''"
    and oid: "(case dp_src_oid request of Some o' \<Rightarrow> validate_git_object_id o' | None \<Rightarrow> Inr ()) = Inr ()"
    and rest: "\<exists>mode. load_active_github_yolo_mode mode_file from_json clock1 = Inr mode \<and>
        github_mode_allows_repo clock2 mode (dp_repo request) \<and>
        resolve_publisher_target cfg (dp_repo request) = Some target"
    by (simp_all add: validate_direct_push_request_def and_then_Inr split: if_splits)
  then obtain mode where load: "load_active_github_yolo_mode mode_file from_json clock1 = Inr mode"
    and allow: "github_mode_allows_repo clock2 mode (dp_repo request)"
    and res: "resolve_publisher_target cfg (dp_repo request) = Some target" by blast
  from allow obtain now where c2: "clock2 = Some now"
    by (cases clock2) (auto simp: github_mode_allows_repo_def current_epoch_seconds_def ok_or_def)
  have "\<forall>oid. dp_src_oid request = Some oid \<longrightarrow>
      (length oid = 40 \<or> length oid = 64) \<and> list_all is_ascii_hexdigit oid"
    using oid by (auto simp: validate_git_object_id_def split: if_splits)
  moreover have "\<exists>owner name. dp_repo request = owner @ ''/'' @ name \<and> plain_segment owner \<and> plain_segment name"
    using n by (rule normalize_github_repo_sound) blast
  moreover note load_active_github_yolo_mode_Inr [OF load] resolve_publisher_target_sound [OF res]
    allow [unfolded c2 github_mode_allows_repo_Some]
  ultimately show ?thesis using d c2 by blast
qed

definition sample_mode :: github_mode_record where
  "sample_mode = \<lparr>gm_mode = ''yolo'', gm_all_installed = False, gm_repos = [],
     gm_repo_grants = [\<lparr>grant_repo = ''acme/app'', grant_expires_at = Some 2000\<rparr>], gm_expires_at = None\<rparr>"

definition sample_publisher_config :: config where
  "sample_publisher_config = default_config\<lparr>publisher_app_id := Some 7,
     publisher_installations := [\<lparr>pi_account = ''acme'', pi_installation_id = 42, pi_default_base = ''main''\<rparr>]\<rparr>"

definition sample_push :: direct_push_request where
  "sample_push = \<lparr>dp_repo = ''acme/app'', dp_src = ''refs/heads/topic'', dp_dst = ''refs/heads/topic'',
     dp_force = False, dp_src_oid = None, dp_src_object_type = None\<rparr>"

definition sample_target :: publish_target where
  "sample_target = \<lparr>pt_id = ''acme/app'', pt_repo = ''acme/app'', pt_default_base = ''main'',
     pt_installation_id = 42\<rparr>"

lemma sample_push_accepted:
  "validate_direct_push_request (Inr ''{}'') (\<lambda>_. Inr sample_mode) (Some 1000) (Some 1001)
     sample_publisher_config sample_push = Inr sample_target"
  by (simp add: validate_direct_push_request_def sample_mode_def sample_publisher_config_def
      sample_push_def sample_target_def default_config_def normalize_github_repo_def unwrap_or_def
      load_active_github_yolo_mode_def current_epoch_seconds_def github_mode_expired_def
      github_mode_allows_repo_Some github_yolo_repo_grant_active_def not_expired_def
      resolve_publisher_target_def rust_str)

theorem accepted_direct_push_is_authorised_witness:
  "pt_repo sample_target = dp_repo sample_push \<and> starts_with (dp_dst sample_push) ''refs/''"
  using accepted_direct_push_is_authorised [OF sample_push_accepted] by blast

text \<open>
  a publish request that passes validation goes to a configured target for exactly the
  requested repository, with a non-blank title within the configured limits.
\<close>

theorem accepted_publish_request_is_sound:
  assumes "validate_publish_request cfg request = Inr target"
  shows "pt_repo target = pr_repo_id request \<and> pt_installation_id target \<noteq> 0 \<and>
    resolve_publisher_target cfg (pr_repo_id request) = Some target \<and>
    trim (pr_title request) \<noteq> [] \<and> trim (pt_default_base target) \<noteq> [] \<and>
    chars_count (pr_title request) \<le> publisher_max_title_chars cfg \<and>
    chars_count (pr_body request) \<le> publisher_max_body_chars cfg \<and>
    (\<forall>base. pr_base request = Some base \<longrightarrow> trim base \<noteq> [])"
proof -
  from assms have "resolve_publisher_target cfg (pr_repo_id request) = Some target"
    by (auto simp: validate_publish_request_def and_then_Inr split: if_splits)
  with assms resolve_publisher_target_sound [OF this] show ?thesis
    by (auto simp: validate_publish_request_def and_then_Inr split: if_splits option.splits)
qed

definition sample_pr :: publish_pr_request where
  "sample_pr = \<lparr>pr_repo_id = ''acme/app'', pr_base = None, pr_title = ''Fix'', pr_body = [], pr_draft = False\<rparr>"

theorem accepted_publish_request_is_sound_witness:
  "pt_repo sample_target = pr_repo_id sample_pr \<and> trim (pr_title sample_pr) \<noteq> []"
proof -
  have "validate_publish_request sample_publisher_config sample_pr = Inr sample_target"
    by (simp add: validate_publish_request_def sample_pr_def sample_publisher_config_def default_config_def
        sample_target_def resolve_publisher_target_def rust_str)
  from accepted_publish_request_is_sound [OF this] show ?thesis by blast
qed

text \<open>
  the branch the daemon creates is \<^verbatim>\<open>prefix/seconds-sample\<close> where the prefix is not empty,
  has only letters, digits, dashes, underscores and slashes, and neither begins nor ends with a
  slash, whatever prefix was configured.
\<close>

theorem publish_branch_name_is_clean:
  "\<exists>prefix. build_publish_branch_name now sample raw =
       prefix @ ''/'' @ show_nat now @ ''-'' @ to_ascii_lowercase sample \<and>
     prefix \<noteq> [] \<and> hd prefix \<noteq> CHR ''/'' \<and> last prefix \<noteq> CHR ''/'' \<and>
     list_all (\<lambda>ch. is_ascii_alphanumeric ch \<or> ch \<in> {CHR ''-'', CHR ''_'', CHR ''/''}) prefix"
proof -
  let ?ok = "\<lambda>ch. is_ascii_alphanumeric ch \<or> ch \<in> {CHR ''-'', CHR ''_'', CHR ''/''}"
  define c where "c = trim_matches (CHR ''/'') (filter ?ok raw)"
  have s: "sanitize_branch_prefix raw = (if c = [] then ''agent'' else c)"
    by (simp add: sanitize_branch_prefix_def c_def)
  have "list_all ?ok c"
    using trim_matches_set [of "CHR ''/''" "filter ?ok raw"] unfolding c_def list_all_iff by auto
  moreover have "list_all ?ok ''agent''"
    by (simp add: is_ascii_alphanumeric_def is_ascii_lower_def)
  moreover have "c \<noteq> [] \<Longrightarrow> hd c \<noteq> CHR ''/'' \<and> last c \<noteq> CHR ''/''"
    unfolding c_def by (rule trim_matches_ends)
  ultimately show ?thesis
    by (intro exI [of _ "sanitize_branch_prefix raw"]) (simp add: build_publish_branch_name_def s)
qed

lemma parse_github_remote_repo_sound:
  assumes "parse_github_remote_repo url = Some r"
  shows "\<exists>p. normalize_github_repo p = Some r"
  using assms
  by (auto simp: parse_github_remote_repo_def normalize_github_repo_path_eq Let_def
      split: if_splits option.splits) blast

lemma github_host_supported: "github_remote_host_is_supported ''github.com''"
  by (simp add: github_remote_host_is_supported_def rust_str)

lemma github_authority_supported:
  "github_remote_authority_is_supported ''github.com''"
  "github_remote_authority_is_supported ''git@github.com''"
  by (simp_all add: github_remote_authority_is_supported_def rsplit_once_def github_host_supported unwrap_or_def)

lemma plain_byte_literals: "plain_byte (CHR ''h'')" "plain_byte (CHR ''g'')" "plain_byte (CHR ''s'')" "plain_byte (CHR ''t'')"
  by (simp_all add: plain_byte_def is_ascii_ws_def)

text \<open>
  the repository of a checkout is recognised from the three forms git writes for a GitHub
  remote, and whatever remote is recognised yields a well-formed \<^verbatim>\<open>owner/name\<close>.
\<close>

theorem github_remotes_are_recognised:
  assumes "plain_segment owner" "plain_segment name" "CHR '':'' \<notin> set (owner @ name)"
    and "\<not> ends_with (owner @ ''/'' @ name) ''.git''"
  shows "parse_github_remote_repo (''https://github.com/'' @ owner @ ''/'' @ name @ ''.git'') = Some (owner @ ''/'' @ name) \<and>
    parse_github_remote_repo (''ssh://git@github.com/'' @ owner @ ''/'' @ name @ ''.git'') = Some (owner @ ''/'' @ name) \<and>
    parse_github_remote_repo (''git@github.com:'' @ owner @ ''/'' @ name @ ''.git'') = Some (owner @ ''/'' @ name) \<and>
    (\<forall>url r. parse_github_remote_repo url = Some r \<longrightarrow>
       (\<exists>o' n'. r = o' @ ''/'' @ n' \<and> plain_segment o' \<and> plain_segment n'))"
proof (intro conjI allI impI)
  note norm = normalize_github_repo_canonical(2) [OF assms(1,2,4)]
  let ?p = "owner @ ''/'' @ name @ ''.git''"
  have t: "trim (''https://github.com/'' @ ?p) = ''https://github.com/'' @ ?p"
    "trim (''ssh://git@github.com/'' @ ?p) = ''ssh://git@github.com/'' @ ?p"
    "trim (''git@github.com:'' @ ?p) = ''git@github.com:'' @ ?p"
    by (rule trim_plain; simp add: plain_byte_literals)+
  have s: "split_once ''://'' (''https://github.com/'' @ ?p) = Some (''https'', ''github.com/'' @ ?p)"
    "split_once ''://'' (''ssh://git@github.com/'' @ ?p) = Some (''ssh'', ''git@github.com/'' @ ?p)"
    "split_once ''/'' (''github.com/'' @ ?p) = Some (''github.com'', ?p)"
    "split_once ''/'' (''git@github.com/'' @ ?p) = Some (''git@github.com'', ?p)"
    "split_once '':'' (''git@github.com:'' @ ?p) = Some (''git@github.com'', ?p)"
    by (simp_all add: split_once_def)
  have "find_sub ''://'' ?p = None" using assms(3) by (intro find_sub_absent [of "CHR '':''"]) auto
  moreover have "\<not> starts_with ?p ''//''" using assms(1) by (cases owner) (auto simp: plain_segment_def)
  ultimately have n: "split_once ''://'' (''git@github.com:'' @ ?p) = None"
    by (simp add: split_once_def)
  show "parse_github_remote_repo (''https://github.com/'' @ ?p) = Some (owner @ ''/'' @ name)"
    unfolding parse_github_remote_repo_def Let_def t s option.case prod.case
    using norm by (simp add: normalize_github_repo_path_eq github_authority_supported)
  show "parse_github_remote_repo (''ssh://git@github.com/'' @ ?p) = Some (owner @ ''/'' @ name)"
    unfolding parse_github_remote_repo_def Let_def t s option.case prod.case
    using norm by (simp add: normalize_github_repo_path_eq github_authority_supported)
  show "parse_github_remote_repo (''git@github.com:'' @ ?p) = Some (owner @ ''/'' @ name)"
    unfolding parse_github_remote_repo_def Let_def t s n option.case prod.case
    using norm by (simp add: normalize_github_repo_path_eq github_host_supported rsplit_once_def
        str_contains_def unwrap_or_def)
next
  fix url r
  assume "parse_github_remote_repo url = Some r"
  then obtain p where "normalize_github_repo p = Some r" using parse_github_remote_repo_sound by blast
  then show "\<exists>o' n'. r = o' @ ''/'' @ n' \<and> plain_segment o' \<and> plain_segment n'"
    by (rule normalize_github_repo_sound) blast
qed

theorem github_remotes_are_recognised_witness:
  "parse_github_remote_repo ''git@github.com:acme/app.git'' = Some ''acme/app''"
  using github_remotes_are_recognised [of "''acme''" "''app''"]
  by (simp add: plain_segment_def ends_with_def)

end
