(* ===== verification/Publisher_Wire.thy ===== *)
theory Publisher_Wire
  imports Publisher_Validation
begin

text \<open>
  The framing of the publisher socket (\<^verbatim>\<open>src/publisher/server.rs\<close>): the 24-byte header, the JSON
  metadata, the metadata acknowledgement and the spooling of the bundle.  A socket delivers its
  bytes in pieces chosen by the kernel: the incoming side is the list of the pieces still to
  come, each either data or a read error; an empty list is end of file.  JSON is a parameter.
\<close>

section \<open>Big-endian integers\<close>

fun to_be :: "nat \<Rightarrow> nat \<Rightarrow> rstr" where
  "to_be 0 n = []"
| "to_be (Suc k) n = to_be k (n div 256) @ [char_of (n mod 256)]"

definition from_be :: "rstr \<Rightarrow> nat" where
  "from_be s = foldl (\<lambda>a c. 256 * a + byte c) 0 s"

section \<open>Header\<close>

record publisher_wire_header =
  wh_metadata_len :: nat
  wh_bundle_len :: nat

definition PUBLISHER_WIRE_MAGIC :: rstr where
  "PUBLISHER_WIRE_MAGIC = ''ZDXPUB'' @ [CHR 0x00, CHR 0x00]"

definition PUBLISHER_WIRE_VERSION :: nat where "PUBLISHER_WIRE_VERSION = 1"

definition PUBLISHER_WIRE_HEADER_BYTES :: nat where "PUBLISHER_WIRE_HEADER_BYTES = 24"

definition MAX_PUBLISHER_METADATA_BYTES :: nat where "MAX_PUBLISHER_METADATA_BYTES = 64 * 1024"

definition MAX_PUBLISHER_RESPONSE_BYTES :: nat where "MAX_PUBLISHER_RESPONSE_BYTES = 64 * 1024"

definition PUBLISHER_STREAM_BUFFER_BYTES :: nat where "PUBLISHER_STREAM_BUFFER_BYTES = 64 * 1024"

definition PUBLISHER_METADATA_ACCEPTED :: nat where "PUBLISHER_METADATA_ACCEPTED = 1"

definition PUBLISHER_METADATA_REJECTED :: nat where "PUBLISHER_METADATA_REJECTED = 0"

definition u32_max :: nat where "u32_max = 4294967295"

definition limit_error :: "rstr \<Rightarrow> nat \<Rightarrow> nat \<Rightarrow> rstr" where
  "limit_error what actual allowed =
     what @ '' ('' @ show_nat actual @ '' bytes > '' @ show_nat allowed @ '' bytes)''"

definition encode_publisher_wire_header :: "nat \<Rightarrow> nat \<Rightarrow> rstr res" where
  "encode_publisher_wire_header metadata_len bundle_len =
     (if metadata_len = 0 then Inl ''publisher metadata cannot be empty''
      else if MAX_PUBLISHER_METADATA_BYTES < metadata_len then
        Inl (limit_error ''publisher metadata exceeds local limit'' metadata_len MAX_PUBLISHER_METADATA_BYTES)
      else if u32_max < metadata_len then Inl ''publisher metadata length overflow''
      else Inr (PUBLISHER_WIRE_MAGIC @ to_be 2 PUBLISHER_WIRE_VERSION @ to_be 2 0
                @ to_be 4 metadata_len @ to_be 8 bundle_len))"

definition byte_slice :: "nat \<Rightarrow> nat \<Rightarrow> 'a list \<Rightarrow> 'a list" where
  "byte_slice i j s = take (j - i) (drop i s)"

definition decode_publisher_wire_header :: "rstr \<Rightarrow> publisher_wire_header res" where
  "decode_publisher_wire_header header =
     (let version = from_be (byte_slice 8 10 header);
          flags = from_be (byte_slice 10 12 header);
          metadata_len = from_be (byte_slice 12 16 header);
          bundle_len = from_be (byte_slice 16 24 header)
      in if byte_slice 0 8 header \<noteq> PUBLISHER_WIRE_MAGIC then
           Inl ''publisher request has an invalid wire magic''
         else if version \<noteq> PUBLISHER_WIRE_VERSION then
           Inl (''unsupported publisher wire version '' @ show_nat version @ ''; expected ''
                @ show_nat PUBLISHER_WIRE_VERSION)
         else if flags \<noteq> 0 then
           Inl (''publisher request has unsupported wire flags: '' @ show_nat flags)
         else if metadata_len = 0 then Inl ''publisher metadata cannot be empty''
         else if MAX_PUBLISHER_METADATA_BYTES < metadata_len then
           Inl (limit_error ''publisher metadata exceeds local limit'' metadata_len MAX_PUBLISHER_METADATA_BYTES)
         else Inr \<lparr>wh_metadata_len = metadata_len, wh_bundle_len = bundle_len\<rparr>)"

section \<open>Metadata\<close>

definition encode_publisher_metadata ::
  "(publisher_request \<Rightarrow> rstr res) \<Rightarrow> publisher_request \<Rightarrow> rstr res" where
  "encode_publisher_metadata to_json request =
     and_then (with_ctx ''failed to serialize publisher metadata'' (to_json request))
       (\<lambda>metadata.
          if metadata = [] \<or> MAX_PUBLISHER_METADATA_BYTES < length metadata then
            Inl (limit_error ''publisher metadata exceeds local limit'' (length metadata)
                   MAX_PUBLISHER_METADATA_BYTES)
          else Inr metadata)"

definition decode_publisher_metadata ::
  "(rstr \<Rightarrow> publisher_request res) \<Rightarrow> rstr \<Rightarrow> publisher_request res" where
  "decode_publisher_metadata from_json metadata =
     (if metadata = [] then Inl ''publisher metadata cannot be empty''
      else if MAX_PUBLISHER_METADATA_BYTES < length metadata then
        Inl ''publisher metadata exceeds local limit''
      else with_ctx ''publisher metadata was not valid request JSON'' (from_json metadata))"

section \<open>Socket reads\<close>

type_synonym sock = "(rstr + rstr) list"

text \<open>One \<^verbatim>\<open>read(&mut buf[..n])\<close>: zero bytes mean end of file.\<close>

fun sock_read :: "nat \<Rightarrow> sock \<Rightarrow> (rstr \<times> sock) res" where
  "sock_read n [] = Inr ([], [])"
| "sock_read n (Inl e # cs) = Inl e"
| "sock_read n (Inr d # cs) =
     (if length d \<le> n then Inr (d, cs) else Inr (take n d, Inr (drop n d) # cs))"

text \<open>\<^verbatim>\<open>read_exact\<close>: repeated reads until the buffer is full.\<close>

fun read_exact :: "nat \<Rightarrow> sock \<Rightarrow> (rstr \<times> sock) res" where
  "read_exact n [] = (if n = 0 then Inr ([], []) else Inl ''early eof'')"
| "read_exact n (Inl e # cs) = (if n = 0 then Inr ([], Inl e # cs) else Inl e)"
| "read_exact n (Inr d # cs) =
     (if n = 0 then Inr ([], Inr d # cs)
      else if d = [] then Inl ''early eof''
      else if length d \<le> n then
        and_then (read_exact (n - length d) cs) (\<lambda>(bs, cs'). Inr (d @ bs, cs'))
      else Inr (take n d, Inr (drop n d) # cs))"

section \<open>Receiving the bundle\<close>

text \<open>
  The outcome of the file operations of the spool: creating the temporary directory (its path),
  creating the file, each \<^verbatim>\<open>write_all\<close> after what has been written so far, and the flush.
\<close>

record spool_io =
  spool_tempdir :: "rstr res"
  spool_create :: "rstr \<Rightarrow> unit res"
  spool_write :: "rstr \<Rightarrow> rstr \<Rightarrow> unit res"
  spool_flush :: "unit res"

record received_bundle =
  rb_path :: rstr
  rb_contents :: rstr

function spool_loop :: "spool_io \<Rightarrow> nat \<Rightarrow> rstr \<Rightarrow> sock \<Rightarrow> (rstr \<times> sock) res" where
  "spool_loop io remaining file cs =
     (if remaining = 0 then Inr (file, cs)
      else case with_ctx ''failed while reading publisher bundle''
                  (sock_read (min remaining PUBLISHER_STREAM_BUFFER_BYTES) cs) of
        Inl e \<Rightarrow> Inl e
      | Inr (bytes, cs') \<Rightarrow>
          if bytes = [] then
            Inl (''publisher bundle ended early ('' @ show_nat remaining @ '' bytes missing)'')
          else (case with_ctx ''failed while spooling publisher bundle'' (spool_write io file bytes) of
              Inl e \<Rightarrow> Inl e
            | Inr _ \<Rightarrow> spool_loop io (remaining - length bytes) (file @ bytes) cs'))"
  by pat_completeness auto
termination
  by (relation "measure (\<lambda>(io, remaining, file, cs). remaining)") auto

declare spool_loop.simps [simp del]

definition expect_eof :: "rstr \<Rightarrow> sock \<Rightarrow> unit res" where
  "expect_eof ctx cs =
     and_then (with_ctx ctx (sock_read 1 cs))
       (\<lambda>(extra, _). if extra \<noteq> [] then Inl ''publisher peer sent bytes beyond declared bundle length''
                     else Inr ())"

definition receive_declared_bundle :: "spool_io \<Rightarrow> sock \<Rightarrow> nat \<Rightarrow> received_bundle option res" where
  "receive_declared_bundle io cs bundle_len =
     (if bundle_len = 0 then
        and_then (expect_eof ''failed to verify empty publisher bundle'' cs) (\<lambda>_. Inr None)
      else
        and_then (with_ctx ''failed to create publisher bundle tempdir'' (spool_tempdir io))
        (\<lambda>tempdir. let bundle_path = tempdir @ ''/request.bundle'' in
           and_then (with_ctx (''failed to create '' @ bundle_path) (spool_create io bundle_path))
           (\<lambda>_. and_then (spool_loop io bundle_len [] cs)
           (\<lambda>(file, cs'). and_then (with_ctx ''failed to flush publisher bundle'' (spool_flush io))
           (\<lambda>_. and_then (expect_eof ''failed to verify publisher bundle framing'' cs')
           (\<lambda>_. Inr (Some \<lparr>rb_path = bundle_path, rb_contents = file\<rparr>)))))))"

text \<open>The sending side: \<open>file\<close> is what the bundle file holds while it is streamed.\<close>

definition stream_bundle_file :: "rstr \<Rightarrow> nat \<Rightarrow> rstr \<times> unit res" where
  "stream_bundle_file file declared_len =
     (let sent = take declared_len file in
      (sent,
       if length sent \<noteq> declared_len then
         Inl (''publisher bundle changed while sending ('' @ show_nat (length sent)
              @ '' bytes streamed, '' @ show_nat declared_len @ '' declared)'')
       else if drop declared_len file \<noteq> [] then
         Inl ''publisher bundle grew beyond its declared length while sending''
       else Inr ()))"

section \<open>Metadata acknowledgement\<close>

text \<open>\<open>Inr None\<close>: accepted; \<open>Inr (Some msg)\<close>: rejected with the daemon's message.\<close>

definition read_publisher_metadata_ack ::
  "(rstr \<Rightarrow> rstr res) \<Rightarrow> sock \<Rightarrow> (rstr option \<times> sock) res" where
  "read_publisher_metadata_ack error_from_json cs =
     and_then (with_ctx ''failed to read publisher metadata acknowledgement'' (read_exact 1 cs))
     (\<lambda>(status, cs1).
        let st = from_be status in
        if st = PUBLISHER_METADATA_ACCEPTED then Inr (None, cs1)
        else if st = PUBLISHER_METADATA_REJECTED then
          and_then (with_ctx ''failed to read publisher metadata rejection length'' (read_exact 4 cs1))
          (\<lambda>(len_bytes, cs2).
             let len = from_be len_bytes in
             if len = 0 \<or> MAX_PUBLISHER_RESPONSE_BYTES < len then
               Inl ''publisher returned an invalid metadata rejection frame''
             else
               and_then (with_ctx ''failed to read publisher metadata rejection'' (read_exact len cs2))
               (\<lambda>(payload, cs3).
                  and_then (with_ctx ''failed to decode publisher metadata rejection'' (error_from_json payload))
                  (\<lambda>error. Inr (Some error, cs3))))
        else Inl (''publisher returned unknown metadata acknowledgement byte '' @ show_nat st))"

definition metadata_rejection_frame :: "rstr \<Rightarrow> rstr res" where
  "metadata_rejection_frame payload =
     (if MAX_PUBLISHER_RESPONSE_BYTES < length payload then
        Inl ''publisher metadata rejection exceeds response limit''
      else Inr (char_of PUBLISHER_METADATA_REJECTED # to_be 4 (length payload) @ payload))"

section \<open>Lemmas\<close>

lemma length_to_be [simp]: "length (to_be k n) = k"
  by (induction k arbitrary: n) auto

lemma from_be_snoc: "from_be (s @ [c]) = 256 * from_be s + byte c"
  by (simp add: from_be_def)

lemma from_be_to_be: "from_be (to_be k n) = n mod 256 ^ k"
proof (induction k arbitrary: n)
  case (Suc k)
  have "from_be (to_be (Suc k) n) = 256 * (n div 256 mod 256 ^ k) + n mod 256"
    by (simp add: from_be_snoc Suc)
  also have "\<dots> = n mod (256 * 256 ^ k)" by (simp add: mod_mult2_eq)
  finally show ?case by simp
qed (simp add: from_be_def)

lemma to_be_from_be: "to_be (length s) (from_be s) = s"
proof (induction s rule: rev_induct)
  case (snoc c s)
  have "byte c < 256" by simp
  then show ?case using snoc by (simp add: from_be_snoc)
qed simp

lemma from_be_bound: "from_be s < 256 ^ length s"
  by (metis from_be_to_be mod_less_divisor to_be_from_be zero_less_numeral zero_less_power)

lemma slice_join:
  assumes "i \<le> j" "j \<le> k"
  shows "byte_slice i j s @ byte_slice j k s = byte_slice i k s"
proof -
  have "byte_slice i k s = take ((j - i) + (k - j)) (drop i s)" using assms by (simp add: byte_slice_def)
  also have "\<dots> = take (j - i) (drop i s) @ take (k - j) (drop (j - i) (drop i s))" by (rule take_add)
  also have "\<dots> = byte_slice i j s @ byte_slice j k s" using assms by (simp add: byte_slice_def)
  finally show ?thesis by simp
qed

lemma slice_full:
  assumes "length s = 24"
  shows "byte_slice 0 8 s @ byte_slice 8 10 s @ byte_slice 10 12 s @ byte_slice 12 16 s @ byte_slice 16 24 s = s"
proof -
  have "byte_slice 0 8 s @ byte_slice 8 10 s @ byte_slice 10 12 s @ byte_slice 12 16 s @ byte_slice 16 24 s = byte_slice 0 24 s"
    by (simp add: slice_join)
  also have "\<dots> = s" using assms by (simp add: byte_slice_def)
  finally show ?thesis .
qed

lemma length_slice: "j \<le> length s \<Longrightarrow> i \<le> j \<Longrightarrow> length (byte_slice i j s) = j - i"
  by (simp add: byte_slice_def)

lemma decode_publisher_wire_header_Inr:
  assumes "decode_publisher_wire_header h = Inr w"
  shows "byte_slice 0 8 h = PUBLISHER_WIRE_MAGIC" "from_be (byte_slice 8 10 h) = 1" "from_be (byte_slice 10 12 h) = 0"
    "wh_metadata_len w = from_be (byte_slice 12 16 h)" "wh_bundle_len w = from_be (byte_slice 16 24 h)"
    "0 < wh_metadata_len w" "wh_metadata_len w \<le> 65536"
  using assms unfolding decode_publisher_wire_header_def Let_def
  by (auto simp: PUBLISHER_WIRE_VERSION_def MAX_PUBLISHER_METADATA_BYTES_def split: if_splits)

lemma header_slices:
  assumes "length m = 8" "length v = 2" "length f = 2" "length l = 4" "length b = 8"
  defines "h \<equiv> m @ v @ f @ l @ b"
  shows "byte_slice 0 8 h = m" "byte_slice 8 10 h = v" "byte_slice 10 12 h = f" "byte_slice 12 16 h = l" "byte_slice 16 24 h = b"
  using assms by (simp_all add: byte_slice_def)

lemma magic_length: "length PUBLISHER_WIRE_MAGIC = 8"
  by (simp add: PUBLISHER_WIRE_MAGIC_def)

lemma decode_encode_header:
  assumes "encode_publisher_wire_header m b = Inr h" "b \<le> u64_max"
  shows "decode_publisher_wire_header h = Inr \<lparr>wh_metadata_len = m, wh_bundle_len = b\<rparr>"
    and "length h = 24"
proof -
  from assms have h: "h = PUBLISHER_WIRE_MAGIC @ to_be 2 1 @ to_be 2 0 @ to_be 4 m @ to_be 8 b"
    and m: "0 < m" "m \<le> 65536"
    by (simp_all add: encode_publisher_wire_header_def PUBLISHER_WIRE_VERSION_def
        MAX_PUBLISHER_METADATA_BYTES_def split: if_splits)
  have b: "b mod 256 ^ 8 = b" using assms(2) by (simp add: u64_max_def)
  have m': "m mod 256 ^ 4 = m" using m by simp
  have sl: "byte_slice 0 8 h = PUBLISHER_WIRE_MAGIC" "byte_slice 8 10 h = to_be 2 1" "byte_slice 10 12 h = to_be 2 0"
     "byte_slice 12 16 h = to_be 4 m" "byte_slice 16 24 h = to_be 8 b"
    unfolding h by (rule header_slices; simp add: magic_length)+
  show "decode_publisher_wire_header h = Inr \<lparr>wh_metadata_len = m, wh_bundle_len = b\<rparr>"
    unfolding decode_publisher_wire_header_def Let_def sl from_be_to_be b m'
    using m by (simp add: PUBLISHER_WIRE_VERSION_def MAX_PUBLISHER_METADATA_BYTES_def)
  show "length h = 24" by (simp add: h magic_length)
qed

lemma encode_decode_header:
  assumes "decode_publisher_wire_header h = Inr w" "length h = 24"
  shows "encode_publisher_wire_header (wh_metadata_len w) (wh_bundle_len w) = Inr h"
proof -
  note d = decode_publisher_wire_header_Inr [OF assms(1)]
  have "to_be 2 1 = byte_slice 8 10 h" "to_be 2 0 = byte_slice 10 12 h"
    "to_be 4 (wh_metadata_len w) = byte_slice 12 16 h" "to_be 8 (wh_bundle_len w) = byte_slice 16 24 h"
    using to_be_from_be [of "byte_slice 8 10 h"] to_be_from_be [of "byte_slice 10 12 h"]
      to_be_from_be [of "byte_slice 12 16 h"] to_be_from_be [of "byte_slice 16 24 h"] d assms(2)
    by (simp_all add: length_slice)
  then show ?thesis
    using slice_full [OF assms(2)] d(1,6,7)
    by (simp add: encode_publisher_wire_header_def PUBLISHER_WIRE_VERSION_def
        MAX_PUBLISHER_METADATA_BYTES_def u32_max_def)
qed

text \<open>A peer that sends \<open>concat ds\<close> in the non-empty pieces \<open>ds\<close> and then closes its side.\<close>

definition data_sock :: "rstr list \<Rightarrow> sock" where
  "data_sock ds = map Inr ds"

lemma data_sock_simps [simp]:
  "data_sock [] = []" "data_sock (d # ds) = Inr d # data_sock ds" "data_sock ds = [] \<longleftrightarrow> ds = []"
  by (simp_all add: data_sock_def)

lemma read_exact_data:
  assumes "[] \<notin> set ds" "n \<le> length (concat ds)"
  shows "\<exists>ds'. read_exact n (data_sock ds) = Inr (take n (concat ds), data_sock ds') \<and>
           [] \<notin> set ds' \<and> concat ds' = drop n (concat ds)"
  using assms
proof (induction ds arbitrary: n)
  case (Cons d ds)
  show ?case
  proof (cases "n < length d")
    case True
    with Cons.prems show ?thesis
      by (intro exI [of _ "if n = 0 then d # ds else drop n d # ds"]) auto
  next
    case False
    with Cons.prems have "n - length d \<le> length (concat ds)" "[] \<notin> set ds" by auto
    from Cons.IH [OF this(2,1)] obtain ds' where
      "read_exact (n - length d) (data_sock ds) = Inr (take (n - length d) (concat ds), data_sock ds')"
      "[] \<notin> set ds'" "concat ds' = drop (n - length d) (concat ds)" by blast
    moreover have "0 < n" using False Cons.prems(1) by (cases d) auto
    ultimately show ?thesis using False Cons.prems by (intro exI [of _ ds']) auto
  qed
qed (auto intro: exI [of _ "[]"])

lemma sock_read_data:
  assumes "[] \<notin> set ds" "ds \<noteq> []" "0 < n"
  obtains bytes ds' where "sock_read n (data_sock ds) = Inr (bytes, data_sock ds')"
    "bytes \<noteq> []" "length bytes \<le> n" "[] \<notin> set ds'" "concat ds = bytes @ concat ds'"
proof (cases ds)
  case (Cons d ds0)
  show ?thesis
  proof (cases "length d \<le> n")
    case True
    with assms Cons that [of d ds0] show ?thesis by auto
  next
    case False
    with assms Cons that [of "take n d" "drop n d # ds0"] show ?thesis by auto
  qed
qed (use assms in simp)

definition spool_ok :: "spool_io \<Rightarrow> bool" where
  "spool_ok io \<longleftrightarrow> (\<exists>dir. spool_tempdir io = Inr dir) \<and> (\<forall>p. spool_create io p = Inr ()) \<and>
     (\<forall>f b. spool_write io f b = Inr ()) \<and> spool_flush io = Inr ()"

lemma spool_loop_data:
  assumes "spool_ok io" "[] \<notin> set ds"
  shows "if remaining \<le> length (concat ds)
    then \<exists>ds'. spool_loop io remaining acc (data_sock ds) = Inr (acc @ take remaining (concat ds), data_sock ds') \<and>
           [] \<notin> set ds' \<and> concat ds' = drop remaining (concat ds)
    else \<exists>e. spool_loop io remaining acc (data_sock ds) = Inl e"
  using assms(2)
proof (induction remaining arbitrary: acc ds rule: less_induct)
  case (less remaining)
  show ?case
  proof (cases "remaining = 0 \<or> ds = []")
    case True
    with less.prems show ?thesis by (auto simp: spool_loop.simps)
  next
    case False
    then have r: "0 < remaining" "ds \<noteq> []" by auto
    obtain bytes ds1 where rd: "sock_read (min remaining PUBLISHER_STREAM_BUFFER_BYTES) (data_sock ds) = Inr (bytes, data_sock ds1)"
      and b: "bytes \<noteq> []" "length bytes \<le> min remaining PUBLISHER_STREAM_BUFFER_BYTES"
      and ds1: "[] \<notin> set ds1" "concat ds = bytes @ concat ds1"
      using sock_read_data [OF less.prems r(2), of "min remaining PUBLISHER_STREAM_BUFFER_BYTES"] r(1)
      by (auto simp: PUBLISHER_STREAM_BUFFER_BYTES_def)
    have w: "\<And>f b. spool_write io f b = Inr ()" using assms(1) by (simp add: spool_ok_def)
    have step: "spool_loop io remaining acc (data_sock ds)
        = spool_loop io (remaining - length bytes) (acc @ bytes) (data_sock ds1)"
      by (subst spool_loop.simps) (use r(1) rd b(1) w in simp)
    have "remaining - length bytes < remaining" using b(1) r(1) by (cases bytes) auto
    from less.IH [OF this ds1(1), of "acc @ bytes"] b(2) ds1(2) show ?thesis
      by (auto simp: step split: if_splits)
  qed
qed

lemma expect_eof_data:
  "[] \<notin> set ds \<Longrightarrow> expect_eof ctx (data_sock ds) = Inr () \<longleftrightarrow> ds = []"
  by (cases ds) (auto simp: expect_eof_def)

lemma receive_declared_bundle_data:
  assumes "spool_ok io" "[] \<notin> set ds" "0 < bundle_len"
  shows "(\<exists>path. receive_declared_bundle io (data_sock ds) bundle_len
             = Inr (Some \<lparr>rb_path = path, rb_contents = contents\<rparr>))
         \<longleftrightarrow> length (concat ds) = bundle_len \<and> contents = concat ds"
proof -
  obtain dir where io: "spool_tempdir io = Inr dir" "\<And>p. spool_create io p = Inr ()" "spool_flush io = Inr ()"
    using assms(1) by (auto simp: spool_ok_def)
  have recv: "receive_declared_bundle io (data_sock ds) bundle_len =
      and_then (spool_loop io bundle_len [] (data_sock ds))
        (\<lambda>(file, cs'). and_then (expect_eof ''failed to verify publisher bundle framing'' cs')
           (\<lambda>_. Inr (Some \<lparr>rb_path = dir @ ''/request.bundle'', rb_contents = file\<rparr>)))"
    using assms(3) by (simp add: receive_declared_bundle_def io Let_def)
  note loop = spool_loop_data [OF assms(1,2), of bundle_len "[]"]
  show ?thesis
  proof (cases "bundle_len \<le> length (concat ds)")
    case True
    with loop obtain ds' where l: "spool_loop io bundle_len [] (data_sock ds)
        = Inr (take bundle_len (concat ds), data_sock ds')"
      and ds': "[] \<notin> set ds'" "concat ds' = drop bundle_len (concat ds)" by auto
    have "ds' = [] \<longleftrightarrow> length (concat ds) = bundle_len"
      using ds' True by (cases ds') (auto dest: arg_cong [of _ _ length])
    with expect_eof_data [OF ds'(1)] show ?thesis
      by (auto simp: recv l and_then_Inr split: sum.splits)
  next
    case False
    with loop obtain e where "spool_loop io bundle_len [] (data_sock ds) = Inl e" by auto
    with False show ?thesis by (auto simp: recv)
  qed
qed

section \<open>Properties\<close>

text \<open>
  the header code is a bijection: what is encoded decodes to the same lengths, and a 24-byte
  header that decodes is exactly the encoding of the lengths it announces, so no two different
  headers are accepted for the same request.
\<close>

theorem wire_header_round_trip:
  assumes "length h = PUBLISHER_WIRE_HEADER_BYTES" "b \<le> u64_max"
  shows "encode_publisher_wire_header m b = Inr h \<longleftrightarrow>
         decode_publisher_wire_header h = Inr \<lparr>wh_metadata_len = m, wh_bundle_len = b\<rparr>"
  using decode_encode_header(1) [of m b h] encode_decode_header [of h] assms
  by (auto simp: PUBLISHER_WIRE_HEADER_BYTES_def)

theorem wire_header_round_trip_witness:
  "decode_publisher_wire_header (PUBLISHER_WIRE_MAGIC @ to_be 2 1 @ to_be 2 0 @ to_be 4 5 @ to_be 8 258)
   = Inr \<lparr>wh_metadata_len = 5, wh_bundle_len = 258\<rparr>"
  by (rule wire_header_round_trip [THEN iffD1])
     (simp_all add: PUBLISHER_WIRE_HEADER_BYTES_def u64_max_def encode_publisher_wire_header_def
       MAX_PUBLISHER_METADATA_BYTES_def u32_max_def PUBLISHER_WIRE_VERSION_def magic_length)

text \<open>
  C22: the bundle that is spooled is exactly what the peer sent, and it is accepted exactly when
  the peer sent the declared number of bytes, however the kernel cut the stream into pieces.
\<close>

theorem bundle_reception_is_exact:
  assumes "spool_ok io" "[] \<notin> set ds" "0 < bundle_len"
  shows "(\<exists>path. receive_declared_bundle io (data_sock ds) bundle_len
             = Inr (Some \<lparr>rb_path = path, rb_contents = contents\<rparr>))
         \<longleftrightarrow> length (concat ds) = bundle_len \<and> contents = concat ds"
  using assms by (rule receive_declared_bundle_data)

definition memory_spool :: spool_io where
  "memory_spool = \<lparr>spool_tempdir = Inr ''/tmp/x'', spool_create = (\<lambda>_. Inr ()),
     spool_write = (\<lambda>_ _. Inr ()), spool_flush = Inr ()\<rparr>"

theorem bundle_reception_is_exact_witness:
  "\<exists>path. receive_declared_bundle memory_spool (data_sock [''ab'', ''c'']) 3
     = Inr (Some \<lparr>rb_path = path, rb_contents = ''abc''\<rparr>)"
  using bundle_reception_is_exact [of memory_spool "[''ab'', ''c'']" 3 "''abc''"]
  by (simp add: memory_spool_def spool_ok_def)

end
