(* ===== verification/Stream_Decoding.thy ===== *)
theory Stream_Decoding
  imports Zodex_Prelude
begin

text \<open>
  The interface the incremental decoders of the program share: the UTF-8 decoder of the PTY
  reader (\<^verbatim>\<open>src/session/output.rs\<close>) and the server-sent-event decoder of the terminal viewer
  (\<^verbatim>\<open>src/local/watch/sse.rs\<close>).  A decoder consumes a byte stream in chunks whose boundaries are
  chosen by the operating system, so its contract is that the boundaries do not matter.
\<close>

fun feed_all :: "('s \<Rightarrow> 'c list \<Rightarrow> 'o list \<times> 's) \<Rightarrow> 's \<Rightarrow> 'c list list \<Rightarrow> 'o list \<times> 's" where
  "feed_all feed s [] = ([], s)"
| "feed_all feed s (c # cs) =
     (let (o1, s1) = feed s c; (o2, s2) = feed_all feed s1 cs in (o1 @ o2, s2))"

locale chunk_decoder =
  fixes inv :: "'s \<Rightarrow> bool"
    and feed :: "'s \<Rightarrow> 'c list \<Rightarrow> 'o list \<times> 's"
  assumes inv_feed: "inv s \<Longrightarrow> feed s xs = (out, s') \<Longrightarrow> inv s'"
    and feed_Nil: "inv s \<Longrightarrow> feed s [] = ([], s)"
    and feed_append:
      "inv s \<Longrightarrow> feed s xs = (o1, s1) \<Longrightarrow> feed s1 ys = (o2, s2)
        \<Longrightarrow> feed s (xs @ ys) = (o1 @ o2, s2)"
begin

lemma inv_feed_all: "inv s \<Longrightarrow> feed_all feed s cs = (out, s') \<Longrightarrow> inv s'"
proof (induction cs arbitrary: s out)
  case (Cons c cs)
  obtain o1 s1 where 1: "feed s c = (o1, s1)" by force
  obtain o2 s2 where 2: "feed_all feed s1 cs = (o2, s2)" by force
  from Cons.prems 1 2 have "s' = s2" by simp
  with Cons.IH [OF inv_feed [OF Cons.prems(1) 1]] 2 show ?case by blast
qed simp

lemma feed_all_concat: "inv s \<Longrightarrow> feed_all feed s cs = feed s (concat cs)"
proof (induction cs arbitrary: s)
  case Nil
  then show ?case by (simp add: feed_Nil)
next
  case (Cons c cs)
  obtain o1 s1 where 1: "feed s c = (o1, s1)" by force
  obtain o2 s2 where 2: "feed s1 (concat cs) = (o2, s2)" by force
  from Cons.IH [OF inv_feed [OF Cons.prems 1]] 2
  have "feed_all feed s1 cs = (o2, s2)" by simp
  with 1 feed_append [OF Cons.prems 1 2] show ?case by simp
qed

lemma chunking_irrelevant:
  "inv s \<Longrightarrow> concat cs = concat ds \<Longrightarrow> feed_all feed s cs = feed_all feed s ds"
  by (simp add: feed_all_concat)

end

end
