(* ===== verification/Utf8_Stream.thy ===== *)
theory Utf8_Stream
  imports Stream_Decoding
begin

text \<open>
  UTF-8 validation as \<^verbatim>\<open>std::str::from_utf8\<close> performs it, and the streaming decoder of the PTY
  reader (\<^verbatim>\<open>StreamingUtf8Decoder\<close> in \<^verbatim>\<open>src/session/output.rs\<close>).  The lemmas show that the decoder
  is insensitive to the chunk boundaries, is the identity on valid UTF-8, emits only valid UTF-8
  and keeps at most three pending bytes.
\<close>

section \<open>Validation\<close>

text \<open>The validator reads one scalar: its width, the length of a malformed prefix, or
  \<open>Truncated\<close> when the input ends inside a scalar that is well-formed so far.\<close>

datatype utf8_scan = Scalar nat | Malformed nat | Truncated

definition second_ok3 :: "nat \<Rightarrow> nat \<Rightarrow> bool" where
  "second_ok3 a b \<longleftrightarrow>
     a = 224 \<and> 160 \<le> b \<and> b \<le> 191 \<or>
     225 \<le> a \<and> a \<le> 236 \<and> 128 \<le> b \<and> b \<le> 191 \<or>
     a = 237 \<and> 128 \<le> b \<and> b \<le> 159 \<or>
     238 \<le> a \<and> a \<le> 239 \<and> 128 \<le> b \<and> b \<le> 191"

definition second_ok4 :: "nat \<Rightarrow> nat \<Rightarrow> bool" where
  "second_ok4 a b \<longleftrightarrow>
     a = 240 \<and> 144 \<le> b \<and> b \<le> 191 \<or>
     241 \<le> a \<and> a \<le> 243 \<and> 128 \<le> b \<and> b \<le> 191 \<or>
     a = 244 \<and> 128 \<le> b \<and> b \<le> 143"

definition scan :: "rstr \<Rightarrow> utf8_scan" where
  "scan s = (case s of
     [] \<Rightarrow> Truncated
   | a # s1 \<Rightarrow>
       if byte a < 128 then Scalar 1
       else if 194 \<le> byte a \<and> byte a \<le> 223 then
         (case s1 of [] \<Rightarrow> Truncated
          | b # _ \<Rightarrow> if is_cont b then Scalar 2 else Malformed 1)
       else if 224 \<le> byte a \<and> byte a \<le> 239 then
         (case s1 of [] \<Rightarrow> Truncated
          | b # s2 \<Rightarrow> if \<not> second_ok3 (byte a) (byte b) then Malformed 1
             else (case s2 of [] \<Rightarrow> Truncated
                   | c # _ \<Rightarrow> if is_cont c then Scalar 3 else Malformed 2))
       else if 240 \<le> byte a \<and> byte a \<le> 244 then
         (case s1 of [] \<Rightarrow> Truncated
          | b # s2 \<Rightarrow> if \<not> second_ok4 (byte a) (byte b) then Malformed 1
             else (case s2 of [] \<Rightarrow> Truncated
                   | c # s3 \<Rightarrow> if \<not> is_cont c then Malformed 2
                      else (case s3 of [] \<Rightarrow> Truncated
                            | d # _ \<Rightarrow> if is_cont d then Scalar 4 else Malformed 3)))
       else Malformed 1)"

lemma scan_Scalar_bounds: "scan s = Scalar n \<Longrightarrow> 0 < n \<and> n \<le> 4 \<and> n \<le> length s"
  by (auto simp: scan_def split: list.splits if_splits)

lemma scan_Malformed_bounds: "scan s = Malformed n \<Longrightarrow> 0 < n \<and> n \<le> 3 \<and> n \<le> length s"
  by (auto simp: scan_def split: list.splits if_splits)

lemma scan_Truncated_bound: "scan s = Truncated \<Longrightarrow> length s \<le> 3"
  by (auto simp: scan_def split: list.splits if_splits)

text \<open>\<^verbatim>\<open>from_utf8\<close>: \<open>None\<close> for \<^verbatim>\<open>Ok\<close>, otherwise \<^verbatim>\<open>valid_up_to()\<close> and \<^verbatim>\<open>error_len()\<close>.\<close>

function from_utf8 :: "rstr \<Rightarrow> (nat \<times> nat option) option" where
  "from_utf8 s =
     (if s = [] then None
      else (case scan s of
          Scalar n \<Rightarrow> map_option (\<lambda>(v, e). (n + v, e)) (from_utf8 (drop n s))
        | Malformed n \<Rightarrow> Some (0, Some n)
        | Truncated \<Rightarrow> Some (0, None)))"
  by pat_completeness auto
termination
  by (relation "measure length") (auto dest: scan_Scalar_bounds)

declare from_utf8.simps [simp del]

definition valid_utf8 :: "rstr \<Rightarrow> bool" where
  "valid_utf8 s \<longleftrightarrow> from_utf8 s = None"

section \<open>The streaming decoder\<close>

record decoder =
  pending :: rstr

definition decoder_default :: decoder where
  "decoder_default = \<lparr>pending = []\<rparr>"

definition replacement_char :: rstr where
  "replacement_char = [CHR 0xEF, CHR 0xBF, CHR 0xBD]"

lemma from_utf8_error_progress:
  "from_utf8 s = Some (v, Some n) \<Longrightarrow> 0 < n \<and> v + n \<le> length s"
proof (induction s arbitrary: v rule: from_utf8.induct)
  case (1 s)
  show ?case
  proof (cases "s = []")
    case True
    with "1.prems" show ?thesis by (simp add: from_utf8.simps)
  next
    case False
    show ?thesis
    proof (cases "scan s")
      case (Scalar k)
      with "1.prems" False obtain w where w: "from_utf8 (drop k s) = Some (w, Some n)" "v = k + w"
        by (subst (asm) from_utf8.simps) auto
      with "1.IH" [OF False Scalar] scan_Scalar_bounds [OF Scalar] show ?thesis by fastforce
    next
      case (Malformed k)
      with "1.prems" False scan_Malformed_bounds [OF Malformed] show ?thesis
        by (subst (asm) from_utf8.simps) auto
    next
      case Truncated
      with "1.prems" False show ?thesis by (subst (asm) from_utf8.simps) auto
    qed
  qed
qed

text \<open>The \<^verbatim>\<open>while !remaining.is_empty()\<close> loop of \<^verbatim>\<open>push\<close>: the output built and the bytes kept.\<close>

function push_loop :: "rstr \<Rightarrow> rstr \<Rightarrow> rstr \<times> rstr" where
  "push_loop remaining out =
     (if remaining = [] then (out, [])
      else (case from_utf8 remaining of
          None \<Rightarrow> (out @ remaining, [])
        | Some (valid_up_to, error_len) \<Rightarrow>
            (let out' = (if valid_up_to > 0 then out @ take valid_up_to remaining else out)
             in case error_len of
                  Some invalid_len \<Rightarrow>
                    push_loop (drop (valid_up_to + invalid_len) remaining) (out' @ replacement_char)
                | None \<Rightarrow> (out', drop valid_up_to remaining))))"
  by pat_completeness auto
termination
  by (relation "measure (length \<circ> fst)")
     (auto dest: from_utf8_error_progress intro!: diff_less)

declare push_loop.simps [simp del]

definition decoder_push :: "decoder \<Rightarrow> rstr \<Rightarrow> rstr \<times> decoder" where
  "decoder_push d bytes =
     (let (out, pend) = push_loop (pending d @ bytes) []
      in (out, d\<lparr>pending := pend\<rparr>))"

definition decoder_finish :: "decoder \<Rightarrow> rstr \<times> decoder" where
  "decoder_finish d =
     (if pending d = [] then ([], d) else (replacement_char, d\<lparr>pending := []\<rparr>))"

text \<open>What the reader thread produces from the chunks it reads: every pushed piece, then the
  piece \<^verbatim>\<open>finish\<close> adds at end of file.\<close>

definition decode_stream :: "rstr list \<Rightarrow> rstr" where
  "decode_stream chunks =
     (let (out, d) = feed_all decoder_push decoder_default chunks
      in out @ fst (decoder_finish d))"

section \<open>A scalar-by-scalar reference decoder\<close>

function lossy :: "rstr \<Rightarrow> rstr \<times> rstr" where
  "lossy s =
     (if s = [] then ([], [])
      else (case scan s of
          Scalar n \<Rightarrow> (let (out, p) = lossy (drop n s) in (take n s @ out, p))
        | Malformed n \<Rightarrow> (let (out, p) = lossy (drop n s) in (replacement_char @ out, p))
        | Truncated \<Rightarrow> ([], s)))"
  by pat_completeness auto
termination
  by (relation "measure length") (auto dest: scan_Scalar_bounds scan_Malformed_bounds)

text \<open>\<^verbatim>\<open>String::from_utf8_lossy\<close>: a truncated tail becomes one replacement character.\<close>

definition from_utf8_lossy :: "rstr \<Rightarrow> rstr" where
  "from_utf8_lossy s = (let (out, p) = lossy s in out @ (if p = [] then [] else replacement_char))"

declare lossy.simps [simp del]

section \<open>Properties of the validator\<close>

lemma bytes_cases4:
  obtains "s = []" | a where "s = [a]" | a b where "s = [a, b]" | a b c where "s = [a, b, c]"
  | a b c d r where "s = a # b # c # d # r"
  by (metis list.exhaust)

lemma scan_append_Scalar: "scan s = Scalar n \<Longrightarrow> scan (s @ t) = Scalar n"
  by (cases s rule: bytes_cases4) (simp_all add: scan_def split: if_splits)

lemma scan_append_Malformed: "scan s = Malformed n \<Longrightarrow> scan (s @ t) = Malformed n"
  by (cases s rule: bytes_cases4) (auto simp: scan_def split: if_splits)

lemmas scan_append = scan_append_Scalar scan_append_Malformed

lemma second_ok_cont: "second_ok3 a (byte b) \<Longrightarrow> is_cont b" "second_ok4 a (byte b) \<Longrightarrow> is_cont b"
  by (auto simp: second_ok3_def second_ok4_def is_cont_def)

lemma scan_Scalar_lead: "scan s = Scalar n \<Longrightarrow> \<not> is_cont (s ! 0)"
  by (cases s rule: bytes_cases4) (auto simp: scan_def is_cont_def split: if_splits)

lemma scan_Scalar_tail:
  "scan s = Scalar n \<Longrightarrow> list_all is_cont (take (n - 1) (drop 1 s))"
  by (cases s rule: bytes_cases4)
     (auto simp: scan_def second_ok_cont numeral_eq_Suc split: if_splits)

lemma scan_Scalar_shape:
  assumes "scan s = Scalar n" and "0 < k" and "k < n"
  shows "is_cont (s ! k)"
proof -
  from assms scan_Scalar_bounds [OF assms(1)] obtain j where j: "k = Suc j" "Suc j < n" "n \<le> length s"
    by (cases k) auto
  then have "take (n - 1) (drop 1 s) ! j = s ! k" "j < length (take (n - 1) (drop 1 s))"
    by auto
  with scan_Scalar_tail [OF assms(1)] show ?thesis by (metis list_all_length)
qed

lemma scan_Scalar_prefix: "scan s = Scalar n \<Longrightarrow> scan (take n s @ t) = Scalar n"
  by (cases s rule: bytes_cases4) (auto simp: scan_def split: if_splits)

lemma lossy_Nil [simp]: "lossy [] = ([], [])"
  by (simp add: lossy.simps)

lemma from_utf8_Nil [simp]: "from_utf8 [] = None"
  by (simp add: from_utf8.simps)

lemma valid_utf8_Nil [simp]: "valid_utf8 []"
  by (simp add: valid_utf8_def)

lemma valid_utf8_step:
  "s \<noteq> [] \<Longrightarrow> valid_utf8 s \<longleftrightarrow> (\<exists>n. scan s = Scalar n \<and> valid_utf8 (drop n s))"
  by (auto simp: valid_utf8_def from_utf8.simps [of s] split: utf8_scan.splits)

lemma valid_utf8_induct [consumes 1, case_names Nil Scalar]:
  assumes "valid_utf8 s" and "P []"
    and "\<And>s n. s \<noteq> [] \<Longrightarrow> scan s = Scalar n \<Longrightarrow> valid_utf8 (drop n s) \<Longrightarrow> P (drop n s) \<Longrightarrow> P s"
  shows "P s"
  using assms(1)
proof (induction s rule: length_induct)
  case (1 s)
  show ?case
  proof (cases "s = []")
    case False
    with "1.prems" obtain n where n: "scan s = Scalar n" "valid_utf8 (drop n s)"
      by (auto simp: valid_utf8_step)
    with scan_Scalar_bounds [OF n(1)] False have "length (drop n s) < length s" by auto
    with "1.IH" n(2) have "P (drop n s)" by blast
    with False n assms(3) show ?thesis by blast
  qed (simp add: assms(2))
qed

lemma valid_utf8_append: "valid_utf8 s \<Longrightarrow> valid_utf8 t \<Longrightarrow> valid_utf8 (s @ t)"
proof (induction s rule: valid_utf8_induct)
  case (Scalar s n)
  then have "valid_utf8 (drop n s @ t)" by blast
  with Scalar scan_Scalar_bounds [OF Scalar(2)] show ?case
    by (subst valid_utf8_step) (auto simp: scan_append)
qed simp

lemma valid_utf8_replacement [simp]: "valid_utf8 replacement_char"
  by (simp add: valid_utf8_def replacement_char_def from_utf8.simps scan_def second_ok3_def
      is_cont_def)

lemma valid_utf8_scalar_prefix: "scan s = Scalar n \<Longrightarrow> valid_utf8 (take n s)"
proof -
  assume a: "scan s = Scalar n"
  with scan_Scalar_bounds [OF a] have "take n s \<noteq> []" by auto
  moreover from scan_Scalar_prefix [OF a, of "[]"] have "scan (take n s) = Scalar n" by simp
  ultimately show ?thesis by (auto simp: valid_utf8_step)
qed

text \<open>Cutting a valid string at a character boundary leaves two valid strings.\<close>

lemma valid_utf8_cut:
  "valid_utf8 s \<Longrightarrow> is_char_boundary s i \<Longrightarrow> i \<le> length s
     \<Longrightarrow> valid_utf8 (take i s) \<and> valid_utf8 (drop i s)"
proof (induction s arbitrary: i rule: valid_utf8_induct)
  case (Scalar s n)
  have n: "0 < n" "n \<le> length s" using scan_Scalar_bounds [OF Scalar(2)] by auto
  show ?case
  proof (cases "i < n")
    case True
    have "i = 0"
    proof (rule ccontr)
      assume "i \<noteq> 0"
      with True scan_Scalar_shape [OF Scalar(2), of i] have "is_cont (s ! i)" by simp
      with Scalar.prems True n \<open>i \<noteq> 0\<close> show False
        by (auto simp: is_char_boundary_def split: if_splits)
    qed
    with Scalar(1,2,3) show ?thesis by (auto simp: valid_utf8_step [OF Scalar(1)])
  next
    case False
    then obtain j where j: "i = n + j" by (metis le_add_diff_inverse not_less)
    have "is_char_boundary (drop n s) j"
    proof (cases "length s \<le> i \<or> j = 0")
      case True
      then have "j = length (drop n s) \<or> j = 0" using j Scalar.prems(2) by auto
      then show ?thesis by (auto simp: is_char_boundary_def)
    next
      case False
      then have "\<not> is_cont (s ! i)" using Scalar.prems(1) j n
        by (simp add: is_char_boundary_def)
      then show ?thesis using False j by (auto simp: is_char_boundary_def)
    qed
    moreover have "j \<le> length (drop n s)" using j Scalar.prems(2) by simp
    ultimately have IH: "valid_utf8 (take j (drop n s))" "valid_utf8 (drop j (drop n s))"
      using Scalar.IH by blast+
    have "take i s = take n s @ take j (drop n s)" by (simp add: j take_add)
    with IH valid_utf8_append [OF valid_utf8_scalar_prefix [OF Scalar(2)]] j show ?thesis
      by (simp add: add.commute)
  qed
qed simp

section \<open>The decoder against its reference\<close>

lemma lossy_from_utf8:
  "lossy s =
     (case from_utf8 s of
        None \<Rightarrow> (s, [])
      | Some (v, Some n) \<Rightarrow>
          (let (out, p) = lossy (drop (v + n) s) in (take v s @ replacement_char @ out, p))
      | Some (v, None) \<Rightarrow> (take v s, drop v s))"
proof (induction s rule: from_utf8.induct)
  case (1 s)
  show ?case
  proof (cases "s = []")
    case False
    show ?thesis
    proof (cases "scan s")
      case (Scalar k)
      have IH: "lossy (drop k s) =
          (case from_utf8 (drop k s) of
            None \<Rightarrow> (drop k s, [])
          | Some (v, Some n) \<Rightarrow>
              (let (out, p) = lossy (drop (v + n) (drop k s))
               in (take v (drop k s) @ replacement_char @ out, p))
          | Some (v, None) \<Rightarrow> (take v (drop k s), drop v (drop k s)))"
        by (rule "1" [OF False Scalar])
      have "lossy s = (let (out, p) = lossy (drop k s) in (take k s @ out, p))"
        using False Scalar by (subst lossy.simps) simp
      moreover have "from_utf8 s = map_option (\<lambda>(v, e). (k + v, e)) (from_utf8 (drop k s))"
        using False Scalar by (subst from_utf8.simps) simp
      moreover have "drop v (drop k s) = drop (k + v) s" for v by (simp add: add.commute)
      moreover have "drop (v + n) (drop k s) = drop (k + v + n) s" for v n
        by (simp add: ac_simps)
      ultimately show ?thesis
        unfolding IH
        by (auto simp del: drop_drop simp: take_add split: option.splits prod.splits)
    next
      case (Malformed k)
      with False show ?thesis by (subst lossy.simps, subst from_utf8.simps) simp
    next
      case Truncated
      with False show ?thesis by (subst lossy.simps, subst from_utf8.simps) simp
    qed
  qed simp
qed

lemma push_loop_lossy: "push_loop s out = (out @ fst (lossy s), snd (lossy s))"
proof (induction s out rule: push_loop.induct)
  case (1 s out)
  show ?case
  proof (cases "s = []")
    case True
    then show ?thesis by (simp add: push_loop.simps)
  next
    case False
    show ?thesis
    proof (cases "from_utf8 s")
      case None
      with False show ?thesis by (subst push_loop.simps) (simp add: lossy_from_utf8 [of s])
    next
      case (Some a)
      obtain v e where a: "a = (v, e)" by force
      show ?thesis
      proof (cases e)
        case None
        with False Some a show ?thesis
          by (subst push_loop.simps) (simp add: lossy_from_utf8 [of s])
      next
        case (Some n)
        have "push_loop s out =
            push_loop (drop (v + n) s)
              ((if v > 0 then out @ take v s else out) @ replacement_char)"
          using False \<open>from_utf8 s = Some a\<close> a Some by (subst push_loop.simps) simp
        also have "\<dots> = ((if v > 0 then out @ take v s else out) @ replacement_char @
              fst (lossy (drop (v + n) s)), snd (lossy (drop (v + n) s)))"
          using "1" [OF False \<open>from_utf8 s = Some a\<close> a [symmetric] refl Some] by simp
        finally show ?thesis
          using \<open>from_utf8 s = Some a\<close> a Some
          by (simp add: lossy_from_utf8 [of s] split: prod.splits)
      qed
    qed
  qed
qed

lemma lossy_pending_scan: "lossy s = (out, p) \<Longrightarrow> p = [] \<or> scan p = Truncated"
proof (induction s arbitrary: out rule: lossy.induct)
  case (1 s)
  from "1.prems" show ?case
    by (subst (asm) lossy.simps)
       (auto split: if_splits utf8_scan.splits prod.splits dest: "1.IH")
qed

lemma lossy_append:
  "lossy s = (out1, p) \<Longrightarrow> lossy (p @ t) = (out2, q) \<Longrightarrow> lossy (s @ t) = (out1 @ out2, q)"
proof (induction s arbitrary: out1 rule: lossy.induct)
  case (1 s)
  show ?case
  proof (cases "s = []")
    case True
    with "1.prems" show ?thesis by simp
  next
    case False
    show ?thesis
    proof (cases "scan s")
      case (Scalar k)
      obtain o' where o': "lossy (drop k s) = (o', p)" "out1 = take k s @ o'"
        using "1.prems"(1) False Scalar by (subst (asm) lossy.simps) (auto split: prod.splits)
      have "lossy (drop k s @ t) = (o' @ out2, q)"
        using "1.IH"(1) [OF False Scalar o'(1) "1.prems"(2)] .
      with False Scalar scan_Scalar_bounds [OF Scalar] o' show ?thesis
        by (subst lossy.simps) (simp add: scan_append)
    next
      case (Malformed k)
      obtain o' where o': "lossy (drop k s) = (o', p)" "out1 = replacement_char @ o'"
        using "1.prems"(1) False Malformed by (subst (asm) lossy.simps) (auto split: prod.splits)
      have "lossy (drop k s @ t) = (o' @ out2, q)"
        using "1.IH"(2) [OF False Malformed o'(1) "1.prems"(2)] .
      with False Malformed scan_Malformed_bounds [OF Malformed] o' show ?thesis
        by (subst lossy.simps) (simp add: scan_append)
    next
      case Truncated
      with "1.prems" False show ?thesis by (subst (asm) lossy.simps) auto
    qed
  qed
qed

lemma lossy_valid: "lossy s = (out, p) \<Longrightarrow> valid_utf8 out"
proof (induction s arbitrary: out rule: lossy.induct)
  case (1 s)
  from "1.prems" show ?case
    by (subst (asm) lossy.simps)
       (auto split: if_splits utf8_scan.splits prod.splits
         intro!: valid_utf8_append valid_utf8_scalar_prefix dest: "1.IH")
qed

lemma lossy_of_valid: "valid_utf8 s \<Longrightarrow> lossy s = (s, [])"
  by (simp add: lossy_from_utf8 valid_utf8_def)

section \<open>The decoder as a chunk decoder\<close>

definition decoder_inv :: "decoder \<Rightarrow> bool" where
  "decoder_inv d \<longleftrightarrow> pending d = [] \<or> scan (pending d) = Truncated"

lemma decoder_push_lossy:
  "decoder_push d bs =
     (fst (lossy (pending d @ bs)), d\<lparr>pending := snd (lossy (pending d @ bs))\<rparr>)"
  by (simp add: decoder_push_def push_loop_lossy split: prod.splits)

lemma lossy_pending_idem: "p = [] \<or> scan p = Truncated \<Longrightarrow> lossy p = ([], p)"
  by (subst lossy.simps) auto

lemma decoder_inv_default [simp]: "decoder_inv decoder_default"
  by (simp add: decoder_inv_def decoder_default_def)

interpretation utf8dec: chunk_decoder decoder_inv decoder_push
proof unfold_locales
  fix s :: decoder and xs out s'
  assume "decoder_inv s" "decoder_push s xs = (out, s')"
  then show "decoder_inv s'"
    using lossy_pending_scan [OF prod.collapse [symmetric], of "pending s @ xs"]
    by (auto simp: decoder_push_lossy decoder_inv_def)
next
  fix s :: decoder
  assume "decoder_inv s"
  then have "lossy (pending s) = ([], pending s)"
    by (simp add: decoder_inv_def lossy_pending_idem)
  then show "decoder_push s [] = ([], s)" by (simp add: decoder_push_lossy)
next
  fix s :: decoder and xs o1 s1 ys o2 s2
  assume 1: "decoder_push s xs = (o1, s1)" and 2: "decoder_push s1 ys = (o2, s2)"
  from 1 have l1: "lossy (pending s @ xs) = (o1, pending s1)" "s1 = s\<lparr>pending := pending s1\<rparr>"
    by (auto simp: decoder_push_lossy)
  from 2 have l2: "lossy (pending s1 @ ys) = (o2, pending s2)" "s2 = s1\<lparr>pending := pending s2\<rparr>"
    by (auto simp: decoder_push_lossy)
  from lossy_append [OF l1(1) l2(1)] have
    "lossy (pending s @ xs @ ys) = (o1 @ o2, pending s2)" by simp
  with l1(2) l2(2) show "decoder_push s (xs @ ys) = (o1 @ o2, s2)"
    by (simp add: decoder_push_lossy)
qed

lemma decode_stream_concat:
  "decode_stream chunks =
     (let (out, p) = lossy (concat chunks) in out @ (if p = [] then [] else replacement_char))"
proof -
  have "feed_all decoder_push decoder_default chunks = decoder_push decoder_default (concat chunks)"
    by (simp add: utf8dec.feed_all_concat)
  then show ?thesis
    by (simp add: decode_stream_def decoder_push_lossy decoder_finish_def decoder_default_def
        split: prod.splits)
qed

lemma decoder_inv_pending_bound: "decoder_inv d \<Longrightarrow> length (pending d) \<le> 3"
  by (auto simp: decoder_inv_def dest: scan_Truncated_bound)

section \<open>Properties\<close>

text \<open>
  C11: the text decoded from the PTY does not depend on where the reads cut the byte stream:
  pushing any sequence of chunks and finishing yields what one push of their concatenation yields.
\<close>

theorem utf8_decode_chunk_independent: "decode_stream chunks = decode_stream [concat chunks]"
  by (simp add: decode_stream_concat)

text \<open>
  valid UTF-8 passes through the decoder unchanged, however it is cut into chunks (also inside
  a multi-byte scalar).
\<close>

theorem utf8_decode_valid_identity:
  "valid_utf8 (concat chunks) \<Longrightarrow> decode_stream chunks = concat chunks"
  by (simp add: decode_stream_concat lossy_of_valid)

theorem utf8_decode_valid_identity_witness:
  "decode_stream [[CHR 0xE2], [CHR 0x82, CHR 0xAC, CHR ''a'']] = [CHR 0xE2, CHR 0x82, CHR 0xAC, CHR ''a'']"
  using utf8_decode_valid_identity [of "[[CHR 0xE2], [CHR 0x82, CHR 0xAC, CHR ''a'']]"]
  by (simp add: valid_utf8_def from_utf8.simps scan_def second_ok3_def is_cont_def)

text \<open>
  at every moment the decoder keeps at most three undecoded bytes (the \<^verbatim>\<open>debug_assert!\<close> of
  \<^verbatim>\<open>push\<close>), and everything it emits, malformed input included, is valid UTF-8.
\<close>

theorem utf8_decoder_bounded_and_sound:
  "length (pending (snd (feed_all decoder_push decoder_default chunks))) \<le> 3 \<and>
   valid_utf8 (decode_stream chunks)"
proof
  show "length (pending (snd (feed_all decoder_push decoder_default chunks))) \<le> 3"
    using utf8dec.inv_feed_all [OF decoder_inv_default prod.collapse [symmetric]]
    by (rule decoder_inv_pending_bound)
  show "valid_utf8 (decode_stream chunks)"
    using lossy_valid [OF prod.collapse [symmetric], of "concat chunks"]
    by (auto simp: decode_stream_concat intro: valid_utf8_append split: prod.splits)
qed

end
