(* ===== verification/Publisher_Server.thy ===== *)
theory Publisher_Server
  imports Publisher_Wire Utf8_Stream
begin

text \<open>
  The publisher daemon's handling of one connection (\<^verbatim>\<open>src/publisher/server.rs\<close>) with the git and
  GitHub operations it uses (\<^verbatim>\<open>src/publisher/github.rs\<close>).  What the daemon does to the outside is a
  trace of effects; what the outside answers (processes, files, GitHub, JSON, clocks, random
  numbers) is the record \<open>server_env\<close>, and git's answers may depend on everything done before.
\<close>

section \<open>Effects\<close>

record create_pull_request_payload =
  cp_title :: rstr
  cp_body :: rstr
  cp_head :: rstr
  cp_base :: rstr
  cp_draft :: bool

datatype effect =
    SockWrite rstr
  | SockShutdown
  | MintToken nat rstr nat
  | WriteScript rstr rstr
  | GitPlain rstr "rstr list"
  | GitWithToken rstr rstr rstr "rstr list"
  | PostPull rstr rstr create_pull_request_payload

type_synonym 'a io = "effect list \<Rightarrow> effect list \<times> 'a res"

definition io_lift :: "'a res \<Rightarrow> 'a io" where
  "io_lift r = (\<lambda>t. (t, r))"

definition io_act :: "effect \<Rightarrow> 'a res \<Rightarrow> 'a io" where
  "io_act e r = (\<lambda>t. (t @ [e], r))"

definition io_bind :: "'a io \<Rightarrow> ('a \<Rightarrow> 'b io) \<Rightarrow> 'b io" where
  "io_bind m f = (\<lambda>t. case m t of (t', Inl e) \<Rightarrow> (t', Inl e) | (t', Inr x) \<Rightarrow> f x t')"

definition io_ctx :: "rstr \<Rightarrow> 'a io \<Rightarrow> 'a io" where
  "io_ctx msg m = (\<lambda>t. case m t of (t', r) \<Rightarrow> (t', with_ctx msg r))"

text \<open>\<open>match m { Ok(x) => ok(x), Err(e) => err(e) }\<close>.\<close>

definition io_match :: "'a io \<Rightarrow> ('a \<Rightarrow> 'b io) \<Rightarrow> (rstr \<Rightarrow> 'b io) \<Rightarrow> 'b io" where
  "io_match m ok err = (\<lambda>t. case m t of (t', Inl e) \<Rightarrow> err e t' | (t', Inr x) \<Rightarrow> ok x t')"

record process_output =
  out_code :: "nat option"
  out_stdout :: rstr
  out_stderr :: rstr

record http_response =
  hr_success :: bool
  hr_status :: rstr
  hr_body :: rstr

record server_env =
  env_mode_file :: "rstr res"
  env_mode_json :: "rstr \<Rightarrow> github_mode_record res"
  env_clock1 :: "nat option"
  env_clock2 :: "nat option"
  env_request_json :: "rstr \<Rightarrow> publisher_request res"
  env_error_json :: "rstr \<Rightarrow> rstr res"
  env_response_json :: "publisher_response \<Rightarrow> rstr res"
  env_spool :: spool_io
  env_mint :: "nat \<Rightarrow> rstr \<Rightarrow> nat \<Rightarrow> rstr res"
  env_tempdir :: "rstr res"
  env_script_create :: "rstr \<Rightarrow> unit res"
  env_script_write :: "rstr \<Rightarrow> unit res"
  env_script_chmod :: "rstr \<Rightarrow> unit res"
  env_git :: "effect list \<Rightarrow> rstr list \<Rightarrow> process_output res"
  env_header_value :: "rstr \<Rightarrow> rstr res"
  env_post :: "rstr \<Rightarrow> create_pull_request_payload \<Rightarrow> http_response res"
  env_pull_json :: "rstr \<Rightarrow> (rstr \<times> nat) res"
  env_now :: nat
  env_sample :: rstr
  env_sock_write :: "rstr \<Rightarrow> unit res"
  env_sock_shutdown :: "unit res"

section \<open>Git and GitHub\<close>

definition github_repo_https_url :: "rstr \<Rightarrow> rstr" where
  "github_repo_https_url repo = ''https://github.com/'' @ repo @ ''.git''"

definition check_command_output :: "rstr \<Rightarrow> rstr list \<Rightarrow> process_output \<Rightarrow> rstr res" where
  "check_command_output program args output =
     (let stdout = from_utf8_lossy (out_stdout output);
          stderr = from_utf8_lossy (out_stderr output)
      in if out_code output = Some 0 then Inr stdout
         else
           let status = (case out_code output of None \<Rightarrow> ''terminated by signal'' | Some code \<Rightarrow> show_nat code);
               details = (if trim stderr = [] then trim stdout else trim stderr)
           in Inl (program @ '' '' @ join_with '' '' args @ '' failed (status: '' @ status @ '')'' @ [nl] @ details))"

definition git_plain :: "server_env \<Rightarrow> rstr \<Rightarrow> rstr list \<Rightarrow> rstr io" where
  "git_plain env cwd args = (\<lambda>t.
     (t @ [GitPlain cwd args],
      and_then (with_ctx (''failed to run git '' @ join_with '' '' args) (env_git env t args))
        (check_command_output ''git'' args)))"

definition git_with_token :: "server_env \<Rightarrow> rstr \<Rightarrow> rstr \<Rightarrow> rstr \<Rightarrow> rstr list \<Rightarrow> rstr io" where
  "git_with_token env cwd token askpass_path args = (\<lambda>t.
     (t @ [GitWithToken cwd token askpass_path args],
      and_then (with_ctx (''failed to run authenticated git '' @ join_with '' '' args) (env_git env t args))
        (check_command_output ''git'' args)))"

definition clone_repo_with_token :: "server_env \<Rightarrow> rstr \<Rightarrow> rstr \<Rightarrow> rstr \<Rightarrow> rstr \<Rightarrow> rstr io" where
  "clone_repo_with_token env parent_dir token askpass_path repo =
     (let repo_dir = parent_dir @ ''/repo'' in
      io_bind (git_with_token env parent_dir token askpass_path
                 [''clone'', ''--quiet'', ''--no-checkout'', github_repo_https_url repo, repo_dir])
        (\<lambda>_. io_lift (Inr repo_dir)))"

definition askpass_script :: rstr where
  "askpass_script =
     join_with [nl]
       [[CHR 35] @ ''!/usr/bin/env bash'',
        ''case '' @ [CHR 34] @ ''$1'' @ [CHR 34] @ '' in'',
        ''  *Username*) printf '' @ [CHR 39] @ ''%s'' @ [CHR 92] @ ''n'' @ [CHR 39] @ '' '' @ [CHR 34]
          @ ''x-access-token'' @ [CHR 34] @ '' ;;'',
        ''  *Password*) printf '' @ [CHR 39] @ ''%s'' @ [CHR 92] @ ''n'' @ [CHR 39] @ '' '' @ [CHR 34]
          @ ''${GITHUB_APP_TOKEN}'' @ [CHR 34] @ '' ;;'',
        ''  *) printf '' @ [CHR 39, CHR 92] @ ''n'' @ [CHR 39] @ '' ;;'',
        ''esac'',
        []]"

definition write_askpass_script :: "server_env \<Rightarrow> rstr \<Rightarrow> rstr io" where
  "write_askpass_script env dir =
     (let script_path = dir @ ''/git-askpass.sh'' in
      io_bind (io_lift (with_ctx (''failed to create '' @ script_path) (env_script_create env script_path)))
        (\<lambda>_. io_bind (io_act (WriteScript script_path askpass_script)
                 (with_ctx (''failed to write '' @ script_path) (env_script_write env script_path)))
        (\<lambda>_. io_bind (io_lift (with_ctx (''failed to chmod '' @ script_path) (env_script_chmod env script_path)))
        (\<lambda>_. io_lift (Inr script_path)))))"

definition mint_publisher_installation_token :: "server_env \<Rightarrow> nat \<Rightarrow> rstr \<Rightarrow> nat \<Rightarrow> rstr io" where
  "mint_publisher_installation_token env app_id key_path installation_id =
     io_act (MintToken app_id key_path installation_id) (env_mint env app_id key_path installation_id)"

definition create_pull_request ::
  "server_env \<Rightarrow> rstr \<Rightarrow> rstr \<Rightarrow> rstr \<Rightarrow> rstr \<Rightarrow> rstr \<Rightarrow> rstr \<Rightarrow> bool \<Rightarrow> publish_pr_response io" where
  "create_pull_request env token repo base branch title body draft =
     (let payload = \<lparr>cp_title = title, cp_body = body, cp_head = branch, cp_base = base, cp_draft = draft\<rparr>;
          url = ''https://api.github.com/repos/'' @ repo @ ''/pulls''
      in io_bind (io_lift (with_ctx ''failed to build authorization header''
                    (env_header_value env (''Bearer '' @ token))))
         (\<lambda>_. io_bind (io_act (PostPull token repo payload)
                 (with_ctx ''failed to create GitHub pull request'' (env_post env url payload)))
         (\<lambda>response.
            if \<not> hr_success response then
              io_lift (Inl (''GitHub pull request creation failed ('' @ hr_status response @ ''): '' @ hr_body response))
            else io_bind (io_lift (with_ctx ''failed to decode GitHub pull request response''
                           (env_pull_json env (hr_body response))))
              (\<lambda>(html_url, number). io_lift (Inr
                 \<lparr>prr_pr_url = html_url, prr_branch = branch, prr_pull_number = number\<rparr>)))))"

section \<open>Requests\<close>

definition IMPORTED_REF :: rstr where
  "IMPORTED_REF = ''refs/heads/__zodex_imported''"

definition DIRECT_PUSH_IMPORTED_REF :: rstr where
  "DIRECT_PUSH_IMPORTED_REF = ''refs/zodex/direct-push''"

definition direct_push_no_source :: rstr where
  "direct_push_no_source =
     ''direct push bundle is empty and no source object id was provided; this usually means the pushed ref points to an object already present on the remote''"

datatype validated_publisher_request =
    ValidPublishPr publish_pr_request publish_target nat
  | ValidDirectPush direct_push_request publish_target nat



definition validate_publisher_request_before_body ::
  "server_env \<Rightarrow> config \<Rightarrow> publisher_request \<Rightarrow> nat \<Rightarrow> validated_publisher_request res" where
  "validate_publisher_request_before_body env cfg request bundle_len =
     (if publisher_max_bundle_bytes cfg < bundle_len then
        Inl (limit_error ''publisher bundle exceeds configured limit'' bundle_len (publisher_max_bundle_bytes cfg))
      else case request of
        PublishPr request \<Rightarrow>
          if bundle_len = 0 then Inl ''publish bundle cannot be empty''
          else and_then (validate_publish_request cfg request)
            (\<lambda>target. Inr (ValidPublishPr request target bundle_len))
      | DirectPush request \<Rightarrow>
          if dp_src request = [] \<and> bundle_len \<noteq> 0 then
            Inl ''direct push deletion request cannot include a bundle''
          else if dp_src request \<noteq> [] \<and> bundle_len = 0 \<and> dp_src_oid request = None then
            Inl direct_push_no_source
          else and_then (validate_direct_push_request (env_mode_file env) (env_mode_json env)
                           (env_clock1 env) (env_clock2 env) cfg request)
            (\<lambda>target. Inr (ValidDirectPush request target bundle_len)))"

definition read_and_validate_publisher_metadata ::
  "server_env \<Rightarrow> config \<Rightarrow> sock \<Rightarrow> (validated_publisher_request \<times> sock) res" where
  "read_and_validate_publisher_metadata env cfg cs =
     and_then (with_ctx ''failed to read publisher frame header'' (read_exact PUBLISHER_WIRE_HEADER_BYTES cs))
     (\<lambda>(header_bytes, cs1). and_then (decode_publisher_wire_header header_bytes)
     (\<lambda>header.
        if publisher_max_bundle_bytes cfg < wh_bundle_len header then
          Inl (limit_error ''publisher bundle exceeds configured limit'' (wh_bundle_len header)
                 (publisher_max_bundle_bytes cfg))
        else and_then (with_ctx ''failed to read publisher metadata'' (read_exact (wh_metadata_len header) cs1))
        (\<lambda>(metadata, cs2). and_then (decode_publisher_metadata (env_request_json env) metadata)
        (\<lambda>request. and_then (validate_publisher_request_before_body env cfg request (wh_bundle_len header))
        (\<lambda>v. Inr (v, cs2))))))"

definition handle_direct_push_request ::
  "server_env \<Rightarrow> config \<Rightarrow> direct_push_request \<Rightarrow> publish_target \<Rightarrow> rstr option \<Rightarrow> direct_push_response io" where
  "handle_direct_push_request env cfg request target bundle_path =
     io_bind (io_lift (ok_or (publisher_app_id cfg) ''publisher_app_id is not configured''))
     (\<lambda>app_id. io_bind (mint_publisher_installation_token env app_id (publisher_private_key_path cfg)
                          (pt_installation_id target))
     (\<lambda>token. io_bind (io_lift (with_ctx ''failed to create publisher tempdir'' (env_tempdir env)))
     (\<lambda>tempdir. io_bind (write_askpass_script env tempdir)
     (\<lambda>askpass_path. io_bind (clone_repo_with_token env tempdir token askpass_path (pt_repo target))
     (\<lambda>repo_dir. io_bind
        (if dp_src request = [] then
           git_with_token env repo_dir token askpass_path
             [''push'', github_repo_https_url (pt_repo target), '':'' @ dp_dst request]
         else
           io_bind (case bundle_path of
               Some path \<Rightarrow>
                 io_bind (git_plain env repo_dir
                   [''fetch'', path, dp_src request @ '':'' @ DIRECT_PUSH_IMPORTED_REF])
                   (\<lambda>_. io_lift (Inr DIRECT_PUSH_IMPORTED_REF))
             | None \<Rightarrow>
                 io_bind (io_lift (ok_or (dp_src_oid request) direct_push_no_source))
                 (\<lambda>src_oid. io_bind (io_lift (validate_git_object_id src_oid))
                 (\<lambda>_. io_bind (io_ctx (''direct push source object '' @ src_oid
                       @ '' is not present in the publisher clone; retry after pushing the containing branch or include the object in the push bundle'')
                     (git_plain env repo_dir [''cat-file'', ''-e'', src_oid @ ''^{object}'']))
                 (\<lambda>_. io_lift (Inr src_oid)))))
           (\<lambda>push_src.
              let refspec = (if dp_force request then ''+'' @ push_src @ '':'' @ dp_dst request
                             else push_src @ '':'' @ dp_dst request)
              in git_with_token env repo_dir token askpass_path
                   [''push'', github_repo_https_url (pt_repo target), refspec]))
     (\<lambda>_. io_lift (Inr \<lparr>dpr_repo = pt_repo target, dpr_dst = dp_dst request\<rparr>)))))))"

definition handle_publish_request ::
  "server_env \<Rightarrow> config \<Rightarrow> publish_pr_request \<Rightarrow> publish_target \<Rightarrow> rstr \<Rightarrow> publish_pr_response io" where
  "handle_publish_request env cfg request target bundle_path =
     io_bind (io_lift (ok_or (publisher_app_id cfg) ''publisher_app_id is not configured''))
     (\<lambda>app_id. io_bind (mint_publisher_installation_token env app_id (publisher_private_key_path cfg)
                          (pt_installation_id target))
     (\<lambda>token. io_bind (io_lift (with_ctx ''failed to create publisher tempdir'' (env_tempdir env)))
     (\<lambda>tempdir. io_bind (write_askpass_script env tempdir)
     (\<lambda>askpass_path.
        let repo_dir = tempdir @ ''/repo'';
            branch = build_publish_branch_name (env_now env) (env_sample env) (publisher_branch_prefix cfg)
        in io_bind (git_with_token env tempdir token askpass_path
              [''clone'', ''--quiet'', github_repo_https_url (pt_repo target), repo_dir])
        (\<lambda>_. io_bind (git_plain env repo_dir [''fetch'', bundle_path, ''HEAD:'' @ IMPORTED_REF])
        (\<lambda>_. io_bind (git_plain env repo_dir [''checkout'', ''-B'', branch, IMPORTED_REF])
        (\<lambda>_. io_bind (git_with_token env repo_dir token askpass_path
              [''push'', ''origin'', ''HEAD:refs/heads/'' @ branch])
        (\<lambda>_. create_pull_request env token (pt_repo target)
              (unwrap_or (pr_base request) (pt_default_base target)) branch (pr_title request)
              (pr_body request) (pr_draft request)))))))))"

section \<open>Connections\<close>








text \<open>
  The client.  \<open>bundle\<close> is the bundle file, if any: the length \<^verbatim>\<open>metadata\<close> reports for it and the
  contents it has when it is streamed; \<open>cl_replies\<close> is what the daemon sends back.
\<close>

record bundle_file =
  bf_path :: rstr
  bf_stat :: "nat res"
  bf_contents :: "rstr res"

record client_env =
  cl_socket_path :: rstr
  cl_request_json :: "publisher_request \<Rightarrow> rstr res"
  cl_error_json :: "rstr \<Rightarrow> rstr res"
  cl_response_json :: "rstr \<Rightarrow> publisher_response res"
  cl_connect :: "unit res"
  cl_write :: "rstr \<Rightarrow> unit res"
  cl_shutdown :: "unit res"
  cl_replies :: sock

definition cl_send :: "client_env \<Rightarrow> rstr \<Rightarrow> rstr \<Rightarrow> unit io" where
  "cl_send env ctx bytes = io_act (SockWrite bytes) (with_ctx ctx (cl_write env bytes))"

fun sock_read_to_end :: "nat \<Rightarrow> sock \<Rightarrow> rstr res" where
  "sock_read_to_end n [] = Inr []"
| "sock_read_to_end n (Inl e # cs) = (if n = 0 then Inr [] else Inl e)"
| "sock_read_to_end n (Inr d # cs) =
     (if n = 0 \<or> d = [] then Inr []
      else and_then (sock_read_to_end (n - length d) cs) (\<lambda>rest. Inr (take n d @ rest)))"

definition submit_publisher_request_frame ::
  "client_env \<Rightarrow> nat \<Rightarrow> publisher_request \<Rightarrow> bundle_file option \<Rightarrow> rstr io" where
  "submit_publisher_request_frame env max_bundle_bytes request bundle =
     io_bind (io_lift (encode_publisher_metadata (cl_request_json env) request))
     (\<lambda>metadata. io_bind (io_lift (case bundle of
          Some file \<Rightarrow> with_ctx (''failed to stat publisher bundle '' @ bf_path file) (bf_stat file) | None \<Rightarrow> Inr 0))
     (\<lambda>bundle_len.
        if max_bundle_bytes < bundle_len then
          io_lift (Inl (limit_error ''publisher bundle exceeds configured limit'' bundle_len max_bundle_bytes))
        else io_bind (io_lift (encode_publisher_wire_header (length metadata) bundle_len))
        (\<lambda>header. io_bind (io_lift (with_ctx (''failed to connect to publisher socket '' @ cl_socket_path env) (cl_connect env)))
        (\<lambda>_. io_bind (cl_send env ''failed to write publisher frame header'' header)
        (\<lambda>_. io_bind (cl_send env ''failed to write publisher metadata'' metadata)
        (\<lambda>_. io_bind (io_lift (read_publisher_metadata_ack (cl_error_json env) (cl_replies env)))
        (\<lambda>(ack, replies).
           case ack of
             Some error \<Rightarrow> io_lift (Inl error)
           | None \<Rightarrow>
               io_bind (case bundle of
                   Some file \<Rightarrow>
                     io_bind (io_lift (with_ctx (''failed to open publisher bundle '' @ bf_path file) (bf_contents file)))
                     (\<lambda>contents. let (sent, outcome) = stream_bundle_file contents bundle_len in
                        io_bind (cl_send env ''failed to stream publisher bundle'' sent) (\<lambda>_. io_lift outcome))
                 | None \<Rightarrow> io_lift (Inr ()))
               (\<lambda>_. io_bind (io_act SockShutdown
                       (with_ctx ''failed to close publisher request stream'' (cl_shutdown env)))
               (\<lambda>_. io_bind (io_lift (with_ctx ''failed to read publisher response''
                               (sock_read_to_end (MAX_PUBLISHER_RESPONSE_BYTES + 1) replies)))
               (\<lambda>response_buf.
                  if response_buf = [] then io_lift (Inl ''publisher returned an empty response'')
                  else if MAX_PUBLISHER_RESPONSE_BYTES < length response_buf then
                    io_lift (Inl ''publisher response exceeds local size limit'')
                  else (case cl_error_json env response_buf of
                      Inr error \<Rightarrow> io_lift (Inl error)
                    | Inl _ \<Rightarrow> io_lift (Inr response_buf))))))))))))"

definition submit_publish_request ::
  "client_env \<Rightarrow> (rstr \<Rightarrow> publish_pr_response res) \<Rightarrow> nat \<Rightarrow> publish_pr_request
    \<Rightarrow> bundle_file \<Rightarrow> publish_pr_response io" where
  "submit_publish_request env bare_json max_bundle_bytes request bundle =
     io_bind (submit_publisher_request_frame env max_bundle_bytes (PublishPr request) (Some bundle))
     (\<lambda>response. io_lift (case cl_response_json env response of
          Inr (PublishPrResp r) \<Rightarrow> Inr r
        | Inr (DirectPushResp _) \<Rightarrow> Inl ''publisher returned unexpected response type''
        | Inl _ \<Rightarrow> with_ctx ''failed to decode publish response'' (bare_json response)))"

definition submit_direct_push_request ::
  "client_env \<Rightarrow> (rstr \<Rightarrow> direct_push_response res) \<Rightarrow> nat \<Rightarrow> direct_push_request
    \<Rightarrow> bundle_file option \<Rightarrow> direct_push_response io" where
  "submit_direct_push_request env bare_json max_bundle_bytes request bundle =
     io_bind (submit_publisher_request_frame env max_bundle_bytes (DirectPush request) bundle)
     (\<lambda>response. io_lift (case cl_response_json env response of
          Inr (DirectPushResp r) \<Rightarrow> Inr r
        | Inr (PublishPrResp _) \<Rightarrow> Inl ''publisher returned unexpected response type''
        | Inl _ \<Rightarrow> with_ctx ''failed to decode direct push response'' (bare_json response)))"

section \<open>Reasoning about traces\<close>

text \<open>\<open>emits P m\<close>: \<open>m\<close> only appends effects that satisfy \<open>P\<close>.\<close>

named_theorems emits_intro

definition emits :: "(effect \<Rightarrow> bool) \<Rightarrow> 'a io \<Rightarrow> bool" where
  "emits P m \<longleftrightarrow> (\<forall>t. \<exists>new r. m t = (t @ new, r) \<and> list_all P new)"

lemma emits_lift [emits_intro]: "emits P (io_lift r)"
  by (auto simp: emits_def io_lift_def intro: exI [of _ "[]"])

lemma emits_act [emits_intro]: "P e \<Longrightarrow> emits P (io_act e r)"
  by (simp add: emits_def io_act_def)

lemma emits_bind [emits_intro]:
  assumes "emits P m" "\<And>x. emits P (f x)"
  shows "emits P (io_bind m f)"
  unfolding emits_def
proof
  fix t
  obtain new r where m: "m t = (t @ new, r)" "list_all P new" using assms(1) unfolding emits_def by blast
  show "\<exists>new r. io_bind m f t = (t @ new, r) \<and> list_all P new"
  proof (cases r)
    case (Inl e)
    with m show ?thesis by (simp add: io_bind_def)
  next
    case (Inr x)
    obtain new' r' where "f x (t @ new) = ((t @ new) @ new', r')" "list_all P new'"
      using assms(2) [of x] unfolding emits_def by blast
    with m Inr show ?thesis by (simp add: io_bind_def)
  qed
qed

lemma emits_match [emits_intro]:
  assumes "emits P m" "\<And>x. emits P (f x)" "\<And>e. emits P (g e)"
  shows "emits P (io_match m f g)"
  unfolding emits_def
proof
  fix t
  obtain new r where m: "m t = (t @ new, r)" "list_all P new" using assms(1) unfolding emits_def by blast
  obtain k where k: "io_match m f g t = k (t @ new)" "emits P k"
    using assms(2,3) m(1) by (cases r) (auto simp: io_match_def)
  obtain new' r' where "k (t @ new) = ((t @ new) @ new', r')" "list_all P new'"
    using k(2) unfolding emits_def by blast
  with m k(1) show "\<exists>new r. io_match m f g t = (t @ new, r) \<and> list_all P new" by simp
qed

lemma emits_ctx [emits_intro]:
  assumes "emits P m"
  shows "emits P (io_ctx msg m)"
  unfolding emits_def
proof
  fix t
  obtain new r where "m t = (t @ new, r)" "list_all P new" using assms unfolding emits_def by blast
  then show "\<exists>new r. io_ctx msg m t = (t @ new, r) \<and> list_all P new" by (simp add: io_ctx_def)
qed

lemma emits_git [emits_intro]:
  "P (GitPlain cwd args) \<Longrightarrow> emits P (git_plain env cwd args)"
  "P (GitWithToken cwd token askpass args) \<Longrightarrow> emits P (git_with_token env cwd token askpass args)"
  by (simp_all add: emits_def git_plain_def git_with_token_def)

lemma emits_trace: "emits P m \<Longrightarrow> list_all P t \<Longrightarrow> list_all P (fst (m t))"
  unfolding emits_def by (metis fst_conv list_all_append)

lemma io_bind_Inr:
  "io_bind m f t = (t', Inr y) \<longleftrightarrow> (\<exists>t1 x. m t = (t1, Inr x) \<and> f x t1 = (t', Inr y))"
  by (auto simp: io_bind_def split: prod.splits sum.splits)

lemma io_lift_Inr: "io_lift r t = (t', Inr y) \<longleftrightarrow> t' = t \<and> r = Inr y"
  by (auto simp: io_lift_def)

lemma io_act_Inr: "io_act e r t = (t', Inr y) \<longleftrightarrow> t' = t @ [e] \<and> r = Inr y"
  by (auto simp: io_act_def)

lemma git_Inr:
  "git_plain env cwd args t = (t', Inr out) \<Longrightarrow> t' = t @ [GitPlain cwd args]"
  "git_with_token env cwd token askpass args t = (t', Inr out) \<Longrightarrow> t' = t @ [GitWithToken cwd token askpass args]"
  by (auto simp: git_plain_def git_with_token_def)

lemmas io_Inr = io_bind_Inr io_lift_Inr io_act_Inr




section \<open>What the handlers do\<close>

text \<open>
  What a direct push may do: mint a token for its target's installation, write the askpass helper, run
  local git commands, and use the token only to clone or push to the target's own URL, the push
  going to the requested destination.
\<close>

definition direct_push_effect ::
  "config \<Rightarrow> direct_push_request \<Rightarrow> publish_target \<Rightarrow> effect \<Rightarrow> bool" where
  "direct_push_effect cfg request target e =
     (case e of
        MintToken app key inst \<Rightarrow>
          publisher_app_id cfg = Some app \<and> key = publisher_private_key_path cfg \<and> inst = pt_installation_id target
      | WriteScript _ script \<Rightarrow> script = askpass_script
      | GitPlain _ args \<Rightarrow> args \<noteq> [] \<and> hd args \<in> {''fetch'', ''cat-file''}
      | GitWithToken _ _ _ args \<Rightarrow>
          (\<exists>dir. args = [''clone'', ''--quiet'', ''--no-checkout'', github_repo_https_url (pt_repo target), dir]) \<or>
          (\<exists>src. args = [''push'', github_repo_https_url (pt_repo target), src @ '':'' @ dp_dst request])
      | _ \<Rightarrow> False)"

definition publish_effect ::
  "config \<Rightarrow> rstr \<Rightarrow> publish_pr_request \<Rightarrow> publish_target \<Rightarrow> effect \<Rightarrow> bool" where
  "publish_effect cfg branch request target e =
     (case e of
        MintToken app key inst \<Rightarrow>
          publisher_app_id cfg = Some app \<and> key = publisher_private_key_path cfg \<and> inst = pt_installation_id target
      | WriteScript _ script \<Rightarrow> script = askpass_script
      | GitPlain _ args \<Rightarrow> args \<noteq> [] \<and> hd args \<in> {''fetch'', ''checkout''}
      | GitWithToken _ _ _ args \<Rightarrow>
          (\<exists>dir. args = [''clone'', ''--quiet'', github_repo_https_url (pt_repo target), dir]) \<or>
          args = [''push'', ''origin'', ''HEAD:refs/heads/'' @ branch]
      | PostPull _ repo payload \<Rightarrow>
          repo = pt_repo target \<and> cp_head payload = branch \<and>
          cp_base payload = unwrap_or (pr_base request) (pt_default_base target)
      | _ \<Rightarrow> False)"

lemma emits_bind_app_id:
  assumes "\<And>app. publisher_app_id cfg = Some app \<Longrightarrow> emits P (f app)"
  shows "emits P (io_bind (io_lift (ok_or (publisher_app_id cfg) msg)) f)"
  using assms
  by (cases "publisher_app_id cfg") (auto simp: emits_def io_bind_def io_lift_def ok_or_def)

lemma emits_script:
  "P (WriteScript (dir @ ''/git-askpass.sh'') askpass_script) \<Longrightarrow> emits P (write_askpass_script env dir)"
  by (auto simp: write_askpass_script_def Let_def intro!: emits_intro)

lemma emits_direct_push:
  "emits (direct_push_effect cfg request target) (handle_direct_push_request env cfg request target path)"
  unfolding handle_direct_push_request_def mint_publisher_installation_token_def clone_repo_with_token_def Let_def
  by (cases path; cases "dp_force request"; cases "dp_src request = []")
     (auto simp: direct_push_effect_def intro!: emits_intro emits_bind_app_id emits_script
        intro: exI [of _ "[]"] exI [of _ "''+'' @ x" for x])

lemma emits_publish:
  "emits (publish_effect cfg (build_publish_branch_name (env_now env) (env_sample env) (publisher_branch_prefix cfg))
     request target) (handle_publish_request env cfg request target path)"
  unfolding handle_publish_request_def mint_publisher_installation_token_def create_pull_request_def Let_def
  by (auto simp: publish_effect_def split: prod.splits intro!: emits_intro emits_bind_app_id emits_script)

lemma direct_push_result:
  assumes "handle_direct_push_request env cfg request target path t = (t', Inr resp)"
  shows "\<exists>cwd token askpass. last t' = GitWithToken cwd token askpass
      [''push'', github_repo_https_url (pt_repo target),
       (if dp_src request = [] then []
        else (if dp_force request then ''+'' else []) @
          (case path of Some _ \<Rightarrow> DIRECT_PUSH_IMPORTED_REF | None \<Rightarrow> the (dp_src_oid request)))
       @ '':'' @ dp_dst request]
    \<and> resp = \<lparr>dpr_repo = pt_repo target, dpr_dst = dp_dst request\<rparr>"
  using assms
  unfolding handle_direct_push_request_def Let_def
  by (cases path; cases "dp_src request = []")
     (auto simp: io_Inr dest!: git_Inr(2))





section \<open>Properties\<close>


text \<open>
  C28: a direct push uses its token only to clone and push to the target's own URL, only ever pushes
  to the requested destination ref, and reports success only when the last thing it did was
  that push: a deletion for an empty source, otherwise the imported ref or the given object id,
  with a leading \<^verbatim>\<open>+\<close> exactly when force was requested.
\<close>

theorem direct_push_stays_on_target:
  "list_all (direct_push_effect cfg request target)
     (fst (handle_direct_push_request env cfg request target path [])) \<and>
   (case handle_direct_push_request env cfg request target path [] of
      (trace, Inl _) \<Rightarrow> True
    | (trace, Inr resp) \<Rightarrow>
        resp = \<lparr>dpr_repo = pt_repo target, dpr_dst = dp_dst request\<rparr> \<and>
        (\<exists>cwd token askpass. last trace = GitWithToken cwd token askpass
           [''push'', github_repo_https_url (pt_repo target),
            (if dp_src request = [] then []
             else (if dp_force request then ''+'' else []) @
               (case path of Some _ \<Rightarrow> DIRECT_PUSH_IMPORTED_REF | None \<Rightarrow> the (dp_src_oid request)))
            @ '':'' @ dp_dst request]))"
  using emits_trace [OF emits_direct_push, where t = "[]"] direct_push_result [of env cfg request target path "[]"]
  by (auto split: prod.splits sum.splits)

lemma publish_result:
  assumes "handle_publish_request env cfg request target path t = (t', Inr resp)"
  defines "branch \<equiv> build_publish_branch_name (env_now env) (env_sample env) (publisher_branch_prefix cfg)"
  shows "\<exists>t0 dir token askpass payload. t' = t0 @
      [GitWithToken dir token askpass [''clone'', ''--quiet'', github_repo_https_url (pt_repo target), dir @ ''/repo''],
       GitPlain (dir @ ''/repo'') [''fetch'', path, ''HEAD:'' @ IMPORTED_REF],
       GitPlain (dir @ ''/repo'') [''checkout'', ''-B'', branch, IMPORTED_REF],
       GitWithToken (dir @ ''/repo'') token askpass [''push'', ''origin'', ''HEAD:refs/heads/'' @ branch],
       PostPull token (pt_repo target) payload]
    \<and> prr_branch resp = branch"
  using assms(1) unfolding handle_publish_request_def create_pull_request_def Let_def branch_def
  by (auto simp: io_Inr split: if_splits prod.splits dest!: git_Inr)

text \<open>
  publishing a pull request pushes only to the freshly generated branch below
  \<^verbatim>\<open>refs/heads/\<close>, clones only the target's URL, and opens the pull request from that branch to the
  requested base (the target's default base when none was given) of the target repository; it
  reports success only after exactly the sequence clone, fetch of the received bundle, checkout,
  push, pull request.
\<close>

theorem publish_stays_on_target:
  "list_all (publish_effect cfg
       (build_publish_branch_name (env_now env) (env_sample env) (publisher_branch_prefix cfg)) request target)
     (fst (handle_publish_request env cfg request target path [])) \<and>
   (case handle_publish_request env cfg request target path [] of
      (trace, Inl _) \<Rightarrow> True
    | (trace, Inr resp) \<Rightarrow>
        \<exists>t0 dir token askpass payload. trace = t0 @
          [GitWithToken dir token askpass [''clone'', ''--quiet'', github_repo_https_url (pt_repo target), dir @ ''/repo''],
           GitPlain (dir @ ''/repo'') [''fetch'', path, ''HEAD:'' @ IMPORTED_REF],
           GitPlain (dir @ ''/repo'') [''checkout'', ''-B'', prr_branch resp, IMPORTED_REF],
           GitWithToken (dir @ ''/repo'') token askpass [''push'', ''origin'', ''HEAD:refs/heads/'' @ prr_branch resp],
           PostPull token (pt_repo target) payload])"
proof
  show "list_all (publish_effect cfg
       (build_publish_branch_name (env_now env) (env_sample env) (publisher_branch_prefix cfg)) request target)
     (fst (handle_publish_request env cfg request target path []))"
    by (rule emits_trace [OF emits_publish]) simp
qed (auto split: prod.splits sum.splits dest!: publish_result)

text \<open>The bytes a trace puts on the socket.\<close>

fun sent_bytes :: "effect list \<Rightarrow> rstr" where
  "sent_bytes [] = []"
| "sent_bytes (SockWrite b # es) = b @ sent_bytes es"
| "sent_bytes (e # es) = sent_bytes es"

lemma sent_bytes_append [simp]: "sent_bytes (a @ b) = sent_bytes a @ sent_bytes b"
  by (induction a rule: sent_bytes.induct) auto

lemma stream_bundle_file_Inr:
  "stream_bundle_file contents n = (sent, Inr u) \<Longrightarrow> sent = contents \<and> length contents = n"
  by (auto simp: stream_bundle_file_def Let_def min_def split: if_splits)

lemma client_sends:
  assumes "submit_publisher_request_frame env max_bundle request bundle [] = (trace, Inr resp)"
    and "(case bundle of None \<Rightarrow> Inr 0 | Some f \<Rightarrow> bf_stat f) = Inr n"
  shows "\<exists>header metadata body.
    encode_publisher_metadata (cl_request_json env) request = Inr metadata \<and>
    encode_publisher_wire_header (length metadata) n = Inr header \<and>
    sent_bytes trace = header @ metadata @ body \<and> length body = n \<and>
    (case bundle of None \<Rightarrow> body = [] | Some f \<Rightarrow> bf_contents f = Inr body)"
  using assms unfolding submit_publisher_request_frame_def
  by (cases "bundle")
     (auto simp: io_Inr cl_send_def split: if_splits prod.splits option.splits sum.splits dest!: stream_bundle_file_Inr)

lemma server_reads_frame:
  assumes "encode_publisher_metadata to_json request = Inr metadata"
    and "encode_publisher_wire_header (length metadata) n = Inr header" "n \<le> u64_max"
    and "env_request_json env metadata = Inr request"
    and "[] \<notin> set ds" "concat ds = header @ metadata @ body"
  shows "\<exists>ds'. read_and_validate_publisher_metadata env cfg (data_sock ds) =
      and_then (validate_publisher_request_before_body env cfg request n) (\<lambda>v. Inr (v, data_sock ds')) \<and>
    [] \<notin> set ds' \<and> concat ds' = body"
proof -
  note dec = decode_encode_header [OF assms(2,3)]
  have "PUBLISHER_WIRE_HEADER_BYTES \<le> length (concat ds)"
    using assms(6) dec(2) by (simp add: PUBLISHER_WIRE_HEADER_BYTES_def)
  from read_exact_data [OF assms(5) this] assms(6) dec(2) obtain ds1
    where r1: "read_exact PUBLISHER_WIRE_HEADER_BYTES (data_sock ds) = Inr (header, data_sock ds1)"
      and ds1: "[] \<notin> set ds1" "concat ds1 = metadata @ body"
    by (auto simp: PUBLISHER_WIRE_HEADER_BYTES_def)
  have "length metadata \<le> length (concat ds1)" using ds1(2) by simp
  from read_exact_data [OF ds1(1) this] ds1(2) obtain ds2
    where r2: "read_exact (length metadata) (data_sock ds1) = Inr (metadata, data_sock ds2)"
      and ds2: "[] \<notin> set ds2" "concat ds2 = body" by auto
  have "decode_publisher_metadata (env_request_json env) metadata = Inr request"
    using assms(1,4) by (auto simp: encode_publisher_metadata_def decode_publisher_metadata_def and_then_Inr split: if_splits)
  with r1 r2 dec(1) have "read_and_validate_publisher_metadata env cfg (data_sock ds) =
      and_then (validate_publisher_request_before_body env cfg request n) (\<lambda>v. Inr (v, data_sock ds2))"
    by (simp add: read_and_validate_publisher_metadata_def validate_publisher_request_before_body_def)
  with ds2 show ?thesis by blast
qed

lemma expect_eof_empty: "receive_declared_bundle io [] 0 = Inr None"
  by (simp add: receive_declared_bundle_def expect_eof_def)

text \<open>
  C21: client and daemon agree.  When a client's submission succeeds, the daemon that reads the
  bytes the client put on the socket, cut into pieces in any way, validates exactly the client's request
  with the length of its bundle and then spools exactly the contents of its bundle file,
  provided that JSON decoding inverts encoding for this request and the daemon's disk works.
\<close>

theorem daemon_receives_what_client_sends:
  assumes submitted: "submit_publisher_request_frame cenv max_bundle request bundle [] = (trace, Inr resp)"
    and stat: "(case bundle of None \<Rightarrow> Inr 0 | Some f \<Rightarrow> bf_stat f) = Inr n" "n \<le> u64_max"
    and json: "\<And>metadata. cl_request_json cenv request = Inr metadata \<Longrightarrow>
                 env_request_json senv metadata = Inr request"
    and disk: "spool_ok (env_spool senv)"
    and chunks: "[] \<notin> set ds" "concat ds = sent_bytes trace"
  shows "\<exists>ds'. read_and_validate_publisher_metadata senv cfg (data_sock ds) =
      and_then (validate_publisher_request_before_body senv cfg request n) (\<lambda>v. Inr (v, data_sock ds')) \<and>
    (if n = 0 then receive_declared_bundle (env_spool senv) (data_sock ds') n = Inr None
     else \<exists>f path contents. bundle = Some f \<and> bf_contents f = Inr contents \<and>
       receive_declared_bundle (env_spool senv) (data_sock ds') n
         = Inr (Some \<lparr>rb_path = path, rb_contents = contents\<rparr>))"
proof -
  obtain header metadata body where m: "encode_publisher_metadata (cl_request_json cenv) request = Inr metadata"
    and h: "encode_publisher_wire_header (length metadata) n = Inr header"
    and sent: "sent_bytes trace = header @ metadata @ body" and len: "length body = n"
    and b: "case bundle of None \<Rightarrow> body = [] | Some f \<Rightarrow> bf_contents f = Inr body"
    using client_sends [OF submitted stat(1)] by blast
  have "env_request_json senv metadata = Inr request"
    using m json by (auto simp: encode_publisher_metadata_def and_then_Inr split: if_splits)
  from server_reads_frame [OF m h stat(2) this chunks(1), of body] chunks(2) sent obtain ds'
    where ds': "read_and_validate_publisher_metadata senv cfg (data_sock ds) =
      and_then (validate_publisher_request_before_body senv cfg request n) (\<lambda>v. Inr (v, data_sock ds'))"
      "[] \<notin> set ds'" "concat ds' = body" by metis
  show ?thesis
  proof (cases "n = 0")
    case True
    with ds'(2,3) len have "ds' = []" by (cases ds') auto
    with ds'(1) True show ?thesis by (intro exI [of _ ds']) (simp add: expect_eof_empty)
  next
    case False
    with receive_declared_bundle_data [OF disk ds'(2), of n body] ds' len b show ?thesis
      by (intro exI [of _ ds']) (auto split: option.splits)
  qed
qed

section \<open>Witnesses\<close>

definition sample_env :: server_env where
  "sample_env = \<lparr>
     env_mode_file = Inr ''{}'', env_mode_json = (\<lambda>_. Inr sample_mode),
     env_clock1 = Some 1000, env_clock2 = Some 1001,
     env_request_json = (\<lambda>_. Inr (DirectPush (sample_push\<lparr>dp_src := []\<rparr>))),
     env_error_json = (\<lambda>e. Inr e), env_response_json = (\<lambda>_. Inr ''{}''),
     env_spool = memory_spool, env_mint = (\<lambda>_ _ _. Inr ''tok''), env_tempdir = Inr ''/tmp/d'',
     env_script_create = (\<lambda>_. Inr ()), env_script_write = (\<lambda>_. Inr ()), env_script_chmod = (\<lambda>_. Inr ()),
     env_git = (\<lambda>_ _. Inr \<lparr>out_code = Some 0, out_stdout = [], out_stderr = []\<rparr>),
     env_header_value = (\<lambda>v. Inr v),
     env_post = (\<lambda>_ _. Inr \<lparr>hr_success = True, hr_status = ''201'', hr_body = []\<rparr>),
     env_pull_json = (\<lambda>_. Inr (''https://x'', 1)), env_now = 5, env_sample = ''abcdefgh'',
     env_sock_write = (\<lambda>_. Inr ()), env_sock_shutdown = Inr ()\<rparr>"

definition sample_client :: client_env where
  "sample_client = \<lparr>cl_socket_path = ''/run/s'', cl_request_json = (\<lambda>_. Inr ''{}''), cl_error_json = (\<lambda>_. Inl ''no''),
     cl_response_json = (\<lambda>_. Inl ''no''), cl_connect = Inr (), cl_write = (\<lambda>_. Inr ()),
     cl_shutdown = Inr (), cl_replies = [Inr [CHR 0x01], Inr ''ok'']\<rparr>"

definition sample_delete :: publisher_request where
  "sample_delete = DirectPush (sample_push\<lparr>dp_src := []\<rparr>)"

definition sample_header :: rstr where
  "sample_header = PUBLISHER_WIRE_MAGIC @ to_be 2 1 @ to_be 2 0 @ to_be 4 2 @ to_be 8 0"

lemma sample_header_encodes: "encode_publisher_wire_header 2 0 = Inr sample_header"
  by (simp add: encode_publisher_wire_header_def sample_header_def MAX_PUBLISHER_METADATA_BYTES_def
      u32_max_def PUBLISHER_WIRE_VERSION_def)

lemma sample_metadata: "encode_publisher_metadata (\<lambda>_. Inr ''{}'') sample_delete = Inr ''{}''"
  by (simp add: encode_publisher_metadata_def MAX_PUBLISHER_METADATA_BYTES_def)





theorem daemon_receives_what_client_sends_witness:
  "\<exists>ds'. read_and_validate_publisher_metadata sample_env sample_publisher_config
      (data_sock [sample_header @ ''{}'']) =
    and_then (validate_publisher_request_before_body sample_env sample_publisher_config sample_delete 0)
      (\<lambda>v. Inr (v, data_sock ds'))"
proof -
  have "submit_publisher_request_frame sample_client 10 sample_delete None [] =
      ([SockWrite sample_header, SockWrite ''{}'', SockShutdown], Inr ''ok'')"
    by (simp add: submit_publisher_request_frame_def io_bind_def io_lift_def io_act_def cl_send_def
        sample_client_def sample_metadata sample_header_encodes [unfolded numeral_2_eq_2] read_publisher_metadata_ack_def
        from_be_def PUBLISHER_METADATA_ACCEPTED_def MAX_PUBLISHER_RESPONSE_BYTES_def)
  from daemon_receives_what_client_sends [OF this, where senv = sample_env and n = 0
      and ds = "[sample_header @ ''{}'']" and cfg = sample_publisher_config]
  show ?thesis
    by (auto simp: u64_max_def sample_env_def sample_delete_def memory_spool_def spool_ok_def)
qed

end
