(* ===== verification/Output_Buffer.thy ===== *)
theory Output_Buffer
  imports Utf8_Stream
begin

text \<open>
  The bounded output buffer of a session with its spill file, and the reader that fills it
  (\<^verbatim>\<open>src/session/output.rs\<close>).  The mutex-protected \<^verbatim>\<open>OutputState\<close> is a record; the spill file is
  the list of bytes written to it; the outcome of each operating-system call is an input
  (\<open>spill_io\<close>), so every theorem covers every pattern of I/O failures.
  The abstract specification is the whole text appended so far: the buffer keeps a suffix of it,
  the spill file a prefix, and the counters measure all of it.
\<close>

definition SPILLED_OUTPUT_PREVIEW_MAX_BYTES :: nat where
  "SPILLED_OUTPUT_PREVIEW_MAX_BYTES = 20 * 1024"

definition OUTPUT_SPILL_MAX_BYTES :: nat where
  "OUTPUT_SPILL_MAX_BYTES = 16 * 1024 * 1024"

definition OUTPUT_SPILL_STALE_AGE :: nat where
  "OUTPUT_SPILL_STALE_AGE = 24 * 60 * 60"

record output_spill =
  sp_path :: rstr
  sp_file :: rstr
  bytes_written :: nat
  sp_truncated :: bool

record output_state =
  otext :: rstr
  dropped_bytes :: nat
  total_chars :: nat
  newline_count :: nat
  ends_with_newline :: bool
  spill :: "output_spill option"
  spill_failed :: bool

record output_buffer =
  inner :: output_state
  max_chars :: nat
  spill_path :: rstr
  reader_done :: bool

record output_snapshot =
  snap_text :: rstr
  snap_output_file :: "rstr option"
  snap_output_chars :: "nat option"
  snap_output_lines :: "nat option"
  snap_output_file_truncated :: "bool option"

text \<open>Outcomes of the file operations one \<^verbatim>\<open>append\<close> may perform: whether the exclusive create
  succeeds, and whether a write at a given file offset succeeds.\<close>

record spill_io =
  open_ok :: bool
  write_ok :: "nat \<Rightarrow> bool"

function next_char_boundary_from :: "rstr \<Rightarrow> nat \<Rightarrow> nat" where
  "next_char_boundary_from s i =
     (if i < length s \<and> \<not> is_char_boundary s i then next_char_boundary_from s (Suc i) else i)"
  by pat_completeness auto
termination
  by (relation "measure (\<lambda>(s, i). length s - i)") auto

declare next_char_boundary_from.simps [simp del]

definition next_char_boundary :: "rstr \<Rightarrow> nat \<Rightarrow> nat" where
  "next_char_boundary s idx =
     (if length s \<le> idx then length s else next_char_boundary_from s idx)"

fun floor_char_boundary :: "rstr \<Rightarrow> nat \<Rightarrow> nat" where
  "floor_char_boundary s 0 = 0"
| "floor_char_boundary s (Suc n) =
     (if is_char_boundary s (Suc n) then Suc n else floor_char_boundary s n)"

text \<open>\<^verbatim>\<open>append_to_spill\<close>: \<open>None\<close> is the \<^verbatim>\<open>Err\<close> of a failed write.\<close>

definition append_to_spill :: "spill_io \<Rightarrow> output_spill \<Rightarrow> rstr \<Rightarrow> output_spill option" where
  "append_to_spill io sp txt =
     (if sp_truncated sp \<or> txt = [] then Some sp
      else
        let remaining = OUTPUT_SPILL_MAX_BYTES - bytes_written sp
        in if remaining = 0 then Some (sp\<lparr>sp_truncated := True\<rparr>)
           else
             let write_len = floor_char_boundary txt (min (length txt) remaining);
                 written =
                   (if write_len > 0 then
                      (if write_ok io (bytes_written sp)
                       then Some (sp\<lparr>sp_file := sp_file sp @ take write_len txt,
                                     bytes_written := sat_add (bytes_written sp) write_len\<rparr>)
                       else None)
                    else Some sp)
             in map_option
                  (\<lambda>sp'. if write_len < length txt then sp'\<lparr>sp_truncated := True\<rparr> else sp')
                  written)"

definition start_output_spill :: "spill_io \<Rightarrow> rstr \<Rightarrow> rstr \<Rightarrow> rstr \<Rightarrow> output_spill option" where
  "start_output_spill io path pre chunk =
     (if \<not> open_ok io then None
      else
        let sp = \<lparr>sp_path = path, sp_file = [], bytes_written = 0, sp_truncated = False\<rparr>
        in Option.bind (append_to_spill io sp pre) (\<lambda>sp'. append_to_spill io sp' chunk))"

definition output_buffer_new :: "nat \<Rightarrow> rstr \<Rightarrow> output_buffer" where
  "output_buffer_new mx path =
     \<lparr>inner = \<lparr>otext = [], dropped_bytes = 0, total_chars = 0, newline_count = 0,
        ends_with_newline = False, spill = None, spill_failed = False\<rparr>,
      max_chars = mx, spill_path = path, reader_done = False\<rparr>"

text \<open>The counters \<^verbatim>\<open>append\<close> updates first.\<close>

definition count_chunk :: "output_state \<Rightarrow> rstr \<Rightarrow> output_state" where
  "count_chunk st chunk =
     st\<lparr>total_chars := sat_add (total_chars st) (chars_count chunk),
        newline_count := sat_add (newline_count st) (length (filter (\<lambda>c. c = nl) chunk)),
        ends_with_newline :=
          (if chunk \<noteq> [] then ends_with chunk [nl] else ends_with_newline st)\<rparr>"

text \<open>Starting or extending the spill file; a failed write removes the file for good.\<close>

definition spill_chunk :: "spill_io \<Rightarrow> nat \<Rightarrow> rstr \<Rightarrow> output_state \<Rightarrow> rstr \<Rightarrow> output_state" where
  "spill_chunk io mx path st chunk =
     (let would_overflow = sat_add (length (otext st)) (length chunk) > mx
      in if would_overflow \<and> spill st = None \<and> \<not> spill_failed st then
           (case start_output_spill io path (otext st) chunk of
              Some sp \<Rightarrow> st\<lparr>spill := Some sp\<rparr>
            | None \<Rightarrow> st\<lparr>spill_failed := True\<rparr>)
         else
           (case spill st of
              None \<Rightarrow> st
            | Some sp \<Rightarrow>
                (case append_to_spill io sp chunk of
                   Some sp' \<Rightarrow> st\<lparr>spill := Some sp'\<rparr>
                 | None \<Rightarrow> st\<lparr>spill := None, spill_failed := True\<rparr>)))"

definition trim_text :: "nat \<Rightarrow> output_state \<Rightarrow> output_state" where
  "trim_text mx st =
     (if length (otext st) \<le> mx then st
      else
        let cut = next_char_boundary (otext st) (length (otext st) - mx)
        in st\<lparr>otext := drop cut (otext st), dropped_bytes := dropped_bytes st + cut\<rparr>)"

definition buffer_append :: "spill_io \<Rightarrow> output_buffer \<Rightarrow> rstr \<Rightarrow> output_buffer" where
  "buffer_append io b chunk =
     (let st = count_chunk (inner b) chunk;
          st = spill_chunk io (max_chars b) (spill_path b) st chunk;
          st = st\<lparr>otext := otext st @ chunk\<rparr>
      in b\<lparr>inner := trim_text (max_chars b) st\<rparr>)"

definition output_lines :: "output_state \<Rightarrow> nat" where
  "output_lines st =
     (if total_chars st = 0 then 0
      else sat_add (newline_count st) (if ends_with_newline st then 0 else 1))"

definition preview :: "output_state \<Rightarrow> rstr" where
  "preview st =
     drop (next_char_boundary (otext st) (length (otext st) - SPILLED_OUTPUT_PREVIEW_MAX_BYTES))
       (otext st)"

definition snapshot_text :: "output_state \<Rightarrow> rstr" where
  "snapshot_text st =
     (case spill st of
        Some sp \<Rightarrow>
          (if sp_truncated sp then
             ''[output was very large; first '' @ show_nat OUTPUT_SPILL_MAX_BYTES @
             '' bytes saved to '' @ sp_path sp @ '' ('' @ show_nat (total_chars st) @
             '' characters, '' @ show_nat (output_lines st) @
             '' lines total); saved file is capped, showing tail preview]\<newline>'' @ preview st
           else
             ''[full output saved to '' @ sp_path sp @ '' ('' @ show_nat (total_chars st) @
             '' characters, '' @ show_nat (output_lines st) @
             '' lines); showing tail preview]\<newline>'' @ preview st)
      | None \<Rightarrow>
          (if dropped_bytes st = 0 then otext st
           else ''[... '' @ show_nat (dropped_bytes st) @ '' bytes truncated ...]\<newline>'' @ otext st))"

definition buffer_snapshot :: "output_buffer \<Rightarrow> output_snapshot" where
  "buffer_snapshot b =
     (let st = inner b
      in \<lparr>snap_text = snapshot_text st,
          snap_output_file = map_option sp_path (spill st),
          snap_output_chars = map_option (\<lambda>_. total_chars st) (spill st),
          snap_output_lines = map_option (\<lambda>_. output_lines st) (spill st),
          snap_output_file_truncated = map_option sp_truncated (spill st)\<rparr>)"

definition mark_reader_done :: "output_buffer \<Rightarrow> output_buffer" where
  "mark_reader_done b = b\<lparr>reader_done := True\<rparr>"

section \<open>Spill files on disk\<close>

definition spill_file_name :: "rstr \<Rightarrow> rstr" where
  "spill_file_name handle = ''zodex-output-'' @ handle @ ''.log''"

definition spill_path_for_session :: "rstr \<Rightarrow> rstr \<Rightarrow> rstr" where
  "spill_path_for_session temp_dir handle =
     temp_dir @ ''/zodex-output/'' @ spill_file_name handle"

text \<open>A directory entry: its name when it is UTF-8, and its age in seconds when the metadata can be
  read.  The result of the clean-up is the list of entries it tries to remove.\<close>

record dir_entry =
  entry_name :: "rstr option"
  entry_age :: "nat option"

definition is_stale_spill :: "dir_entry \<Rightarrow> bool" where
  "is_stale_spill e \<longleftrightarrow>
     (case entry_name e of
        None \<Rightarrow> False
      | Some name \<Rightarrow> starts_with name ''zodex-output-'' \<and> ends_with name ''.log'') \<and>
     (case entry_age e of None \<Rightarrow> False | Some age \<Rightarrow> age \<ge> OUTPUT_SPILL_STALE_AGE)"

definition cleanup_stale_spills :: "dir_entry list option \<Rightarrow> dir_entry list" where
  "cleanup_stale_spills entries =
     (case entries of None \<Rightarrow> [] | Some es \<Rightarrow> filter is_stale_spill es)"

section \<open>The PTY reader\<close>

datatype read_result = ReadBytes rstr | ReadEof | ReadErr

text \<open>An observed chunk: its sequence number and text; the session, handle and invocation fields are
  constants of the reader.  The reader's state is the decoder, the next sequence number, what the
  observer saw, and the buffer.\<close>

record reader_state =
  rd_decoder :: decoder
  rd_sequence :: nat
  rd_observed :: "(nat \<times> rstr) list"
  rd_output :: output_buffer
  rd_complete :: bool

definition reader_init :: "output_buffer \<Rightarrow> reader_state" where
  "reader_init b = \<lparr>rd_decoder = decoder_default, rd_sequence = 0, rd_observed = [],
     rd_output = b, rd_complete = False\<rparr>"

definition observe_chunk :: "spill_io \<Rightarrow> reader_state \<Rightarrow> rstr \<Rightarrow> reader_state" where
  "observe_chunk io r chunk =
     r\<lparr>rd_observed := rd_observed r @ [(rd_sequence r, chunk)],
       rd_sequence := min (rd_sequence r + 1) u64_max,
       rd_output := buffer_append io (rd_output r) chunk\<rparr>"

definition reader_finish :: "spill_io \<Rightarrow> reader_state \<Rightarrow> reader_state" where
  "reader_finish io r =
     (let (final_chunk, d) = decoder_finish (rd_decoder r);
          r1 = r\<lparr>rd_decoder := d\<rparr>;
          r2 = (if final_chunk \<noteq> []
                then r1\<lparr>rd_observed := rd_observed r1 @ [(rd_sequence r1, final_chunk)],
                        rd_output := buffer_append io (rd_output r1) final_chunk\<rparr>
                else r1)
      in r2\<lparr>rd_complete := True, rd_output := mark_reader_done (rd_output r2)\<rparr>)"

text \<open>The loop of the reader thread over the results of its successive reads, each with the outcome
  of the file operations its append performs.  A run whose reads never end leaves the loop open.\<close>

fun reader_run :: "reader_state \<Rightarrow> (read_result \<times> spill_io) list \<Rightarrow> reader_state" where
  "reader_run r [] = r"
| "reader_run r ((ReadEof, io) # _) = reader_finish io r"
| "reader_run r ((ReadErr, io) # _) = reader_finish io r"
| "reader_run r ((ReadBytes bs, io) # rest) =
     (let (chunk, d) = decoder_push (rd_decoder r) bs
      in reader_run (observe_chunk io (r\<lparr>rd_decoder := d\<rparr>) chunk) rest)"

section \<open>Character boundaries\<close>

lemma next_char_boundary_from_props:
  "i \<le> length s \<Longrightarrow>
     i \<le> next_char_boundary_from s i \<and> next_char_boundary_from s i \<le> length s \<and>
     is_char_boundary s (next_char_boundary_from s i)"
proof (induction s i rule: next_char_boundary_from.induct)
  case (1 s i)
  show ?case
  proof (cases "i < length s \<and> \<not> is_char_boundary s i")
    case True
    then have "Suc i \<le> length s" by simp
    with "1.IH" [OF True] True show ?thesis
      by (simp add: next_char_boundary_from.simps [of s i])
  next
    case False
    with "1.prems" show ?thesis
      by (auto simp: next_char_boundary_from.simps [of s i] is_char_boundary_def split: if_splits)
  qed
qed

lemma next_char_boundary_ge: "i \<le> length s \<Longrightarrow> i \<le> next_char_boundary s i"
  using next_char_boundary_from_props [of i s] by (simp add: next_char_boundary_def)

lemma next_char_boundary_le: "next_char_boundary s i \<le> length s"
  using next_char_boundary_from_props [of i s] by (simp add: next_char_boundary_def)

lemma next_char_boundary_is_boundary: "is_char_boundary s (next_char_boundary s i)"
  using next_char_boundary_from_props [of i s]
  by (simp add: next_char_boundary_def is_char_boundary_def)

lemma floor_char_boundary_le: "floor_char_boundary s n \<le> n"
  by (induction s n rule: floor_char_boundary.induct) auto

lemma floor_char_boundary_is_boundary: "is_char_boundary s (floor_char_boundary s n)"
  by (induction s n rule: floor_char_boundary.induct) (auto simp: is_char_boundary_def)

lemma floor_char_boundary_full: "floor_char_boundary s (length s) = length s"
  by (cases "length s") (auto simp: is_char_boundary_def)

section \<open>Counting\<close>

lemma chars_count_append [simp]: "chars_count (s @ t) = chars_count s + chars_count t"
  by (simp add: chars_count_def)

lemma sat_add_min: "sat_add (min a usize_max) b = min (a + b) usize_max"
  by (simp add: sat_add_def min_def)

lemma valid_utf8_chars_pos: "valid_utf8 s \<Longrightarrow> s \<noteq> [] \<Longrightarrow> 0 < chars_count s"
proof -
  assume "valid_utf8 s" "s \<noteq> []"
  then obtain n where "scan s = Scalar n" by (auto simp: valid_utf8_step)
  then have "\<not> is_cont (s ! 0)" by (rule scan_Scalar_lead)
  with \<open>s \<noteq> []\<close> show ?thesis by (cases s) (auto simp: chars_count_def)
qed

lemma split_inclusive_eq_Nil [simp]: "split_inclusive d s = [] \<longleftrightarrow> s = []"
  by (cases s) (auto split: list.splits)

lemma length_split_inclusive:
  "length (split_inclusive d s) =
     length (filter (\<lambda>c. c = d) s) + (if s = [] \<or> last s = d then 0 else 1)"
  by (induction s) (auto split: list.splits)

lemma ends_with_single: "ends_with s [c] \<longleftrightarrow> s \<noteq> [] \<and> last s = c"
  by (auto simp: ends_with_iff) (metis append_butlast_last_id)

section \<open>The spill file\<close>

text \<open>The spill file holds a prefix of the text \<open>h\<close>, all of it unless marked as truncated.\<close>

definition spill_inv :: "rstr \<Rightarrow> output_spill \<Rightarrow> bool" where
  "spill_inv h sp \<longleftrightarrow>
     bytes_written sp = length (sp_file sp) \<and>
     bytes_written sp \<le> OUTPUT_SPILL_MAX_BYTES \<and>
     sp_file sp = take (length (sp_file sp)) h \<and>
     (\<not> sp_truncated sp \<longrightarrow> sp_file sp = h)"

lemma sat_add_small: "a \<le> OUTPUT_SPILL_MAX_BYTES \<Longrightarrow> b \<le> OUTPUT_SPILL_MAX_BYTES \<Longrightarrow> sat_add a b = a + b"
  by (simp add: sat_add_def OUTPUT_SPILL_MAX_BYTES_def usize_max_def)

lemma spill_inv_truncated_append:
  "spill_inv h sp \<Longrightarrow> sp_truncated sp \<Longrightarrow> spill_inv (h @ t) sp"
  by (auto simp: spill_inv_def) (metis length_take min_def nat_le_linear take_all)

lemma append_to_spill_inv:
  assumes inv: "spill_inv h sp" and step: "append_to_spill io sp t = Some sp'"
  shows "spill_inv (h @ t) sp'"
proof (cases "sp_truncated sp \<or> t = []")
  case True
  with step inv show ?thesis
    by (auto simp: append_to_spill_def intro: spill_inv_truncated_append)
next
  case False
  then have h: "sp_file sp = h" using inv by (simp add: spill_inv_def)
  have len: "length h = bytes_written sp" "bytes_written sp \<le> OUTPUT_SPILL_MAX_BYTES"
    using inv h by (auto simp: spill_inv_def)
  define remaining where "remaining = OUTPUT_SPILL_MAX_BYTES - bytes_written sp"
  define w where "w = floor_char_boundary t (min (length t) remaining)"
  have w: "w \<le> length t" "w \<le> remaining"
    using floor_char_boundary_le [of t "min (length t) remaining"] by (auto simp: w_def)
  have bw: "sat_add (bytes_written sp) w = bytes_written sp + w"
    using len w by (intro sat_add_small) (auto simp: remaining_def)
  have step': "(if remaining = 0 then Some (sp\<lparr>sp_truncated := True\<rparr>)
      else map_option (\<lambda>sp'. if w < length t then sp'\<lparr>sp_truncated := True\<rparr> else sp')
        (if w > 0 then
           (if write_ok io (bytes_written sp)
            then Some (sp\<lparr>sp_file := sp_file sp @ take w t,
                          bytes_written := sat_add (bytes_written sp) w\<rparr>)
            else None)
         else Some sp)) = Some sp'"
    using step False unfolding append_to_spill_def Let_def remaining_def w_def by simp
  show ?thesis
  proof (cases "remaining = 0 \<or> w = 0")
    case True
    then have "sp' = sp\<lparr>sp_truncated := True\<rparr>" using step' False by (auto split: if_splits)
    with h len show ?thesis by (simp add: spill_inv_def)
  next
    case no: False
    then have "sp' = (if w < length t then
         sp\<lparr>sp_file := h @ take w t, bytes_written := bytes_written sp + w, sp_truncated := True\<rparr>
       else sp\<lparr>sp_file := h @ take w t, bytes_written := bytes_written sp + w\<rparr>)"
      using step' h bw by (auto split: if_splits)
    with len w show ?thesis by (auto simp: spill_inv_def remaining_def)
  qed
qed

lemma start_output_spill_inv:
  assumes "start_output_spill io path pre chunk = Some sp"
  shows "spill_inv (pre @ chunk) sp"
proof -
  define sp0 where "sp0 = \<lparr>sp_path = path, sp_file = [], bytes_written = 0, sp_truncated = False\<rparr>"
  have "spill_inv [] sp0" by (simp add: spill_inv_def sp0_def)
  moreover obtain sp1 where "append_to_spill io sp0 pre = Some sp1" "append_to_spill io sp1 chunk = Some sp"
    using assms by (auto simp: start_output_spill_def sp0_def bind_eq_Some_conv split: if_splits)
  ultimately have "spill_inv (([] @ pre) @ chunk) sp" by (blast intro: append_to_spill_inv)
  then show ?thesis by simp
qed

section \<open>The buffer invariant\<close>

definition buffer_inv :: "rstr \<Rightarrow> output_buffer \<Rightarrow> bool" where
  "buffer_inv h b \<longleftrightarrow>
     (let st = inner b in
        length (otext st) \<le> max_chars b \<and>
        (\<exists>d. h = d @ otext st \<and> length d = dropped_bytes st) \<and>
        total_chars st = min (chars_count h) usize_max \<and>
        newline_count st = min (length (filter (\<lambda>c. c = nl) h)) usize_max \<and>
        ends_with_newline st = (h \<noteq> [] \<and> last h = nl) \<and>
        (case spill st of
           None \<Rightarrow> \<not> spill_failed st \<longrightarrow> dropped_bytes st = 0
         | Some sp \<Rightarrow> \<not> spill_failed st \<and> spill_inv h sp))"

lemma trim_text_fields [simp]:
  "total_chars (trim_text m st) = total_chars st"
  "newline_count (trim_text m st) = newline_count st"
  "ends_with_newline (trim_text m st) = ends_with_newline st"
  "spill (trim_text m st) = spill st"
  "spill_failed (trim_text m st) = spill_failed st"
  by (simp_all add: trim_text_def Let_def)

lemma trim_text_length: "length (otext (trim_text m st)) \<le> m"
  using next_char_boundary_ge [of "length (otext st) - m" "otext st"]
  by (auto simp: trim_text_def Let_def)

lemma trim_text_suffix:
  assumes "h = d @ otext st" "length d = dropped_bytes st"
  shows "\<exists>d'. h = d' @ otext (trim_text m st) \<and> length d' = dropped_bytes (trim_text m st)"
proof (cases "length (otext st) \<le> m")
  case True
  with assms show ?thesis by (auto simp: trim_text_def)
next
  case False
  define cut where "cut = next_char_boundary (otext st) (length (otext st) - m)"
  have "cut \<le> length (otext st)" by (simp add: cut_def next_char_boundary_le)
  with assms False show ?thesis
    by (intro exI [of _ "d @ take cut (otext st)"]) (simp add: trim_text_def cut_def [symmetric])
qed

lemma trim_text_id: "length (otext st) \<le> m \<Longrightarrow> trim_text m st = st"
  by (simp add: trim_text_def)

lemma spill_chunk_fields [simp]:
  "otext (spill_chunk io m p st c) = otext st"
  "dropped_bytes (spill_chunk io m p st c) = dropped_bytes st"
  "total_chars (spill_chunk io m p st c) = total_chars st"
  "newline_count (spill_chunk io m p st c) = newline_count st"
  "ends_with_newline (spill_chunk io m p st c) = ends_with_newline st"
  by (auto simp: spill_chunk_def Let_def split: option.splits)

lemma count_chunk_fields [simp]:
  "otext (count_chunk st c) = otext st"
  "dropped_bytes (count_chunk st c) = dropped_bytes st"
  "spill (count_chunk st c) = spill st"
  "spill_failed (count_chunk st c) = spill_failed st"
  by (simp_all add: count_chunk_def)

lemma buffer_append_fields [simp]:
  "max_chars (buffer_append io b c) = max_chars b"
  "spill_path (buffer_append io b c) = spill_path b"
  by (simp_all add: buffer_append_def Let_def)

lemma output_buffer_new_fields [simp]:
  "max_chars (output_buffer_new m p) = m"
  "spill (inner (output_buffer_new m p)) = None"
  "spill_failed (inner (output_buffer_new m p)) = False"
  "dropped_bytes (inner (output_buffer_new m p)) = 0"
  "otext (inner (output_buffer_new m p)) = []"
  by (simp_all add: output_buffer_new_def)

lemma buffer_inv_new [simp]: "buffer_inv [] (output_buffer_new m p)"
  by (simp add: buffer_inv_def output_buffer_new_def chars_count_def)

text \<open>How the spill state evolves over one append.\<close>

lemma spill_chunk_inv:
  assumes sp: "case spill st of None \<Rightarrow> \<not> spill_failed st \<longrightarrow> dropped_bytes st = 0
               | Some sp \<Rightarrow> \<not> spill_failed st \<and> spill_inv h sp"
    and h: "h = d @ otext st" "length d = dropped_bytes st"
    and st': "st' = spill_chunk io m p st c"
  shows "case spill st' of
           None \<Rightarrow> \<not> spill_failed st' \<longrightarrow>
             dropped_bytes st = 0 \<and> sat_add (length (otext st)) (length c) \<le> m
         | Some sp \<Rightarrow> \<not> spill_failed st' \<and> spill_inv (h @ c) sp"
proof (cases "spill st")
  case None
  show ?thesis
  proof (cases "spill_failed st")
    case True
    with None st' show ?thesis by (simp add: spill_chunk_def)
  next
    case False
    with sp None h have "h = otext st" by simp
    with None False sp st' show ?thesis
      by (auto simp: spill_chunk_def Let_def not_less split: option.splits
          dest: start_output_spill_inv)
  qed
next
  case (Some s0)
  with sp st' show ?thesis
    by (auto simp: spill_chunk_def split: option.splits dest: append_to_spill_inv)
qed

lemma buffer_append_inv:
  assumes inv: "buffer_inv h b" and small: "max_chars b < usize_max"
  shows "buffer_inv (h @ c) (buffer_append io b c)"
proof -
  define st1 where "st1 = count_chunk (inner b) c"
  define st2 where "st2 = spill_chunk io (max_chars b) (spill_path b) st1 c"
  define st3 where "st3 = st2\<lparr>otext := otext st2 @ c\<rparr>"
  have app: "inner (buffer_append io b c) = trim_text (max_chars b) st3"
    by (simp add: buffer_append_def Let_def st1_def st2_def st3_def)
  obtain d where d: "h = d @ otext st1" "length d = dropped_bytes st1"
    using inv by (auto simp: buffer_inv_def Let_def st1_def)
  have suffix: "\<exists>d'. h @ c = d' @ otext (trim_text (max_chars b) st3) \<and>
      length d' = dropped_bytes (trim_text (max_chars b) st3)"
    by (rule trim_text_suffix [of _ d]) (use d in \<open>simp_all add: st3_def st2_def\<close>)
  have sp1: "case spill st1 of None \<Rightarrow> \<not> spill_failed st1 \<longrightarrow> dropped_bytes st1 = 0
             | Some sp \<Rightarrow> \<not> spill_failed st1 \<and> spill_inv h sp"
    using inv by (simp add: buffer_inv_def Let_def st1_def split: option.splits)
  have sp3: "case spill st3 of
         None \<Rightarrow> \<not> spill_failed st3 \<longrightarrow> dropped_bytes (trim_text (max_chars b) st3) = 0
       | Some sp \<Rightarrow> \<not> spill_failed st3 \<and> spill_inv (h @ c) sp"
  proof -
    have "length (otext st1 @ c) \<le> max_chars b"
      if "sat_add (length (otext st1)) (length c) \<le> max_chars b"
      using that small by (simp add: sat_add_def)
    with spill_chunk_inv [OF sp1 d st2_def] show ?thesis
      by (auto simp: st3_def st2_def trim_text_id split: option.splits)
  qed
  have cnt: "total_chars st3 = min (chars_count (h @ c)) usize_max"
    "newline_count st3 = min (length (filter (\<lambda>c. c = nl) (h @ c))) usize_max"
    "ends_with_newline st3 = (h @ c \<noteq> [] \<and> last (h @ c) = nl)"
    using inv
    by (simp_all add: buffer_inv_def Let_def st3_def st2_def st1_def count_chunk_def sat_add_min
        ends_with_single)
  show ?thesis
    unfolding buffer_inv_def Let_def app trim_text_fields cnt buffer_append_fields
    using suffix sp3 trim_text_length [of "max_chars b" st3] by blast
qed

text \<open>A run of appends, each with its own I/O outcomes.\<close>

definition append_all :: "output_buffer \<Rightarrow> (spill_io \<times> rstr) list \<Rightarrow> output_buffer" where
  "append_all b cs = foldl (\<lambda>b (io, c). buffer_append io b c) b cs"

lemma append_all_simps [simp]:
  "append_all b [] = b"
  "append_all b ((io, c) # cs) = append_all (buffer_append io b c) cs"
  "append_all b (cs @ ds) = append_all (append_all b cs) ds"
  by (simp_all add: append_all_def)

lemma append_all_max_chars [simp]: "max_chars (append_all b cs) = max_chars b"
  by (induction cs arbitrary: b) auto

lemma append_all_inv:
  "buffer_inv h b \<Longrightarrow> max_chars b < usize_max \<Longrightarrow>
     buffer_inv (h @ concat (map snd cs)) (append_all b cs)"
proof (induction cs arbitrary: h b)
  case (Cons ic cs)
  obtain io c where ic: "ic = (io, c)" by force
  from Cons.IH [OF buffer_append_inv [OF Cons.prems(1,2), of c io]] Cons.prems(2)
  show ?case by (simp add: ic)
qed simp

section \<open>Validity of the retained text\<close>

lemma buffer_append_valid:
  assumes "valid_utf8 (otext (inner b))" and "valid_utf8 c"
  shows "valid_utf8 (otext (inner (buffer_append io b c)))"
proof -
  define t where "t = otext (inner b) @ c"
  have t: "valid_utf8 t" using assms by (simp add: t_def valid_utf8_append)
  have "valid_utf8 (drop (next_char_boundary t i) t)" for i
    using valid_utf8_cut [OF t next_char_boundary_is_boundary next_char_boundary_le] by simp
  with t show ?thesis by (simp add: buffer_append_def trim_text_def Let_def t_def)
qed

lemma append_all_valid:
  "valid_utf8 (otext (inner b)) \<Longrightarrow> (\<And>io c. (io, c) \<in> set cs \<Longrightarrow> valid_utf8 c) \<Longrightarrow>
     valid_utf8 (otext (inner (append_all b cs)))"
proof (induction cs arbitrary: b)
  case (Cons ic cs)
  obtain io c where ic: "ic = (io, c)" by force
  with Cons.prems(2) have "valid_utf8 c" by auto
  with Cons.prems(1) have "valid_utf8 (otext (inner (buffer_append io b c)))"
    by (rule buffer_append_valid)
  then have "valid_utf8 (otext (inner (append_all (buffer_append io b c) cs)))"
    using Cons.prems(2) by (intro Cons.IH) auto
  then show ?case by (simp add: ic)
qed simp

lemma valid_utf8_preview: "valid_utf8 (otext st) \<Longrightarrow> valid_utf8 (preview st)"
  unfolding preview_def
  using valid_utf8_cut [OF _ next_char_boundary_is_boundary next_char_boundary_le] by blast

lemma preview_suffix:
  "\<exists>d. otext st = d @ preview st" "length (preview st) \<le> SPILLED_OUTPUT_PREVIEW_MAX_BYTES"
proof -
  show "\<exists>d. otext st = d @ preview st"
    unfolding preview_def by (metis append_take_drop_id)
  show "length (preview st) \<le> SPILLED_OUTPUT_PREVIEW_MAX_BYTES"
    using next_char_boundary_ge [of "length (otext st) - SPILLED_OUTPUT_PREVIEW_MAX_BYTES" "otext st"]
    by (auto simp: preview_def)
qed

lemma output_lines_correct:
  assumes "buffer_inv h b" and "valid_utf8 h" and "length h < usize_max"
  shows "output_lines (inner b) = length (str_lines h)"
proof (cases "h = []")
  case True
  with assms(1) show ?thesis
    by (simp add: output_lines_def buffer_inv_def Let_def chars_count_def str_lines_def)
next
  case False
  have le: "length (filter P h) + 1 \<le> usize_max" for P
    using length_filter_le [of P h] assms(3) by linarith
  have "total_chars (inner b) = chars_count h" "newline_count (inner b) = length (filter (\<lambda>c. c = nl) h)"
    using assms(1) le [of "\<lambda>c. \<not> is_cont c"] le [of "\<lambda>c. c = nl"]
    by (simp_all add: buffer_inv_def Let_def chars_count_def)
  moreover have "ends_with_newline (inner b) = (last h = nl)"
    using assms(1) False by (simp add: buffer_inv_def Let_def)
  ultimately show ?thesis
    using valid_utf8_chars_pos [OF assms(2) False] False le [of "\<lambda>c. c = nl"]
    by (simp add: output_lines_def sat_add_def str_lines_def length_split_inclusive)
qed

lemma append_all_no_overflow:
  assumes "buffer_inv h b" "max_chars b < usize_max" "dropped_bytes (inner b) = 0"
    "spill (inner b) = None" "\<not> spill_failed (inner b)"
    "length (h @ concat (map snd cs)) \<le> max_chars b"
  shows "otext (inner (append_all b cs)) = h @ concat (map snd cs) \<and>
     dropped_bytes (inner (append_all b cs)) = 0 \<and> spill (inner (append_all b cs)) = None"
  using assms
proof (induction cs arbitrary: h b)
  case Nil
  then show ?case by (auto simp: buffer_inv_def Let_def)
next
  case (Cons ic cs)
  obtain io c where ic: "ic = (io, c)" by force
  from Cons.prems(1,3) have h: "otext (inner b) = h" by (auto simp: buffer_inv_def Let_def)
  with Cons.prems(6) ic have len: "length (h @ c) \<le> max_chars b" by simp
  with Cons.prems(2,4,5) h
  have "inner (buffer_append io b c) = (count_chunk (inner b) c)\<lparr>otext := h @ c\<rparr>"
    by (simp add: buffer_append_def Let_def spill_chunk_def sat_add_def trim_text_id)
  then have "dropped_bytes (inner (buffer_append io b c)) = 0"
    "spill (inner (buffer_append io b c)) = None" "\<not> spill_failed (inner (buffer_append io b c))"
    using Cons.prems(3-5) by simp_all
  from Cons.IH [OF buffer_append_inv [OF Cons.prems(1,2), of c io] _ this] Cons.prems(2,6)
  show ?case by (simp add: ic)
qed

section \<open>The reader\<close>

lemma reader_run_reads:
  assumes "buffer_inv h (rd_output r)" and "max_chars (rd_output r) < usize_max"
    and "rd_sequence r = length (rd_observed r)"
    and "map fst (rd_observed r) = [0..<length (rd_observed r)]"
    and "length (rd_observed r) + length reads \<le> u64_max"
    and "concat (map snd (rd_observed r)) = h"
    and "feed_all decoder_push (rd_decoder r) (map fst reads) = (out, d)"
  shows "\<exists>r'. reader_run r (map (\<lambda>(bs, io). (ReadBytes bs, io)) reads @ rest) = reader_run r' rest \<and>
     buffer_inv (h @ out) (rd_output r') \<and> max_chars (rd_output r') = max_chars (rd_output r) \<and>
     rd_sequence r' = length (rd_observed r') \<and>
     length (rd_observed r') = length (rd_observed r) + length reads \<and>
     map fst (rd_observed r') = [0..<length (rd_observed r')] \<and>
     concat (map snd (rd_observed r')) = h @ out \<and> rd_decoder r' = d"
  using assms
proof (induction reads arbitrary: r h out)
  case Nil
  then show ?case by (intro exI [of _ r]) auto
next
  case (Cons bi reads)
  obtain bs io where bi: "bi = (bs, io)" by force
  obtain chunk d1 where push: "decoder_push (rd_decoder r) bs = (chunk, d1)" by force
  obtain out2 where out2: "feed_all decoder_push d1 (map fst reads) = (out2, d)" "out = chunk @ out2"
    using Cons.prems(7) push bi by (auto split: prod.splits)
  define r1 where "r1 = observe_chunk io (r\<lparr>rd_decoder := d1\<rparr>) chunk"
  have r1: "buffer_inv (h @ chunk) (rd_output r1)" "max_chars (rd_output r1) = max_chars (rd_output r)"
    "rd_sequence r1 = length (rd_observed r1)"
    "map fst (rd_observed r1) = [0..<length (rd_observed r1)]"
    "length (rd_observed r1) = Suc (length (rd_observed r))"
    "concat (map snd (rd_observed r1)) = h @ chunk" "rd_decoder r1 = d1"
    using Cons.prems(1-6) buffer_append_inv [OF Cons.prems(1,2), of chunk io]
    by (simp_all add: r1_def observe_chunk_def)
  have "length (rd_observed r1) + length reads \<le> u64_max"
    using Cons.prems(5) r1(5) by simp
  from Cons.IH [OF r1(1) _ r1(3,4) this r1(6)] Cons.prems(2) r1(2,7) out2(1)
  obtain r' where
    "reader_run r1 (map (\<lambda>(bs, io). (ReadBytes bs, io)) reads @ rest) = reader_run r' rest"
    "buffer_inv ((h @ chunk) @ out2) (rd_output r')"
    "max_chars (rd_output r') = max_chars (rd_output r)"
    "rd_sequence r' = length (rd_observed r')"
    "length (rd_observed r') = length (rd_observed r1) + length reads"
    "map fst (rd_observed r') = [0..<length (rd_observed r')]"
    "concat (map snd (rd_observed r')) = (h @ chunk) @ out2" "rd_decoder r' = d"
    by auto
  then show ?case
    by (intro exI [of _ r']) (simp add: bi push out2(2) r1(5) flip: r1_def)
qed

text \<open>
  C8: over any sequence of appended chunks and any pattern of file-system failures, the buffer
  refines the log of everything appended: its text is a suffix of the log within the configured
  bound, the dropped bytes are exactly accounted for, the counters measure the whole log, and a
  surviving spill file holds a prefix of at most 16 MiB of it (all of it unless marked truncated).
\<close>

theorem output_buffer_refines_log:
  "m < usize_max \<Longrightarrow>
     buffer_inv (concat (map snd cs)) (append_all (output_buffer_new m path) cs)"
  using append_all_inv [OF buffer_inv_new [of m path]] by (simp add: output_buffer_new_def)

theorem output_buffer_refines_log_witness:
  "buffer_inv ''abcdef'' (append_all (output_buffer_new 4 ''/tmp/x'')
     [(\<lparr>open_ok = True, write_ok = (\<lambda>_. True)\<rparr>, ''abc''),
      (\<lparr>open_ok = True, write_ok = (\<lambda>_. False)\<rparr>, ''def'')])"
  using output_buffer_refines_log [of 4 "[(\<lparr>open_ok = True, write_ok = (\<lambda>_. True)\<rparr>, ''abc''),
      (\<lparr>open_ok = True, write_ok = (\<lambda>_. False)\<rparr>, ''def'')]" "''/tmp/x''"]
  by (simp add: usize_max_def)

text \<open>
  the model never receives a broken character: when the chunks are valid UTF-8 (as the decoder
  guarantees), the retained text and the preview shown for spilled output are valid UTF-8.
\<close>

theorem output_text_stays_valid:
  assumes "\<And>io c. (io, c) \<in> set cs \<Longrightarrow> valid_utf8 c"
  shows "valid_utf8 (otext (inner (append_all (output_buffer_new m path) cs))) \<and>
         valid_utf8 (preview (inner (append_all (output_buffer_new m path) cs)))"
proof -
  have "valid_utf8 (otext (inner (output_buffer_new m path)))" by (simp add: output_buffer_new_def)
  from append_all_valid [OF this assms] show ?thesis by (simp add: valid_utf8_preview)
qed

theorem output_text_stays_valid_witness:
  "valid_utf8 (otext (inner (append_all (output_buffer_new 2 ''p'')
     [(\<lparr>open_ok = False, write_ok = (\<lambda>_. True)\<rparr>, [CHR 0xC3, CHR 0xA9, CHR ''a''])])))"
  using output_text_stays_valid
    [of "[(\<lparr>open_ok = False, write_ok = (\<lambda>_. True)\<rparr>, [CHR 0xC3, CHR 0xA9, CHR ''a''])]" 2 "''p''"]
  by (simp add: valid_utf8_def from_utf8.simps scan_def is_cont_def)

text \<open>
  output that fits the configured bound is returned verbatim: the snapshot's text is exactly
  everything appended and no file is involved.
\<close>

theorem snapshot_of_small_output_is_exact:
  assumes "m < usize_max" and "length (concat (map snd cs)) \<le> m"
  shows "buffer_snapshot (append_all (output_buffer_new m path) cs) =
    \<lparr>snap_text = concat (map snd cs), snap_output_file = None, snap_output_chars = None,
     snap_output_lines = None, snap_output_file_truncated = None\<rparr>"
proof -
  have "otext (inner (append_all (output_buffer_new m path) cs)) = [] @ concat (map snd cs) \<and>
     dropped_bytes (inner (append_all (output_buffer_new m path) cs)) = 0 \<and>
     spill (inner (append_all (output_buffer_new m path) cs)) = None"
    by (rule append_all_no_overflow) (use assms in auto)
  then show ?thesis by (simp add: buffer_snapshot_def snapshot_text_def Let_def)
qed

theorem snapshot_of_small_output_is_exact_witness:
  "snap_text (buffer_snapshot (append_all (output_buffer_new 8 ''p'')
     [(\<lparr>open_ok = False, write_ok = (\<lambda>_. True)\<rparr>, ''ab''),
      (\<lparr>open_ok = False, write_ok = (\<lambda>_. True)\<rparr>, ''cd'')])) = ''abcd''"
  using snapshot_of_small_output_is_exact [of 8 "[(\<lparr>open_ok = False, write_ok = (\<lambda>_. True)\<rparr>, ''ab''),
      (\<lparr>open_ok = False, write_ok = (\<lambda>_. True)\<rparr>, ''cd'')]" "''p''"]
  by (simp add: usize_max_def)

text \<open>
  when output was spilled to a file, the snapshot's metadata is truthful: the announced file
  holds the complete output unless it is flagged as truncated, the reported numbers of characters
  and lines are those of the complete output, and the text shown is the header followed by a
  suffix of the output of at most 20 KiB.
\<close>

theorem spilled_snapshot_is_truthful:
  assumes "m < usize_max" and h: "h = concat (map snd cs)" "valid_utf8 h" "length h < usize_max"
    and b: "b = append_all (output_buffer_new m path) cs"
    and sp: "spill (inner b) = Some sp"
  shows "snap_output_file (buffer_snapshot b) = Some (sp_path sp) \<and>
     snap_output_chars (buffer_snapshot b) = Some (chars_count h) \<and>
     snap_output_lines (buffer_snapshot b) = Some (length (str_lines h)) \<and>
     snap_output_file_truncated (buffer_snapshot b) = Some (sp_truncated sp) \<and>
     (sp_truncated sp = False \<longrightarrow> sp_file sp = h) \<and>
     length (sp_file sp) \<le> OUTPUT_SPILL_MAX_BYTES \<and>
     (\<exists>header tail d. snap_text (buffer_snapshot b) = header @ tail \<and> h = d @ tail \<and>
        length tail \<le> SPILLED_OUTPUT_PREVIEW_MAX_BYTES)"
proof -
  have inv: "buffer_inv h b"
    using append_all_inv [OF buffer_inv_new [of m path]] assms(1) h b
    by (simp add: output_buffer_new_def)
  have "chars_count h \<le> length h" by (simp add: chars_count_def)
  with inv h(3) have chars: "total_chars (inner b) = chars_count h"
    by (simp add: buffer_inv_def Let_def)
  from inv sp have sinv: "spill_inv h sp" by (simp add: buffer_inv_def Let_def)
  obtain d where "h = d @ otext (inner b)" using inv by (auto simp: buffer_inv_def Let_def)
  moreover obtain e where "otext (inner b) = e @ preview (inner b)" using preview_suffix(1) by blast
  ultimately have "h = (d @ e) @ preview (inner b)" by simp
  moreover have "\<exists>header. snap_text (buffer_snapshot b) = header @ preview (inner b)"
    using sp by (simp add: buffer_snapshot_def snapshot_text_def Let_def)
  ultimately have "\<exists>header tail d. snap_text (buffer_snapshot b) = header @ tail \<and> h = d @ tail \<and>
        length tail \<le> SPILLED_OUTPUT_PREVIEW_MAX_BYTES"
    using preview_suffix(2) by blast
  with sp chars sinv output_lines_correct [OF inv h(2,3)] show ?thesis
    by (simp add: buffer_snapshot_def Let_def spill_inv_def)
qed

lemma spilled_example:
  "spill (inner (append_all (output_buffer_new 2 ''p'')
     [(\<lparr>open_ok = True, write_ok = (\<lambda>_. True)\<rparr>, ''a\<newline>bc'')])) =
   Some \<lparr>sp_path = ''p'', sp_file = ''a\<newline>bc'', bytes_written = 4, sp_truncated = False\<rparr>"
  by (simp add: buffer_append_def count_chunk_def spill_chunk_def sat_add_def usize_max_def
      start_output_spill_def append_to_spill_def OUTPUT_SPILL_MAX_BYTES_def Let_def
      is_char_boundary_def output_buffer_new_def)

lemma valid_example: "valid_utf8 ''a\<newline>bc''"
  by (simp add: valid_utf8_def from_utf8.simps scan_def)

theorem spilled_snapshot_is_truthful_witness:
  "snap_output_lines (buffer_snapshot (append_all (output_buffer_new 2 ''p'')
     [(\<lparr>open_ok = True, write_ok = (\<lambda>_. True)\<rparr>, ''a\<newline>bc'')])) = Some 2"
proof -
  have h: "''a\<newline>bc'' = concat (map snd [(\<lparr>open_ok = True, write_ok = (\<lambda>_. True)\<rparr>, ''a\<newline>bc'')])"
    by simp
  have m: "(2::nat) < usize_max" and l: "length ''a\<newline>bc'' < usize_max"
    by (simp_all add: usize_max_def)
  have "length (str_lines ''a\<newline>bc'') = 2" by code_simp
  with spilled_snapshot_is_truthful [OF m h valid_example l refl spilled_example]
  show ?thesis by simp
qed

text \<open>
  when the PTY reaches end of file, what the observer was given, in its numbered order, is
  exactly the decoded stream, the session buffer has logged exactly the same text, and the reader
  has signalled completion.
\<close>

theorem reader_delivers_decoded_stream:
  assumes "m < usize_max" and "length reads < u64_max"
    and r: "r = reader_run (reader_init (output_buffer_new m path))
              (map (\<lambda>(bs, io). (ReadBytes bs, io)) reads @ [(ReadEof, io)])"
  shows "concat (map snd (rd_observed r)) = decode_stream (map fst reads) \<and>
         map fst (rd_observed r) = [0..<length (rd_observed r)] \<and>
         buffer_inv (decode_stream (map fst reads)) (rd_output r) \<and>
         reader_done (rd_output r) \<and> rd_complete r"
proof -
  obtain out d where f: "feed_all decoder_push decoder_default (map fst reads) = (out, d)" by force
  have init: "rd_output (reader_init b) = b" "rd_sequence (reader_init b) = 0"
    "rd_observed (reader_init b) = []" "rd_decoder (reader_init b) = decoder_default" for b
    by (simp_all add: reader_init_def)
  obtain r' where r': "r = reader_finish io r'" "buffer_inv out (rd_output r')"
     "max_chars (rd_output r') < usize_max" "rd_sequence r' = length (rd_observed r')"
     "map fst (rd_observed r') = [0..<length (rd_observed r')]"
     "concat (map snd (rd_observed r')) = out" "rd_decoder r' = d"
    using reader_run_reads [of "[]" "reader_init (output_buffer_new m path)" reads out d "[(ReadEof, io)]"]
      assms f
    by (auto simp: init)
  obtain fin d' where fin: "decoder_finish d = (fin, d')" by force
  have ds: "decode_stream (map fst reads) = out @ fin" by (simp add: decode_stream_def f fin)
  have done_inv: "buffer_inv h (mark_reader_done b) = buffer_inv h b" for h b
    by (simp add: buffer_inv_def mark_reader_done_def)
  show ?thesis
    using r'(2-7) fin ds buffer_append_inv [OF r'(2,3), of fin io]
    by (cases "fin = []")
       (simp_all add: r'(1) reader_finish_def Let_def done_inv, simp_all add: mark_reader_done_def)
qed

theorem reader_delivers_decoded_stream_witness:
  "concat (map snd (rd_observed (reader_run (reader_init (output_buffer_new 8 ''p''))
      [(ReadBytes [CHR ''a'', CHR 0xF0], \<lparr>open_ok = True, write_ok = (\<lambda>_. True)\<rparr>),
       (ReadEof, \<lparr>open_ok = True, write_ok = (\<lambda>_. True)\<rparr>)]))) = CHR ''a'' # replacement_char"
  using reader_delivers_decoded_stream
    [OF _ _ refl, of 8 "[([CHR ''a'', CHR 0xF0], \<lparr>open_ok = True, write_ok = (\<lambda>_. True)\<rparr>)]" "''p''"
      "\<lparr>open_ok = True, write_ok = (\<lambda>_. True)\<rparr>"]
  by (simp add: usize_max_def u64_max_def decode_stream_concat lossy.simps scan_def)

end
