(* ===== verification/Process_Identity.thy ===== *)
theory Process_Identity
  imports Zodex_Prelude
begin

text \<open>
  Process identities and signals (\<^verbatim>\<open>src/session/process.rs\<close>).  A process is identified by its PID
  together with its birth time, so that a recycled PID is told apart from the process that had
  it before.  The Linux implementation reads \<^verbatim>\<open>/proc\<close>, which is the record \<open>proc_fs\<close>; the trait
  \<^verbatim>\<open>ProcessInspector\<close> is the record \<open>inspector\<close> of its four methods, and what its clients rely on
  is the locale \<open>lawful_inspector\<close>, interpreted on the Linux implementation.
\<close>

section \<open>Data\<close>

datatype process_birth_identity =
    LinuxProcStartTicks nat
  | MacOsStartTime nat nat
  | WindowsCreationTime nat

record process_identity =
  pid :: int
  birth :: process_birth_identity

datatype process_signal = Terminate | Kill

record inspector =
  insp_identity :: "int \<Rightarrow> process_identity option res"
  insp_live_cwd :: "int \<Rightarrow> rstr option"
  insp_descendants :: "int \<Rightarrow> nat \<Rightarrow> process_identity list res"
  insp_group_members :: "int \<Rightarrow> nat \<Rightarrow> process_identity list res"

text \<open>Signals sent, in order, and the kernel's answer to one.\<close>

datatype signal_effect = SignalGroup int process_signal | SignalProcess int process_signal

datatype kill_result = KillOk | KillEsrch | KillErr rstr

type_synonym kernel = "signal_effect \<Rightarrow> kill_result"

section \<open>Signals\<close>

fun signal_name :: "process_signal \<Rightarrow> rstr" where
  "signal_name Terminate = ''SIGTERM''"
| "signal_name Kill = ''SIGKILL''"

definition signal_process_group :: "kernel \<Rightarrow> int \<Rightarrow> process_signal \<Rightarrow> signal_effect list \<times> unit res" where
  "signal_process_group kern p sig =
     ([SignalGroup p sig],
      case kern (SignalGroup p sig) of
        KillErr e \<Rightarrow> Inl (''failed to send '' @ signal_name sig @ '' to process group '' @ show_int p @ '': '' @ e)
      | _ \<Rightarrow> Inr ())"

definition signal_process :: "kernel \<Rightarrow> int \<Rightarrow> process_signal \<Rightarrow> signal_effect list \<times> unit res" where
  "signal_process kern p sig =
     ([SignalProcess p sig],
      case kern (SignalProcess p sig) of
        KillErr e \<Rightarrow> Inl (''failed to send '' @ signal_name sig @ '' to PID '' @ show_int p @ '': '' @ e)
      | _ \<Rightarrow> Inr ())"

definition identity_matches :: "inspector \<Rightarrow> process_identity \<Rightarrow> bool res" where
  "identity_matches insp expected =
     and_then (insp_identity insp (pid expected)) (\<lambda>current. Inr (current = Some expected))"

definition signal_process_if_matching ::
  "kernel \<Rightarrow> inspector \<Rightarrow> process_identity \<Rightarrow> process_signal \<Rightarrow> signal_effect list \<times> bool res" where
  "signal_process_if_matching kern insp expected sig =
     (case identity_matches insp expected of
        Inl e \<Rightarrow> ([], Inl e)
      | Inr False \<Rightarrow> ([], Inr False)
      | Inr True \<Rightarrow>
          (case signal_process kern (pid expected) sig of
             (effs, Inl e) \<Rightarrow> (effs, Inl e)
           | (effs, Inr _) \<Rightarrow> (effs, Inr True)))"

section \<open>The Linux process table\<close>

definition i32_of :: "int \<Rightarrow> int option" where
  "i32_of i = (if - (2 ^ 31) \<le> i \<and> i < 2 ^ 31 then Some i else None)"

text \<open>\<^verbatim>\<open>str::parse::<i32>\<close> and \<^verbatim>\<open>str::parse::<u64>\<close>: an optional sign, then digits, within range.\<close>

definition parse_i32 :: "rstr \<Rightarrow> int option" where
  "parse_i32 s =
     (let (negative, digits) =
        (case s of
           c # cs \<Rightarrow> if c = CHR ''-'' then (True, cs) else if c = CHR ''+'' then (False, cs) else (False, s)
         | [] \<Rightarrow> (False, []))
      in if digits \<noteq> [] \<and> list_all is_ascii_digit digits
         then i32_of (if negative then - int (digits_val 0 digits) else int (digits_val 0 digits))
         else None)"

definition parse_u64 :: "rstr \<Rightarrow> nat option" where
  "parse_u64 s = (case s of c # cs \<Rightarrow> if c = CHR ''+'' then parse_u64_digits cs else parse_u64_digits s | [] \<Rightarrow> None)"

text \<open>\<^verbatim>\<open>split_whitespace\<close> and \<^verbatim>\<open>rsplit_once(&str)\<close>.\<close>

fun word_len :: "rstr \<Rightarrow> nat" where
  "word_len [] = 0"
| "word_len (c # s) = (if ws_prefix (c # s) = 0 then Suc (word_len s) else 0)"

lemma trim_start_no_ws: "ws_prefix (trim_start s) = 0"
  by (induction s rule: trim_start.induct) (subst trim_start.simps, auto)

lemma word_len_pos: "s \<noteq> [] \<Longrightarrow> ws_prefix s = 0 \<Longrightarrow> 0 < word_len s"
  by (cases s) auto

function split_whitespace :: "rstr \<Rightarrow> rstr list" where
  "split_whitespace s =
     (let t = trim_start s
      in if t = [] then [] else take (word_len t) t # split_whitespace (drop (word_len t) t))"
  by pat_completeness auto
termination
proof (relation "measure length", simp_all)
  fix s :: rstr
  assume "trim_start s \<noteq> []"
  then have "0 < word_len (trim_start s)" by (simp add: word_len_pos trim_start_no_ws)
  with trim_start_le [of s] \<open>trim_start s \<noteq> []\<close> show "length (trim_start s) - word_len (trim_start s) < length s"
    by (metis diff_less le_trans length_greater_0_conv less_le_trans linorder_not_le)
qed

declare split_whitespace.simps [simp del]

fun rfind_sub :: "'a list \<Rightarrow> 'a list \<Rightarrow> nat option" where
  "rfind_sub p [] = (if p = [] then Some 0 else None)"
| "rfind_sub p (c # s) =
     (case rfind_sub p s of
        Some i \<Rightarrow> Some (Suc i)
      | None \<Rightarrow> if starts_with (c # s) p then Some 0 else None)"

definition rsplit_once_str :: "'a list \<Rightarrow> 'a list \<Rightarrow> ('a list \<times> 'a list) option" where
  "rsplit_once_str p s = map_option (\<lambda>i. (take i s, drop (i + length p) s)) (rfind_sub p s)"

definition get_field :: "rstr list \<Rightarrow> nat \<Rightarrow> rstr option" where
  "get_field cols i = (if i < length cols then Some (cols ! i) else None)"

record linux_proc_stat =
  ppid :: int
  pgrp :: int
  start_ticks :: nat

definition parse_linux_proc_stat :: "rstr \<Rightarrow> linux_proc_stat option" where
  "parse_linux_proc_stat raw =
     Option.bind (rsplit_once_str '') '' raw) (\<lambda>(_, after_comm).
       let cols = split_whitespace after_comm in
       Option.bind (Option.bind (get_field cols 1) parse_i32) (\<lambda>parent.
       Option.bind (Option.bind (get_field cols 2) parse_i32) (\<lambda>grp.
       Option.bind (Option.bind (get_field cols 19) parse_u64) (\<lambda>ticks.
         Some \<lparr>ppid = parent, pgrp = grp, start_ticks = ticks\<rparr>))))"

text \<open>\<^verbatim>\<open>/proc\<close>: the names \<^verbatim>\<open>read_dir\<close> lists (\<open>None\<close>: it fails), each \<^verbatim>\<open>stat\<close> file and each \<^verbatim>\<open>cwd\<close> link.\<close>

record proc_fs =
  proc_entries :: "rstr list option"
  proc_stat :: "int \<Rightarrow> rstr option"
  proc_cwd :: "int \<Rightarrow> rstr option"

definition read_linux_proc_stat :: "proc_fs \<Rightarrow> int \<Rightarrow> linux_proc_stat option" where
  "read_linux_proc_stat fs p = Option.bind (proc_stat fs p) parse_linux_proc_stat"

definition system_process_identity :: "proc_fs \<Rightarrow> int \<Rightarrow> process_identity option res" where
  "system_process_identity fs p =
     (case read_linux_proc_stat fs p of
        None \<Rightarrow> Inr None
      | Some st \<Rightarrow> Inr (Some \<lparr>pid = p, birth = LinuxProcStartTicks (start_ticks st)\<rparr>))"

definition entry_pid :: "rstr \<Rightarrow> int option" where
  "entry_pid raw = (if \<not> list_all is_ascii_digit raw then None else parse_i32 raw)"

fun best_cwd :: "proc_fs \<Rightarrow> int \<Rightarrow> (int \<times> rstr) option \<Rightarrow> rstr list \<Rightarrow> (int \<times> rstr) option" where
  "best_cwd fs target best [] = best"
| "best_cwd fs target best (raw # rest) =
     (case entry_pid raw of
        None \<Rightarrow> best_cwd fs target best rest
      | Some p \<Rightarrow>
          if map_option pgrp (read_linux_proc_stat fs p) \<noteq> Some target then best_cwd fs target best rest
          else (case proc_cwd fs p of
              None \<Rightarrow> best_cwd fs target best rest
            | Some cwd \<Rightarrow>
                if (case best of None \<Rightarrow> True | Some (best_pid, _) \<Rightarrow> p > best_pid)
                then best_cwd fs target (Some (p, cwd)) rest
                else best_cwd fs target best rest))"

definition system_live_cwd :: "proc_fs \<Rightarrow> int \<Rightarrow> rstr option" where
  "system_live_cwd fs p =
     Option.bind (map_option pgrp (read_linux_proc_stat fs p)) (\<lambda>target.
     Option.bind (proc_entries fs) (\<lambda>entries.
       case best_cwd fs target None entries of
         Some (_, cwd) \<Rightarrow> Some cwd
       | None \<Rightarrow> proc_cwd fs p))"

definition scan_limit :: "nat \<Rightarrow> nat" where
  "scan_limit limit = (let n = sat_mul limit 16 in if n < 256 then 256 else if n > 8192 then 8192 else n)"

text \<open>The children map: the scanned processes whose parent is \<open>p\<close>, in scan order.\<close>

definition scanned_pids :: "proc_fs \<Rightarrow> nat \<Rightarrow> rstr list \<Rightarrow> (int \<times> linux_proc_stat) list" where
  "scanned_pids fs limit entries =
     List.map_filter (\<lambda>raw. Option.bind (entry_pid raw) (\<lambda>p. map_option (Pair p) (read_linux_proc_stat fs p)))
       (take (scan_limit limit) entries)"

definition children_of :: "proc_fs \<Rightarrow> nat \<Rightarrow> rstr list \<Rightarrow> int \<Rightarrow> int list" where
  "children_of fs limit entries p = map fst (filter (\<lambda>(_, st). ppid st = p) (scanned_pids fs limit entries))"

text \<open>The inner loop over the children of one parent: \<open>None\<close> is the early return at the limit.\<close>

fun visit_children ::
  "(int \<Rightarrow> process_identity option res) \<Rightarrow> nat \<Rightarrow> int list \<Rightarrow> int list \<Rightarrow> process_identity list
    \<Rightarrow> bool \<times> int list \<times> process_identity list" where
  "visit_children ident limit [] queue result = (False, queue, result)"
| "visit_children ident limit (c # cs) queue result =
     (if limit \<le> length result then (True, queue, result)
      else case ident c of
        Inr (Some i) \<Rightarrow> visit_children ident limit cs (queue @ [c]) (result @ [i])
      | _ \<Rightarrow> visit_children ident limit cs queue result)"

lemma visit_children_grows:
  assumes "visit_children ident limit cs queue result = (stop, queue', result')" "length result \<le> limit"
  shows "length result \<le> length result' \<and> length result' \<le> limit \<and>
    length queue' + length result = length queue + length result'"
  using assms
proof (induction cs arbitrary: queue result)
  case (Cons c cs)
  show ?case
  proof (cases "length result < limit \<and> (\<exists>i. ident c = Inr (Some i))")
    case True
    then obtain i where i: "ident c = Inr (Some i)" "length result < limit" by blast
    with Cons.prems have "visit_children ident limit cs (queue @ [c]) (result @ [i]) = (stop, queue', result')" by simp
    from Cons.IH [OF this] i show ?thesis by simp
  next
    case False
    with Cons.prems Cons.IH [of queue result] show ?thesis
      by (auto split: if_splits sum.splits option.splits)
  qed
qed simp

text \<open>The outer loop.  Its first guard is never true in a run that starts with an empty result; it makes
  the function total.\<close>

function visit_queue ::
  "(int \<Rightarrow> process_identity option res) \<Rightarrow> (int \<Rightarrow> int list) \<Rightarrow> nat \<Rightarrow> int list \<Rightarrow> process_identity list
    \<Rightarrow> process_identity list" where
  "visit_queue ident children limit [] result = result"
| "visit_queue ident children limit (parent # queue) result =
     (if limit < length result then result
      else case visit_children ident limit (children parent) queue result of
        (True, _, result') \<Rightarrow> result'
      | (False, queue', result') \<Rightarrow> visit_queue ident children limit queue' result')"
  by pat_completeness auto
termination
  by (relation "measure (\<lambda>(ident, children, limit, queue, result). length queue + 2 * (limit - length result))")
     (auto dest!: visit_children_grows [OF sym])

definition system_descendant_identities :: "proc_fs \<Rightarrow> int \<Rightarrow> nat \<Rightarrow> process_identity list res" where
  "system_descendant_identities fs p limit =
     (if limit = 0 then Inr []
      else case proc_entries fs of
        None \<Rightarrow> Inr []
      | Some entries \<Rightarrow>
          Inr (visit_queue (system_process_identity fs) (children_of fs limit entries) limit [p] []))"

definition system_process_group_members :: "proc_fs \<Rightarrow> int \<Rightarrow> nat \<Rightarrow> process_identity list res" where
  "system_process_group_members fs pgid limit =
     (if limit = 0 then Inr []
      else case proc_entries fs of
        None \<Rightarrow> Inr []
      | Some entries \<Rightarrow>
          Inr (take limit (List.map_filter
            (\<lambda>(p, st). if pgrp st \<noteq> pgid then None
                       else case system_process_identity fs p of Inr (Some i) \<Rightarrow> Some i | _ \<Rightarrow> None)
            (scanned_pids fs limit entries))))"

definition system_inspector :: "proc_fs \<Rightarrow> inspector" where
  "system_inspector fs = \<lparr>
     insp_identity = system_process_identity fs,
     insp_live_cwd = system_live_cwd fs,
     insp_descendants = system_descendant_identities fs,
     insp_group_members = system_process_group_members fs\<rparr>"

section \<open>The inspector's contract\<close>

locale lawful_inspector =
  fixes insp :: inspector
  assumes identity_pid: "insp_identity insp p = Inr (Some i) \<Longrightarrow> pid i = p"
    and members_current:
      "insp_group_members insp g n = Inr is \<Longrightarrow> i \<in> set is \<Longrightarrow> insp_identity insp (pid i) = Inr (Some i)"
    and members_bounded: "insp_group_members insp g n = Inr is \<Longrightarrow> length is \<le> n"
    and descendants_current:
      "insp_descendants insp p n = Inr is \<Longrightarrow> i \<in> set is \<Longrightarrow> insp_identity insp (pid i) = Inr (Some i)"
    and descendants_bounded: "insp_descendants insp p n = Inr is \<Longrightarrow> length is \<le> n"
begin

lemma fresh_members_match:
  "insp_group_members insp g n = Inr is \<Longrightarrow> i \<in> set is \<Longrightarrow> identity_matches insp i = Inr True"
  by (simp add: identity_matches_def members_current)

lemma fresh_members_one_per_pid:
  "insp_group_members insp g n = Inr is \<Longrightarrow> i \<in> set is \<Longrightarrow> j \<in> set is \<Longrightarrow> pid i = pid j \<Longrightarrow> i = j"
  by (metis members_current option.inject sum.inject(2))

lemma fresh_descendants_match:
  "insp_descendants insp p n = Inr is \<Longrightarrow> i \<in> set is \<Longrightarrow> identity_matches insp i = Inr True"
  by (simp add: identity_matches_def descendants_current)

end

lemma system_process_identity_pid:
  "system_process_identity fs p = Inr (Some i) \<Longrightarrow> pid i = p"
  by (auto simp: system_process_identity_def split: option.splits)

lemma visit_children_sound:
  assumes "visit_children ident limit cs queue result = (stop, queue', result')"
  shows "(\<forall>i \<in> set result'. i \<in> set result \<or> (\<exists>c \<in> set cs. ident c = Inr (Some i))) \<and>
    (\<forall>q \<in> set queue'. q \<in> set queue \<or> q \<in> set cs)"
  using assms
proof (induction cs arbitrary: queue result)
  case (Cons c cs)
  show ?case
  proof (cases "length result < limit \<and> (\<exists>i. ident c = Inr (Some i))")
    case True
    then obtain i where i: "ident c = Inr (Some i)" "length result < limit" by blast
    with Cons.prems have "visit_children ident limit cs (queue @ [c]) (result @ [i]) = (stop, queue', result')" by simp
    from Cons.IH [OF this] i show ?thesis by fastforce
  next
    case False
    with Cons.prems Cons.IH [of queue result] show ?thesis
      by (force split: if_splits sum.splits option.splits)
  qed
qed simp

definition child_rel :: "(int \<Rightarrow> int list) \<Rightarrow> (int \<times> int) set" where
  "child_rel children = {(p, c). c \<in> set (children p)}"

lemma visit_queue_sound:
  assumes "\<forall>q \<in> set queue. (root, q) \<in> (child_rel children)\<^sup>*"
    and "\<forall>i \<in> set result. \<exists>c. (root, c) \<in> (child_rel children)\<^sup>+ \<and> ident c = Inr (Some i)"
    and "length result \<le> limit"
  shows "(\<forall>i \<in> set (visit_queue ident children limit queue result).
      \<exists>c. (root, c) \<in> (child_rel children)\<^sup>+ \<and> ident c = Inr (Some i)) \<and>
    length (visit_queue ident children limit queue result) \<le> limit"
  using assms
proof (induction ident children limit queue result rule: visit_queue.induct)
  case (2 ident children limit parent queue result)
  obtain stop queue' result' where v: "visit_children ident limit (children parent) queue result = (stop, queue', result')"
    by (cases "visit_children ident limit (children parent) queue result") auto
  note sound = visit_children_sound [OF v] and grows = visit_children_grows [OF v "2.prems"(3)]
  have p: "(root, parent) \<in> (child_rel children)\<^sup>*" using "2.prems"(1) by simp
  have step: "(root, c) \<in> (child_rel children)\<^sup>+" if "c \<in> set (children parent)" for c
    using p that by (intro rtrancl_into_trancl1 [of root parent]) (auto simp: child_rel_def)
  have q': "\<forall>q \<in> set queue'. (root, q) \<in> (child_rel children)\<^sup>*"
    using sound "2.prems"(1) step by (auto dest: trancl_into_rtrancl)
  have r': "\<forall>i \<in> set result'. \<exists>c. (root, c) \<in> (child_rel children)\<^sup>+ \<and> ident c = Inr (Some i)"
    using sound "2.prems"(2) step by metis
  show ?case
  proof (cases stop)
    case True
    with v r' grows "2.prems"(3) show ?thesis by simp
  next
    case False
    then have "visit_queue ident children limit (parent # queue) result = visit_queue ident children limit queue' result'"
      using v "2.prems"(3) by simp
    moreover have "\<not> limit < length result" "stop = False" using "2.prems"(3) False by simp_all
    ultimately show ?thesis
      using "2.IH" [OF _ v [symmetric] _ refl q' r'] grows by simp
  qed
qed simp

lemma visit_children_complete:
  assumes "visit_children ident limit cs queue result = (stop, queue', result')"
  shows "set result \<subseteq> set result' \<and> set queue \<subseteq> set queue' \<and> (stop \<longrightarrow> limit \<le> length result') \<and>
    (\<not> stop \<longrightarrow> (\<forall>c \<in> set cs. \<forall>i. ident c = Inr (Some i) \<longrightarrow> i \<in> set result')) \<and>
    (\<forall>i \<in> set result'. i \<in> set result \<or> (\<exists>c \<in> set queue'. ident c = Inr (Some i)))"
  using assms
proof (induction cs arbitrary: queue result)
  case (Cons c cs)
  show ?case
  proof (cases "length result < limit \<and> (\<exists>i. ident c = Inr (Some i))")
    case True
    then obtain i where i: "ident c = Inr (Some i)" "length result < limit" by blast
    with Cons.prems have "visit_children ident limit cs (queue @ [c]) (result @ [i]) = (stop, queue', result')" by simp
    from Cons.IH [OF this] i show ?thesis by auto
  next
    case False
    with Cons.prems Cons.IH [of queue result] show ?thesis
      by (auto split: if_splits sum.splits option.splits)
  qed
qed simp

lemma visit_queue_mono: "length result \<le> limit \<Longrightarrow> set result \<subseteq> set (visit_queue ident children limit queue result)
    \<and> length result \<le> length (visit_queue ident children limit queue result)"
proof (induction ident children limit queue result rule: visit_queue.induct)
  case (2 ident children limit parent queue result)
  obtain stop queue' result' where v: "visit_children ident limit (children parent) queue result = (stop, queue', result')"
    by (cases "visit_children ident limit (children parent) queue result") auto
  note complete = visit_children_complete [OF v] and grows = visit_children_grows [OF v "2.prems"]
  show ?case
  proof (cases stop)
    case True
    with v complete grows "2.prems" show ?thesis by simp
  next
    case False
    then have "stop = False" by simp
    with "2.IH" [OF _ v [symmetric] this refl] v complete grows "2.prems" show ?thesis by auto
  qed
qed simp

definition closed_under :: "(int \<Rightarrow> process_identity option res) \<Rightarrow> (int \<Rightarrow> int list) \<Rightarrow> int set \<Rightarrow> process_identity list \<Rightarrow> bool" where
  "closed_under ident children ps result \<longleftrightarrow>
     (\<forall>q \<in> ps. \<forall>c \<in> set (children q). \<forall>i. ident c = Inr (Some i) \<longrightarrow> i \<in> set result)"

lemma closed_under_mono:
  "closed_under ident children ps r \<Longrightarrow> set r \<subseteq> set r' \<Longrightarrow> closed_under ident children ps r'"
  unfolding closed_under_def by blast

lemma closed_under_anti:
  "closed_under ident children ps r \<Longrightarrow> qs \<subseteq> ps \<Longrightarrow> closed_under ident children qs r"
  unfolding closed_under_def by blast

lemma visit_queue_complete:
  assumes "closed_under ident children done result" "length result \<le> limit"
    and "\<forall>c i. ident c = Inr (Some i) \<longrightarrow> pid i = c"
    and "\<forall>i \<in> set result. pid i \<in> done \<union> set queue"
    and "length (visit_queue ident children limit queue result) < limit"
  shows "closed_under ident children
    (done \<union> set queue \<union> pid ` set (visit_queue ident children limit queue result))
    (visit_queue ident children limit queue result)"
  using assms
proof (induction ident children limit queue result arbitrary: "done" rule: visit_queue.induct)
  case (1 ident children limit result)
  then show ?case by (auto simp: closed_under_def)
next
  case (2 ident children limit parent queue result)
  obtain stop queue' result' where v: "visit_children ident limit (children parent) queue result = (stop, queue', result')"
    by (cases "visit_children ident limit (children parent) queue result") auto
  note complete = visit_children_complete [OF v] and grows = visit_children_grows [OF v "2.prems"(2)]
  have stop: "stop = False" using v complete "2.prems"(2,5) by (cases stop) auto
  have eq: "visit_queue ident children limit (parent # queue) result = visit_queue ident children limit queue' result'"
    using v stop "2.prems"(2) by simp
  have c': "closed_under ident children (insert parent done) result'"
    using "2.prems"(1) complete stop unfolding closed_under_def by blast
  have p': "\<forall>i \<in> set result'. pid i \<in> insert parent done \<union> set queue'"
  proof
    fix i assume "i \<in> set result'"
    with complete consider "i \<in> set result" | c where "c \<in> set queue'" "ident c = Inr (Some i)" by blast
    then show "pid i \<in> insert parent done \<union> set queue'"
      using "2.prems"(3,4) complete by cases auto
  qed
  have len: "\<not> limit < length result" "length result' \<le> limit" using "2.prems"(2) grows by auto
  have "closed_under ident children
    (insert parent done \<union> set queue' \<union> pid ` set (visit_queue ident children limit queue' result'))
    (visit_queue ident children limit queue' result')"
    using "2.IH" [OF len(1) v [symmetric] stop refl c' len(2) "2.prems"(3) p'] "2.prems"(5) eq by simp
  moreover have "set queue \<subseteq> set queue'" using complete by blast
  ultimately show ?case
    unfolding eq by (elim closed_under_anti) auto
qed

lemma scanned_pids_stat: "(p, st) \<in> set (scanned_pids fs limit entries) \<Longrightarrow> read_linux_proc_stat fs p = Some st"
  by (auto simp: scanned_pids_def List.map_filter_def split: bind_splits)

lemma system_group_members_current:
  assumes "system_process_group_members fs g n = Inr is" "i \<in> set is"
  shows "system_process_identity fs (pid i) = Inr (Some i)"
  using assms
  by (auto simp: system_process_group_members_def List.map_filter_def split: if_splits option.splits sum.splits
      dest!: in_set_takeD) (metis system_process_identity_pid)+

lemma search_from_root:
  fixes ident children limit root
  defines "result \<equiv> visit_queue ident children limit [root] []"
  shows "i \<in> set result \<Longrightarrow> \<exists>c. (root, c) \<in> (child_rel children)\<^sup>+ \<and> ident c = Inr (Some i)"
    and "length result \<le> limit"
    and "length result < limit \<Longrightarrow> (\<And>c i. ident c = Inr (Some i) \<Longrightarrow> pid i = c) \<Longrightarrow>
      closed_under ident children ({root} \<union> pid ` set result) result"
proof -
  have "\<forall>q \<in> set [root]. (root, q) \<in> (child_rel children)\<^sup>*" "\<forall>i \<in> set ([] :: process_identity list).
      \<exists>c. (root, c) \<in> (child_rel children)\<^sup>+ \<and> ident c = Inr (Some i)" "length ([] :: process_identity list) \<le> limit"
    by simp_all
  from visit_queue_sound [OF this]
  show "i \<in> set result \<Longrightarrow> \<exists>c. (root, c) \<in> (child_rel children)\<^sup>+ \<and> ident c = Inr (Some i)"
    and "length result \<le> limit" unfolding result_def by blast+
next
  assume "length result < limit" "\<And>c i. ident c = Inr (Some i) \<Longrightarrow> pid i = c"
  moreover have "closed_under ident children {} []" by (simp add: closed_under_def)
  ultimately show "closed_under ident children ({root} \<union> pid ` set result) result"
    using visit_queue_complete [of ident children "{}" "[]" limit "[root]"] unfolding result_def by simp
qed

lemma system_descendants_eq:
  assumes "system_descendant_identities fs p n = Inr is"
  obtains "is = []" "n = 0 \<or> proc_entries fs = None"
  | entries where "proc_entries fs = Some entries"
      "is = visit_queue (system_process_identity fs) (children_of fs n entries) n [p] []"
  using assms by (auto simp: system_descendant_identities_def simp del: visit_queue.simps split: if_splits option.splits)

lemma system_descendants_current:
  assumes "system_descendant_identities fs p n = Inr is" "i \<in> set is"
  shows "system_process_identity fs (pid i) = Inr (Some i)"
  using assms(1)
proof (cases rule: system_descendants_eq)
  case (2 entries)
  with assms(2) obtain c where "system_process_identity fs c = Inr (Some i)"
    using search_from_root(1) by blast
  with system_process_identity_pid [OF this] show ?thesis by simp
qed (use assms(2) in simp)

lemma system_descendants_bounded:
  "system_descendant_identities fs p n = Inr is \<Longrightarrow> length is \<le> n"
  by (erule system_descendants_eq) (auto simp del: visit_queue.simps intro: search_from_root(2))

lemma system_inspector_sel [simp]:
  "insp_identity (system_inspector fs) = system_process_identity fs"
  "insp_live_cwd (system_inspector fs) = system_live_cwd fs"
  "insp_descendants (system_inspector fs) = system_descendant_identities fs"
  "insp_group_members (system_inspector fs) = system_process_group_members fs"
  by (simp_all add: system_inspector_def)

interpretation linux_inspector: lawful_inspector "system_inspector fs" for fs
proof (unfold_locales, unfold system_inspector_sel)
  show "system_process_group_members fs g n = Inr is \<Longrightarrow> length is \<le> n" for g n "is"
    by (auto simp: system_process_group_members_def split: if_splits option.splits)
qed (fact system_process_identity_pid system_group_members_current system_descendants_current
       system_descendants_bounded)+

section \<open>Lemmas on the stat line\<close>

lemma rfind_sub_append: "rfind_sub p b = Some i \<Longrightarrow> rfind_sub p (a @ b) = Some (length a + i)"
  by (induction a) auto

lemma rfind_sub_absent: "c \<notin> set s \<Longrightarrow> c \<in> set p \<Longrightarrow> rfind_sub p s = None"
proof (induction s)
  case (Cons d s)
  have "\<not> starts_with (d # s) p"
  proof
    assume "starts_with (d # s) p"
    then obtain r where "d # s = p @ r" by (auto simp: starts_with_iff)
    with Cons.prems show False by (metis Un_iff set_append)
  qed
  with Cons show ?case by simp
qed auto

lemma rsplit_once_last:
  assumes "CHR '')'' \<notin> set rest"
  shows "rsplit_once_str '') '' (pre @ '') '' @ rest) = Some (pre, rest)"
proof -
  have "rfind_sub '') '' rest = None" using assms by (intro rfind_sub_absent [of "CHR '')''"]) auto
  then have "rfind_sub '') '' ('') '' @ rest) = Some 0" by simp
  from rfind_sub_append [OF this, of pre] show ?thesis by (simp add: rsplit_once_str_def)
qed

definition plain_word :: "rstr \<Rightarrow> bool" where
  "plain_word w \<longleftrightarrow> w \<noteq> [] \<and> list_all plain_byte w"

lemma word_len_plain: "list_all plain_byte w \<Longrightarrow> is_ascii_ws c \<Longrightarrow> word_len (w @ c # s) = length w"
  by (induction w) (auto simp: ws_prefix_plain, simp add: ws_prefix_def)

lemma trim_start_ws: "is_ascii_ws c \<Longrightarrow> trim_start (c # s) = trim_start s"
  by (subst trim_start.simps) (simp add: ws_prefix_def)

lemma split_whitespace_ws: "is_ascii_ws c \<Longrightarrow> split_whitespace (c # s) = split_whitespace s"
  by (subst (1 2) split_whitespace.simps) (simp add: trim_start_ws)

lemma split_whitespace_word:
  assumes "plain_word w" "is_ascii_ws c"
  shows "split_whitespace (w @ c # s) = w # split_whitespace s"
proof -
  have "trim_start (w @ c # s) = w @ c # s"
    using assms(1) by (cases w) (auto simp: trim_start.simps plain_word_def ws_prefix_plain)
  moreover have "word_len (w @ c # s) = length w" using assms by (simp add: plain_word_def word_len_plain)
  ultimately show ?thesis
    using assms by (subst split_whitespace.simps) (simp add: plain_word_def split_whitespace_ws)
qed

lemma split_whitespace_Nil: "split_whitespace [] = []"
  by (subst split_whitespace.simps) (simp add: trim_start.simps)

lemma split_whitespace_line:
  assumes "list_all plain_word ws"
  shows "split_whitespace (join_with '' '' ws @ [nl]) = ws"
  using assms
proof (induction ws rule: induct_list012)
  case 1
  then show ?case by (simp add: split_whitespace_ws split_whitespace_Nil is_ascii_ws_def)
next
  case (2 w)
  then show ?case using split_whitespace_word [of w nl "[]"]
    by (simp add: split_whitespace_Nil is_ascii_ws_def)
next
  case (3 w v ws)
  then show ?case using split_whitespace_word [of w "CHR '' ''" "join_with '' '' (v # ws) @ [nl]"]
    by (simp add: is_ascii_ws_def)
qed

lemma show_nat_head: "show_nat n = c # cs \<Longrightarrow> is_ascii_digit c"
  using show_nat_digits [of c n] by simp

lemma parse_i32_show: "- (2 ^ 31) \<le> i \<Longrightarrow> i < 2 ^ 31 \<Longrightarrow> parse_i32 (show_int i) = Some i"
proof (cases "i < 0")
  case True
  then show "- (2 ^ 31) \<le> i \<Longrightarrow> i < 2 ^ 31 \<Longrightarrow> parse_i32 (show_int i) = Some i"
    by (auto simp: parse_i32_def show_int_def digits_val_show_nat list_all_iff i32_of_def dest: show_nat_digits)
next
  case False
  obtain c cs where c: "show_nat (nat i) = c # cs" by (meson neq_Nil_conv show_nat_nonempty)
  then have "c \<noteq> CHR ''-'' \<and> c \<noteq> CHR ''+''" using show_nat_head [OF c] by (auto simp: is_ascii_digit_def)
  with False c show "- (2 ^ 31) \<le> i \<Longrightarrow> i < 2 ^ 31 \<Longrightarrow> parse_i32 (show_int i) = Some i"
    using show_nat_digits [of _ "nat i"] digits_val_show_nat [of "nat i"]
    by (auto simp: parse_i32_def show_int_def list_all_iff i32_of_def)
qed

lemma parse_u64_show: "n \<le> u64_max \<Longrightarrow> parse_u64 (show_nat n) = Some n"
proof -
  assume n: "n \<le> u64_max"
  obtain c cs where c: "show_nat n = c # cs" by (meson neq_Nil_conv show_nat_nonempty)
  then have "c \<noteq> CHR ''+''" using show_nat_head [OF c] by (auto simp: is_ascii_digit_def)
  with c parse_u64_show_nat [OF n] show ?thesis by (simp add: parse_u64_def)
qed

lemma parse_linux_proc_stat_line:
  assumes "list_all plain_word cols" "CHR '')'' \<notin> set (join_with '' '' cols)" "20 \<le> length cols"
    and "cols ! 1 = show_int parent" "- (2 ^ 31) \<le> parent" "parent < 2 ^ 31"
    and "cols ! 2 = show_int grp" "- (2 ^ 31) \<le> grp" "grp < 2 ^ 31"
    and "cols ! 19 = show_nat ticks" "ticks \<le> u64_max"
  shows "parse_linux_proc_stat (show_nat p @ '' ('' @ comm @ '') '' @ join_with '' '' cols @ [nl])
    = Some \<lparr>ppid = parent, pgrp = grp, start_ticks = ticks\<rparr>"
proof -
  have "rsplit_once_str '') '' ((show_nat p @ '' ('' @ comm) @ '') '' @ (join_with '' '' cols @ [nl]))
      = Some (show_nat p @ '' ('' @ comm, join_with '' '' cols @ [nl])"
    using assms(2) by (intro rsplit_once_last) simp
  then show ?thesis
    using assms(3-) by (simp add: parse_linux_proc_stat_def split_whitespace_line [OF assms(1)] get_field_def
        parse_i32_show parse_u64_show)
qed

section \<open>Properties\<close>

text \<open>
  a process is signalled exactly when the PID still denotes the process that was recorded:
  a recycled PID (same number, other birth time), a vanished process and an inspection error
  never lead to a signal.
\<close>

theorem signal_only_recorded_process:
  "fst (signal_process_if_matching kern insp expected sig) =
     (if insp_identity insp (pid expected) = Inr (Some expected)
      then [SignalProcess (pid expected) sig] else [])"
  by (auto simp: signal_process_if_matching_def identity_matches_def and_then_def signal_process_def
      split: sum.splits bool.splits kill_result.splits)

text \<open>
  the fields of a stat line are read correctly whatever the command name in parentheses is:
  a process cannot forge its parent, its group or its start time by choosing a name with
  parentheses and spaces.
\<close>

theorem proc_stat_line_cannot_be_forged:
  assumes "list_all plain_word cols" "CHR '')'' \<notin> set (join_with '' '' cols)" "20 \<le> length cols"
    and "cols ! 1 = show_int parent" "- (2 ^ 31) \<le> parent" "parent < 2 ^ 31"
    and "cols ! 2 = show_int grp" "- (2 ^ 31) \<le> grp" "grp < 2 ^ 31"
    and "cols ! 19 = show_nat ticks" "ticks \<le> u64_max"
  shows "parse_linux_proc_stat (show_nat p @ '' ('' @ comm @ '') '' @ join_with '' '' cols @ [nl])
    = Some \<lparr>ppid = parent, pgrp = grp, start_ticks = ticks\<rparr>"
  using assms by (rule parse_linux_proc_stat_line)

definition sample_cols :: "rstr list" where
  "sample_cols = [''S'', ''1'', ''10''] @ replicate 16 ''0'' @ [''777'']"

lemma sample_cols_ok:
  "list_all plain_word sample_cols" "CHR '')'' \<notin> set (join_with '' '' sample_cols)" "20 \<le> length sample_cols"
  "sample_cols ! 1 = show_int 1" "sample_cols ! 2 = show_int 10" "sample_cols ! 19 = show_nat 777"
proof -
  show "list_all plain_word sample_cols"
    by (simp add: sample_cols_def plain_word_def plain_byte_def is_ascii_ws_def list_all_iff)
  show "CHR '')'' \<notin> set (join_with '' '' sample_cols)"
    by (simp add: sample_cols_def numeral_eq_Suc)
  show "20 \<le> length sample_cols" by (simp add: sample_cols_def)
  show "sample_cols ! 1 = show_int 1" "sample_cols ! 2 = show_int 10" "sample_cols ! 19 = show_nat 777"
    by (simp_all add: sample_cols_def nth_append show_int_def show_nat.simps digit_char_def char_of_def bit_0)
qed

theorem proc_stat_line_cannot_be_forged_witness:
  "parse_linux_proc_stat (show_nat 2 @ '' ('' @ ''x) S 9 9 (y'' @ '') '' @ join_with '' '' sample_cols @ [nl])
    = Some \<lparr>ppid = 1, pgrp = 10, start_ticks = 777\<rparr>"
  by (rule proc_stat_line_cannot_be_forged [OF sample_cols_ok(1,2,3,4) _ _ sample_cols_ok(5) _ _ sample_cols_ok(6)])
     (simp_all add: u64_max_def)






end
