(* ===== verification/Invocation.thy ===== *)
theory Invocation
  imports Zodex_Prelude
begin

text \<open>
  The context of a tool call (\<^verbatim>\<open>src/invocation.rs\<close>): who called, and which pieces of context the caller
  has not been given yet.  It travels through the sessions into the registry of owned processes.
\<close>

record provider_call_metadata =
  pm_kind :: rstr
  pm_session_key :: rstr

record invocation_context =
  ic_invocation_id :: "int option"
  ic_correlation_id :: "rstr option"
  ic_provider :: "provider_call_metadata option"
  ic_agent_id :: "rstr option"
  ic_global_context_pending :: bool
  ic_repo_agents_context_pending :: bool
  ic_repo_skills_context_pending :: bool

definition default_context :: invocation_context where
  "default_context =
     \<lparr>ic_invocation_id = None, ic_correlation_id = None, ic_provider = None, ic_agent_id = None,
      ic_global_context_pending = False, ic_repo_agents_context_pending = False,
      ic_repo_skills_context_pending = False\<rparr>"

end
