(* ===== verification/Session_Runtime.thy ===== *)
theory Session_Runtime
  imports Config Output_Buffer Process_Identity Invocation
begin

text \<open>
  One command session (\<^verbatim>\<open>src/session/mod.rs\<close>, \<^verbatim>\<open>lifecycle.rs\<close>, \<^verbatim>\<open>shutdown.rs\<close>): its state, the reaping of its
  process group, termination and forced kill, and the poll loop that answers a tool call.  The state
  behind the mutex is the record \<open>session_inner\<close>; the operating system at the moment of an
  operation (clock, kernel answers, inspector, \<^verbatim>\<open>try_wait\<close>) is its argument \<open>step_env\<close>; signals and calls to
  the process observer are events.  Every operation that holds the mutex is one atomic step, so
  an interleaving of the tasks of the program is a sequence of steps.
\<close>

section \<open>Data\<close>

datatype termination_reason = ReasonExit | ReasonTimeout | ReasonKilled

datatype command_status = StatusRunning | StatusExited

record session_inner =
  s_pid :: int
  s_last_known_cwd :: rstr
  s_reaped_exit_code :: "int option"
  s_has_writer :: bool
  s_last_used_at :: nat
  s_last_input_at :: nat
  s_idle_timeout :: nat
  s_timed_out :: bool
  s_kill_requested :: bool
  s_terminate_started_at :: "nat option"
  s_force_killed :: bool
  s_require_exit :: bool
  s_leader_identity :: "process_identity option"
  s_members :: "process_identity list"
  s_persisted_members :: "process_identity list"

record owned_process =
  op_session_id :: nat
  op_handle :: rstr
  op_identity :: process_identity
  op_created_by :: invocation_context

record owned_process_end =
  end_exit_code :: "int option"
  end_reason :: "termination_reason option"
  end_cwd :: "rstr option"
  end_incomplete :: "rstr option"

record session_runtime =
  rt_id :: nat
  rt_handle :: rstr
  rt_command :: rstr
  rt_started_at :: nat
  rt_inner :: session_inner
  rt_output :: output_buffer
  rt_owned :: "owned_process option"
  rt_released :: bool

datatype session_event =
    Signal signal_effect
  | ProcessStarted owned_process
  | MembersUpdated owned_process "process_identity list"
  | ProcessEnded owned_process owned_process_end
  | StdinWrite rstr

text \<open>\<^verbatim>\<open>try_wait\<close> answers \<open>None\<close> (running) or the exit code if there is one; the group is scanned before and
  possibly once more after it.\<close>

record reap_view =
  rv_before :: inspector
  rv_try_wait :: "int option option res"
  rv_after :: inspector

record step_env =
  se_now :: nat
  se_reap :: reap_view
  se_insp :: inspector
  se_kernel :: kernel
  se_update :: "process_identity list \<Rightarrow> unit res"
  se_spill :: spill_io

definition TERMINATE_GRACE_PERIOD_MS :: nat where "TERMINATE_GRACE_PERIOD_MS = 5000"

definition RUNTIME_DESCENDANT_DISCOVERY_LIMIT :: nat where "RUNTIME_DESCENDANT_DISCOVERY_LIMIT = 1024"

definition TIMEOUT_NOTICE :: rstr where
  "TIMEOUT_NOTICE = ''\<newline>[zodexd] process timed out and was terminated\<newline>''"

text \<open>The session \<^verbatim>\<open>exec_command_with_context\<close> registers for a freshly spawned command.\<close>

definition new_runtime ::
  "invocation_context \<Rightarrow> nat \<Rightarrow> rstr \<Rightarrow> rstr \<Rightarrow> nat \<Rightarrow> int \<Rightarrow> rstr \<Rightarrow> nat \<Rightarrow> process_identity option
    \<Rightarrow> output_buffer \<Rightarrow> session_runtime" where
  "new_runtime context sid handle cmd now child_pid cwd timeout_ms identity output =
     \<lparr>rt_id = sid, rt_handle = handle, rt_command = cmd, rt_started_at = now,
      rt_inner = \<lparr>s_pid = child_pid, s_last_known_cwd = cwd, s_reaped_exit_code = None, s_has_writer = True,
        s_last_used_at = now, s_last_input_at = now, s_idle_timeout = timeout_ms, s_timed_out = False,
        s_kill_requested = False, s_terminate_started_at = None, s_force_killed = False, s_require_exit = False,
        s_leader_identity = identity, s_members = [], s_persisted_members = []\<rparr>,
      rt_output = output,
      rt_owned = map_option (\<lambda>i. \<lparr>op_session_id = sid, op_handle = handle, op_identity = i,
        op_created_by = context\<rparr>) identity,
      rt_released = False\<rparr>"

section \<open>Ends of processes\<close>

definition exited :: "int \<Rightarrow> termination_reason \<Rightarrow> rstr \<Rightarrow> owned_process_end" where
  "exited code reason cwd =
     \<lparr>end_exit_code = Some code, end_reason = Some reason, end_cwd = Some cwd, end_incomplete = None\<rparr>"

definition incomplete :: "rstr \<Rightarrow> rstr option \<Rightarrow> owned_process_end" where
  "incomplete reason cwd =
     \<lparr>end_exit_code = None, end_reason = None, end_cwd = cwd, end_incomplete = Some reason\<rparr>"

definition process_termination_reason :: "session_inner \<Rightarrow> termination_reason" where
  "process_termination_reason s =
     (if s_timed_out s then ReasonTimeout
      else if s_kill_requested s \<or> s_force_killed s then ReasonKilled
      else ReasonExit)"

definition owned_process_end_of :: "session_inner \<Rightarrow> owned_process_end option" where
  "owned_process_end_of s =
     (if s_members s \<noteq> [] then None
      else map_option (\<lambda>code. exited code (process_termination_reason s) (s_last_known_cwd s))
             (s_reaped_exit_code s))"

definition release_process_ownership ::
  "owned_process_end \<Rightarrow> session_runtime \<Rightarrow> session_runtime \<times> session_event list" where
  "release_process_ownership e rt =
     (if rt_released rt then (rt, [])
      else (rt\<lparr>rt_released := True\<rparr>,
            case rt_owned rt of None \<Rightarrow> [] | Some p \<Rightarrow> [ProcessEnded p e]))"

section \<open>Reaping\<close>

fun surviving :: "inspector \<Rightarrow> process_identity list \<Rightarrow> process_identity list res" where
  "surviving insp [] = Inr []"
| "surviving insp (m # ms) =
     and_then (identity_matches insp m)
       (\<lambda>alive. and_then (surviving insp ms) (\<lambda>rest. Inr (if alive then m # rest else rest)))"

text \<open>The refresh of the member list.  \<^verbatim>\<open>drain(..)\<close> empties the list even when the loop leaves early with an
  error.\<close>

definition refresh_members :: "reap_view \<Rightarrow> session_inner \<Rightarrow> session_inner \<times> unit res" where
  "refresh_members view s =
     (if s_reaped_exit_code s = None then
        (case insp_group_members (rv_before view) (s_pid s) RUNTIME_DESCENDANT_DISCOVERY_LIMIT of
           Inl e \<Rightarrow> (s, Inl e)
         | Inr ms \<Rightarrow> (s\<lparr>s_members := filter (\<lambda>m. pid m \<noteq> s_pid s) ms\<rparr>, Inr ()))
      else if s_members s \<noteq> [] then
        (case surviving (rv_before view) (s_members s) of
           Inl e \<Rightarrow> (s\<lparr>s_members := []\<rparr>, Inl e)
         | Inr ms \<Rightarrow> (s\<lparr>s_members := ms\<rparr>, Inr ()))
      else (s, Inr ()))"

definition leader_reused :: "session_inner \<Rightarrow> process_identity list \<Rightarrow> bool" where
  "leader_reused s ms =
     (case find (\<lambda>m. pid m = s_pid s) ms of
        None \<Rightarrow> False
      | Some m \<Rightarrow> s_leader_identity s \<noteq> Some m)"

definition reap_exit_code :: "reap_view \<Rightarrow> session_inner \<Rightarrow> session_inner \<times> int option res" where
  "reap_exit_code view s0 =
     (case refresh_members view s0 of
        (s, Inl e) \<Rightarrow> (s, Inl e)
      | (s, Inr _) \<Rightarrow>
          (case s_reaped_exit_code s of
             Some code \<Rightarrow> (s, Inr (Some code))
           | None \<Rightarrow>
               (case rv_try_wait view of
                  Inl e \<Rightarrow> (s, Inl e)
                | Inr None \<Rightarrow> (s, Inr None)
                | Inr (Some status) \<Rightarrow>
                    (case (if s_members s = [] then
                             (case insp_group_members (rv_after view) (s_pid s) RUNTIME_DESCENDANT_DISCOVERY_LIMIT of
                                Inl e \<Rightarrow> Inl e
                              | Inr ms \<Rightarrow>
                                  Inr (if leader_reused s ms then s
                                       else s\<lparr>s_members := filter (\<lambda>m. pid m \<noteq> s_pid s) ms\<rparr>))
                           else Inr s) of
                       Inl e \<Rightarrow> (s, Inl e)
                     | Inr s' \<Rightarrow>
                         let exit_code = unwrap_or status (- 1)
                         in (s'\<lparr>s_reaped_exit_code := Some exit_code\<rparr>, Inr (Some exit_code))))))"

definition reap_and_record_exit ::
  "step_env \<Rightarrow> session_runtime \<Rightarrow> session_runtime \<times> session_event list \<times> int option res" where
  "reap_and_record_exit env rt =
     (case reap_exit_code (se_reap env) (rt_inner rt) of
        (s, Inl e) \<Rightarrow> (rt\<lparr>rt_inner := s\<rparr>, [], Inl e)
      | (s, Inr code) \<Rightarrow>
          if s_persisted_members s \<noteq> s_members s then
            (case rt_owned rt of
               None \<Rightarrow> (rt\<lparr>rt_inner := s\<lparr>s_persisted_members := s_members s\<rparr>\<rparr>, [], Inr code)
             | Some p \<Rightarrow>
                 (case se_update env (s_members s) of
                    Inl e \<Rightarrow> (rt\<lparr>rt_inner := s\<rparr>, [MembersUpdated p (s_members s)], Inl e)
                  | Inr _ \<Rightarrow> (rt\<lparr>rt_inner := s\<lparr>s_persisted_members := s_members s\<rparr>\<rparr>,
                              [MembersUpdated p (s_members s)], Inr code)))
          else (rt\<lparr>rt_inner := s\<rparr>, [], Inr code))"

definition is_exited :: "step_env \<Rightarrow> session_runtime \<Rightarrow> session_runtime \<times> session_event list \<times> bool res" where
  "is_exited env rt =
     (case reap_and_record_exit env rt of
        (rt', evs, Inl e) \<Rightarrow> (rt', evs, Inl e)
      | (rt', evs, Inr code) \<Rightarrow> (rt', evs, Inr (code \<noteq> None \<and> s_members (rt_inner rt') = [])))"

section \<open>Termination\<close>

definition request_termination :: "step_env \<Rightarrow> session_inner \<Rightarrow> session_inner \<times> session_event list" where
  "request_termination env s =
     (if s_terminate_started_at s \<noteq> None then (s, [])
      else (s\<lparr>s_terminate_started_at := Some (se_now env)\<rparr>,
            map Signal (fst (signal_process_group (se_kernel env) (s_pid s) Terminate))))"

fun signal_members ::
  "kernel \<Rightarrow> inspector \<Rightarrow> process_signal \<Rightarrow> process_identity list \<Rightarrow> nat \<Rightarrow> signal_effect list \<times> nat res" where
  "signal_members kern insp sig [] n = ([], Inr n)"
| "signal_members kern insp sig (m # ms) n =
     (case signal_process_if_matching kern insp m sig of
        (effs, Inl e) \<Rightarrow> (effs, Inl e)
      | (effs, Inr hit) \<Rightarrow>
          (case signal_members kern insp sig ms (if hit then n + 1 else n) of
             (effs', r) \<Rightarrow> (effs @ effs', r)))"

definition signal_owned_group_members ::
  "step_env \<Rightarrow> session_inner \<Rightarrow> process_signal \<Rightarrow> session_event list \<times> nat res" where
  "signal_owned_group_members env s sig =
     (case signal_members (se_kernel env) (se_insp env) sig (s_members s) 0 of
        (effs, r) \<Rightarrow> (map Signal effs, r))"

definition maybe_force_kill :: "step_env \<Rightarrow> session_inner \<Rightarrow> session_inner \<times> session_event list \<times> unit res" where
  "maybe_force_kill env s =
     (case s_terminate_started_at s of
        None \<Rightarrow> (s, [], Inr ())
      | Some started \<Rightarrow>
          if s_force_killed s then (s, [], Inr ())
          else if se_now env - started < TERMINATE_GRACE_PERIOD_MS then (s, [], Inr ())
          else
            let s' = s\<lparr>s_force_killed := True\<rparr>;
                group = (if s_reaped_exit_code s' = None
                         then map Signal (fst (signal_process_group (se_kernel env) (s_pid s') Kill)) else [])
            in case signal_owned_group_members env s' Kill of
                 (evs, Inl e) \<Rightarrow> (s', group @ evs, Inl e)
               | (evs, Inr _) \<Rightarrow> (s', group @ evs, Inr ()))"

section \<open>The poll loop\<close>

datatype poll_outcome =
    PollError rstr
  | PollFinished int rstr termination_reason
  | PollRunning rstr
  | PollAgain

definition poll_timeout :: "step_env \<Rightarrow> session_inner \<Rightarrow> session_inner \<times> session_event list \<times> bool" where
  "poll_timeout env s0 =
     (let s1 = s0\<lparr>s_last_used_at := se_now env\<rparr>;
          s = (case insp_live_cwd (se_insp env) (s_pid s1) of
                 Some cwd \<Rightarrow> s1\<lparr>s_last_known_cwd := cwd\<rparr> | None \<Rightarrow> s1)
      in if s_idle_timeout s \<le> se_now env - s_last_input_at s \<and> \<not> s_timed_out s then
           (case request_termination env (s\<lparr>s_timed_out := True, s_require_exit := True\<rparr>) of
              (s', evs) \<Rightarrow> (s', evs, True))
         else (s, [], False))"

definition poll_decide :: "step_env \<Rightarrow> nat \<Rightarrow> nat \<Rightarrow> session_inner \<Rightarrow> int option \<Rightarrow> poll_outcome" where
  "poll_decide env started yield_for s code =
     (case code of
        Some c \<Rightarrow>
          if s_require_exit s \<and> s_members s \<noteq> [] then PollAgain
          else PollFinished c (s_last_known_cwd s) (process_termination_reason s)
      | None \<Rightarrow>
          if yield_for \<le> se_now env - started \<and> \<not> s_require_exit s then PollRunning (s_last_known_cwd s)
          else PollAgain)"

definition poll_once ::
  "step_env \<Rightarrow> nat \<Rightarrow> nat \<Rightarrow> session_runtime \<Rightarrow> session_runtime \<times> session_event list \<times> poll_outcome" where
  "poll_once env started yield_for rt0 =
     (case poll_timeout env (rt_inner rt0) of
        (s, evs1, notice) \<Rightarrow>
          (case reap_and_record_exit env (rt0\<lparr>rt_inner := s\<rparr>) of
             (rt1, evs2, Inl e) \<Rightarrow> (rt1, evs1 @ evs2, PollError e)
           | (rt1, evs2, Inr code) \<Rightarrow>
               (case maybe_force_kill env (rt_inner rt1) of
                  (s', evs3, Inl e) \<Rightarrow> (rt1\<lparr>rt_inner := s'\<rparr>, evs1 @ evs2 @ evs3, PollError e)
                | (s', evs3, Inr _) \<Rightarrow>
                    (let rt2 = rt1\<lparr>rt_inner := s'\<rparr>;
                         rt3 = (if notice then rt2\<lparr>rt_output := buffer_append (se_spill env) (rt_output rt2) TIMEOUT_NOTICE\<rparr>
                                else rt2)
                     in (rt3, evs1 @ evs2 @ evs3, poll_decide env started yield_for s' code)))))"

record tool_output =
  to_summary :: rstr
  to_output :: rstr
  to_output_file :: "rstr option"
  to_output_chars :: "nat option"
  to_output_lines :: "nat option"
  to_output_file_truncated :: "bool option"
  to_status :: command_status
  to_cwd :: rstr
  to_session_id :: "nat option"
  to_session_handle :: "rstr option"
  to_exit_code :: "int option"
  to_termination_reason :: "termination_reason option"

text \<open>\<open>secs\<close> renders a duration with one decimal; \<open>strip\<close> is the crate that removes ANSI escapes.\<close>

definition command_result_summary ::
  "(nat \<Rightarrow> rstr) \<Rightarrow> command_status \<Rightarrow> nat \<Rightarrow> rstr option \<Rightarrow> int option \<Rightarrow> termination_reason option \<Rightarrow> rstr" where
  "command_result_summary secs status elapsed handle exit_code reason =
     (case status of
        StatusRunning \<Rightarrow>
          ''still running after '' @ secs elapsed @ ''s; use session_handle ''
            @ unwrap_or handle ''<unknown>'' @ '' to poll''
      | StatusExited \<Rightarrow>
          (case reason of
             Some ReasonTimeout \<Rightarrow> ''timed out after '' @ secs elapsed @ ''s''
           | Some ReasonKilled \<Rightarrow> ''killed after '' @ secs elapsed @ ''s''
           | _ \<Rightarrow> ''exited '' @ show_int (unwrap_or exit_code (- 1)) @ '' after '' @ secs elapsed @ ''s''))"

definition finished_output ::
  "(nat \<Rightarrow> rstr) \<Rightarrow> (rstr \<Rightarrow> rstr) \<Rightarrow> nat \<Rightarrow> session_runtime \<Rightarrow> int \<Rightarrow> rstr \<Rightarrow> termination_reason \<Rightarrow> tool_output" where
  "finished_output secs strip now rt code cwd reason =
     (let snap = buffer_snapshot (rt_output rt)
      in \<lparr>to_summary = command_result_summary secs StatusExited (now - rt_started_at rt) None (Some code) (Some reason),
          to_output = strip (snap_text snap), to_output_file = snap_output_file snap,
          to_output_chars = snap_output_chars snap, to_output_lines = snap_output_lines snap,
          to_output_file_truncated = snap_output_file_truncated snap,
          to_status = StatusExited, to_cwd = cwd, to_session_id = None, to_session_handle = None,
          to_exit_code = Some code, to_termination_reason = Some reason\<rparr>)"

definition running_output ::
  "(nat \<Rightarrow> rstr) \<Rightarrow> (rstr \<Rightarrow> rstr) \<Rightarrow> nat \<Rightarrow> session_runtime \<Rightarrow> rstr \<Rightarrow> tool_output" where
  "running_output secs strip now rt cwd =
     (let snap = buffer_snapshot (rt_output rt)
      in \<lparr>to_summary = command_result_summary secs StatusRunning (now - rt_started_at rt) (Some (rt_handle rt)) None None,
          to_output = strip (snap_text snap), to_output_file = snap_output_file snap,
          to_output_chars = snap_output_chars snap, to_output_lines = snap_output_lines snap,
          to_output_file_truncated = snap_output_file_truncated snap,
          to_status = StatusRunning, to_cwd = cwd, to_session_id = Some (rt_id rt),
          to_session_handle = Some (rt_handle rt), to_exit_code = None, to_termination_reason = None\<rparr>)"

text \<open>
  The loop of \<^verbatim>\<open>wait_for_yield_or_exit_locked\<close> over the environments of its successive iterations.  Between two
  iterations other tasks (the reader, the reaper, a shutdown) may change the session, which is
  \<open>pe_before\<close>; while the final output is drained the reader may still append, which is \<open>pe_drain\<close>.  \<open>None\<close>: the
  loop is still waiting after the given iterations.
\<close>

record poll_env =
  pe_before :: "session_runtime \<Rightarrow> session_runtime"
  pe_env :: step_env
  pe_drain :: "output_buffer \<Rightarrow> output_buffer"

fun wait_for_yield_or_exit_locked ::
  "(nat \<Rightarrow> rstr) \<Rightarrow> (rstr \<Rightarrow> rstr) \<Rightarrow> nat \<Rightarrow> nat \<Rightarrow> poll_env list \<Rightarrow> session_runtime
    \<Rightarrow> (session_runtime \<times> session_event list \<times> tool_output res) option" where
  "wait_for_yield_or_exit_locked secs strip started yield_for [] rt = None"
| "wait_for_yield_or_exit_locked secs strip started yield_for (pe # pes) rt =
     (case poll_once (pe_env pe) started yield_for (pe_before pe rt) of
        (rt1, evs, PollError e) \<Rightarrow> Some (rt1, evs, Inl e)
      | (rt1, evs, PollFinished code cwd reason) \<Rightarrow>
          (let rt2 = rt1\<lparr>rt_output := pe_drain pe (rt_output rt1)\<rparr>
           in Some (rt2, evs, Inr (finished_output secs strip (se_now (pe_env pe)) rt2 code cwd reason)))
      | (rt1, evs, PollRunning cwd) \<Rightarrow>
          (let rt2 = rt1\<lparr>rt_output := pe_drain pe (rt_output rt1)\<rparr>
           in Some (rt2, evs, Inr (running_output secs strip (se_now (pe_env pe)) rt2 cwd)))
      | (rt1, evs, PollAgain) \<Rightarrow>
          map_option (\<lambda>(rt2, evs', r). (rt2, evs @ evs', r))
            (wait_for_yield_or_exit_locked secs strip started yield_for pes rt1))"

section \<open>Continuing a session\<close>

record write_stdin_input =
  ws_session_handle :: rstr
  ws_chars :: "rstr option"
  ws_yield_time_ms :: "nat option"
  ws_kill_process :: "bool option"

definition continue_begin :: "step_env \<Rightarrow> bool \<Rightarrow> session_runtime \<Rightarrow> session_runtime \<times> session_event list" where
  "continue_begin env kill rt =
     (let s = (rt_inner rt)\<lparr>s_last_used_at := se_now env, s_last_input_at := se_now env\<rparr>
      in if kill then
           (case request_termination env (s\<lparr>s_kill_requested := True, s_require_exit := True\<rparr>) of
              (s', evs) \<Rightarrow> (rt\<lparr>rt_inner := s'\<rparr>, evs))
         else (rt\<lparr>rt_inner := s\<rparr>, []))"

definition KILL_NOTICE :: rstr where
  "KILL_NOTICE = ''\<newline>[zodexd] process terminated by kill_process\<newline>''"

text \<open>\<open>wr\<close> and \<open>fl\<close> are the outcomes of \<^verbatim>\<open>write_all\<close> and \<^verbatim>\<open>flush\<close>.  The writer is taken out of the session before
  the write and put back only after both succeed.\<close>

definition write_chars ::
  "unit res \<Rightarrow> unit res \<Rightarrow> rstr \<Rightarrow> session_runtime \<Rightarrow> session_runtime \<times> session_event list \<times> unit res" where
  "write_chars wr fl chars rt =
     (let taken = rt\<lparr>rt_inner := (rt_inner rt)\<lparr>s_has_writer := False\<rparr>\<rparr>
      in if s_has_writer (rt_inner rt) then
           (case and_then (with_ctx ''failed to write stdin'' wr) (\<lambda>_. with_ctx ''failed to flush stdin'' fl) of
              Inl e \<Rightarrow> (taken, [StdinWrite chars], Inl e)
            | Inr _ \<Rightarrow> (taken\<lparr>rt_inner := (rt_inner taken)\<lparr>s_has_writer := True\<rparr>\<rparr>, [StdinWrite chars], Inr ()))
         else (taken, [], Inr ()))"

definition continue_session ::
  "(nat \<Rightarrow> rstr) \<Rightarrow> (rstr \<Rightarrow> rstr) \<Rightarrow> step_env \<Rightarrow> unit res \<Rightarrow> unit res \<Rightarrow> poll_env list
    \<Rightarrow> write_stdin_input \<Rightarrow> nat \<Rightarrow> session_runtime
    \<Rightarrow> (session_runtime \<times> session_event list \<times> tool_output res) option" where
  "continue_session secs strip env wr fl pes input yield_time_ms rt0 =
     (let kill = unwrap_or (ws_kill_process input) False;
          (rt1, evs1) = continue_begin env kill rt0;
          (rt2, evs2, outcome) =
            (if kill then (rt1\<lparr>rt_output := buffer_append (se_spill env) (rt_output rt1) KILL_NOTICE\<rparr>, [], Inr ())
             else case ws_chars input of
               Some chars \<Rightarrow> write_chars wr fl chars rt1
             | None \<Rightarrow> (rt1, [], Inr ()))
      in case outcome of
           Inl e \<Rightarrow> Some (rt2, evs1 @ evs2, Inl e)
         | Inr _ \<Rightarrow>
             map_option (\<lambda>(rt3, evs3, r). (rt3, evs1 @ evs2 @ evs3, r))
               (wait_for_yield_or_exit_locked secs strip (se_now env) yield_time_ms pes rt2))"

section \<open>Steps of the reaper and of a shutdown\<close>

text \<open>One iteration of \<^verbatim>\<open>spawn_child_reaper\<close>; the flag says whether the task ends.\<close>

definition child_reaper_step :: "step_env \<Rightarrow> session_runtime \<Rightarrow> session_runtime \<times> session_event list \<times> bool" where
  "child_reaper_step env rt =
     (case reap_and_record_exit env rt of
        (rt', evs, Inl e) \<Rightarrow> (rt', evs, True)
      | (rt', evs, Inr None) \<Rightarrow> (rt', evs, False)
      | (rt', evs, Inr (Some _)) \<Rightarrow>
          (case owned_process_end_of (rt_inner rt') of
             None \<Rightarrow> (rt', evs, False)
           | Some e \<Rightarrow>
               (case release_process_ownership e rt' of (rt'', evs') \<Rightarrow> (rt'', evs @ evs', True))))"

definition mark_terminating :: "nat \<Rightarrow> session_inner \<Rightarrow> session_inner" where
  "mark_terminating now s =
     s\<lparr>s_kill_requested := True, s_require_exit := True,
       s_terminate_started_at := (case s_terminate_started_at s of None \<Rightarrow> Some now | Some t \<Rightarrow> Some t)\<rparr>"

text \<open>The first pass of \<^verbatim>\<open>shutdown_all\<close> over one session: \<open>Inr n\<close> counts the session when it was signalled.\<close>

definition shutdown_terminate :: "step_env \<Rightarrow> session_runtime \<Rightarrow> session_runtime \<times> session_event list \<times> nat res" where
  "shutdown_terminate env rt =
     (case reap_and_record_exit env rt of
        (rt', evs, Inl e) \<Rightarrow> (rt', evs, Inl e)
      | (rt', evs, Inr None) \<Rightarrow>
          (case request_termination env ((rt_inner rt')\<lparr>s_kill_requested := True, s_require_exit := True\<rparr>) of
             (s, evs') \<Rightarrow> (rt'\<lparr>rt_inner := s\<rparr>, evs @ evs', Inr 1))
      | (rt', evs, Inr (Some _)) \<Rightarrow>
          if s_members (rt_inner rt') \<noteq> [] then
            (let s = mark_terminating (se_now env) (rt_inner rt')
             in case signal_owned_group_members env s Terminate of
                  (evs', Inl e) \<Rightarrow> (rt'\<lparr>rt_inner := s\<rparr>, evs @ evs', Inl e)
                | (evs', Inr _) \<Rightarrow> (rt'\<lparr>rt_inner := s\<rparr>, evs @ evs', Inr 1))
          else (case owned_process_end_of (rt_inner rt') of
              None \<Rightarrow> (rt', evs, Inr 0)
            | Some e \<Rightarrow>
                (case release_process_ownership e rt' of (rt'', evs') \<Rightarrow> (rt'', evs @ evs', Inr 0))))"

text \<open>The second pass, after the grace period.\<close>

definition shutdown_force :: "step_env \<Rightarrow> session_runtime \<Rightarrow> session_runtime \<times> session_event list \<times> nat res" where
  "shutdown_force env rt =
     (case reap_and_record_exit env rt of
        (rt', evs, Inl e) \<Rightarrow> (rt', evs, Inl e)
      | (rt', evs, Inr None) \<Rightarrow>
          (let rt'' = rt'\<lparr>rt_inner := (rt_inner rt')\<lparr>s_force_killed := True\<rparr>\<rparr>
           in case signal_process_group (se_kernel env) (s_pid (rt_inner rt')) Kill of
                (effs, Inl e) \<Rightarrow> (rt'', evs @ map Signal effs, Inl e)
              | (effs, Inr _) \<Rightarrow> (rt'', evs @ map Signal effs, Inr 1))
      | (rt', evs, Inr (Some _)) \<Rightarrow>
          if s_members (rt_inner rt') \<noteq> [] then
            (let s = (rt_inner rt')\<lparr>s_force_killed := True\<rparr>
             in case signal_owned_group_members env s Kill of
                  (evs', Inl e) \<Rightarrow> (rt'\<lparr>rt_inner := s\<rparr>, evs @ evs', Inl e)
                | (evs', Inr n) \<Rightarrow> (rt'\<lparr>rt_inner := s\<rparr>, evs @ evs', Inr (if 0 < n then 1 else 0)))
          else (rt', evs, Inr 0))"

text \<open>One session in one poll of \<^verbatim>\<open>wait_for_session_exits_until\<close>; a contended session counts as alive.\<close>

definition exit_poll :: "bool \<Rightarrow> step_env \<Rightarrow> session_runtime \<Rightarrow> session_runtime \<times> session_event list \<times> bool res" where
  "exit_poll contended env rt =
     (if contended then (rt, [], Inr True)
      else case reap_and_record_exit env rt of
        (rt', evs, Inl e) \<Rightarrow> (rt', evs, Inl e)
      | (rt', evs, Inr code) \<Rightarrow>
          if code \<noteq> None \<and> s_members (rt_inner rt') = [] then
            (case owned_process_end_of (rt_inner rt') of
               None \<Rightarrow> (rt', evs, Inl ''reaped owned process without final end evidence'')
             | Some e \<Rightarrow>
                 (case release_process_ownership e rt' of (rt'', evs') \<Rightarrow> (rt'', evs @ evs', Inr False)))
          else (rt', evs, Inr True))"

end
