(* ===== verification/Session_Steps.thy ===== *)
theory Session_Steps
  imports Session_Runtime
begin

text \<open>
  What every task of the program guarantees about a session, whatever the operating system
  answers and however the tasks interleave.  \<open>evolves\<close> and \<open>rt_evolves\<close> relate the session before and after
  a sequence of operations and the events in between; both are closed under composition, each
  operation satisfies them, and the step relation \<open>session_step\<close> collects the operations the tasks
  interleave.
\<close>

section \<open>Evolution of the protected state\<close>

definition is_group_term :: "session_event \<Rightarrow> bool" where
  "is_group_term ev = (case ev of Signal (SignalGroup _ Terminate) \<Rightarrow> True | _ \<Rightarrow> False)"

definition is_group_kill :: "session_event \<Rightarrow> bool" where
  "is_group_kill ev = (case ev of Signal (SignalGroup _ Kill) \<Rightarrow> True | _ \<Rightarrow> False)"

definition is_ended :: "session_event \<Rightarrow> bool" where
  "is_ended ev = (case ev of ProcessEnded _ _ \<Rightarrow> True | _ \<Rightarrow> False)"

definition event_ok :: "int \<Rightarrow> session_event \<Rightarrow> bool" where
  "event_ok p ev = (case ev of Signal (SignalGroup q _) \<Rightarrow> q = p | _ \<Rightarrow> True)"

definition terms :: "session_event list \<Rightarrow> nat" where
  "terms evs = length (filter is_group_term evs)"

definition ends :: "session_event list \<Rightarrow> nat" where
  "ends evs = length (filter is_ended evs)"

lemma counts_append [simp]: "terms (a @ b) = terms a + terms b" "ends (a @ b) = ends a + ends b"
  "terms [] = 0" "ends [] = 0"
  by (simp_all add: terms_def ends_def)

definition stop_requested :: "session_inner \<Rightarrow> bool" where
  "stop_requested s \<longleftrightarrow> s_timed_out s \<or> s_kill_requested s"

definition evolves :: "session_inner \<Rightarrow> session_inner \<Rightarrow> session_event list \<Rightarrow> bool" where
  "evolves s s' evs \<longleftrightarrow>
     s_pid s' = s_pid s \<and>
     (\<forall>c. s_reaped_exit_code s = Some c \<longrightarrow>
        s_reaped_exit_code s' = Some c \<and> set (s_members s') \<subseteq> set (s_members s) \<and> \<not> list_ex is_group_kill evs) \<and>
     (s_pid s \<notin> pid ` set (s_members s) \<longrightarrow> s_pid s \<notin> pid ` set (s_members s')) \<and>
     (\<forall>t. s_terminate_started_at s = Some t \<longrightarrow> s_terminate_started_at s' = Some t) \<and>
     (s_require_exit s \<longrightarrow> s_require_exit s') \<and>
     (stop_requested s' \<longrightarrow> stop_requested s \<or> s_terminate_started_at s' \<noteq> None \<and> s_require_exit s') \<and>
     terms evs \<le> (if s_terminate_started_at s = None \<and> s_terminate_started_at s' \<noteq> None then 1 else 0) \<and>
     list_all (event_ok (s_pid s)) evs"

lemma evolves_refl: "evolves s s []"
  by (simp add: evolves_def)

lemma evolves_trans:
  assumes "evolves s s1 e1" "evolves s1 s2 e2"
  shows "evolves s s2 (e1 @ e2)"
proof -
  note a = assms [unfolded evolves_def]
  have "terms (e1 @ e2) \<le> (if s_terminate_started_at s = None \<and> s_terminate_started_at s2 \<noteq> None then 1 else 0)"
    using a by (cases "s_terminate_started_at s"; cases "s_terminate_started_at s1") auto
  moreover have "stop_requested s2 \<longrightarrow> stop_requested s \<or> s_terminate_started_at s2 \<noteq> None \<and> s_require_exit s2"
    using a by (cases "s_terminate_started_at s1") auto
  ultimately show ?thesis
    using a unfolding evolves_def by simp blast
qed

lemma evolves_trans0: "evolves s s1 [] \<Longrightarrow> evolves s1 s2 evs \<Longrightarrow> evolves s s2 evs"
  using evolves_trans [of s s1 "[]" s2 evs] by simp

text \<open>Changes of fields that the relation does not mention.\<close>

lemma evolves_irrelevant:
  assumes "s_pid s' = s_pid s" "s_reaped_exit_code s' = s_reaped_exit_code s" "s_members s' = s_members s"
    "s_terminate_started_at s' = s_terminate_started_at s" "s_require_exit s' = s_require_exit s"
    "s_timed_out s' = s_timed_out s" "s_kill_requested s' = s_kill_requested s"
  shows "evolves s s' []"
  using assms by (simp add: evolves_def stop_requested_def)

lemma surviving_mem: "surviving insp ms = Inr ms' \<Longrightarrow> m \<in> set ms' \<Longrightarrow> m \<in> set ms"
  by (induction ms arbitrary: ms') (auto simp: and_then_Inr split: if_splits)

lemma refresh_members_evolves: "refresh_members view s = (s', r) \<Longrightarrow> evolves s s' []"
  by (auto simp: refresh_members_def evolves_def stop_requested_def split: if_splits sum.splits
      dest: surviving_mem)

lemma reap_exit_code_evolves:
  assumes "reap_exit_code view s = (s', r)"
  shows "evolves s s' []"
proof -
  obtain s1 r1 where 1: "refresh_members view s = (s1, r1)" by force
  note ev = refresh_members_evolves [OF 1]
  have "evolves s1 s' []"
    using assms 1
    by (auto simp: reap_exit_code_def Let_def evolves_def stop_requested_def
        split: sum.splits option.splits if_splits)
  with ev show ?thesis using evolves_trans0 by blast
qed

lemma request_termination_evolves:
  assumes "request_termination env s = (s', evs)"
  shows "evolves s s' evs" "s_terminate_started_at s' \<noteq> None" "s_require_exit s' = s_require_exit s"
  using assms
  by (auto simp: request_termination_def signal_process_group_def evolves_def stop_requested_def terms_def
      is_group_term_def is_group_kill_def event_ok_def split: if_splits)

lemma request_stop_evolves:
  assumes "request_termination env s1 = (s', evs)"
    and "s1 = s\<lparr>s_kill_requested := True, s_require_exit := True\<rparr> \<or> s1 = s\<lparr>s_timed_out := True, s_require_exit := True\<rparr>"
  shows "evolves s s' evs"
  using assms
  by (auto simp: request_termination_def signal_process_group_def evolves_def stop_requested_def terms_def
      is_group_term_def is_group_kill_def event_ok_def split: if_splits)

lemma signal_members_events:
  "list_all (\<lambda>e. \<exists>p. e = SignalProcess p sig) (fst (signal_members kern insp sig ms n))"
proof (induction ms arbitrary: n)
  case (Cons m ms)
  then show ?case
    by (auto simp: signal_process_if_matching_def signal_process_def split: prod.splits sum.splits bool.splits)
      (metis fst_conv list_all_iff)+
qed simp

lemma quiet_events:
  assumes "list_all (\<lambda>ev. \<exists>p. ev = Signal (SignalProcess p sig)) evs"
  shows "terms evs = 0" "\<not> list_ex is_group_kill evs" "list_all (event_ok q) evs" "ends evs = 0"
  using assms
  by (auto simp: terms_def ends_def is_group_term_def is_group_kill_def is_ended_def event_ok_def list_all_iff list_ex_iff
      filter_empty_conv)

lemma signal_owned_events:
  assumes "signal_owned_group_members env s sig = (evs, r)"
  shows "list_all (\<lambda>ev. \<exists>p. ev = Signal (SignalProcess p sig)) evs"
  using assms signal_members_events [of sig "se_kernel env" "se_insp env" "s_members s" 0]
  by (auto simp: signal_owned_group_members_def list_all_iff split: prod.splits)

lemma maybe_force_kill_evolves:
  assumes "maybe_force_kill env s = (s', evs, r)"
  shows "evolves s s' evs" "ends evs = 0"
proof -
  obtain evs1 r1 where 1: "signal_owned_group_members env (s\<lparr>s_force_killed := True\<rparr>) Kill = (evs1, r1)" by force
  note q = quiet_events [OF signal_owned_events [OF 1]]
  show "evolves s s' evs"
    using assms 1 q
    by (auto simp: maybe_force_kill_def Let_def signal_process_group_def evolves_def stop_requested_def terms_def
        is_group_term_def is_group_kill_def event_ok_def split: option.splits if_splits sum.splits)
  show "ends evs = 0"
    using assms 1 q
    by (auto simp: maybe_force_kill_def Let_def signal_process_group_def ends_def is_ended_def
        split: option.splits if_splits sum.splits)
qed

lemma poll_timeout_evolves:
  assumes "poll_timeout env s = (s', evs, notice)"
  shows "evolves s s' evs" "ends evs = 0"
proof -
  define s1 where "s1 = (case insp_live_cwd (se_insp env) (s_pid s) of
      Some cwd \<Rightarrow> s\<lparr>s_last_used_at := se_now env, s_last_known_cwd := cwd\<rparr> | None \<Rightarrow> s\<lparr>s_last_used_at := se_now env\<rparr>)"
  have e1: "evolves s s1 []" unfolding s1_def by (intro evolves_irrelevant) (auto split: option.splits)
  have p: "poll_timeout env s =
      (if s_idle_timeout s1 \<le> se_now env - s_last_input_at s1 \<and> \<not> s_timed_out s1 then
         (case request_termination env (s1\<lparr>s_timed_out := True, s_require_exit := True\<rparr>) of (s', evs) \<Rightarrow> (s', evs, True))
       else (s1, [], False))"
    by (simp add: poll_timeout_def s1_def Let_def split: option.splits)
  show "evolves s s' evs"
    using assms e1 request_stop_evolves evolves_trans0 unfolding p by (auto split: if_splits prod.splits)
  show "ends evs = 0"
    using assms unfolding p
    by (auto simp: request_termination_def signal_process_group_def ends_def is_ended_def split: if_splits)
qed

section \<open>Evolution of a session\<close>

definition end_ok :: "session_runtime \<Rightarrow> session_event \<Rightarrow> bool" where
  "end_ok rt ev =
     (case ev of
        ProcessEnded p e \<Rightarrow>
          rt_owned rt = Some p \<and> end_incomplete e = None \<and> end_exit_code e = s_reaped_exit_code (rt_inner rt)
          \<and> s_reaped_exit_code (rt_inner rt) \<noteq> None
      | _ \<Rightarrow> True)"

definition rt_evolves :: "session_runtime \<Rightarrow> session_runtime \<Rightarrow> session_event list \<Rightarrow> bool" where
  "rt_evolves rt rt' evs \<longleftrightarrow>
     evolves (rt_inner rt) (rt_inner rt') evs \<and>
     rt_owned rt' = rt_owned rt \<and> rt_id rt' = rt_id rt \<and> rt_handle rt' = rt_handle rt \<and>
     (rt_released rt \<longrightarrow> rt_released rt') \<and>
     (rt_released rt' \<longrightarrow> rt_released rt \<or>
        s_reaped_exit_code (rt_inner rt') \<noteq> None \<and> s_members (rt_inner rt') = []) \<and>
     ends evs \<le> (if \<not> rt_released rt \<and> rt_released rt' then 1 else 0) \<and>
     list_all (end_ok rt') evs"

lemma rt_evolves_refl: "rt_evolves rt rt []"
  by (simp add: rt_evolves_def evolves_refl)

lemma end_ok_later:
  assumes "end_ok rt1 ev" "evolves (rt_inner rt1) (rt_inner rt2) evs" "rt_owned rt2 = rt_owned rt1"
  shows "end_ok rt2 ev"
  using assms by (auto simp: end_ok_def evolves_def split: session_event.splits)

lemma reaped_alone_later:
  assumes "evolves s s' evs" "s_reaped_exit_code s \<noteq> None" "s_members s = []"
  shows "s_reaped_exit_code s' \<noteq> None \<and> s_members s' = []"
  using assms by (auto simp: evolves_def)

lemma rt_evolves_trans:
  assumes "rt_evolves rt rt1 e1" "rt_evolves rt1 rt2 e2"
  shows "rt_evolves rt rt2 (e1 @ e2)"
proof -
  note a = assms [unfolded rt_evolves_def]
  have e12: "evolves (rt_inner rt1) (rt_inner rt2) e2" using a by blast
  have "list_all (end_ok rt2) e1"
    using a end_ok_later [OF _ e12] by (auto simp: list_all_iff)
  moreover have "rt_released rt2 \<longrightarrow> rt_released rt \<or>
        s_reaped_exit_code (rt_inner rt2) \<noteq> None \<and> s_members (rt_inner rt2) = []"
    using a reaped_alone_later [OF e12] by blast
  moreover have "ends (e1 @ e2) \<le> (if \<not> rt_released rt \<and> rt_released rt2 then 1 else 0)"
    using a by (cases "rt_released rt"; cases "rt_released rt1"; cases "rt_released rt2") auto
  ultimately show ?thesis
    using a evolves_trans unfolding rt_evolves_def by auto
qed

lemma rt_evolves_trans0: "rt_evolves rt rt1 [] \<Longrightarrow> rt_evolves rt1 rt2 evs \<Longrightarrow> rt_evolves rt rt2 evs"
  using rt_evolves_trans [of rt rt1 "[]" rt2 evs] by simp

lemma rt_evolves_inner:
  assumes "evolves (rt_inner rt) s evs" "ends evs = 0"
  shows "rt_evolves rt (rt\<lparr>rt_inner := s\<rparr>) evs"
  using assms
  by (auto simp: rt_evolves_def end_ok_def ends_def is_ended_def list_all_iff filter_empty_conv
      split: session_event.splits)

lemma rt_evolves_output: "rt_evolves rt (rt\<lparr>rt_output := b\<rparr>) []"
  by (simp add: rt_evolves_def evolves_refl)

lemma rt_evolves_members_event:
  assumes "evolves (rt_inner rt) s []"
  shows "rt_evolves rt (rt\<lparr>rt_inner := s\<rparr>) [MembersUpdated p ms]"
  using assms
  by (simp add: rt_evolves_def evolves_def end_ok_def ends_def is_ended_def terms_def is_group_term_def
      is_group_kill_def event_ok_def)

lemma release_evolves:
  assumes "release_process_ownership e rt = (rt', evs)" "owned_process_end_of (rt_inner rt) = Some e"
  shows "rt_evolves rt rt' evs"
  using assms
  by (auto simp: release_process_ownership_def owned_process_end_of_def exited_def rt_evolves_def evolves_def
      end_ok_def ends_def is_ended_def terms_def is_group_term_def is_group_kill_def event_ok_def
      split: if_splits option.splits)

lemma reap_and_record_evolves:
  assumes "reap_and_record_exit env rt = (rt', evs, r)"
  shows "rt_evolves rt rt' evs"
proof -
  obtain s r1 where 1: "reap_exit_code (se_reap env) (rt_inner rt) = (s, r1)" by force
  note e = reap_exit_code_evolves [OF 1]
  have e': "evolves (rt_inner rt) (s\<lparr>s_persisted_members := s_members s\<rparr>) []"
    using evolves_trans0 [OF e evolves_irrelevant] by simp
  show ?thesis
    using assms 1 rt_evolves_inner [OF e] rt_evolves_inner [OF e'] rt_evolves_members_event [OF e]
      rt_evolves_members_event [OF e']
    by (auto simp: reap_and_record_exit_def split: sum.splits if_splits option.splits)
qed

lemma poll_once_evolves:
  assumes "poll_once env started yield_for rt = (rt', evs, out)"
  shows "rt_evolves rt rt' evs"
proof -
  obtain s evs1 notice where 1: "poll_timeout env (rt_inner rt) = (s, evs1, notice)" by (cases "poll_timeout env (rt_inner rt)") auto
  obtain rt1 evs2 r where 2: "reap_and_record_exit env (rt\<lparr>rt_inner := s\<rparr>) = (rt1, evs2, r)"
    by (cases "reap_and_record_exit env (rt\<lparr>rt_inner := s\<rparr>)") auto
  obtain s' evs3 r' where 3: "maybe_force_kill env (rt_inner rt1) = (s', evs3, r')"
    by (cases "maybe_force_kill env (rt_inner rt1)") auto
  have e1: "rt_evolves rt (rt\<lparr>rt_inner := s\<rparr>) evs1"
    by (rule rt_evolves_inner) (rule poll_timeout_evolves [OF 1])+
  note e12 = rt_evolves_trans [OF e1 reap_and_record_evolves [OF 2]]
  have "rt_evolves rt1 (rt1\<lparr>rt_inner := s'\<rparr>) evs3"
    by (rule rt_evolves_inner) (rule maybe_force_kill_evolves [OF 3])+
  note e123 = rt_evolves_trans [OF e12 this]
  have e4: "rt_evolves rt (rt1\<lparr>rt_inner := s', rt_output := b\<rparr>) (evs1 @ evs2 @ evs3)" for b
    using rt_evolves_trans [OF e123 rt_evolves_output [of _ b]] by simp
  show ?thesis
    using assms 1 2 3 e12 e123 e4
    by (auto simp: poll_once_def Let_def split: sum.splits if_splits)
qed

lemma is_exited_evolves: "is_exited env rt = (rt', evs, r) \<Longrightarrow> rt_evolves rt rt' evs"
  by (auto simp: is_exited_def split: prod.splits sum.splits dest: reap_and_record_evolves)

lemma continue_begin_evolves:
  assumes "continue_begin env kill rt = (rt', evs)"
  shows "rt_evolves rt rt' evs"
proof -
  let ?s = "(rt_inner rt)\<lparr>s_last_used_at := se_now env, s_last_input_at := se_now env\<rparr>"
  have e: "evolves (rt_inner rt) ?s []" by (intro evolves_irrelevant) simp_all
  obtain s' evs' where r: "request_termination env (?s\<lparr>s_kill_requested := True, s_require_exit := True\<rparr>) = (s', evs')"
    by force
  have "evolves (rt_inner rt) s' evs'"
    using evolves_trans0 [OF e request_stop_evolves [OF r]] by blast
  moreover have "ends evs' = 0"
    using r by (auto simp: request_termination_def signal_process_group_def ends_def is_ended_def split: if_splits)
  ultimately show ?thesis
    using assms r rt_evolves_inner [OF e] rt_evolves_inner
    by (auto simp: continue_begin_def Let_def split: if_splits)
qed

lemma rt_evolves_writer:
  assumes "evs = [] \<or> evs = [StdinWrite c]"
  shows "rt_evolves rt (rt\<lparr>rt_inner := (rt_inner rt)\<lparr>s_has_writer := b\<rparr>\<rparr>) evs"
  using assms
  by (intro rt_evolves_inner) (auto simp: evolves_def stop_requested_def ends_def is_ended_def terms_def
      is_group_term_def is_group_kill_def event_ok_def)

lemma write_chars_evolves:
  assumes "write_chars wr fl chars rt = (rt', evs, r)"
  shows "rt_evolves rt rt' evs"
proof -
  obtain b where "rt' = rt\<lparr>rt_inner := (rt_inner rt)\<lparr>s_has_writer := b\<rparr>\<rparr>" "evs = [] \<or> evs = [StdinWrite chars]"
  proof (cases "and_then (with_ctx ''failed to write stdin'' wr) (\<lambda>_. with_ctx ''failed to flush stdin'' fl)")
    case (Inl e)
    with assms that [of False] show ?thesis by (simp add: write_chars_def Let_def split: if_splits)
  next
    case (Inr u)
    with assms that [of "s_has_writer (rt_inner rt)"] show ?thesis
      by (cases "s_has_writer (rt_inner rt)") (auto simp: write_chars_def Let_def)
  qed
  then show ?thesis using rt_evolves_writer by simp
qed

lemma child_reaper_evolves:
  assumes "child_reaper_step env rt = (rt', evs, stop)"
  shows "rt_evolves rt rt' evs"
proof -
  obtain rt1 evs1 r where 1: "reap_and_record_exit env rt = (rt1, evs1, r)" by (cases "reap_and_record_exit env rt") auto
  note e = reap_and_record_evolves [OF 1]
  have "rt_evolves rt rt2 (evs1 @ evs2)"
    if "owned_process_end_of (rt_inner rt1) = Some en" "release_process_ownership en rt1 = (rt2, evs2)" for en rt2 evs2
    using rt_evolves_trans [OF e release_evolves [OF that(2,1)]] .
  with assms 1 e show ?thesis
    by (auto simp: child_reaper_step_def split: sum.splits option.splits prod.splits)
qed

lemma exit_poll_evolves:
  assumes "exit_poll contended env rt = (rt', evs, r)"
  shows "rt_evolves rt rt' evs"
proof -
  obtain rt1 evs1 r1 where 1: "reap_and_record_exit env rt = (rt1, evs1, r1)" by (cases "reap_and_record_exit env rt") auto
  note e = reap_and_record_evolves [OF 1]
  have "rt_evolves rt rt2 (evs1 @ evs2)"
    if "owned_process_end_of (rt_inner rt1) = Some en" "release_process_ownership en rt1 = (rt2, evs2)" for en rt2 evs2
    using rt_evolves_trans [OF e release_evolves [OF that(2,1)]] .
  with assms 1 e rt_evolves_refl show ?thesis
    by (auto simp: exit_poll_def split: if_splits sum.splits option.splits prod.splits)
qed

lemma shutdown_mark_evolves:
  assumes "signal_owned_group_members env (mark_terminating now s) Terminate = (evs, r)"
  shows "evolves s (mark_terminating now s) evs" "ends evs = 0"
  using quiet_events [OF signal_owned_events [OF assms]]
  by (auto simp: evolves_def stop_requested_def mark_terminating_def split: option.splits)

lemma shutdown_terminate_evolves:
  assumes "shutdown_terminate env rt = (rt', evs, r)"
  shows "rt_evolves rt rt' evs"
proof -
  obtain rt1 evs1 r1 where 1: "reap_and_record_exit env rt = (rt1, evs1, r1)" by (cases "reap_and_record_exit env rt") auto
  note e = reap_and_record_evolves [OF 1]
  let ?s = "rt_inner rt1"
  obtain s2 evs2 where 2: "request_termination env (?s\<lparr>s_kill_requested := True, s_require_exit := True\<rparr>) = (s2, evs2)" by force
  have t2: "rt_evolves rt1 (rt1\<lparr>rt_inner := s2\<rparr>) evs2"
    using request_stop_evolves [OF 2] 2
    by (intro rt_evolves_inner) (auto simp: request_termination_def signal_process_group_def ends_def is_ended_def split: if_splits)
  let ?s3 = "mark_terminating (se_now env) ?s"
  obtain evs3 r3 where 3: "signal_owned_group_members env ?s3 Terminate = (evs3, r3)" by force
  have t3: "rt_evolves rt1 (rt1\<lparr>rt_inner := ?s3\<rparr>) evs3"
    using shutdown_mark_evolves [OF 3] by (intro rt_evolves_inner)
  have t4: "rt_evolves rt rt2 (evs1 @ evs4)"
    if "owned_process_end_of ?s = Some en" "release_process_ownership en rt1 = (rt2, evs4)" for en rt2 evs4
    using rt_evolves_trans [OF e release_evolves [OF that(2,1)]] .
  show ?thesis
    using assms 1 2 3 e rt_evolves_trans [OF e t2] rt_evolves_trans [OF e t3] t4
    unfolding shutdown_terminate_def Let_def
    by (auto split: sum.splits option.splits prod.splits if_splits)
qed

lemma shutdown_force_evolves:
  assumes "shutdown_force env rt = (rt', evs, r)"
  shows "rt_evolves rt rt' evs"
proof -
  obtain rt1 evs1 r1 where 1: "reap_and_record_exit env rt = (rt1, evs1, r1)" by (cases "reap_and_record_exit env rt") auto
  note e = reap_and_record_evolves [OF 1]
  let ?s = "(rt_inner rt1)\<lparr>s_force_killed := True\<rparr>"
  have not_reaped: "s_reaped_exit_code (rt_inner rt1) = None" if "r1 = Inr None"
    using 1 that by (auto simp: reap_and_record_exit_def reap_exit_code_def Let_def
        split: sum.splits if_splits option.splits prod.splits)
  obtain evs2 r2 where 2: "signal_owned_group_members env ?s Kill = (evs2, r2)" by force
  have t2: "rt_evolves rt1 (rt1\<lparr>rt_inner := ?s\<rparr>) evs2"
    using quiet_events [OF signal_owned_events [OF 2]]
    by (intro rt_evolves_inner) (auto simp: evolves_def stop_requested_def)
  have t3: "rt_evolves rt1 (rt1\<lparr>rt_inner := ?s\<rparr>) [Signal (SignalGroup (s_pid (rt_inner rt1)) Kill)]" if "r1 = Inr None"
    using not_reaped [OF that]
    by (intro rt_evolves_inner) (auto simp: evolves_def stop_requested_def ends_def is_ended_def terms_def
      is_group_term_def is_group_kill_def event_ok_def)
  show ?thesis
    using assms 1 2 e rt_evolves_trans [OF e t2] rt_evolves_trans [OF e t3]
    unfolding shutdown_force_def Let_def
    by (auto simp: signal_process_group_def split: if_splits sum.splits option.splits prod.splits kill_result.splits)
qed

section \<open>Interleavings\<close>

inductive session_step ::
  "session_runtime \<times> session_event list \<Rightarrow> session_runtime \<times> session_event list \<Rightarrow> bool" where
  poll: "poll_once env started yield_for rt = (rt', evs, out) \<Longrightarrow> session_step (rt, tr) (rt', tr @ evs)"
| reap: "is_exited env rt = (rt', evs, r) \<Longrightarrow> session_step (rt, tr) (rt', tr @ evs)"
| reaper: "child_reaper_step env rt = (rt', evs, stop) \<Longrightarrow> session_step (rt, tr) (rt', tr @ evs)"
| begin_call: "continue_begin env kill rt = (rt', evs) \<Longrightarrow> session_step (rt, tr) (rt', tr @ evs)"
| input: "write_chars wr fl chars rt = (rt', evs, r) \<Longrightarrow> session_step (rt, tr) (rt', tr @ evs)"
| output_event: "session_step (rt, tr) (rt\<lparr>rt_output := b\<rparr>, tr)"
| shutdown_pass1: "shutdown_terminate env rt = (rt', evs, r) \<Longrightarrow> session_step (rt, tr) (rt', tr @ evs)"
| shutdown_poll: "exit_poll contended env rt = (rt', evs, r) \<Longrightarrow> session_step (rt, tr) (rt', tr @ evs)"
| shutdown_pass2: "shutdown_force env rt = (rt', evs, r) \<Longrightarrow> session_step (rt, tr) (rt', tr @ evs)"
| remove: "owned_process_end_of (rt_inner rt) = Some e \<Longrightarrow> release_process_ownership e rt = (rt', evs)
    \<Longrightarrow> session_step (rt, tr) (rt', tr @ evs)"

inductive_cases session_stepE: "session_step (rt, tr) (rt', tr')"

lemma session_step_evolves:
  assumes "session_step (rt, tr) (rt', tr')"
  shows "\<exists>evs. tr' = tr @ evs \<and> rt_evolves rt rt' evs"
  using assms
  by (cases rule: session_stepE)
     (auto dest: poll_once_evolves is_exited_evolves child_reaper_evolves continue_begin_evolves write_chars_evolves
        shutdown_terminate_evolves exit_poll_evolves shutdown_force_evolves release_evolves intro: rt_evolves_output)

lemma session_run_evolves:
  assumes "session_step\<^sup>*\<^sup>* (rt, tr) (rt', tr')"
  shows "\<exists>evs. tr' = tr @ evs \<and> rt_evolves rt rt' evs"
  using assms
proof (induction "(rt', tr')" arbitrary: rt' tr' rule: rtranclp_induct)
  case base
  then show ?case using rt_evolves_refl by auto
next
  case (step y)
  obtain rt1 tr1 where y: "y = (rt1, tr1)" by force
  from step.hyps(3) [OF y] obtain e1 where 1: "tr1 = tr @ e1" "rt_evolves rt rt1 e1" by blast
  from session_step_evolves [OF step.hyps(2) [unfolded y]] obtain e2
    where "tr' = tr1 @ e2" "rt_evolves rt1 rt' e2" by blast
  with 1 rt_evolves_trans show ?case by fastforce
qed

section \<open>Properties\<close>


text \<open>
  C17: reaping is final.  From the moment the leader has been reaped its exit code never changes,
  no process is added to the surviving members (so a recycled group id is never adopted), and no
  group is sent SIGKILL any more, whatever happens afterwards.
\<close>

theorem reaping_is_final:
  assumes "session_step\<^sup>*\<^sup>* (rt, tr) (rt', tr')" "s_reaped_exit_code (rt_inner rt) = Some code"
  shows "s_reaped_exit_code (rt_inner rt') = Some code \<and>
    set (s_members (rt_inner rt')) \<subseteq> set (s_members (rt_inner rt)) \<and>
    (\<exists>evs. tr' = tr @ evs \<and> (\<forall>p. Signal (SignalGroup p Kill) \<notin> set evs))"
proof -
  from session_run_evolves [OF assms(1)] obtain evs where e: "tr' = tr @ evs" "rt_evolves rt rt' evs" by blast
  then have "evolves (rt_inner rt) (rt_inner rt') evs" by (simp add: rt_evolves_def)
  with assms(2) have "s_reaped_exit_code (rt_inner rt') = Some code"
    "set (s_members (rt_inner rt')) \<subseteq> set (s_members (rt_inner rt))" "\<not> list_ex is_group_kill evs"
    by (auto simp: evolves_def)
  moreover from this(3) have "\<forall>p. Signal (SignalGroup p Kill) \<notin> set evs"
    by (auto simp: list_ex_iff is_group_kill_def)
  ultimately show ?thesis using e(1) by blast
qed

definition no_processes :: inspector where
  "no_processes = \<lparr>insp_identity = (\<lambda>_. Inr None), insp_live_cwd = (\<lambda>_. None),
     insp_descendants = (\<lambda>_ _. Inr []), insp_group_members = (\<lambda>_ _. Inr [])\<rparr>"

text \<open>A moment at which the command has exited with \<open>code\<close>, its group is empty and nothing fails.\<close>

definition exit_env :: "nat \<Rightarrow> int option \<Rightarrow> step_env" where
  "exit_env now code =
     \<lparr>se_now = now, se_reap = \<lparr>rv_before = no_processes, rv_try_wait = Inr (Some code), rv_after = no_processes\<rparr>,
      se_insp = no_processes, se_kernel = (\<lambda>_. KillOk), se_update = (\<lambda>_. Inr ()),
      se_spill = \<lparr>open_ok = True, write_ok = (\<lambda>_. True)\<rparr>\<rparr>"

definition sample_runtime :: session_runtime where
  "sample_runtime = new_runtime default_context 1 ''Ab3'' ''make'' 0 42 ''/w'' 1000 None (output_buffer_new 100 ''/tmp/o'')"


theorem reaping_is_final_witness:
  "s_reaped_exit_code (rt_inner (fst (child_reaper_step (exit_env 9 None) (fst (child_reaper_step (exit_env 8 (Some 3)) sample_runtime)))))
   = Some 3"
proof -
  obtain rt1 e1 b1 where 1: "child_reaper_step (exit_env 8 (Some 3)) sample_runtime = (rt1, e1, b1)"
    by (cases "child_reaper_step (exit_env 8 (Some 3)) sample_runtime") auto
  obtain rt2 e2 b2 where 2: "child_reaper_step (exit_env 9 None) rt1 = (rt2, e2, b2)"
    by (cases "child_reaper_step (exit_env 9 None) rt1") auto
  have "s_reaped_exit_code (rt_inner rt1) = Some 3"
    using 1 by (auto simp: child_reaper_step_def reap_and_record_exit_def reap_exit_code_def refresh_members_def
        exit_env_def no_processes_def sample_runtime_def new_runtime_def leader_reused_def unwrap_or_def
        owned_process_end_of_def release_process_ownership_def)
  moreover have "session_step\<^sup>*\<^sup>* (rt1, e1) (rt2, e1 @ e2)" by (rule r_into_rtranclp) (rule reaper [OF 2])
  ultimately show ?thesis using reaping_is_final 1 2 by fastforce
qed

section \<open>Answers of a tool call\<close>

lemma reap_result:
  "reap_and_record_exit env rt = (rt', evs, Inr code) \<Longrightarrow> s_reaped_exit_code (rt_inner rt') = code"
  by (auto simp: reap_and_record_exit_def reap_exit_code_def Let_def
      split: sum.splits if_splits option.splits prod.splits)

lemma maybe_force_kill_frame:
  assumes "maybe_force_kill env s = (s', evs, r)"
  shows "s' = s \<or> s' = s\<lparr>s_force_killed := True\<rparr>"
  using assms by (auto simp: maybe_force_kill_def Let_def split: option.splits if_splits sum.splits prod.splits)

lemma poll_once_decides:
  assumes "poll_once env started yield_for rt = (rt', evs, out)" "\<And>e. out \<noteq> PollError e"
  shows "out = poll_decide env started yield_for (rt_inner rt') (s_reaped_exit_code (rt_inner rt'))"
proof -
  obtain s evs1 notice where 1: "poll_timeout env (rt_inner rt) = (s, evs1, notice)" by (cases "poll_timeout env (rt_inner rt)") auto
  obtain rt1 evs2 r where 2: "reap_and_record_exit env (rt\<lparr>rt_inner := s\<rparr>) = (rt1, evs2, r)"
    by (cases "reap_and_record_exit env (rt\<lparr>rt_inner := s\<rparr>)") auto
  from assms 1 2 obtain code where r: "r = Inr code" by (cases r) (auto simp: poll_once_def)
  obtain s' evs3 r' where 3: "maybe_force_kill env (rt_inner rt1) = (s', evs3, r')"
    by (cases "maybe_force_kill env (rt_inner rt1)") auto
  from assms 1 2 3 r have o: "out = poll_decide env started yield_for s' code" "rt_inner rt' = s'"
    by (auto simp: poll_once_def Let_def split: sum.splits if_splits)
  have "s_reaped_exit_code s' = code"
    using reap_result [OF 2 [unfolded r]] maybe_force_kill_frame [OF 3] by auto
  with o show ?thesis by simp
qed

lemma wait_answers:
  assumes "wait_for_yield_or_exit_locked secs strip started yield_for pes rt = Some (rt', evs, Inr out)"
  shows "\<exists>pe \<in> set pes.
     (\<exists>code cwd reason. poll_decide (pe_env pe) started yield_for (rt_inner rt') (s_reaped_exit_code (rt_inner rt'))
          = PollFinished code cwd reason \<and> out = finished_output secs strip (se_now (pe_env pe)) rt' code cwd reason) \<or>
     (\<exists>cwd. poll_decide (pe_env pe) started yield_for (rt_inner rt') (s_reaped_exit_code (rt_inner rt'))
          = PollRunning cwd \<and> out = running_output secs strip (se_now (pe_env pe)) rt' cwd)"
  using assms
proof (induction pes arbitrary: rt evs)
  case (Cons pe pes)
  obtain rt1 evs1 o1 where p: "poll_once (pe_env pe) started yield_for (pe_before pe rt) = (rt1, evs1, o1)"
    by (cases "poll_once (pe_env pe) started yield_for (pe_before pe rt)") auto
  note decides = poll_once_decides [OF p, symmetric]
  show ?case
  proof (cases o1)
    case (PollError e)
    with Cons.prems p show ?thesis by simp
  next
    case (PollFinished code cwd reason)
    with Cons.prems p decides show ?thesis by (intro bexI [of _ pe]) (auto simp: Let_def)
  next
    case (PollRunning cwd)
    with Cons.prems p decides show ?thesis by (intro bexI [of _ pe]) (auto simp: Let_def)
  next
    case PollAgain
    with Cons.prems p obtain evs2 where "wait_for_yield_or_exit_locked secs strip started yield_for pes rt1 = Some (rt', evs2, Inr out)"
      by auto
    from Cons.IH [OF this] show ?thesis by auto
  qed
qed simp

lemma poll_decide_finished:
  "poll_decide env started yield_for s code0 = PollFinished code cwd reason \<Longrightarrow>
   code0 = Some code \<and> cwd = s_last_known_cwd s \<and> reason = process_termination_reason s \<and>
   (s_require_exit s \<longrightarrow> s_members s = [])"
  by (auto simp: poll_decide_def split: option.splits if_splits)

lemma poll_decide_running:
  "poll_decide env started yield_for s code0 = PollRunning cwd \<Longrightarrow>
   code0 = None \<and> cwd = s_last_known_cwd s \<and> \<not> s_require_exit s \<and> yield_for \<le> se_now env - started"
  by (auto simp: poll_decide_def split: option.splits if_splits)

text \<open>
  C18: the answer of a tool call tells the truth.  It is "exited" with the exit code that was reaped
  and the reason recorded in the session, and then a killed or timed-out session has no surviving group member;
  or it is "running", and then the command has not been reaped, neither a kill nor a timeout is pending, the
  yield time has passed, and the answer carries the handle with which to poll again.
\<close>

theorem tool_answer_is_truthful:
  assumes "wait_for_yield_or_exit_locked secs strip started yield_for pes rt = Some (rt', evs, Inr out)"
  shows "(to_status out = StatusExited \<and> to_exit_code out = s_reaped_exit_code (rt_inner rt') \<and> to_exit_code out \<noteq> None \<and>
      to_termination_reason out = Some (process_termination_reason (rt_inner rt')) \<and>
      to_cwd out = s_last_known_cwd (rt_inner rt') \<and> to_session_handle out = None \<and>
      (s_require_exit (rt_inner rt') \<longrightarrow> s_members (rt_inner rt') = [])) \<or>
    (to_status out = StatusRunning \<and> to_exit_code out = None \<and> s_reaped_exit_code (rt_inner rt') = None \<and>
      \<not> s_require_exit (rt_inner rt') \<and> to_session_handle out = Some (rt_handle rt') \<and>
      to_cwd out = s_last_known_cwd (rt_inner rt') \<and>
      (\<exists>pe \<in> set pes. yield_for \<le> se_now (pe_env pe) - started))"
proof -
  from wait_answers [OF assms] obtain pe where pe: "pe \<in> set pes" and cases:
    "(\<exists>code cwd reason. poll_decide (pe_env pe) started yield_for (rt_inner rt') (s_reaped_exit_code (rt_inner rt'))
          = PollFinished code cwd reason \<and> out = finished_output secs strip (se_now (pe_env pe)) rt' code cwd reason) \<or>
     (\<exists>cwd. poll_decide (pe_env pe) started yield_for (rt_inner rt') (s_reaped_exit_code (rt_inner rt'))
          = PollRunning cwd \<and> out = running_output secs strip (se_now (pe_env pe)) rt' cwd)" by blast
  from cases show ?thesis
  proof (elim disjE exE conjE)
    fix code cwd reason
    assume "poll_decide (pe_env pe) started yield_for (rt_inner rt') (s_reaped_exit_code (rt_inner rt'))
          = PollFinished code cwd reason" and o: "out = finished_output secs strip (se_now (pe_env pe)) rt' code cwd reason"
    from poll_decide_finished [OF this(1)] show ?thesis
      unfolding o by (intro disjI1) (simp add: finished_output_def Let_def)
  next
    fix cwd
    assume "poll_decide (pe_env pe) started yield_for (rt_inner rt') (s_reaped_exit_code (rt_inner rt')) = PollRunning cwd"
      and o: "out = running_output secs strip (se_now (pe_env pe)) rt' cwd"
    from poll_decide_running [OF this(1)] pe show ?thesis
      unfolding o by (intro disjI2) (auto simp: running_output_def Let_def)
  qed
qed

lemma exit_env_sel [simp]:
  "se_reap (exit_env now c) = \<lparr>rv_before = no_processes, rv_try_wait = Inr (Some c), rv_after = no_processes\<rparr>"
  "se_update (exit_env now c) = (\<lambda>_. Inr ())"
  by (simp_all add: exit_env_def)

lemma no_processes_sel [simp]:
  "insp_group_members no_processes p n = Inr []" "insp_identity no_processes p = Inr None"
  by (simp_all add: no_processes_def)

lemma surviving_none: "surviving no_processes ms = Inr []"
  by (induction ms) (simp_all add: identity_matches_def)

lemma exit_env_reap:
  "\<exists>s1 code. reap_exit_code (se_reap (exit_env now c)) s = (s1, Inr (Some code)) \<and> s_members s1 = []"
proof (cases "s_reaped_exit_code s")
  case None
  then show ?thesis by (simp add: reap_exit_code_def refresh_members_def leader_reused_def Let_def)
next
  case (Some code)
  then show ?thesis by (cases "s_members s = []") (simp_all add: reap_exit_code_def refresh_members_def surviving_none)
qed

lemma exit_env_record:
  "\<exists>rt1 evs code. reap_and_record_exit (exit_env now c) rt = (rt1, evs, Inr (Some code)) \<and> s_members (rt_inner rt1) = []"
proof -
  obtain s1 code where "reap_exit_code (se_reap (exit_env now c)) (rt_inner rt) = (s1, Inr (Some code))" "s_members s1 = []"
    using exit_env_reap by blast
  then show ?thesis
    by (cases "s_persisted_members s1 = []"; cases "rt_owned rt") (simp_all add: reap_and_record_exit_def)
qed

lemma force_kill_alone:
  assumes "s_members s = []"
  shows "\<exists>s' evs. maybe_force_kill env s = (s', evs, Inr ()) \<and> s_members s' = []"
  using assms
  by (cases "s_terminate_started_at s")
     (simp_all add: maybe_force_kill_def Let_def signal_owned_group_members_def)

lemma exit_env_poll:
  "\<exists>rt' evs code cwd reason. poll_once (exit_env now c) started yield_for rt = (rt', evs, PollFinished code cwd reason)"
proof -
  obtain s evs1 notice where 1: "poll_timeout (exit_env now c) (rt_inner rt) = (s, evs1, notice)"
    by (cases "poll_timeout (exit_env now c) (rt_inner rt)") auto
  obtain rt1 evs2 code where 2: "reap_and_record_exit (exit_env now c) (rt\<lparr>rt_inner := s\<rparr>) = (rt1, evs2, Inr (Some code))"
      "s_members (rt_inner rt1) = []" using exit_env_record by blast
  obtain s' evs3 where 3: "maybe_force_kill (exit_env now c) (rt_inner rt1) = (s', evs3, Inr ())" "s_members s' = []"
    using force_kill_alone [OF 2(2)] by blast
  show ?thesis
    using 1 2(1) 3 by (simp add: poll_once_def Let_def poll_decide_def)
qed

text \<open>
  a tool call returns: once the command has exited and its group is empty, the poll loop ends
  at the next iteration at the latest, whatever happened before and whatever state the session is in.
\<close>

theorem tool_call_returns_after_exit:
  assumes "pe \<in> set pes" "pe_env pe = exit_env now c"
  shows "\<exists>answer. wait_for_yield_or_exit_locked secs strip started yield_for pes rt = Some answer"
  using assms(1)
proof (induction pes arbitrary: rt)
  case (Cons pe' pes)
  obtain rt1 evs1 o1 where p: "poll_once (pe_env pe') started yield_for (pe_before pe' rt) = (rt1, evs1, o1)"
    by (cases "poll_once (pe_env pe') started yield_for (pe_before pe' rt)") auto
  show ?case
  proof (cases "pe' = pe")
    case True
    with p assms(2) exit_env_poll [of now c started yield_for "pe_before pe' rt"] show ?thesis
      by (auto simp: Let_def)
  next
    case False
    with Cons.prems Cons.IH [of rt1] p show ?thesis by (cases o1) (auto simp: Let_def)
  qed
qed simp

definition sample_poll :: poll_env where
  "sample_poll = \<lparr>pe_before = (\<lambda>rt. rt), pe_env = exit_env 7 (Some 0), pe_drain = (\<lambda>b. b)\<rparr>"

theorem tool_call_returns_after_exit_witness:
  "\<exists>answer. wait_for_yield_or_exit_locked show_nat (\<lambda>t. t) 0 50 [sample_poll] sample_runtime = Some answer"
  by (rule tool_call_returns_after_exit [of sample_poll _ 7 "Some 0"]) (simp_all add: sample_poll_def)

lemma sample_answer:
  "\<exists>rt' evs out. wait_for_yield_or_exit_locked show_nat (\<lambda>t. t) 0 50 [sample_poll] sample_runtime = Some (rt', evs, Inr out)"
proof -
  obtain rt' evs code cwd reason where
    "poll_once (exit_env 7 (Some 0)) 0 50 sample_runtime = (rt', evs, PollFinished code cwd reason)"
    using exit_env_poll by blast
  then show ?thesis by (simp add: sample_poll_def Let_def)
qed

theorem tool_answer_is_truthful_witness:
  "\<exists>rt' evs out. wait_for_yield_or_exit_locked show_nat (\<lambda>t. t) 0 50 [sample_poll] sample_runtime = Some (rt', evs, Inr out)
     \<and> (to_status out = StatusExited \<longrightarrow> to_exit_code out = s_reaped_exit_code (rt_inner rt'))"
proof -
  obtain rt' evs out where
    w: "wait_for_yield_or_exit_locked show_nat (\<lambda>t. t) 0 50 [sample_poll] sample_runtime = Some (rt', evs, Inr out)"
    using sample_answer by blast
  from tool_answer_is_truthful [OF w]
  have "to_status out = StatusExited \<longrightarrow> to_exit_code out = s_reaped_exit_code (rt_inner rt')" by auto
  with w show ?thesis by blast
qed

section \<open>Two behaviours worth knowing\<close>

text \<open>
  when the inspector fails while the surviving members of a reaped leader are checked, all of them
  are forgotten: the call reports the error, but from then on the session counts as completely exited and its
  process ownership can be released although the members were never seen to be gone.
\<close>

theorem inspection_error_forgets_members:
  assumes "s_reaped_exit_code s = Some code" "s_members s \<noteq> []" "surviving (rv_before view) (s_members s) = Inl e"
  shows "reap_exit_code view s = (s\<lparr>s_members := []\<rparr>, Inl e) \<and>
    owned_process_end_of s = None \<and> owned_process_end_of (s\<lparr>s_members := []\<rparr>) \<noteq> None"
  using assms by (simp add: reap_exit_code_def refresh_members_def owned_process_end_of_def)

definition sample_member :: process_identity where
  "sample_member = \<lparr>pid = 43, birth = LinuxProcStartTicks 9\<rparr>"

definition sample_reaped :: session_inner where
  "sample_reaped = (rt_inner sample_runtime)\<lparr>s_reaped_exit_code := Some 0, s_members := [sample_member]\<rparr>"

theorem inspection_error_forgets_members_witness:
  "owned_process_end_of (fst (reap_exit_code
     \<lparr>rv_before = no_processes\<lparr>insp_identity := (\<lambda>_. Inl ''busy'')\<rparr>, rv_try_wait = Inr None, rv_after = no_processes\<rparr>
     sample_reaped)) \<noteq> None"
  using inspection_error_forgets_members [of sample_reaped 0
      "\<lparr>rv_before = no_processes\<lparr>insp_identity := (\<lambda>_. Inl ''busy'')\<rparr>, rv_try_wait = Inr None, rv_after = no_processes\<rparr>" "''busy''"]
  by (simp add: sample_reaped_def identity_matches_def)

text \<open>
  a kill request on a session whose leader has already been reaped, and which was not being
  terminated, still sends SIGTERM to the numeric process group of that leader, without comparing any
  birth identity.
\<close>

theorem kill_after_reap_signals_group:
  assumes "s_reaped_exit_code (rt_inner rt) = Some code" "s_terminate_started_at (rt_inner rt) = None"
  shows "snd (continue_begin env True rt) = [Signal (SignalGroup (s_pid (rt_inner rt)) Terminate)]"
  using assms by (simp add: continue_begin_def Let_def request_termination_def signal_process_group_def)

theorem kill_after_reap_signals_group_witness:
  "snd (continue_begin (exit_env 5 None) True (sample_runtime\<lparr>rt_inner := sample_reaped\<rparr>))
   = [Signal (SignalGroup 42 Terminate)]"
  using kill_after_reap_signals_group [of "sample_runtime\<lparr>rt_inner := sample_reaped\<rparr>" 0 "exit_env 5 None"]
  by (simp add: sample_reaped_def sample_runtime_def new_runtime_def)

end
