(* ===== verification/Host_Paths.thy ===== *)
theory Host_Paths
  imports Zodex_Prelude
begin

text \<open>
  Unix paths as \<^verbatim>\<open>std::path\<close> reads them, and the validation of a working directory
  (\<^verbatim>\<open>src/workdir.rs\<close>).  A \<^verbatim>\<open>Path\<close> is its string; \<open>components\<close> is \<^verbatim>\<open>Path::components\<close>, through which
  paths are compared, so a \<^verbatim>\<open>PathBuf\<close> that is only compared is the list of its components.
\<close>

section \<open>Components\<close>

datatype path_component = RootDir | CurDir | ParentDir | Normal rstr

definition is_absolute :: "rstr \<Rightarrow> bool" where
  "is_absolute s = starts_with s ''/''"

text \<open>The segments below the root, and the component of one of them; a \<^verbatim>\<open>.\<close> counts only as the first
  segment of a relative path.\<close>

definition path_body :: "rstr \<Rightarrow> rstr list" where
  "path_body s = (if is_absolute s then tl (split_on CHR ''/'' s) else split_on CHR ''/'' s)"

definition segment_components :: "rstr \<Rightarrow> path_component list" where
  "segment_components seg =
     (if seg = [] \<or> seg = ''.'' then [] else if seg = ''..'' then [ParentDir] else [Normal seg])"

definition components :: "rstr \<Rightarrow> path_component list" where
  "components s =
     (if is_absolute s then [RootDir] else if hd (path_body s) = ''.'' then [CurDir] else []) @
     concat (map segment_components (path_body s))"

section \<open>Parents and names\<close>

text \<open>Trailing separators and \<^verbatim>\<open>.\<close> segments are not components.\<close>

function strip_tail :: "bool \<Rightarrow> rstr list \<Rightarrow> rstr list" where
  "strip_tail absolute segs =
     (if segs = [] then []
      else if last segs = [] \<or> last segs = ''.'' \<and> (absolute \<or> 1 < length segs)
        then strip_tail absolute (butlast segs)
      else segs)"
  by pat_completeness auto
termination
  by (relation "measure (\<lambda>(_, segs). length segs)") auto

declare strip_tail.simps [simp del]

definition path_of_body :: "bool \<Rightarrow> rstr list \<Rightarrow> rstr" where
  "path_of_body absolute segs = (if absolute then ''/'' else []) @ join_with ''/'' segs"

definition path_parent :: "rstr \<Rightarrow> rstr option" where
  "path_parent s =
     (let absolute = is_absolute s; segs = strip_tail absolute (path_body s) in
      if segs = [] then None else Some (path_of_body absolute (strip_tail absolute (butlast segs))))"

definition path_file_name :: "rstr \<Rightarrow> rstr option" where
  "path_file_name s =
     (let segs = strip_tail (is_absolute s) (path_body s) in
      if segs = [] \<or> last segs = ''.'' \<or> last segs = ''..'' then None else Some (last segs))"

definition path_join :: "rstr \<Rightarrow> rstr \<Rightarrow> rstr" where
  "path_join base p =
     (if is_absolute p then p
      else if base = [] \<or> ends_with base ''/'' then base @ p
      else base @ ''/'' @ p)"

section \<open>Files\<close>

text \<open>A file system as far as the code rewrites files: the entry at a path, if there is one.\<close>

datatype file_kind = RegularFile | Directory | SymbolicLink | OtherFile

record file_entry =
  fe_kind :: file_kind
  fe_bytes :: rstr
  fe_mode :: nat

type_synonym file_store = "rstr \<Rightarrow> file_entry option"

section \<open>Working directories\<close>

text \<open>\<open>exists\<close> and \<open>is_dir\<close> are the answers of the file system.\<close>

definition validate_absolute_existing_workdir :: "(rstr \<Rightarrow> bool) \<Rightarrow> (rstr \<Rightarrow> bool) \<Rightarrow> rstr \<Rightarrow> rstr res" where
  "validate_absolute_existing_workdir exists is_dir workdir =
     (if \<not> is_absolute workdir then Inl (''workdir must be an absolute path: '' @ workdir)
      else if \<not> exists workdir then Inl (''workdir does not exist: '' @ workdir)
      else if \<not> is_dir workdir then Inl (''workdir is not a directory: '' @ workdir)
      else Inr workdir)"

section \<open>Lemmas\<close>

definition body_len :: "rstr list \<Rightarrow> nat" where
  "body_len segs = length (join_with ''/'' segs)"

lemma join_with_snoc: "xs \<noteq> [] \<Longrightarrow> join_with sep (xs @ [x]) = join_with sep xs @ sep @ x"
proof (induction sep xs rule: join_with.induct)
  case (3 sep w v ws)
  then show ?case by simp
qed auto

lemma body_len_butlast: "body_len (butlast segs) \<le> body_len segs"
proof (cases segs rule: rev_cases)
  case (snoc ys y)
  then show ?thesis by (cases "ys = []") (simp_all add: body_len_def join_with_snoc)
qed (simp add: body_len_def)

lemma body_len_strip_tail: "body_len (strip_tail absolute segs) \<le> body_len segs"
proof (induction absolute segs rule: strip_tail.induct)
  case (1 absolute segs)
  then show ?case
    by (subst strip_tail.simps) (auto simp: body_len_def intro: order_trans [OF _ body_len_butlast [unfolded body_len_def]])
qed

lemma strip_tail_last: "strip_tail absolute segs \<noteq> [] \<Longrightarrow> last (strip_tail absolute segs) \<noteq> []"
proof (induction absolute segs rule: strip_tail.induct)
  case (1 absolute segs)
  then show ?case by (subst (asm) strip_tail.simps, subst strip_tail.simps) (auto split: if_splits)
qed

lemma body_len_path: "length s = (if is_absolute s then 1 else 0) + body_len (path_body s)"
proof (cases "is_absolute s")
  case True
  then obtain r where r: "s = CHR ''/'' # r" by (auto simp: is_absolute_def starts_with_iff)
  with True show ?thesis by (simp add: path_body_def body_len_def join_split_on)
next
  case False
  then show ?thesis by (simp add: path_body_def body_len_def join_split_on)
qed

lemma path_parent_shorter: "path_parent s = Some p \<Longrightarrow> length p < length s"
proof -
  assume "path_parent s = Some p"
  then obtain segs where segs: "segs = strip_tail (is_absolute s) (path_body s)" "segs \<noteq> []"
    and p: "p = path_of_body (is_absolute s) (strip_tail (is_absolute s) (butlast segs))"
    by (auto simp: path_parent_def Let_def split: if_splits)
  obtain ys y where y: "segs = ys @ [y]" using segs(2) by (meson rev_exhaust)
  have "y \<noteq> []" using strip_tail_last [of "is_absolute s" "path_body s"] segs y by (metis last_snoc)
  then have "body_len ys < body_len segs"
    by (cases "ys = []") (simp_all add: y body_len_def join_with_snoc)
  moreover have "body_len (strip_tail (is_absolute s) ys) \<le> body_len ys" by (rule body_len_strip_tail)
  moreover have "body_len segs \<le> body_len (path_body s)" unfolding segs(1) by (rule body_len_strip_tail)
  ultimately show ?thesis using body_len_path [of s] by (cases "is_absolute s") (simp_all add: p y path_of_body_def body_len_def)
qed

lemma path_join_absolute: "is_absolute base \<Longrightarrow> is_absolute (path_join base p)"
  by (auto simp: path_join_def is_absolute_def starts_with_iff)

end
