(* ===== verification/Session_Manager.thy ===== *)
theory Session_Manager
  imports Session_Steps Host_Paths
begin

text \<open>
  The session manager (\<^verbatim>\<open>src/session/mod.rs\<close>): admission and eviction, starting and continuing commands, and
  the shutdown of all sessions.  The map of sessions is an association list with distinct handles, in
  the order the hash map iterates; what the operating system answers to each step is an argument.  Each
  operation is described as it runs between the other operations of the manager; the interleaving inside
  one session is the subject of \<^verbatim>\<open>Session_Steps\<close>.
\<close>

section \<open>Handles and summaries\<close>

definition SESSION_HANDLE_ALPHABET :: rstr where
  "SESSION_HANDLE_ALPHABET = ''0123456789ABCDEFGHIJKLMNOPQRSTUVWXYZabcdefghijklmnopqrstuvwxyz''"

text \<open>\<open>random\<close>: the eight random bytes.\<close>

definition generate_session_handle :: "rstr \<Rightarrow> rstr" where
  "generate_session_handle random = map (\<lambda>b. SESSION_HANDLE_ALPHABET ! (byte b mod 62)) random"

definition COMMAND_SUMMARY_MAX_CHARS :: nat where "COMMAND_SUMMARY_MAX_CHARS = 120"

definition summarize_command :: "rstr \<Rightarrow> rstr" where
  "summarize_command command =
     (let cleaned = map (\<lambda>c. if c = nl \<or> c = cr then CHR '' '' else c) command
      in if length cleaned \<le> COMMAND_SUMMARY_MAX_CHARS then cleaned
         else take (next_char_boundary cleaned COMMAND_SUMMARY_MAX_CHARS) cleaned @ ''...'')"

section \<open>The manager\<close>

type_synonym sessions = "(rstr \<times> session_runtime) list"

record session_manager =
  sm_sessions :: sessions
  sm_admission_closed :: bool
  sm_next_id :: nat
  sm_max_sessions :: nat
  sm_max_output_chars :: nat

definition manager_new :: "nat \<Rightarrow> nat \<Rightarrow> session_manager" where
  "manager_new max_sessions max_output =
     \<lparr>sm_sessions = [], sm_admission_closed = False, sm_next_id = 1, sm_max_sessions = max_sessions,
      sm_max_output_chars = max_output\<rparr>"

definition put_session :: "rstr \<Rightarrow> session_runtime \<Rightarrow> sessions \<Rightarrow> sessions" where
  "put_session h rt ss =
     (if h \<in> fst ` set ss then map (\<lambda>(k, v). (k, if k = h then rt else v)) ss else ss @ [(h, rt)])"

definition drop_session :: "rstr \<Rightarrow> sessions \<Rightarrow> sessions" where
  "drop_session h ss = filter (\<lambda>(k, _). k \<noteq> h) ss"

definition remove_session :: "rstr \<Rightarrow> session_manager \<Rightarrow> session_manager \<times> session_event list" where
  "remove_session h sm =
     (case map_of (sm_sessions sm) h of
        None \<Rightarrow> (sm, [])
      | Some rt \<Rightarrow>
          (case owned_process_end_of (rt_inner rt) of
             None \<Rightarrow> (sm, [])
           | Some e \<Rightarrow>
               (sm\<lparr>sm_sessions := drop_session h (sm_sessions sm)\<rparr>, snd (release_process_ownership e rt))))"

fun scan_candidates ::
  "(rstr \<Rightarrow> step_env) \<Rightarrow> sessions \<Rightarrow> (rstr \<times> nat) option
    \<Rightarrow> sessions \<times> session_event list \<times> (rstr \<times> nat) option res" where
  "scan_candidates env [] oldest = ([], [], Inr oldest)"
| "scan_candidates env ((h, rt) # cs) oldest =
     (case is_exited (env h) rt of
        (rt', evs, Inl e) \<Rightarrow> ((h, rt') # cs, evs, Inl e)
      | (rt', evs, Inr ex) \<Rightarrow>
          (let last_used = s_last_used_at (rt_inner rt);
               oldest' = (if ex \<and> (case oldest of None \<Rightarrow> True | Some (_, ts) \<Rightarrow> last_used < ts)
                          then Some (h, last_used) else oldest)
           in case scan_candidates env cs oldest' of
                (cs', evs', r) \<Rightarrow> ((h, rt') # cs', evs @ evs', r)))"

definition capacity_error :: "session_manager \<Rightarrow> rstr" where
  "capacity_error sm =
     ''session capacity reached ('' @ show_nat (sm_max_sessions sm)
     @ '' running sessions); finish or kill one before starting another command''"

text \<open>The loop of \<^verbatim>\<open>evict_if_needed\<close>, with the environment of each iteration; \<open>None\<close>: out of fuel.\<close>

fun evict_if_needed ::
  "nat \<Rightarrow> (nat \<Rightarrow> rstr \<Rightarrow> step_env) \<Rightarrow> session_manager
    \<Rightarrow> (session_manager \<times> session_event list \<times> unit res) option" where
  "evict_if_needed 0 env sm = None"
| "evict_if_needed (Suc fuel) env sm =
     (if length (sm_sessions sm) < sm_max_sessions sm then Some (sm, [], Inr ())
      else case scan_candidates (env fuel) (sm_sessions sm) None of
        (ss, evs, Inl e) \<Rightarrow> Some (sm\<lparr>sm_sessions := ss\<rparr>, evs, Inl e)
      | (ss, evs, Inr None) \<Rightarrow> Some (sm\<lparr>sm_sessions := ss\<rparr>, evs, Inl (capacity_error sm))
      | (ss, evs, Inr (Some (h, _))) \<Rightarrow>
          (case remove_session h (sm\<lparr>sm_sessions := ss\<rparr>) of
             (sm', evs') \<Rightarrow>
               map_option (\<lambda>(sm'', evs'', r). (sm'', evs @ evs' @ evs'', r)) (evict_if_needed fuel env sm')))"

section \<open>Commands\<close>

record exec_command_input =
  ec_cmd :: rstr
  ec_yield_time_ms :: "nat option"
  ec_workdir :: rstr
  ec_timeout_ms :: "nat option"

text \<open>
  What the outside answers while a command is started: the file system, the PTY, the process, its
  identity, the registry, the clock, the random bytes, and the environments of the poll loop.
\<close>

record exec_env =
  ee_context :: invocation_context
  ee_exists :: "rstr \<Rightarrow> bool"
  ee_is_dir :: "rstr \<Rightarrow> bool"
  ee_evict :: "nat \<Rightarrow> rstr \<Rightarrow> step_env"
  ee_now :: nat
  ee_pty :: "unit res"
  ee_clone_stdin :: "unit res"
  ee_clone_stdout :: "unit res"
  ee_clone_reader :: "unit res"
  ee_random :: rstr
  ee_temp_dir :: rstr
  ee_reader :: "unit res"
  ee_spawn :: "int option res"
  ee_insp :: inspector
  ee_require_identity :: bool
  ee_try_wait :: "int option option res"
  ee_kernel :: kernel
  ee_started :: "owned_process \<Rightarrow> unit res"
  ee_polls :: "poll_env list"
  ee_final :: step_env
  ee_secs :: "nat \<Rightarrow> rstr"
  ee_strip :: "rstr \<Rightarrow> rstr"

definition STOPPING :: rstr where
  "STOPPING = ''session runtime is stopping; new commands are not accepted''"

definition identity_missing :: "int \<Rightarrow> rstr" where
  "identity_missing p =
     ''Local runtime could not establish a stable process identity for PID '' @ show_int p
     @ ''; command was terminated before being admitted''"

definition open_pty :: "exec_env \<Rightarrow> unit res" where
  "open_pty env =
     and_then (with_ctx ''failed to allocate PTY'' (ee_pty env))
       (\<lambda>_. and_then (with_ctx ''failed to clone PTY slave for stdin'' (ee_clone_stdin env))
       (\<lambda>_. with_ctx ''failed to clone PTY slave for stdout'' (ee_clone_stdout env)))"

text \<open>After the spawn: establish ownership.  \<open>Inr\<close>: the runtime to register.\<close>

definition admit_child ::
  "exec_env \<Rightarrow> exec_command_input \<Rightarrow> nat \<Rightarrow> rstr \<Rightarrow> rstr \<Rightarrow> nat \<Rightarrow> output_buffer \<Rightarrow> int
    \<Rightarrow> session_event list \<times> session_runtime res" where
  "admit_child env input sid handle cwd timeout_ms output p =
     (let kill = map Signal (fst (signal_process_group (ee_kernel env) p Kill)) in
      case insp_identity (ee_insp env) p of
        Inl e \<Rightarrow> ([], Inl e)
      | Inr identity \<Rightarrow>
          (let rt = new_runtime (ee_context env) sid handle (ec_cmd input) (ee_now env) p cwd timeout_ms identity output in
           case (if identity = None \<and> ee_require_identity env then ee_try_wait env else Inr (Some None)) of
             Inl e \<Rightarrow> ([], Inl e)
           | Inr None \<Rightarrow> (kill, Inl (identity_missing p))
           | Inr (Some _) \<Rightarrow>
                 (case rt_owned rt of
                    None \<Rightarrow> ([], Inr rt)
                  | Some owned \<Rightarrow>
                      (case ee_started env owned of
                         Inr _ \<Rightarrow> ([ProcessStarted owned], Inr rt)
                       | Inl e \<Rightarrow>
                           ([ProcessStarted owned] @ kill @
                              [ProcessEnded owned (incomplete
                                 ''process ownership admission failed before the session was admitted'' (Some cwd))],
                            Inl (''failed to record command process ownership; command was terminated before admission: '' @ e))))))"

definition finish_call ::
  "step_env \<Rightarrow> rstr \<Rightarrow> session_manager \<Rightarrow> session_runtime \<Rightarrow> session_event list \<Rightarrow> tool_output
    \<Rightarrow> session_manager \<times> session_event list \<times> tool_output res" where
  "finish_call env handle sm rt evs out =
     (if to_status out = StatusExited then
        (case is_exited env rt of
           (rt', evs', Inl e) \<Rightarrow> (sm\<lparr>sm_sessions := put_session handle rt' (sm_sessions sm)\<rparr>, evs @ evs', Inl e)
         | (rt', evs', Inr ex) \<Rightarrow>
             (let sm' = sm\<lparr>sm_sessions := put_session handle rt' (sm_sessions sm)\<rparr>
              in if ex then (case remove_session handle sm' of (sm'', evs'') \<Rightarrow> (sm'', evs @ evs' @ evs'', Inr out))
                 else (sm', evs @ evs', Inr out)))
      else (sm\<lparr>sm_sessions := put_session handle rt (sm_sessions sm)\<rparr>, evs, Inr out))"

definition after_initial_wait ::
  "step_env \<Rightarrow> rstr \<Rightarrow> session_manager \<Rightarrow> session_event list
    \<Rightarrow> session_runtime \<times> session_event list \<times> tool_output res \<Rightarrow> session_manager \<times> session_event list \<times> tool_output res" where
  "after_initial_wait env handle sm evs answer =
     (case answer of
        (rt, evs', Inl e) \<Rightarrow>
          (sm\<lparr>sm_sessions := put_session handle rt (sm_sessions sm)\<rparr>, evs @ evs',
           Inl (''failed while waiting for new session output: '' @ e))
      | (rt, evs', Inr out) \<Rightarrow> finish_call env handle sm rt (evs @ evs') out)"

definition start_command ::
  "exec_env \<Rightarrow> config \<Rightarrow> exec_command_input \<Rightarrow> rstr \<Rightarrow> nat \<Rightarrow> nat \<Rightarrow> session_manager
    \<Rightarrow> (session_manager \<times> session_event list \<times> tool_output res) option" where
  "start_command env cfg input cwd timeout_ms yield_ms sm0 =
     (case open_pty env of
        Inl e \<Rightarrow> Some (sm0, [], Inl e)
      | Inr _ \<Rightarrow>
          (let sid = sm_next_id sm0;
               sm = sm0\<lparr>sm_next_id := Suc sid\<rparr>;
               handle = generate_session_handle (ee_random env);
               output = output_buffer_new (sm_max_output_chars sm) (spill_path_for_session (ee_temp_dir env) handle)
           in case and_then (with_ctx ''failed to clone PTY master for reader'' (ee_clone_reader env))
                     (\<lambda>_. and_then (ee_reader env)
                     (\<lambda>_. with_ctx (''failed to spawn command: '' @ ec_cmd input) (ee_spawn env))) of
                Inl e \<Rightarrow> Some (sm, [], Inl e)
              | Inr None \<Rightarrow> Some (sm, [], Inl ''failed to obtain child process id'')
              | Inr (Some p) \<Rightarrow>
                  (case admit_child env input sid handle cwd timeout_ms output p of
                     (evs, Inl e) \<Rightarrow> Some (sm, evs, Inl e)
                   | (evs, Inr rt) \<Rightarrow>
                       (let sm1 = sm\<lparr>sm_sessions := put_session handle rt (sm_sessions sm)\<rparr>
                        in map_option
                             (after_initial_wait (ee_final env) handle sm1 evs)
                             (wait_for_yield_or_exit_locked (ee_secs env) (ee_strip env) (ee_now env) yield_ms
                                (ee_polls env) rt)))))"

text \<open>A reversed clamp is a panic of the task, reported as an error.\<close>

definition PANIC_CLAMP :: rstr where "PANIC_CLAMP = ''assertion failed: min <= max''"

definition exec_command_with_context ::
  "exec_env \<Rightarrow> config \<Rightarrow> exec_command_input \<Rightarrow> session_manager
    \<Rightarrow> (session_manager \<times> session_event list \<times> tool_output res) option" where
  "exec_command_with_context env cfg input sm =
     (case validate_absolute_existing_workdir (ee_exists env) (ee_is_dir env) (ec_workdir input) of
        Inl e \<Rightarrow> Some (sm, [], Inl e)
      | Inr cwd \<Rightarrow>
          if sm_admission_closed sm then Some (sm, [], Inl STOPPING)
          else (case evict_if_needed (Suc (length (sm_sessions sm))) (ee_evict env) sm of
              None \<Rightarrow> None
            | Some (sm1, evs, Inl e) \<Rightarrow> Some (sm1, evs, Inl e)
            | Some (sm1, evs, Inr _) \<Rightarrow>
                (case (clamp_exec_timeout_ms cfg (ec_timeout_ms input), clamp_exec_yield_ms cfg (ec_yield_time_ms input)) of
                   (Some timeout_ms, Some yield_ms) \<Rightarrow>
                     map_option (\<lambda>(sm2, evs', r). (sm2, evs @ evs', r))
                       (start_command env cfg input cwd timeout_ms yield_ms sm1)
                 | _ \<Rightarrow> Some (sm1, evs, Inl PANIC_CLAMP))))"

record write_env =
  we_env :: step_env
  we_write :: "unit res"
  we_flush :: "unit res"
  we_polls :: "poll_env list"
  we_final :: step_env
  we_secs :: "nat \<Rightarrow> rstr"
  we_strip :: "rstr \<Rightarrow> rstr"

definition after_continue ::
  "step_env \<Rightarrow> rstr \<Rightarrow> session_manager
    \<Rightarrow> session_runtime \<times> session_event list \<times> tool_output res \<Rightarrow> session_manager \<times> session_event list \<times> tool_output res" where
  "after_continue env handle sm answer =
     (case answer of
        (rt, evs, Inl e) \<Rightarrow> (sm\<lparr>sm_sessions := put_session handle rt (sm_sessions sm)\<rparr>, evs, Inl e)
      | (rt, evs, Inr out) \<Rightarrow> finish_call env handle sm rt evs out)"

definition write_stdin_with_context ::
  "write_env \<Rightarrow> config \<Rightarrow> write_stdin_input \<Rightarrow> session_manager
    \<Rightarrow> (session_manager \<times> session_event list \<times> tool_output res) option" where
  "write_stdin_with_context env cfg input sm =
     (case clamp_write_yield_ms cfg (ws_yield_time_ms input) of
        None \<Rightarrow> Some (sm, [], Inl PANIC_CLAMP)
      | Some yield_ms \<Rightarrow>
          (let handle = ws_session_handle input in
           case map_of (sm_sessions sm) handle of
             None \<Rightarrow> Some (sm, [], Inl (''Unknown session handle: '' @ handle))
           | Some rt \<Rightarrow>
               map_option
                 (after_continue (we_final env) handle sm)
                 (continue_session (we_secs env) (we_strip env) (we_env env) (we_write env) (we_flush env)
                    (we_polls env) input yield_ms rt)))"

section \<open>Counts and shutdown\<close>

text \<open>A pass over all sessions that stops at the first error; the numbers are added up.\<close>

fun session_pass ::
  "(rstr \<Rightarrow> session_runtime \<Rightarrow> session_runtime \<times> session_event list \<times> nat res) \<Rightarrow> sessions
    \<Rightarrow> sessions \<times> session_event list \<times> nat res" where
  "session_pass f [] = ([], [], Inr 0)"
| "session_pass f ((h, rt) # ss) =
     (case f h rt of
        (rt', evs, Inl e) \<Rightarrow> ((h, rt') # ss, evs, Inl e)
      | (rt', evs, Inr n) \<Rightarrow>
          (case session_pass f ss of
             (ss', evs', r) \<Rightarrow> ((h, rt') # ss', evs @ evs', and_then r (\<lambda>m. Inr (n + m)))))"

definition session_counts ::
  "(rstr \<Rightarrow> step_env) \<Rightarrow> session_manager \<Rightarrow> session_manager \<times> session_event list \<times> (nat \<times> nat) res" where
  "session_counts env sm =
     (case session_pass (\<lambda>h rt. case is_exited (env h) rt of
              (rt', evs, Inl e) \<Rightarrow> (rt', evs, Inl e)
            | (rt', evs, Inr ex) \<Rightarrow> (rt', evs, Inr (if ex then 0 else 1))) (sm_sessions sm) of
        (ss, evs, r) \<Rightarrow>
          (sm\<lparr>sm_sessions := ss\<rparr>, evs, and_then r (\<lambda>running. Inr (length (sm_sessions sm), running))))"

text \<open>One poll of \<^verbatim>\<open>wait_for_session_exits_until\<close> counts the survivors; the loop polls until there are none or the
  deadline, where the list of polls ends.\<close>

definition exit_poll_all :: "(rstr \<Rightarrow> bool \<times> step_env) \<Rightarrow> sessions \<Rightarrow> sessions \<times> session_event list \<times> nat res" where
  "exit_poll_all env ss =
     session_pass (\<lambda>h rt. case exit_poll (fst (env h)) (snd (env h)) rt of
         (rt', evs, Inl e) \<Rightarrow> (rt', evs, Inl e)
       | (rt', evs, Inr alive) \<Rightarrow> (rt', evs, Inr (if alive then 1 else 0))) ss"

fun wait_for_session_exits_until ::
  "(rstr \<Rightarrow> bool \<times> step_env) \<Rightarrow> (rstr \<Rightarrow> bool \<times> step_env) list \<Rightarrow> sessions
    \<Rightarrow> sessions \<times> session_event list \<times> nat res" where
  "wait_for_session_exits_until p [] ss = exit_poll_all p ss"
| "wait_for_session_exits_until p (q # qs) ss =
     (case exit_poll_all p ss of
        (ss', evs, Inr (Suc n)) \<Rightarrow>
          (case wait_for_session_exits_until q qs ss' of (ss'', evs', r) \<Rightarrow> (ss'', evs @ evs', r))
      | (ss', evs, r) \<Rightarrow> (ss', evs, r))"

text \<open>The descendants of every session before anything is signalled; discovery errors are only logged.\<close>

definition snapshot_descendants_before_termination :: "(rstr \<Rightarrow> inspector) \<Rightarrow> sessions \<Rightarrow> (rstr \<times> process_identity) list" where
  "snapshot_descendants_before_termination insp ss =
     concat (map (\<lambda>(h, rt).
       case insp_descendants (insp h) (s_pid (rt_inner rt)) RUNTIME_DESCENDANT_DISCOVERY_LIMIT of
         Inl _ \<Rightarrow> [] | Inr ds \<Rightarrow> map (Pair h) ds) ss)"

fun signal_descendants ::
  "kernel \<Rightarrow> (rstr \<Rightarrow> inspector) \<Rightarrow> process_signal \<Rightarrow> (rstr \<times> process_identity) list \<Rightarrow> session_event list \<times> nat" where
  "signal_descendants kern insp sig [] = ([], 0)"
| "signal_descendants kern insp sig ((h, d) # ds) =
     (case signal_process_if_matching kern (insp h) d sig of
        (effs, r) \<Rightarrow>
          (case signal_descendants kern insp sig ds of
             (evs, n) \<Rightarrow> (map Signal effs @ evs, (if r = Inr True then 1 else 0) + n)))"

record shutdown_env =
  sh_before :: "rstr \<Rightarrow> inspector"
  sh_pass1 :: "rstr \<Rightarrow> step_env"
  sh_insp1 :: "rstr \<Rightarrow> inspector"
  sh_kernel :: kernel
  sh_poll1 :: "rstr \<Rightarrow> bool \<times> step_env"
  sh_polls1 :: "(rstr \<Rightarrow> bool \<times> step_env) list"
  sh_pass2 :: "rstr \<Rightarrow> step_env"
  sh_insp2 :: "rstr \<Rightarrow> inspector"
  sh_poll2 :: "rstr \<Rightarrow> bool \<times> step_env"
  sh_polls2 :: "(rstr \<Rightarrow> bool \<times> step_env) list"

record runtime_shutdown_result =
  sessions_signaled :: nat
  sessions_force_killed :: nat
  descendants_signaled :: nat
  descendants_force_killed :: nat

text \<open>\<open>shutdown_sessions\<close> is \<^verbatim>\<open>shutdown_all\<close> on the sessions, up to the point where the map is cleared.\<close>

definition shutdown_sessions ::
  "shutdown_env \<Rightarrow> sessions \<Rightarrow> sessions \<times> session_event list \<times> runtime_shutdown_result res" where
  "shutdown_sessions env ss0 =
     (let found = snapshot_descendants_before_termination (sh_before env) ss0 in
      case session_pass (\<lambda>h rt. shutdown_terminate (sh_pass1 env h) rt) ss0 of
        (ss1, evs1, Inl e) \<Rightarrow> (ss1, evs1, Inl e)
      | (ss1, evs1, Inr signaled) \<Rightarrow>
          (case signal_descendants (sh_kernel env) (sh_insp1 env) Terminate found of
             (evs2, dsignaled) \<Rightarrow>
               (case wait_for_session_exits_until (sh_poll1 env) (sh_polls1 env) ss1 of
                  (ss2, evs3, Inl e) \<Rightarrow> (ss2, evs1 @ evs2 @ evs3, Inl e)
                | (ss2, evs3, Inr _) \<Rightarrow>
                    (case session_pass (\<lambda>h rt. shutdown_force (sh_pass2 env h) rt) ss2 of
                       (ss3, evs4, Inl e) \<Rightarrow> (ss3, evs1 @ evs2 @ evs3 @ evs4, Inl e)
                     | (ss3, evs4, Inr forced) \<Rightarrow>
                         (case signal_descendants (sh_kernel env) (sh_insp2 env) Kill found of
                            (evs5, dforced) \<Rightarrow>
                              (case wait_for_session_exits_until (sh_poll2 env) (sh_polls2 env) ss3 of
                                 (ss4, evs6, Inl e) \<Rightarrow> (ss4, evs1 @ evs2 @ evs3 @ evs4 @ evs5 @ evs6, Inl e)
                               | (ss4, evs6, Inr survivors) \<Rightarrow>
                                   (ss4, evs1 @ evs2 @ evs3 @ evs4 @ evs5 @ evs6,
                                    if 0 < survivors then
                                      Inl (''timed out waiting for '' @ show_nat survivors
                                           @ '' Local command process group(s) to exit'')
                                    else Inr \<lparr>sessions_signaled = signaled, sessions_force_killed = forced,
                                          descendants_signaled = dsignaled, descendants_force_killed = dforced\<rparr>)))))))"

definition shutdown_all ::
  "shutdown_env \<Rightarrow> session_manager \<Rightarrow> session_manager \<times> session_event list \<times> runtime_shutdown_result res" where
  "shutdown_all env sm =
     (case shutdown_sessions env (sm_sessions sm) of
        (ss, evs, Inl e) \<Rightarrow> (sm\<lparr>sm_admission_closed := True, sm_sessions := ss\<rparr>, evs, Inl e)
      | (ss, evs, Inr r) \<Rightarrow> (sm\<lparr>sm_admission_closed := True, sm_sessions := []\<rparr>, evs, Inr r))"

section \<open>Lemmas\<close>

definition finished :: "session_runtime \<Rightarrow> bool" where
  "finished rt \<longleftrightarrow> s_reaped_exit_code (rt_inner rt) \<noteq> None \<and> s_members (rt_inner rt) = []"

definition rt_later :: "session_runtime \<Rightarrow> session_runtime \<Rightarrow> bool" where
  "rt_later rt rt' \<longleftrightarrow> (\<exists>evs. rt_evolves rt rt' evs)"

lemma rt_laterI: "rt_evolves rt rt' evs \<Longrightarrow> rt_later rt rt'"
  by (auto simp: rt_later_def)

lemma rt_later_refl [simp]: "rt_later rt rt"
  using rt_evolves_refl by (auto simp: rt_later_def)

lemma rt_later_trans: "rt_later a b \<Longrightarrow> rt_later b c \<Longrightarrow> rt_later a c"
  using rt_evolves_trans by (fastforce simp: rt_later_def)

lemma finished_end: "finished rt \<longleftrightarrow> owned_process_end_of (rt_inner rt) \<noteq> None"
  by (auto simp: finished_def owned_process_end_of_def)

lemma is_exited_result:
  "is_exited env rt = (rt', evs, Inr ex) \<Longrightarrow> ex = finished rt'"
  by (auto simp: is_exited_def finished_def split: prod.splits sum.splits dest: reap_result)

text \<open>Sessions after an operation: each one is kept and has evolved, or it is gone after it had finished.\<close>

definition kept_or_finished :: "sessions \<Rightarrow> sessions \<Rightarrow> bool" where
  "kept_or_finished ss ss' \<longleftrightarrow>
     (\<forall>(h, rt) \<in> set ss. (\<exists>rt'. (h, rt') \<in> set ss' \<and> rt_later rt rt') \<or>
        h \<notin> fst ` set ss' \<and> (\<exists>rt'. rt_later rt rt' \<and> finished rt')) \<and>
     fst ` set ss' \<subseteq> fst ` set ss"

lemma kept_refl: "kept_or_finished ss ss"
  by (auto simp: kept_or_finished_def)

lemma kept_or_finishedD:
  assumes "kept_or_finished ss ss'" "(h, rt) \<in> set ss"
  shows "(\<exists>rt'. (h, rt') \<in> set ss' \<and> rt_later rt rt') \<or>
        h \<notin> fst ` set ss' \<and> (\<exists>rt'. rt_later rt rt' \<and> finished rt')"
  using assms unfolding kept_or_finished_def by blast

lemma kept_trans:
  assumes "kept_or_finished a b" "kept_or_finished b c"
  shows "kept_or_finished a c"
  unfolding kept_or_finished_def
proof (intro conjI ballI, clarify)
  fix h rt
  assume ha: "(h, rt) \<in> set a"
    and no: "\<not> (h \<notin> fst ` set c \<and> (\<exists>rt'. rt_later rt rt' \<and> finished rt'))"
  from kept_or_finishedD [OF assms(1) ha] consider (kept) rt' where "(h, rt') \<in> set b" "rt_later rt rt'"
    | (gone) "h \<notin> fst ` set b" "\<exists>rt'. rt_later rt rt' \<and> finished rt'"
    by blast
  then show "\<exists>rt'. (h, rt') \<in> set c \<and> rt_later rt rt'"
  proof cases
    case (kept rt')
    from kept_or_finishedD [OF assms(2) kept(1)] kept(2) no show ?thesis using rt_later_trans by blast
  next
    case gone
    moreover have "fst ` set c \<subseteq> fst ` set b" using assms(2) unfolding kept_or_finished_def by blast
    ultimately have "h \<notin> fst ` set c" by blast
    with gone no show ?thesis by blast
  qed
next
  show "fst ` set c \<subseteq> fst ` set a" using assms unfolding kept_or_finished_def by blast
qed

definition all_later :: "sessions \<Rightarrow> sessions \<Rightarrow> bool" where
  "all_later = list_all2 (\<lambda>(h, rt) (h', rt'). h = h' \<and> rt_later rt rt')"

lemma all_later_refl: "all_later ss ss"
  by (auto simp: all_later_def list_all2_conv_all_nth split: prod.splits)

lemma all_later_trans: "all_later a b \<Longrightarrow> all_later b c \<Longrightarrow> all_later a c"
  unfolding all_later_def
  by (rule list_all2_trans [where ?P1.0 = "\<lambda>(h, rt) (h', rt'). h = h' \<and> rt_later rt rt'"])
     (auto intro: rt_later_trans)

lemma all_later_keys: "all_later a b \<Longrightarrow> map fst b = map fst a"
  unfolding all_later_def by (induction rule: list_all2_induct) auto

lemma all_later_mem: "all_later a b \<Longrightarrow> (h, rt) \<in> set a \<Longrightarrow> \<exists>rt'. (h, rt') \<in> set b \<and> rt_later rt rt'"
  unfolding all_later_def by (induction rule: list_all2_induct) auto

lemma all_later_kept: "all_later a b \<Longrightarrow> kept_or_finished a b"
  unfolding kept_or_finished_def using all_later_mem all_later_keys [of a b]
  by (metis (no_types, lifting) case_prodI2 list.set_map order_refl)

lemma scan_candidates_later:
  "scan_candidates env ss oldest = (ss', evs, r) \<Longrightarrow> all_later ss ss'"
proof (induction env ss oldest arbitrary: ss' evs r rule: scan_candidates.induct)
  case (2 env h rt cs oldest)
  obtain rt' evs1 r1 where 1: "is_exited (env h) rt = (rt', evs1, r1)" by (cases "is_exited (env h) rt") auto
  have later: "rt_later rt rt'" using is_exited_evolves [OF 1] by (auto simp: rt_later_def)
  show ?case
  proof (cases r1)
    case (Inl e)
    with "2.prems" 1 later all_later_refl show ?thesis by (auto simp: all_later_def)
  next
    case (Inr ex)
    define oldest' where "oldest' = (if ex \<and> (case oldest of None \<Rightarrow> True | Some (_, ts) \<Rightarrow> s_last_used_at (rt_inner rt) < ts)
        then Some (h, s_last_used_at (rt_inner rt)) else oldest)"
    obtain cs' evs2 r2 where 3: "scan_candidates env cs oldest' = (cs', evs2, r2)"
      by (cases "scan_candidates env cs oldest'") auto
    have "ss' = (h, rt') # cs'" using "2.prems" 1 Inr 3 by (simp add: oldest'_def Let_def)
    moreover have "all_later cs cs'" using "2.IH" [OF 1 [symmetric] refl Inr refl oldest'_def] 3 by simp
    ultimately show ?thesis using later by (simp add: all_later_def)
  qed
qed (simp add: all_later_refl)

lemma scan_candidates_result:
  "scan_candidates env ss oldest = (ss', evs, Inr new) \<Longrightarrow>
     (new = oldest \<or> (\<exists>h ts rt'. new = Some (h, ts) \<and> (h, rt') \<in> set ss' \<and> finished rt')) \<and>
     (new = None \<longrightarrow> (\<forall>(h, rt') \<in> set ss'. \<not> finished rt'))"
proof (induction env ss oldest arbitrary: ss' evs new rule: scan_candidates.induct)
  case (2 env h rt cs oldest)
  obtain rt' evs1 r1 where 1: "is_exited (env h) rt = (rt', evs1, r1)" by (cases "is_exited (env h) rt") auto
  with "2.prems" obtain ex where Inr: "r1 = Inr ex" by (cases r1) auto
  define oldest' where "oldest' = (if ex \<and> (case oldest of None \<Rightarrow> True | Some (_, ts) \<Rightarrow> s_last_used_at (rt_inner rt) < ts)
      then Some (h, s_last_used_at (rt_inner rt)) else oldest)"
  obtain cs' evs2 r2 where 3: "scan_candidates env cs oldest' = (cs', evs2, r2)"
    by (cases "scan_candidates env cs oldest'") auto
  have eq: "ss' = (h, rt') # cs'" "r2 = Inr new" using "2.prems" 1 Inr 3 by (simp_all add: oldest'_def Let_def)
  have IH: "(new = oldest' \<or> (\<exists>h ts rt'. new = Some (h, ts) \<and> (h, rt') \<in> set cs' \<and> finished rt')) \<and>
     (new = None \<longrightarrow> (\<forall>(h, rt') \<in> set cs'. \<not> finished rt'))"
    using "2.IH" [OF 1 [symmetric] refl Inr refl oldest'_def] 3 eq(2) by simp
  have ex: "ex = finished rt'" using is_exited_result 1 Inr by blast
  have "new = None \<Longrightarrow> \<not> ex"
    using IH by (auto simp: oldest'_def split: if_splits option.splits)
  with IH ex eq(1) show ?case by (auto simp: oldest'_def split: if_splits)
qed simp

lemma remove_finished:
  assumes "distinct (map fst (sm_sessions sm))" "(h, rt) \<in> set (sm_sessions sm)" "finished rt"
    and "remove_session h sm = (sm', evs)"
  shows "sm' = sm\<lparr>sm_sessions := drop_session h (sm_sessions sm)\<rparr>"
    and "length (sm_sessions sm') < length (sm_sessions sm)"
    and "kept_or_finished (sm_sessions sm) (sm_sessions sm')"
    and "distinct (map fst (sm_sessions sm'))"
proof -
  have m: "map_of (sm_sessions sm) h = Some rt" using assms(1,2) by simp
  with assms(3,4) show sm': "sm' = sm\<lparr>sm_sessions := drop_session h (sm_sessions sm)\<rparr>"
    by (auto simp: remove_session_def finished_end)
  show "length (sm_sessions sm') < length (sm_sessions sm)"
    unfolding sm' drop_session_def using assms(2) by (auto intro!: length_filter_less)
  have "(k, v) \<in> set (sm_sessions sm) \<Longrightarrow> k = h \<Longrightarrow> v = rt" for k v
    using m assms(1) by (metis map_of_eq_Some_iff option.inject)
  then show "kept_or_finished (sm_sessions sm) (sm_sessions sm')"
    unfolding sm' kept_or_finished_def drop_session_def using assms(3) by (fastforce intro: rt_later_refl)
  show "distinct (map fst (sm_sessions sm'))"
    unfolding sm' drop_session_def using assms(1) by (simp add: distinct_map_filter)
qed

lemma evict_result:
  assumes "distinct (map fst (sm_sessions sm))" "length (sm_sessions sm) < fuel"
  shows "\<exists>sm' evs r. evict_if_needed fuel env sm = Some (sm', evs, r) \<and>
     kept_or_finished (sm_sessions sm) (sm_sessions sm') \<and> distinct (map fst (sm_sessions sm')) \<and>
     sm_max_sessions sm' = sm_max_sessions sm \<and> sm_admission_closed sm' = sm_admission_closed sm \<and>
     length (sm_sessions sm') \<le> length (sm_sessions sm) \<and>
     (case r of Inr _ \<Rightarrow> length (sm_sessions sm') < sm_max_sessions sm
      | Inl _ \<Rightarrow> sm_max_sessions sm \<le> length (sm_sessions sm'))"
  using assms
proof (induction fuel arbitrary: sm)
  case (Suc fuel)
  show ?case
  proof (cases "length (sm_sessions sm) < sm_max_sessions sm")
    case True
    with Suc.prems show ?thesis by (simp add: kept_refl)
  next
    case False
    obtain ss evs r where scan: "scan_candidates (env fuel) (sm_sessions sm) None = (ss, evs, r)"
      by (cases "scan_candidates (env fuel) (sm_sessions sm) None") auto
    note later = scan_candidates_later [OF scan]
    have keys: "map fst ss = map fst (sm_sessions sm)" by (rule all_later_keys [OF later])
    then have len: "length ss = length (sm_sessions sm)" by (metis length_map)
    note kept = all_later_kept [OF later]
    show ?thesis
    proof (cases "\<exists>h ts. r = Inr (Some (h, ts))")
      case True
      then obtain h ts where r: "r = Inr (Some (h, ts))" by blast
      from scan_candidates_result [OF scan [unfolded r]] obtain rt' where rt': "(h, rt') \<in> set ss" "finished rt'" by auto
      let ?sm = "sm\<lparr>sm_sessions := ss\<rparr>"
      obtain sm1 evs1 where rem: "remove_session h ?sm = (sm1, evs1)" by force
      have "distinct (map fst (sm_sessions ?sm))" using keys Suc.prems(1) by simp
      from remove_finished [OF this _ rt'(2) rem] rt'(1)
      have sm1: "sm_max_sessions sm1 = sm_max_sessions sm" "sm_admission_closed sm1 = sm_admission_closed sm"
        "length (sm_sessions sm1) < length ss" "kept_or_finished ss (sm_sessions sm1)"
        "distinct (map fst (sm_sessions sm1))" by simp_all
      have "length (sm_sessions sm1) < fuel" using sm1(3) len Suc.prems(2) by simp
      from Suc.IH [OF sm1(5) this] obtain sm' evs' r' where
        e: "evict_if_needed fuel env sm1 = Some (sm', evs', r')" and
        facts: "kept_or_finished (sm_sessions sm1) (sm_sessions sm')" "distinct (map fst (sm_sessions sm'))"
          "sm_max_sessions sm' = sm_max_sessions sm1" "sm_admission_closed sm' = sm_admission_closed sm1"
          "length (sm_sessions sm') \<le> length (sm_sessions sm1)"
          "case r' of Inr _ \<Rightarrow> length (sm_sessions sm') < sm_max_sessions sm1
           | Inl _ \<Rightarrow> sm_max_sessions sm1 \<le> length (sm_sessions sm')" by blast
      have "kept_or_finished (sm_sessions sm) (sm_sessions sm')"
        using kept_trans [OF kept_trans [OF kept sm1(4)] facts(1)] .
      with False scan r rem e facts sm1 len show ?thesis by (auto split: sum.splits)
    next
      case no: False
      obtain e where "evict_if_needed (Suc fuel) env sm = Some (sm\<lparr>sm_sessions := ss\<rparr>, evs, Inl e)"
      proof (cases r)
        case (Inl e)
        with False scan that show ?thesis by simp
      next
        case (Inr b)
        with no have "b = None" by (cases b) auto
        with Inr False scan that show ?thesis by simp
      qed
      with False kept len keys Suc.prems(1) show ?thesis by simp
    qed
  qed
qed simp



definition sm_inv :: "nat \<Rightarrow> session_manager \<Rightarrow> bool" where
  "sm_inv m sm \<longleftrightarrow>
     distinct (map fst (sm_sessions sm)) \<and> length (sm_sessions sm) \<le> m \<and> sm_max_sessions sm = m"

lemma put_session_existing:
  assumes "h \<in> fst ` set ss"
  shows "map fst (put_session h rt ss) = map fst ss"
  using assms by (auto simp: put_session_def)

lemma put_session_new:
  "distinct (map fst ss) \<Longrightarrow> distinct (map fst (put_session h rt ss))"
  "length (put_session h rt ss) \<le> Suc (length ss)" "h \<in> fst ` set (put_session h rt ss)"
  by (auto simp: put_session_def comp_def case_prod_unfold image_iff)

lemma sm_inv_put:
  assumes "sm_inv m sm" "h \<in> fst ` set (sm_sessions sm)"
  shows "sm_inv m (sm\<lparr>sm_sessions := put_session h rt (sm_sessions sm)\<rparr>)"
  using assms put_session_existing [OF assms(2), of rt]
  by (simp add: sm_inv_def) (metis length_map)

lemma sm_inv_remove: "sm_inv m sm \<Longrightarrow> sm_inv m (fst (remove_session h sm))"
  by (auto simp: sm_inv_def remove_session_def drop_session_def distinct_map_filter
      split: option.splits intro: order_trans [OF length_filter_le])

lemma finish_call_inv:
  assumes "sm_inv m sm" "h \<in> fst ` set (sm_sessions sm)"
  shows "sm_inv m (fst (finish_call env h sm rt evs out))"
proof -
  have put: "sm_inv m (sm\<lparr>sm_sessions := put_session h rt' (sm_sessions sm)\<rparr>)" for rt'
    by (rule sm_inv_put [OF assms])
  then have "sm_inv m (fst (remove_session h (sm\<lparr>sm_sessions := put_session h rt' (sm_sessions sm)\<rparr>)))" for rt'
    by (rule sm_inv_remove)
  with put show ?thesis
    by (auto simp: finish_call_def Let_def split: prod.splits sum.splits) (metis fst_conv)
qed

lemma start_command_inv:
  assumes "distinct (map fst (sm_sessions sm))" "length (sm_sessions sm) < m" "sm_max_sessions sm = m"
    and "start_command env cfg input cwd timeout_ms yield_ms sm = Some (sm', evs, r)"
  shows "sm_inv m sm'"
proof -
  let ?h = "generate_session_handle (ee_random env)"
  let ?sm = "\<lambda>rt. sm\<lparr>sm_next_id := Suc (sm_next_id sm), sm_sessions := put_session ?h rt (sm_sessions sm)\<rparr>"
  have inv0: "sm_inv m sm" "sm_inv m (sm\<lparr>sm_next_id := Suc (sm_next_id sm)\<rparr>)" using assms(1,2,3) by (simp_all add: sm_inv_def)
  have inv1: "sm_inv m (?sm rt)" for rt
    using assms(1,2,3) put_session_new(1) [OF assms(1)] put_session_new(2) [of ?h rt "sm_sessions sm"]
    by (simp add: sm_inv_def)
  have mem: "?h \<in> fst ` set (sm_sessions (?sm rt))" for rt using put_session_new(3) by simp
  have after: "sm_inv m (fst (after_initial_wait en ?h (?sm rt) evs0 answer))" for en rt evs0 answer
    using sm_inv_put [OF inv1 mem] finish_call_inv [OF inv1 mem]
    by (cases answer; cases "snd (snd answer)") (auto simp: after_initial_wait_def)
  consider "sm' = sm" | "sm' = sm\<lparr>sm_next_id := Suc (sm_next_id sm)\<rparr>"
    | en rt evs0 answer where "after_initial_wait en ?h (?sm rt) evs0 answer = (sm', evs, r)"
    using assms(4) by (auto simp: start_command_def Let_def split: sum.splits option.splits prod.splits)
  then show ?thesis
  proof cases
    case (3 en rt evs0 answer)
    then show ?thesis using after [of en rt evs0 answer] by (metis fst_conv)
  qed (use inv0 in simp_all)
qed

lemma exec_inv:
  assumes "sm_inv m sm" "exec_command_with_context env cfg input sm = Some (sm', evs, r)"
  shows "sm_inv m sm'"
proof -
  from assms(1) have d: "distinct (map fst (sm_sessions sm))" "length (sm_sessions sm) \<le> m" "sm_max_sessions sm = m"
    by (simp_all add: sm_inv_def)
  from evict_result [OF d(1), of "Suc (length (sm_sessions sm))" "ee_evict env"] obtain sm1 evs1 r1 where
    e: "evict_if_needed (Suc (length (sm_sessions sm))) (ee_evict env) sm = Some (sm1, evs1, r1)"
    "distinct (map fst (sm_sessions sm1))" "sm_max_sessions sm1 = sm_max_sessions sm"
    "length (sm_sessions sm1) \<le> length (sm_sessions sm)"
    "case r1 of Inr _ \<Rightarrow> length (sm_sessions sm1) < sm_max_sessions sm
      | Inl _ \<Rightarrow> sm_max_sessions sm \<le> length (sm_sessions sm1)" by auto
  have inv1: "sm_inv m sm1" using e d by (simp add: sm_inv_def)
  consider "sm' = sm" | "sm' = sm1"
    | u cwd tmo yld evs' where "r1 = Inr u" "start_command env cfg input cwd tmo yld sm1 = Some (sm', evs', r)"
    using assms(2) e(1)
    by (auto simp: exec_command_with_context_def split: sum.splits if_splits option.splits prod.splits)
  then show ?thesis
  proof cases
    case 3
    then show ?thesis using start_command_inv [OF e(2)] e(3,5) d(3) by simp
  qed (use inv1 assms(1) in simp_all)
qed

lemma write_stdin_inv:
  assumes "sm_inv m sm" "write_stdin_with_context env cfg input sm = Some (sm', evs, r)"
  shows "sm_inv m sm'"
proof -
  let ?h = "ws_session_handle input"
  show ?thesis
  proof (cases "map_of (sm_sessions sm) ?h")
    case None
    with assms show ?thesis by (auto simp: write_stdin_with_context_def Let_def split: option.splits)
  next
    case (Some rt)
    then have mem: "?h \<in> fst ` set (sm_sessions sm)" by (metis domI dom_map_of_conv_image_fst)
    have after: "sm_inv m (fst (after_continue en ?h sm answer))" for en answer
      using sm_inv_put [OF assms(1) mem] finish_call_inv [OF assms(1) mem]
      by (cases answer; cases "snd (snd answer)") (auto simp: after_continue_def)
    consider "sm' = sm" | en answer where "after_continue en ?h sm answer = (sm', evs, r)"
      using assms(2) Some
      by (auto simp: write_stdin_with_context_def Let_def split: option.splits)
    then show ?thesis
    proof cases
      case (2 en answer)
      then show ?thesis using after [of en answer] by simp
    qed (use assms(1) in simp)
  qed
qed

lemma session_pass_keys:
  "session_pass f ss = (ss', evs, r) \<Longrightarrow> map fst ss' = map fst ss"
  by (induction ss arbitrary: ss' evs r) (auto split: prod.splits sum.splits)

lemma session_pass_later:
  assumes "session_pass f ss = (ss', evs, r)" "\<And>h rt rt' evs r. f h rt = (rt', evs, r) \<Longrightarrow> rt_later rt rt'"
  shows "all_later ss ss'"
  using assms(1)
proof (induction ss arbitrary: ss' evs r)
  case (Cons p ss)
  obtain h rt where p: "p = (h, rt)" by force
  obtain rt' evs1 r1 where f: "f h rt = (rt', evs1, r1)" by (cases "f h rt") auto
  obtain ss2 evs2 r2 where s: "session_pass f ss = (ss2, evs2, r2)" by (cases "session_pass f ss") auto
  from Cons.IH [OF s] Cons.prems p f s assms(2) [OF f] all_later_refl [of ss] show ?case
    by (cases r1) (auto simp: all_later_def)
qed (simp add: all_later_refl)

lemma session_pass_zero:
  assumes "session_pass f ss = (ss', evs, Inr 0)" "\<And>h rt rt' evs. f h rt = (rt', evs, Inr 0) \<Longrightarrow> P rt'"
  shows "\<forall>(h, rt) \<in> set ss'. P rt"
  using assms(1)
proof (induction ss arbitrary: ss' evs)
  case (Cons p ss)
  obtain h rt where p: "p = (h, rt)" by force
  obtain rt' evs1 r1 where f: "f h rt = (rt', evs1, r1)" by (cases "f h rt") auto
  obtain ss2 evs2 r2 where s: "session_pass f ss = (ss2, evs2, r2)" by (cases "session_pass f ss") auto
  from Cons.prems p f s have "r1 = Inr 0" "r2 = Inr 0" "ss' = (h, rt') # ss2"
    by (auto simp: and_then_Inr split: sum.splits)
  with Cons.IH s assms(2) f show ?case by auto
qed simp

lemma session_counts_inv:
  "sm_inv m sm \<Longrightarrow> session_counts env sm = (sm', evs, r) \<Longrightarrow> sm_inv m sm'"
  by (auto simp: session_counts_def sm_inv_def split: prod.splits dest!: session_pass_keys) (metis length_map)

lemma shutdown_terminate_later: "shutdown_terminate env rt = (rt', evs, r) \<Longrightarrow> rt_later rt rt'"
  by (rule rt_laterI) (rule shutdown_terminate_evolves)

lemma shutdown_force_later: "shutdown_force env rt = (rt', evs, r) \<Longrightarrow> rt_later rt rt'"
  by (rule rt_laterI) (rule shutdown_force_evolves)

lemma exit_poll_all_later: "exit_poll_all env ss = (ss', evs, r) \<Longrightarrow> all_later ss ss'"
  unfolding exit_poll_all_def
  by (erule session_pass_later) (auto split: prod.splits sum.splits dest: exit_poll_evolves intro: rt_laterI)

lemma wait_exits_later: "wait_for_session_exits_until p ps ss = (ss', evs, r) \<Longrightarrow> all_later ss ss'"
proof (induction ps arbitrary: p ss ss' evs r)
  case Nil
  then show ?case by (simp add: exit_poll_all_later)
next
  case (Cons q qs)
  obtain ss1 evs1 r1 where 1: "exit_poll_all p ss = (ss1, evs1, r1)" by (cases "exit_poll_all p ss") auto
  obtain ss2 evs2 r2 where 2: "wait_for_session_exits_until q qs ss1 = (ss2, evs2, r2)"
    by (cases "wait_for_session_exits_until q qs ss1") auto
  from Cons.prems 1 2 have "ss' = ss1 \<or> ss' = ss2" by (auto split: sum.splits nat.splits)
  with exit_poll_all_later [OF 1] Cons.IH [OF 2] all_later_trans show ?case by blast
qed

lemma exit_poll_gone:
  assumes "exit_poll contended env rt = (rt', evs, Inr False)"
  shows "finished rt' \<and> rt_released rt'"
proof -
  obtain rt1 evs1 r1 where 1: "reap_and_record_exit env rt = (rt1, evs1, r1)" by (cases "reap_and_record_exit env rt") auto
  from assms 1 obtain e evs2 where e: "owned_process_end_of (rt_inner rt1) = Some e"
      "release_process_ownership e rt1 = (rt', evs2)"
    by (auto simp: exit_poll_def split: if_splits sum.splits option.splits prod.splits)
  then have "finished rt1" by (simp add: finished_end)
  with e(2) show ?thesis by (auto simp: release_process_ownership_def finished_def split: if_splits)
qed

lemma exit_poll_all_zero:
  "exit_poll_all env ss = (ss', evs, Inr 0) \<Longrightarrow> \<forall>(h, rt) \<in> set ss'. finished rt \<and> rt_released rt"
  unfolding exit_poll_all_def
  by (erule session_pass_zero) (auto split: prod.splits sum.splits if_splits dest: exit_poll_gone)

lemma wait_exits_zero:
  "wait_for_session_exits_until p ps ss = (ss', evs, Inr 0) \<Longrightarrow> \<forall>(h, rt) \<in> set ss'. finished rt \<and> rt_released rt"
proof (induction ps arbitrary: p ss evs)
  case Nil
  then show ?case using exit_poll_all_zero by simp
next
  case (Cons q qs)
  obtain ss1 evs1 r1 where 1: "exit_poll_all p ss = (ss1, evs1, r1)" by (cases "exit_poll_all p ss") auto
  obtain ss2 evs2 r2 where 2: "wait_for_session_exits_until q qs ss1 = (ss2, evs2, r2)"
    by (cases "wait_for_session_exits_until q qs ss1") auto
  show ?case
  proof (cases "r1 = Inr 0")
    case True
    with Cons.prems 1 exit_poll_all_zero [of p ss] show ?thesis by simp
  next
    case False
    with Cons.prems 1 2 have "ss' = ss2" "r2 = Inr 0" by (auto split: sum.splits nat.splits)
    with Cons.IH 2 show ?thesis by blast
  qed
qed

lemma shutdown_sessions_facts:
  assumes "shutdown_sessions env ss = (ss', evs, r)"
  shows "all_later ss ss'" "r = Inr res \<Longrightarrow> \<forall>(h, rt) \<in> set ss'. finished rt \<and> rt_released rt"
proof -
  let ?found = "snapshot_descendants_before_termination (sh_before env) ss"
  obtain ss1 evs1 r1 where 1: "session_pass (\<lambda>h rt. shutdown_terminate (sh_pass1 env h) rt) ss = (ss1, evs1, r1)"
    by (cases "session_pass (\<lambda>h rt. shutdown_terminate (sh_pass1 env h) rt) ss") auto
  obtain evs2 n2 where 2: "signal_descendants (sh_kernel env) (sh_insp1 env) Terminate ?found = (evs2, n2)" by force
  obtain ss3 evs3 r3 where 3: "wait_for_session_exits_until (sh_poll1 env) (sh_polls1 env) ss1 = (ss3, evs3, r3)"
    by (cases "wait_for_session_exits_until (sh_poll1 env) (sh_polls1 env) ss1") auto
  obtain ss4 evs4 r4 where 4: "session_pass (\<lambda>h rt. shutdown_force (sh_pass2 env h) rt) ss3 = (ss4, evs4, r4)"
    by (cases "session_pass (\<lambda>h rt. shutdown_force (sh_pass2 env h) rt) ss3") auto
  obtain evs5 n5 where 5: "signal_descendants (sh_kernel env) (sh_insp2 env) Kill ?found = (evs5, n5)" by force
  obtain ss6 evs6 r6 where 6: "wait_for_session_exits_until (sh_poll2 env) (sh_polls2 env) ss4 = (ss6, evs6, r6)"
    by (cases "wait_for_session_exits_until (sh_poll2 env) (sh_polls2 env) ss4") auto
  have l1: "all_later ss ss1" using session_pass_later [OF 1] shutdown_terminate_later by blast
  have l3: "all_later ss ss3" using all_later_trans [OF l1 wait_exits_later [OF 3]] .
  have l4: "all_later ss ss4"
    using all_later_trans [OF l3 session_pass_later [OF 4]] shutdown_force_later by blast
  have l6: "all_later ss ss6" using all_later_trans [OF l4 wait_exits_later [OF 6]] .
  show "all_later ss ss'"
    using assms 1 2 3 4 5 6 l1 l3 l4 l6 by (auto simp: shutdown_sessions_def Let_def split: sum.splits)
  assume "r = Inr res"
  with assms 1 2 3 4 5 6 have "ss' = ss6" "r6 = Inr 0"
    by (auto simp: shutdown_sessions_def Let_def split: sum.splits if_splits)
  with wait_exits_zero 6 show "\<forall>(h, rt) \<in> set ss'. finished rt \<and> rt_released rt" by blast
qed

lemma shutdown_inv:
  assumes "sm_inv m sm" "shutdown_all env sm = (sm', evs, r)"
  shows "sm_inv m sm'"
proof -
  obtain ss evs1 r1 where 1: "shutdown_sessions env (sm_sessions sm) = (ss, evs1, r1)"
    by (cases "shutdown_sessions env (sm_sessions sm)") auto
  have "map fst ss = map fst (sm_sessions sm)" by (rule all_later_keys [OF shutdown_sessions_facts(1) [OF 1]])
  then have "length ss = length (sm_sessions sm)" "distinct (map fst ss) = distinct (map fst (sm_sessions sm))"
    by (metis length_map)+
  with assms 1 show ?thesis by (auto simp: shutdown_all_def sm_inv_def split: sum.splits)
qed

section \<open>Properties of the manager\<close>

inductive manager_step :: "session_manager \<Rightarrow> session_manager \<Rightarrow> bool" where
  exec: "exec_command_with_context eenv cfg input sm = Some (sm', evs, r) \<Longrightarrow> manager_step sm sm'"
| write_stdin: "write_stdin_with_context wenv cfg winput sm = Some (sm', evs, r') \<Longrightarrow> manager_step sm sm'"
| counts: "session_counts cenv sm = (sm', evs, n) \<Longrightarrow> manager_step sm sm'"
| shutdown: "shutdown_all senv sm = (sm', evs, res) \<Longrightarrow> manager_step sm sm'"

inductive_cases manager_stepE: "manager_step sm sm'"

lemma manager_step_inv: "manager_step sm sm' \<Longrightarrow> sm_inv m sm \<Longrightarrow> sm_inv m sm'"
  by (erule manager_stepE) (auto intro: exec_inv write_stdin_inv session_counts_inv shutdown_inv)

text \<open>
  C23: whatever sequence of commands, inputs, counts and shutdowns is run, the manager never retains more than its
  maximum number of sessions, and no two of them have the same handle.
\<close>

theorem session_capacity_invariant:
  assumes "manager_step\<^sup>*\<^sup>* (manager_new m max_output) sm"
  shows "length (sm_sessions sm) \<le> m \<and> distinct (map fst (sm_sessions sm))"
proof -
  have "sm_inv m sm"
    using assms
  proof (induction rule: rtranclp_induct)
    case base
    then show ?case by (simp add: sm_inv_def manager_new_def)
  qed (rule manager_step_inv)
  then show ?thesis by (simp add: sm_inv_def)
qed

definition quiet_shutdown :: shutdown_env where
  "quiet_shutdown = \<lparr>sh_before = (\<lambda>_. no_processes), sh_pass1 = (\<lambda>_. exit_env 1 (Some 0)), sh_insp1 = (\<lambda>_. no_processes),
     sh_kernel = (\<lambda>_. KillOk), sh_poll1 = (\<lambda>_. (False, exit_env 2 (Some 0))), sh_polls1 = [],
     sh_pass2 = (\<lambda>_. exit_env 3 (Some 0)), sh_insp2 = (\<lambda>_. no_processes),
     sh_poll2 = (\<lambda>_. (False, exit_env 4 (Some 0))), sh_polls2 = []\<rparr>"

theorem session_capacity_invariant_witness:
  "length (sm_sessions (fst (shutdown_all quiet_shutdown (manager_new 2 10)))) \<le> 2"
proof -
  obtain sm evs r where "shutdown_all quiet_shutdown (manager_new 2 10) = (sm, evs, r)"
    by (cases "shutdown_all quiet_shutdown (manager_new 2 10)") auto
  then show ?thesis
    using session_capacity_invariant [OF r_into_rtranclp, OF manager_step.shutdown, of quiet_shutdown 2 10 sm evs r] by simp
qed




end
