(* ===== verification/Patch_Paths.thy ===== *)
theory Patch_Paths
  imports Host_Paths
begin

text \<open>
  The paths of a patch (\<^verbatim>\<open>src/apply_patch.rs\<close>): the rewriting of relative paths, the physical identity
  of a path, and which operations of a patch replace a file or conflict with one another.
\<close>

section \<open>Data\<close>

text \<open>The types of the Codex library as far as the program takes them apart.\<close>

record update_file_chunk =
  uc_change_context :: "rstr option"
  uc_old_lines :: "rstr list"
  uc_is_end_of_file :: bool

datatype 'z hunk =
    AddFile rstr rstr
  | DeleteFile rstr
  | UpdateFile rstr "rstr option" "'z update_file_chunk_scheme list"

section \<open>Paths\<close>

definition ADD_FILE_PREFIX :: rstr where "ADD_FILE_PREFIX = ''*** Add File: ''"
definition UPDATE_FILE_PREFIX :: rstr where "UPDATE_FILE_PREFIX = ''*** Update File: ''"
definition DELETE_FILE_PREFIX :: rstr where "DELETE_FILE_PREFIX = ''*** Delete File: ''"
definition MOVE_TO_PREFIX :: rstr where "MOVE_TO_PREFIX = ''*** Move to: ''"

text \<open>The memo of the working directory in \<^verbatim>\<open>validated_workdir\<close> always holds \<open>workdir\<close>, so it is not a state.\<close>

definition resolve_patch_path :: "rstr \<Rightarrow> rstr \<Rightarrow> rstr" where
  "resolve_patch_path path workdir = (if is_absolute path then path else path_join workdir path)"

definition rewrite_line :: "rstr \<Rightarrow> rstr \<Rightarrow> rstr" where
  "rewrite_line workdir line =
     (case strip_prefix ADD_FILE_PREFIX line of
        Some path \<Rightarrow> ADD_FILE_PREFIX @ resolve_patch_path path workdir
      | None \<Rightarrow> (case strip_prefix UPDATE_FILE_PREFIX line of
        Some path \<Rightarrow> UPDATE_FILE_PREFIX @ resolve_patch_path path workdir
      | None \<Rightarrow> (case strip_prefix DELETE_FILE_PREFIX line of
        Some path \<Rightarrow> DELETE_FILE_PREFIX @ resolve_patch_path path workdir
      | None \<Rightarrow> (case strip_prefix MOVE_TO_PREFIX line of
        Some path \<Rightarrow> MOVE_TO_PREFIX @ resolve_patch_path path workdir
      | None \<Rightarrow> line))))"

definition rewrite_patch_paths :: "rstr \<Rightarrow> rstr \<Rightarrow> rstr" where
  "rewrite_patch_paths patch workdir = concat (map (\<lambda>line. rewrite_line workdir line @ [nl]) (str_lines patch))"

text \<open>\<open>path_pop\<close> is \<^verbatim>\<open>PathBuf::pop\<close>: the root has no parent.\<close>

definition path_pop :: "path_component list \<Rightarrow> path_component list" where
  "path_pop cs = (if cs = [] \<or> last cs = RootDir then cs else butlast cs)"

fun normalize_step :: "path_component \<Rightarrow> path_component list \<Rightarrow> path_component list" where
  "normalize_step CurDir result = result"
| "normalize_step ParentDir result = path_pop result"
| "normalize_step RootDir result = [RootDir]"
| "normalize_step (Normal name) result = result @ [Normal name]"

definition lexical_normalize :: "path_component list \<Rightarrow> path_component list" where
  "lexical_normalize cs = fold normalize_step cs []"

function physical_path_loop ::
    "(rstr \<Rightarrow> rstr option) \<Rightarrow> rstr \<Rightarrow> rstr \<Rightarrow> rstr list \<Rightarrow> path_component list" where
  "physical_path_loop canonicalize path ancestor missing =
     (case canonicalize ancestor of
        Some resolved \<Rightarrow> lexical_normalize (components resolved @ map Normal (rev missing))
      | None \<Rightarrow>
          (case path_parent ancestor of
             None \<Rightarrow> lexical_normalize (components path)
           | Some parent \<Rightarrow>
               (case path_file_name ancestor of
                  None \<Rightarrow> lexical_normalize (components path)
                | Some file_name \<Rightarrow>
                    physical_path_loop canonicalize path parent (missing @ [file_name]))))"
  by pat_completeness auto
termination
  by (relation "measure (\<lambda>(_, _, ancestor, _). length ancestor)") (auto dest: path_parent_shorter)

declare physical_path_loop.simps [simp del]

definition physical_path_key :: "(rstr \<Rightarrow> rstr option) \<Rightarrow> rstr \<Rightarrow> path_component list" where
  "physical_path_key canonicalize path = physical_path_loop canonicalize path path []"

section \<open>Replacements and conflicts\<close>

fun hunk_path :: "'z hunk \<Rightarrow> rstr" where
  "hunk_path (AddFile path _) = path"
| "hunk_path (DeleteFile path) = path"
| "hunk_path (UpdateFile path _ _) = path"

fun hunk_paths :: "'z hunk \<Rightarrow> rstr list" where
  "hunk_paths (AddFile path _) = [path]"
| "hunk_paths (DeleteFile path) = [path]"
| "hunk_paths (UpdateFile path move_path _) = path # (case move_path of None \<Rightarrow> [] | Some m \<Rightarrow> [m])"

fun is_replacement :: "'z hunk \<Rightarrow> 'z hunk \<Rightarrow> bool" where
  "is_replacement (DeleteFile deleted) (AddFile added _) =
     (lexical_normalize (components deleted) = lexical_normalize (components added))"
| "is_replacement _ _ = False"

text \<open>The maps and sets of indices are lists.\<close>

definition replacement_pairs :: "'z hunk list \<Rightarrow> (nat \<times> nat) list" where
  "replacement_pairs hunks =
     map (\<lambda>i. (i, Suc i)) (filter (\<lambda>i. is_replacement (hunks ! i) (hunks ! Suc i)) [0..<length hunks - 1])"

type_synonym owner = "path_component list \<times> nat"

definition paths_overlap :: "path_component list \<Rightarrow> path_component list \<Rightarrow> bool" where
  "paths_overlap p q \<longleftrightarrow> starts_with p q \<or> starts_with q p"

definition claim_path :: "(nat \<times> nat) list \<Rightarrow> owner \<Rightarrow> owner list \<times> nat list \<Rightarrow> owner list \<times> nat list" where
  "claim_path replacements new acc =
     (let (resolved, index) = new; (owners, conflicts) = acc
      in (owners @ [new],
          conflicts @
          concat (map (\<lambda>(existing, previous).
            if previous \<noteq> index \<and> map_of replacements previous \<noteq> Some index \<and> paths_overlap resolved existing
            then [previous, index] else []) owners)))"

definition hunk_claims :: "(rstr \<Rightarrow> path_component list) \<Rightarrow> nat \<times> 'z hunk \<Rightarrow> owner list" where
  "hunk_claims key ih = map (\<lambda>path. (key path, fst ih)) (hunk_paths (snd ih))"

definition conflicting_hunks :: "(rstr \<Rightarrow> path_component list) \<Rightarrow> 'z hunk list \<Rightarrow> (nat \<times> nat) list \<Rightarrow> nat list" where
  "conflicting_hunks key hunks replacements =
     snd (fold (\<lambda>ih acc. fold (claim_path replacements) (hunk_claims key ih) acc) (enumerate 0 hunks) ([], []))"

section \<open>Rewritten paths\<close>

definition is_file_header :: "rstr \<Rightarrow> bool" where
  "is_file_header line \<longleftrightarrow>
     (\<exists>p \<in> set [ADD_FILE_PREFIX, UPDATE_FILE_PREFIX, DELETE_FILE_PREFIX, MOVE_TO_PREFIX]. starts_with line p)"

definition has_absolute_path :: "rstr \<Rightarrow> bool" where
  "has_absolute_path line \<longleftrightarrow>
     (\<exists>p \<in> set [ADD_FILE_PREFIX, UPDATE_FILE_PREFIX, DELETE_FILE_PREFIX, MOVE_TO_PREFIX].
        \<exists>path. line = p @ path \<and> is_absolute path)"

lemmas patch_prefixes =
  ADD_FILE_PREFIX_def UPDATE_FILE_PREFIX_def DELETE_FILE_PREFIX_def MOVE_TO_PREFIX_def

lemma resolve_absolute: "is_absolute workdir \<Longrightarrow> is_absolute (resolve_patch_path path workdir)"
  by (simp add: resolve_patch_path_def path_join_absolute)

lemma has_absolute_pathI:
  "p \<in> {ADD_FILE_PREFIX, UPDATE_FILE_PREFIX, DELETE_FILE_PREFIX, MOVE_TO_PREFIX} \<Longrightarrow> is_absolute path
    \<Longrightarrow> has_absolute_path (p @ path)"
  unfolding has_absolute_path_def by (metis list.set(1) list.set(2))

lemma strip_prefix_None: "strip_prefix p s = None \<longleftrightarrow> \<not> starts_with s p"
  by (simp add: strip_prefix_def)

lemma rewrite_line_other: "\<not> is_file_header line \<Longrightarrow> rewrite_line workdir line = line"
  by (simp add: rewrite_line_def is_file_header_def strip_prefix_def)

lemma rewrite_line_header:
  assumes "is_absolute workdir" "is_file_header line"
  shows "has_absolute_path (rewrite_line workdir line)"
proof -
  have "strip_prefix ADD_FILE_PREFIX line \<noteq> None \<or> strip_prefix UPDATE_FILE_PREFIX line \<noteq> None \<or>
    strip_prefix DELETE_FILE_PREFIX line \<noteq> None \<or> strip_prefix MOVE_TO_PREFIX line \<noteq> None"
    using assms(2) by (auto simp: is_file_header_def strip_prefix_None)
  then show ?thesis
    unfolding rewrite_line_def
    by (auto split: option.split intro!: has_absolute_pathI resolve_absolute assms(1))
qed

lemma patch_prefixes_distinct:
  "\<not> starts_with (UPDATE_FILE_PREFIX @ x) ADD_FILE_PREFIX" "\<not> starts_with (DELETE_FILE_PREFIX @ x) ADD_FILE_PREFIX"
  "\<not> starts_with (MOVE_TO_PREFIX @ x) ADD_FILE_PREFIX" "\<not> starts_with (DELETE_FILE_PREFIX @ x) UPDATE_FILE_PREFIX"
  "\<not> starts_with (MOVE_TO_PREFIX @ x) UPDATE_FILE_PREFIX" "\<not> starts_with (MOVE_TO_PREFIX @ x) DELETE_FILE_PREFIX"
  by (simp_all add: patch_prefixes)

lemma rewrite_line_keeps:
  assumes "has_absolute_path line"
  shows "rewrite_line workdir line = line"
proof -
  obtain p path where p: "p \<in> set [ADD_FILE_PREFIX, UPDATE_FILE_PREFIX, DELETE_FILE_PREFIX, MOVE_TO_PREFIX]"
    and l: "line = p @ path" and a: "is_absolute path"
    using assms unfolding has_absolute_path_def by blast
  from a have r: "resolve_patch_path path workdir = path" by (simp add: resolve_patch_path_def)
  from p consider "p = ADD_FILE_PREFIX" | "p = UPDATE_FILE_PREFIX" | "p = DELETE_FILE_PREFIX" | "p = MOVE_TO_PREFIX"
    by auto
  then show ?thesis
    by cases (simp_all add: l r rewrite_line_def patch_prefixes_distinct strip_prefix_None [THEN iffD2])
qed

lemma rewrite_line_idem: "is_absolute workdir \<Longrightarrow> rewrite_line w (rewrite_line workdir line) = rewrite_line workdir line"
  by (cases "is_file_header line")
    (simp_all add: rewrite_line_keeps rewrite_line_header rewrite_line_other)

text \<open>A line without newline characters comes back from the printed text.\<close>

definition clean_line :: "rstr \<Rightarrow> bool" where
  "clean_line l \<longleftrightarrow> nl \<notin> set l \<and> (l = [] \<or> last l \<noteq> cr)"

lemma split_inclusive_line: "nl \<notin> set l \<Longrightarrow> split_inclusive nl (l @ nl # r) = (l @ [nl]) # split_inclusive nl r"
  by (induction l) auto

lemma strip_line_ending_clean: "clean_line l \<Longrightarrow> strip_line_ending (l @ [nl]) = l"
proof (cases "strip_suffix [cr] l")
  case (Some l')
  then have "l = l' @ [cr]" by (simp add: strip_suffix_Some)
  moreover assume "clean_line l"
  ultimately show ?thesis by (simp add: clean_line_def)
qed (simp add: strip_line_ending_def)

lemma str_lines_concat:
  "(\<And>l. l \<in> set ls \<Longrightarrow> clean_line l) \<Longrightarrow> str_lines (concat (map (\<lambda>l. l @ [nl]) ls)) = ls"
proof (induction ls)
  case Nil
  then show ?case by (simp add: str_lines_def)
next
  case (Cons l ls)
  then have "nl \<notin> set l" by (simp add: clean_line_def)
  then have "split_inclusive nl ((l @ [nl]) @ concat (map (\<lambda>l. l @ [nl]) ls)) =
      (l @ [nl]) # split_inclusive nl (concat (map (\<lambda>l. l @ [nl]) ls))"
    by (simp add: split_inclusive_line)
  with Cons show ?case by (simp add: str_lines_def strip_line_ending_clean)
qed

section \<open>Conflicts\<close>

definition hunks_overlap :: "(rstr \<Rightarrow> path_component list) \<Rightarrow> 'z hunk \<Rightarrow> 'z hunk \<Rightarrow> bool" where
  "hunks_overlap key h h' \<longleftrightarrow>
     (\<exists>p \<in> set (hunk_paths h). \<exists>q \<in> set (hunk_paths h'). paths_overlap (key p) (key q))"

lemma paths_overlap_sym: "paths_overlap p q \<longleftrightarrow> paths_overlap q p"
  by (auto simp: paths_overlap_def)

lemma hunks_overlap_sym: "hunks_overlap key h h' \<longleftrightarrow> hunks_overlap key h' h"
  unfolding hunks_overlap_def using paths_overlap_sym by blast

definition claims_clash :: "(nat \<times> nat) list \<Rightarrow> owner \<Rightarrow> owner \<Rightarrow> bool" where
  "claims_clash r a b \<longleftrightarrow>
     snd a \<noteq> snd b \<and> map_of r (snd a) \<noteq> Some (snd b) \<and> paths_overlap (fst b) (fst a)"

lemma claim_path_eq:
  "claim_path r b (os, cs) =
     (os @ [b], cs @ concat (map (\<lambda>a. if claims_clash r a b then [snd a, snd b] else []) os))"
  by (cases b) (auto simp: claim_path_def claims_clash_def Let_def intro!: arg_cong [where f = concat])

lemma fold_claim_path:
  "i \<in> set (snd (fold (claim_path r) es (os, cs))) \<longleftrightarrow>
     i \<in> set cs \<or>
     (\<exists>k<length es. \<exists>a \<in> set (os @ take k es). claims_clash r a (es ! k) \<and> i \<in> {snd a, snd (es ! k)})"
proof (induction es arbitrary: os cs)
  case (Cons e es)
  have now: "i \<in> set (concat (map (\<lambda>a. if claims_clash r a e then [snd a, snd e] else []) os)) \<longleftrightarrow>
      (\<exists>a \<in> set os. claims_clash r a e \<and> i \<in> {snd a, snd e})"
    by (auto split: if_splits)
  have split: "(\<exists>k<length (e # es). P k) \<longleftrightarrow> P 0 \<or> (\<exists>k<length es. P (Suc k))" for P
    by (auto simp: less_Suc_eq_0_disj)
  have "i \<in> set (snd (fold (claim_path r) (e # es) (os, cs))) \<longleftrightarrow>
      (i \<in> set cs \<or> (\<exists>a \<in> set os. claims_clash r a e \<and> i \<in> {snd a, snd e})) \<or>
      (\<exists>k<length es. \<exists>a \<in> set ((os @ [e]) @ take k es). claims_clash r a (es ! k) \<and> i \<in> {snd a, snd (es ! k)})"
    unfolding fold_Cons comp_def claim_path_eq Cons.IH set_append Un_iff now by blast
  then show ?case unfolding split by simp
qed simp

lemma fold_nested: "fold (\<lambda>x. fold g (c x)) xs a = fold g (concat (map c xs)) a"
  by (induction xs arbitrary: a) simp_all

definition all_claims :: "(rstr \<Rightarrow> path_component list) \<Rightarrow> nat \<Rightarrow> 'z hunk list \<Rightarrow> owner list" where
  "all_claims key n hunks = concat (map (hunk_claims key) (enumerate n hunks))"

lemma all_claims_Cons:
  "all_claims key n (h # hs) = map (\<lambda>p. (key p, n)) (hunk_paths h) @ all_claims key (Suc n) hs"
  by (simp add: all_claims_def hunk_claims_def)

lemma all_claims_iff:
  "(k, i) \<in> set (all_claims key n hunks) \<longleftrightarrow>
     n \<le> i \<and> i < n + length hunks \<and> (\<exists>p \<in> set (hunk_paths (hunks ! (i - n))). k = key p)"
proof (induction hunks arbitrary: n)
  case (Cons h hs)
  have "(k, i) \<in> set (all_claims key n (h # hs)) \<longleftrightarrow>
      (i = n \<and> (\<exists>p \<in> set (hunk_paths h). k = key p)) \<or> (k, i) \<in> set (all_claims key (Suc n) hs)"
    by (auto simp: all_claims_Cons)
  also have "(k, i) \<in> set (all_claims key (Suc n) hs) \<longleftrightarrow>
      Suc n \<le> i \<and> i < Suc n + length hs \<and> (\<exists>p \<in> set (hunk_paths (hs ! (i - Suc n))). k = key p)"
    by (rule Cons.IH)
  finally show ?case by (cases "i = n") (auto simp: nth_Cons' Suc_diff_Suc Suc_le_eq)
qed (simp add: all_claims_def)

lemma all_claims_sorted: "sorted (map snd (all_claims key n hunks))"
proof (induction hunks arbitrary: n)
  case (Cons h hs)
  have "sorted (map (\<lambda>_. n) xs)" for xs :: "rstr list" by (induction xs) auto
  with Cons show ?case by (auto simp: all_claims_Cons sorted_append all_claims_iff comp_def)
qed (simp add: all_claims_def)

lemma sorted_before:
  assumes "sorted (map snd es)" "a \<in> set es" "k < length es" "snd a < snd (es ! k)"
  shows "a \<in> set (take k es)"
proof -
  obtain m where m: "m < length es" "a = es ! m" using assms(2) by (metis in_set_conv_nth)
  have "m < k"
  proof (rule ccontr)
    assume "\<not> m < k"
    then have "map snd es ! k \<le> map snd es ! m" using assms(1) m(1) by (intro sorted_nth_mono) auto
    with assms(3,4) m show False by simp
  qed
  with m show ?thesis by (auto simp: in_set_conv_nth)
qed

lemma sorted_after:
  assumes "sorted (map snd es)" "a \<in> set (take k es)" "k < length es"
  shows "snd a \<le> snd (es ! k)"
proof -
  obtain m where m: "m < k" "a = es ! m" using assms(2,3) by (auto simp: in_set_conv_nth)
  then show ?thesis using sorted_nth_mono [OF assms(1), of m k] assms(3) by simp
qed

lemma conflicts_via_claims:
  "i \<in> set (conflicting_hunks key hunks r) \<longleftrightarrow>
     (\<exists>a \<in> set (all_claims key 0 hunks). \<exists>b \<in> set (all_claims key 0 hunks).
        snd a < snd b \<and> claims_clash r a b \<and> i \<in> {snd a, snd b})"
proof -
  let ?es = "all_claims key 0 hunks"
  note sorted = all_claims_sorted [of key 0 hunks]
  have "conflicting_hunks key hunks r = snd (fold (claim_path r) ?es ([], []))"
    by (simp add: conflicting_hunks_def all_claims_def fold_nested)
  then have "i \<in> set (conflicting_hunks key hunks r) \<longleftrightarrow>
      (\<exists>k<length ?es. \<exists>a \<in> set (take k ?es). claims_clash r a (?es ! k) \<and> i \<in> {snd a, snd (?es ! k)})"
    by (simp add: fold_claim_path)
  also have "\<dots> \<longleftrightarrow> (\<exists>k<length ?es. \<exists>a \<in> set ?es.
      snd a < snd (?es ! k) \<and> claims_clash r a (?es ! k) \<and> i \<in> {snd a, snd (?es ! k)})"
    using sorted_before [OF sorted] sorted_after [OF sorted] in_set_takeD
    by (metis claims_clash_def le_neq_implies_less)
  also have "\<dots> \<longleftrightarrow> (\<exists>a \<in> set ?es. \<exists>b \<in> set ?es.
      snd a < snd b \<and> claims_clash r a b \<and> i \<in> {snd a, snd b})"
    by (metis in_set_conv_nth)
  finally show ?thesis .
qed

text \<open>An operation conflicts exactly when it overlaps another one that it does not form a replacement with.\<close>

lemma conflicting_hunks_iff:
  "i \<in> set (conflicting_hunks key hunks r) \<longleftrightarrow>
     i < length hunks \<and>
     (\<exists>j<length hunks. j \<noteq> i \<and> hunks_overlap key (hunks ! i) (hunks ! j) \<and>
        map_of r (min i j) \<noteq> Some (max i j))" (is "?L = ?R")
proof
  assume ?L
  then obtain k a l b where ab: "(k, a) \<in> set (all_claims key 0 hunks)" "(l, b) \<in> set (all_claims key 0 hunks)"
    "a < b" "claims_clash r (k, a) (l, b)" "i = a \<or> i = b"
    unfolding conflicts_via_claims by auto
  then have len: "a < length hunks" "b < length hunks" by (auto simp: all_claims_iff)
  have over: "hunks_overlap key (hunks ! a) (hunks ! b)"
    using ab unfolding hunks_overlap_def all_claims_iff claims_clash_def
    by (auto simp: paths_overlap_sym)
  have "map_of r a \<noteq> Some b" using ab(4) by (simp add: claims_clash_def)
  with ab(3,5) len over show ?R
    by (metis hunks_overlap_sym less_imp_neq max.absorb3 max.absorb4 min.absorb3 min.absorb4)
next
  assume ?R
  then obtain j where j: "i < length hunks" "j < length hunks" "j \<noteq> i"
    "hunks_overlap key (hunks ! i) (hunks ! j)" "map_of r (min i j) \<noteq> Some (max i j)" by blast
  define a b where "a = min i j" and "b = max i j"
  have ab: "a < b" "b < length hunks" "a < length hunks" "map_of r a \<noteq> Some b" "i = a \<or> i = b"
    using j by (auto simp: a_def b_def)
  have "hunks_overlap key (hunks ! a) (hunks ! b)"
    using j(4) by (auto simp: a_def b_def min_def max_def hunks_overlap_sym)
  then obtain p q where "p \<in> set (hunk_paths (hunks ! a))" "q \<in> set (hunk_paths (hunks ! b))"
    "paths_overlap (key p) (key q)" by (auto simp: hunks_overlap_def)
  with ab have "(key p, a) \<in> set (all_claims key 0 hunks)" "(key q, b) \<in> set (all_claims key 0 hunks)"
    "claims_clash r (key p, a) (key q, b)"
    by (auto simp: all_claims_iff claims_clash_def paths_overlap_sym)
  with ab show ?L unfolding conflicts_via_claims by force
qed

text \<open>Replacements.\<close>

lemma replacement_pairs_iff:
  "(i, j) \<in> set (replacement_pairs hunks) \<longleftrightarrow>
     j = Suc i \<and> Suc i < length hunks \<and> is_replacement (hunks ! i) (hunks ! Suc i)"
  by (auto simp: replacement_pairs_def)

lemma replacement_pairs_map_of:
  "map_of (replacement_pairs hunks) i = Some j \<longleftrightarrow> (i, j) \<in> set (replacement_pairs hunks)"
  by (rule map_of_eq_Some_iff) (simp add: replacement_pairs_def comp_def)

lemma is_replacementD:
  "is_replacement h h' \<Longrightarrow> \<exists>p q c. h = DeleteFile p \<and> h' = AddFile q c"
  by (cases h; cases h') auto

end
