(* ===== verification/Patch_Recovery.thy ===== *)
theory Patch_Recovery
  imports Patch_Paths "HOL-Library.Multiset" "HOL-Library.Product_Lexorder"
begin

text \<open>
  Two special ways of applying an operation of a patch: reordering the chunks of an update whose
  regions the file identifies uniquely (\<^verbatim>\<open>src/apply_patch/recovery.rs\<close>), and the atomic replacement
  of a regular file (\<^verbatim>\<open>src/apply_patch/replacement.rs\<close>).
\<close>

section \<open>Locating chunks\<close>

definition MAX_RECOVERY_FILE_BYTES :: nat where
  "MAX_RECOVERY_FILE_BYTES = 8 * 1024 * 1024"

definition line_equals :: "rstr \<Rightarrow> rstr \<Rightarrow> bool" where
  "line_equals left right \<longleftrightarrow> left = right"

definition trailing_space_equals :: "rstr \<Rightarrow> rstr \<Rightarrow> bool" where
  "trailing_space_equals left right \<longleftrightarrow> trim_end left = trim_end right"

definition surrounding_space_equals :: "rstr \<Rightarrow> rstr \<Rightarrow> bool" where
  "surrounding_space_equals left right \<longleftrightarrow> trim left = trim right"

definition matches_at :: "(rstr \<Rightarrow> rstr \<Rightarrow> bool) \<Rightarrow> rstr list \<Rightarrow> rstr list \<Rightarrow> nat \<Rightarrow> bool" where
  "matches_at matcher lines old start \<longleftrightarrow>
     list_all (\<lambda>(left, right). matcher left right) (zip (take (length old) (drop start lines)) old)"

text \<open>The inner loop: the outer \<^const>\<open>None\<close> is the early return for an ambiguous match.\<close>

fun locate_scan :: "(nat \<Rightarrow> bool) \<Rightarrow> nat list \<Rightarrow> nat option \<Rightarrow> nat option option" where
  "locate_scan is_match [] found = Some found"
| "locate_scan is_match (start # starts) found =
     (if is_match start then (if found \<noteq> None then None else locate_scan is_match starts (Some start))
      else locate_scan is_match starts found)"

fun locate_with :: "(rstr \<Rightarrow> rstr \<Rightarrow> bool) list \<Rightarrow> rstr list \<Rightarrow> rstr list \<Rightarrow> nat option" where
  "locate_with [] lines old = None"
| "locate_with (matcher # matchers) lines old =
     (case locate_scan (matches_at matcher lines old) [0..<Suc (length lines - length old)] None of
        None \<Rightarrow> None
      | Some (Some found) \<Rightarrow> Some found
      | Some None \<Rightarrow> locate_with matchers lines old)"

definition matchers :: "(rstr \<Rightarrow> rstr \<Rightarrow> bool) list" where
  "matchers = [line_equals, trailing_space_equals, surrounding_space_equals]"

definition locate :: "rstr list \<Rightarrow> rstr list \<Rightarrow> nat option" where
  "locate lines old =
     (if old = [] \<or> length lines < length old then None else locate_with matchers lines old)"

definition unique_start :: "rstr list \<Rightarrow> 'z update_file_chunk_scheme \<Rightarrow> (nat \<times> nat) option" where
  "unique_start lines chunk =
     (let old = uc_old_lines chunk in
      if old = [] \<or> list_all (\<lambda>l. l = []) old then None
      else (case locate lines old of
              Some index \<Rightarrow> Some (index, length old)
            | None \<Rightarrow>
                if 1 < length old \<and> last old = []
                then map_option (\<lambda>index. (index, length old - 1)) (locate lines (take (length old - 1) old))
                else None))"

fun locate_chunks :: "rstr list \<Rightarrow> (nat \<times> 'z update_file_chunk_scheme) list \<Rightarrow> (nat \<times> nat \<times> nat) list option" where
  "locate_chunks lines [] = Some []"
| "locate_chunks lines ((index, chunk) # rest) =
     (if uc_change_context chunk \<noteq> None \<or> uc_is_end_of_file chunk then None
      else (case unique_start lines chunk of
              None \<Rightarrow> None
            | Some (start, len) \<Rightarrow>
                map_option (\<lambda>located. (start, start + len, index) # located) (locate_chunks lines rest)))"

definition spans_overlap :: "(nat \<times> nat \<times> nat) list \<Rightarrow> bool" where
  "spans_overlap located \<longleftrightarrow> list_ex (\<lambda>((_, stop, _), (start, _, _)). start < stop) (zip located (tl located))"

definition in_patch_order :: "(nat \<times> nat \<times> nat) list \<Rightarrow> bool" where
  "in_patch_order located \<longleftrightarrow> list_all (\<lambda>(position, (_, _, index)). position = index) (enumerate 0 located)"

text \<open>\<open>metadata_len\<close> and \<open>read_to_string\<close> are the answers of the file system (\<^const>\<open>None\<close> an error).\<close>

definition file_lines :: "rstr \<Rightarrow> rstr list" where
  "file_lines contents =
     map (\<lambda>line. case strip_suffix [cr] line of None \<Rightarrow> line | Some l \<Rightarrow> l) (str_lines contents)"

definition reorder_unique_nonoverlapping_hunks ::
    "(rstr \<Rightarrow> nat option) \<Rightarrow> (rstr \<Rightarrow> rstr option) \<Rightarrow> 'z hunk \<Rightarrow> 'z hunk option" where
  "reorder_unique_nonoverlapping_hunks metadata_len read_to_string hunk =
     (case hunk of
        UpdateFile path move_path chunks \<Rightarrow>
          if length chunks < 2 then None
          else (case metadata_len path of
            None \<Rightarrow> None
          | Some len \<Rightarrow>
              if MAX_RECOVERY_FILE_BYTES < len then None
              else (case read_to_string path of
                None \<Rightarrow> None
              | Some contents \<Rightarrow>
                  (case locate_chunks (file_lines contents) (enumerate 0 chunks) of
                    None \<Rightarrow> None
                  | Some found \<Rightarrow>
                      let located = sort found in
                      if spans_overlap located then None
                      else if in_patch_order located then None
                      else Some (UpdateFile path move_path
                             (map (\<lambda>(_, _, index). chunks ! index) located)))))
      | _ \<Rightarrow> None)"

section \<open>Replacing a regular file\<close>

text \<open>The outcomes of the system calls of one replacement: an error text, or success.  A failing
  write has stored some of the bytes.  A \<^verbatim>\<open>NamedTempFile\<close> that is not persisted is deleted.\<close>

record replace_io =
  ri_missing :: rstr
  ri_stat :: "rstr option"
  ri_open_write :: "rstr option"
  ri_temp :: "rstr \<Rightarrow> rstr res"
  ri_write :: "(nat \<times> rstr) option"
  ri_chmod :: "rstr option"
  ri_sync :: "rstr option"
  ri_persist :: "rstr option"

definition symlink_metadata :: "replace_io \<Rightarrow> file_store \<Rightarrow> rstr \<Rightarrow> file_entry res" where
  "symlink_metadata io st path =
     (case st path of
        None \<Rightarrow> Inl (ri_missing io)
      | Some entry \<Rightarrow> (case ri_stat io of Some e \<Rightarrow> Inl e | None \<Rightarrow> Inr entry))"

text \<open>\<^verbatim>\<open>Permissions::readonly\<close>: no write bit of the mode is set.\<close>

definition readonly :: "nat \<Rightarrow> bool" where
  "readonly mode \<longleftrightarrow> even (mode div 128) \<and> even (mode div 16) \<and> even (mode div 2)"

text \<open>The result comes with the successive states of the file store.\<close>

definition stage_and_persist ::
    "replace_io \<Rightarrow> rstr \<Rightarrow> rstr \<Rightarrow> file_entry \<Rightarrow> rstr \<Rightarrow> file_store \<Rightarrow> unit res \<times> file_store list" where
  "stage_and_persist io path contents metadata tmp st =
     (let created = st(tmp \<mapsto> \<lparr>fe_kind = RegularFile, fe_bytes = [], fe_mode = 384\<rparr>);
          dropped = st(tmp := None)
      in case ri_write io of
           Some (n, e) \<Rightarrow>
             (Inl (''Cannot write replacement for '' @ path @ '': '' @ e),
              [st, created, st(tmp \<mapsto> \<lparr>fe_kind = RegularFile, fe_bytes = take n contents, fe_mode = 384\<rparr>), dropped])
         | None \<Rightarrow>
             (let written = st(tmp \<mapsto> \<lparr>fe_kind = RegularFile, fe_bytes = contents, fe_mode = 384\<rparr>)
              in case ri_chmod io of
                   Some e \<Rightarrow>
                     (Inl (''Cannot preserve permissions on '' @ path @ '': '' @ e), [st, created, written, dropped])
                 | None \<Rightarrow>
                     (let staged = \<lparr>fe_kind = RegularFile, fe_bytes = contents, fe_mode = fe_mode metadata\<rparr>;
                          ready = st(tmp \<mapsto> staged)
                      in case ri_sync io of
                           Some e \<Rightarrow>
                             (Inl (''Cannot flush replacement for '' @ path @ '': '' @ e),
                              [st, created, written, ready, dropped])
                         | None \<Rightarrow>
                             (case ri_persist io of
                                Some e \<Rightarrow>
                                  (Inl (''Cannot install replacement for '' @ path @ '': '' @ e),
                                   [st, created, written, ready, dropped])
                              | None \<Rightarrow>
                                  (Inr (), [st, created, written, ready, dropped(path \<mapsto> staged)])))))"

definition replace_regular_file ::
    "replace_io \<Rightarrow> rstr \<Rightarrow> rstr \<Rightarrow> file_store \<Rightarrow> unit res \<times> file_store list" where
  "replace_regular_file io path contents st =
     (case symlink_metadata io st path of
        Inl e \<Rightarrow> (Inl (''Cannot replace '' @ path @ '': original file is missing or inaccessible: '' @ e), [st])
      | Inr metadata \<Rightarrow>
          if fe_kind metadata \<noteq> RegularFile then
            (Inl (''Cannot replace '' @ path @
               '': only existing regular files are supported (not directories or symlinks)''), [st])
          else if readonly (fe_mode metadata) then
            (Inl (''Cannot replace '' @ path @ '': original file is read-only''), [st])
          else (case ri_open_write io of
            Some e \<Rightarrow> (Inl (''Cannot replace '' @ path @ '': no write access to original file: '' @ e), [st])
          | None \<Rightarrow>
              (case path_parent path of
                 None \<Rightarrow> (Inl ''Replacement file has no parent directory'', [st])
               | Some parent \<Rightarrow>
                   (case ri_temp io parent of
                      Inl e \<Rightarrow> (Inl (''Cannot stage replacement next to '' @ path @ '': '' @ e), [st])
                    | Inr tmp \<Rightarrow> stage_and_persist io path contents metadata tmp st))))"

section \<open>Unique locations\<close>

text \<open>The lines \<open>old\<close> occur in the file at one place only, compared by one of the three matchers.\<close>

definition occurs_once :: "rstr list \<Rightarrow> rstr list \<Rightarrow> nat \<Rightarrow> bool" where
  "occurs_once lines old start \<longleftrightarrow>
     (\<exists>m \<in> set matchers. \<forall>s. s + length old \<le> length lines \<and> matches_at m lines old s \<longleftrightarrow> s = start)"

definition chunk_span :: "rstr list \<Rightarrow> 'z update_file_chunk_scheme \<Rightarrow> nat \<Rightarrow> nat \<Rightarrow> bool" where
  "chunk_span lines chunk start stop \<longleftrightarrow>
     uc_change_context chunk = None \<and> \<not> uc_is_end_of_file chunk \<and>
     (\<exists>old. (uc_old_lines chunk = old \<or> uc_old_lines chunk = old @ [[]]) \<and> old \<noteq> [] \<and>
        stop = start + length old \<and> occurs_once lines old start)"

lemma locate_scan_Some:
  assumes "locate_scan P xs found = Some r" "distinct xs"
  shows "case found of
      None \<Rightarrow> (case r of None \<Rightarrow> \<forall>s \<in> set xs. \<not> P s | Some i \<Rightarrow> \<forall>s. s \<in> set xs \<and> P s \<longleftrightarrow> s = i)
    | Some i \<Rightarrow> r = Some i \<and> (\<forall>s \<in> set xs. \<not> P s)"
  using assms
proof (induction P xs found rule: locate_scan.induct)
  case (2 P x xs found)
  show ?case
  proof (cases "P x")
    case True
    with "2.prems" have f: "found = None" "locate_scan P xs (Some x) = Some r" by (auto split: if_splits)
    with "2.IH"(1) True "2.prems"(2) have "r = Some x" "\<forall>s \<in> set xs. \<not> P s" by auto
    with f True show ?thesis by auto
  next
    case False
    with 2 show ?thesis by (auto split: option.splits)
  qed
qed (simp split: option.split)

lemma locate_with_once:
  assumes "locate_with ms lines old = Some i" "set ms \<subseteq> set matchers" "length old \<le> length lines"
  shows "occurs_once lines old i"
  using assms
proof (induction ms lines old rule: locate_with.induct)
  case (2 m ms lines old)
  let ?starts = "[0..<Suc (length lines - length old)]"
  have starts: "s \<in> set ?starts \<longleftrightarrow> s + length old \<le> length lines" for s
    using "2.prems"(3) by auto
  from "2.prems"(1) obtain r where r: "locate_scan (matches_at m lines old) ?starts None = Some r"
    by (auto split: option.splits)
  from locate_scan_Some [OF r] have spec: "case r of None \<Rightarrow> True
      | Some i \<Rightarrow> \<forall>s. s + length old \<le> length lines \<and> matches_at m lines old s \<longleftrightarrow> s = i"
    unfolding starts [symmetric] by (auto split: option.splits)
  show ?case
  proof (cases r)
    case None
    with r 2 show ?thesis by (auto split: option.splits)
  next
    case (Some j)
    with r "2.prems"(1) have "j = i" by simp
    with Some spec "2.prems"(2) show ?thesis unfolding occurs_once_def by auto
  qed
qed simp

lemma locate_once: "locate lines old = Some i \<Longrightarrow> old \<noteq> [] \<and> occurs_once lines old i"
  by (auto simp: locate_def split: if_splits intro!: locate_with_once)

lemma unique_start_span:
  assumes "unique_start lines chunk = Some (start, len)"
    "uc_change_context chunk = None" "\<not> uc_is_end_of_file chunk"
  shows "chunk_span lines chunk start (start + len)"
proof -
  let ?old = "uc_old_lines chunk"
  have ne: "?old \<noteq> []" using assms(1) by (auto simp: unique_start_def Let_def split: if_splits)
  show ?thesis
  proof (cases "locate lines ?old")
    case (Some i)
    with assms(1) have "start = i" "len = length ?old"
      by (auto simp: unique_start_def Let_def split: if_splits)
    with locate_once [OF Some] assms(2,3) show ?thesis by (auto simp: chunk_span_def)
  next
    case None
    with assms(1) have last: "last ?old = []" and l: "len = length ?old - 1"
      and at: "locate lines (take (length ?old - 1) ?old) = Some start"
      by (auto simp: unique_start_def Let_def split: if_splits)
    have "?old = take (length ?old - 1) ?old @ [[]]"
      using ne last by (metis append_butlast_last_id butlast_conv_take)
    with locate_once [OF at] assms(2,3) l show ?thesis
      by (auto simp: chunk_span_def intro!: exI [of _ "take (length ?old - 1) ?old"])
  qed
qed

lemma chunk_span_nonempty: "chunk_span lines c a b \<Longrightarrow> a < b"
  by (auto simp: chunk_span_def)

section \<open>The reordered chunks\<close>

lemma locate_chunks_spec:
  assumes "locate_chunks lines ics = Some located"
  shows "map (\<lambda>(_, _, i). i) located = map fst ics \<and>
    list_all2 (\<lambda>(i, c) (a, b, _). chunk_span lines c a b \<and> map_option (\<lambda>(s, l). (s, s + l)) (unique_start lines c) = Some (a, b))
      ics located"
  using assms
proof (induction lines ics arbitrary: located rule: locate_chunks.induct)
  case (2 lines index chunk rest)
  from "2.prems" obtain start len located' where *: "unique_start lines chunk = Some (start, len)"
    "uc_change_context chunk = None" "\<not> uc_is_end_of_file chunk"
    "locate_chunks lines rest = Some located'" "located = (start, start + len, index) # located'"
    by (auto split: if_splits option.splits)
  with "2.IH" [OF _ _ _ *(4)] show ?case by (auto intro: unique_start_span)
qed simp

definition span_before :: "nat \<times> nat \<times> nat \<Rightarrow> nat \<times> nat \<times> nat \<Rightarrow> bool" where
  "span_before s t \<longleftrightarrow> fst (snd s) \<le> fst t"

lemma adjacent_disjoint:
  assumes "\<not> spans_overlap located" "\<And>s. s \<in> set located \<Longrightarrow> fst s < fst (snd s)"
  shows "sorted_wrt span_before located"
  using assms
proof (induction located)
  case (Cons x xs)
  show ?case
  proof (cases xs)
    case xs: (Cons y ys)
    have adj: "span_before x y" and rest: "\<not> spans_overlap xs"
      using Cons.prems(1) by (auto simp: xs spans_overlap_def span_before_def split: prod.splits)
    have ind: "sorted_wrt span_before xs"
      using Cons.IH [OF rest] Cons.prems(2) by (meson list.set_intros(2))
    have "fst y < fst (snd y)" using Cons.prems(2) xs by auto
    then have "span_before x z" if "z \<in> set xs" for z
      using that ind adj by (auto simp: xs span_before_def)
    with ind show ?thesis by simp
  qed simp
qed simp

lemma sort_nth_mset:
  assumes "map (\<lambda>(_, _, i). i) found = [0..<length chunks]"
  shows "mset (map (\<lambda>(_, _, i). chunks ! i) (sort found)) = mset chunks"
proof -
  have "mset (map (\<lambda>(_, _, i). chunks ! i) (sort found)) = mset (map (\<lambda>(_, _, i). chunks ! i) found)"
    by simp
  also have "map (\<lambda>(_, _, i). chunks ! i) found = map (\<lambda>i. chunks ! i) (map (\<lambda>(_, _, i). i) found)"
    by (simp add: case_prod_beta comp_def)
  also have "\<dots> = chunks" unfolding assms by (rule map_nth)
  finally show ?thesis .
qed

text \<open>The location of each chunk, from its index.\<close>

lemma locate_chunks_nth:
  assumes "locate_chunks lines (enumerate 0 chunks) = Some found" "(a, b, i) \<in> set found"
  shows "i < length chunks \<and> chunk_span lines (chunks ! i) a b \<and>
    map_option (\<lambda>(s, l). (s, s + l)) (unique_start lines (chunks ! i)) = Some (a, b)"
proof -
  note spec = locate_chunks_spec [OF assms(1)]
  obtain k where k: "k < length found" "found ! k = (a, b, i)" using assms(2) by (metis in_set_conv_nth)
  have len: "length found = length chunks" using list_all2_lengthD [OF conjunct2 [OF spec]] by simp
  have "map (\<lambda>(_, _, i). i) found ! k = map fst (enumerate 0 chunks) ! k" using spec by simp
  with k len have "i = k" by (simp add: nth_enumerate_eq)
  with list_all2_nthD2 [OF conjunct2 [OF spec] k(1)] k len show ?thesis by (simp add: nth_enumerate_eq)
qed

lemma reorder_cases:
  assumes "reorder_unique_nonoverlapping_hunks ml rd hunk = Some hunk'"
  obtains path mv chunks contents found where "hunk = UpdateFile path mv chunks"
    "rd path = Some contents" "locate_chunks (file_lines contents) (enumerate 0 chunks) = Some found"
    "\<not> spans_overlap (sort found)" "\<not> in_patch_order (sort found)"
    "hunk' = UpdateFile path mv (map (\<lambda>(_, _, i). chunks ! i) (sort found))"
  using assms unfolding reorder_unique_nonoverlapping_hunks_def Let_def
  by (auto split: hunk.splits if_splits option.splits)

lemma in_patch_orderI:
  "(\<And>k. k < length xs \<Longrightarrow> snd (snd (xs ! k)) = k) \<Longrightarrow> in_patch_order xs"
  by (auto simp: in_patch_order_def list_all_length nth_enumerate_eq case_prod_beta)

text \<open>A chunk determines its location, so a reordering that gives back the same list is the identity.\<close>

lemma reordered_differs:
  assumes found: "locate_chunks lines (enumerate 0 chunks) = Some found"
    and before: "sorted_wrt span_before (sort found)"
    and same: "map (\<lambda>(_, _, i). chunks ! i) (sort found) = chunks"
  shows "in_patch_order (sort found)"
proof (rule in_patch_orderI)
  fix k assume k: "k < length (sort found)"
  define xs where "xs = sort found"
  note at = locate_chunks_nth [OF found]
  obtain a b i where x: "xs ! k = (a, b, i)" by (metis prod_cases3)
  have "(a, b, i) \<in> set found" using x k nth_mem [of k xs] by (simp add: xs_def)
  note ai = at [OF this]
  have lens: "length xs = length chunks" using arg_cong [OF same, of length] by (simp add: xs_def)
  have "k \<in> set (map (\<lambda>(_, _, i). i) found)"
    using locate_chunks_spec [OF found] k lens by (simp add: xs_def)
  then obtain c d where cd: "(c, d, k) \<in> set found" by auto
  then obtain m where m: "m < length xs" "xs ! m = (c, d, k)"
    unfolding xs_def by (metis in_set_conv_nth set_sort)
  have "chunks ! k = chunks ! i"
    using arg_cong [OF same, of "\<lambda>l. l ! k"] k x by (simp add: xs_def)
  then have eq: "(c, d) = (a, b)" using at [OF cd] ai by simp
  have "m = k"
  proof (rule ccontr)
    assume "m \<noteq> k"
    then consider "m < k" | "k < m" by linarith
    then have "d \<le> a \<or> b \<le> c"
      using sorted_wrt_nth_less [OF before] k m x by cases (force simp: span_before_def xs_def)+
    with eq chunk_span_nonempty ai show False by fastforce
  qed
  with m x show "snd (snd (sort found ! k)) = k" by (simp add: xs_def)
qed

section \<open>Properties\<close>

text \<open>
  When an update is retried with its chunks in another order, the retried update has the same
  path, the same target and exactly the chunks of the original, in a different order; every chunk
  carries no explicit anchor and its old lines (up to a final empty line) occur at exactly one place
  of the file; and these places follow one another without overlap in the new order.
\<close>

theorem recovered_update_is_unambiguous:
  assumes "reorder_unique_nonoverlapping_hunks ml rd hunk = Some hunk'"
  shows "\<exists>path mv chunks chunks' contents spans.
    hunk = UpdateFile path mv chunks \<and> hunk' = UpdateFile path mv chunks' \<and> rd path = Some contents \<and>
    mset chunks' = mset chunks \<and> chunks' \<noteq> chunks \<and>
    list_all2 (\<lambda>c (a, b, _). chunk_span (file_lines contents) c a b) chunks' spans \<and>
    sorted_wrt span_before spans"
proof -
  from assms obtain path mv chunks contents found where h: "hunk = UpdateFile path mv chunks"
    "rd path = Some contents" and found: "locate_chunks (file_lines contents) (enumerate 0 chunks) = Some found"
    and ok: "\<not> spans_overlap (sort found)" "\<not> in_patch_order (sort found)"
    and h': "hunk' = UpdateFile path mv (map (\<lambda>(_, _, i). chunks ! i) (sort found))"
    by (rule reorder_cases)
  note at = locate_chunks_nth [OF found]
  have before: "sorted_wrt span_before (sort found)"
  proof (rule adjacent_disjoint [OF ok(1)])
    fix s assume "s \<in> set (sort found)"
    moreover obtain a b i where "s = (a, b, i)" by (metis prod_cases3)
    ultimately show "fst s < fst (snd s)" using at [of a b i] by (auto dest: chunk_span_nonempty)
  qed
  have mset: "mset (map (\<lambda>(_, _, i). chunks ! i) (sort found)) = mset chunks"
    using locate_chunks_spec [OF found] by (intro sort_nth_mset) simp
  have spans: "list_all2 (\<lambda>c (a, b, _). chunk_span (file_lines contents) c a b)
      (map (\<lambda>(_, _, i). chunks ! i) (sort found)) (sort found)"
    using at by (auto simp: list.rel_map intro!: list.rel_refl_strong)
  show ?thesis using h h' mset before spans ok(2) reordered_differs [OF found before] by blast
qed

definition example_chunk :: "rstr \<Rightarrow> update_file_chunk" where
  "example_chunk l = \<lparr>uc_change_context = None, uc_old_lines = [l], uc_is_end_of_file = False\<rparr>"

definition example_update :: "unit hunk" where
  "example_update = UpdateFile ''/w/f'' None [example_chunk ''last'', example_chunk ''first'']"

lemma example_lines: "file_lines (''first'' @ [nl] @ ''mid'' @ [nl] @ ''last'' @ [nl]) = [''first'', ''mid'', ''last'']"
  by (simp add: file_lines_def str_lines_def strip_line_ending_def strip_suffix_def ends_with_def)

lemma example_located:
  "locate_chunks [''first'', ''mid'', ''last''] (enumerate 0 [example_chunk ''last'', example_chunk ''first'']) =
     Some [(2, 3, 0), (0, 1, 1)]"
  unfolding example_chunk_def by code_simp

lemma example_reorder:
  "reorder_unique_nonoverlapping_hunks (\<lambda>_. Some 15) (\<lambda>_. Some (''first'' @ [nl] @ ''mid'' @ [nl] @ ''last'' @ [nl]))
     example_update = Some (UpdateFile ''/w/f'' None [example_chunk ''first'', example_chunk ''last''])"
  unfolding reorder_unique_nonoverlapping_hunks_def example_update_def hunk.case option.case example_lines example_located
  by (simp add: MAX_RECOVERY_FILE_BYTES_def spans_overlap_def in_patch_order_def)

theorem recovered_update_is_unambiguous_witness:
  "\<exists>chunks'. UpdateFile ''/w/f'' None [example_chunk ''first'', example_chunk ''last''] = UpdateFile ''/w/f'' None chunks' \<and>
     mset chunks' = mset [example_chunk ''last'', example_chunk ''first'']"
  using recovered_update_is_unambiguous [OF example_reorder] by (auto simp: example_update_def)

text \<open>
  C31: Replacing a file is atomic.  At every moment the path holds either the untouched original or,
  after the last step of a successful replacement, the complete new contents with the permissions of
  the original; on failure all files are as before, and only an existing, writable regular file is
  ever replaced.
\<close>

theorem replacement_is_atomic:
  assumes "replace_regular_file io path contents st = (r, history)"
    and "\<And>parent tmp. ri_temp io parent = Inr tmp \<Longrightarrow> st tmp = None"
  shows "(\<forall>st' \<in> set (butlast history). st' path = st path) \<and>
    (case r of
       Inl _ \<Rightarrow> last history = st
     | Inr _ \<Rightarrow> \<exists>old. st path = Some old \<and> fe_kind old = RegularFile \<and> \<not> readonly (fe_mode old) \<and>
         last history = st(path \<mapsto> \<lparr>fe_kind = RegularFile, fe_bytes = contents, fe_mode = fe_mode old\<rparr>))"
proof (cases "\<exists>old parent tmp. st path = Some old \<and> fe_kind old = RegularFile \<and> \<not> readonly (fe_mode old) \<and>
    ri_temp io parent = Inr tmp \<and> stage_and_persist io path contents old tmp st = (r, history)")
  case True
  then obtain old parent tmp where old: "st path = Some old" "fe_kind old = RegularFile" "\<not> readonly (fe_mode old)"
    and tmp: "ri_temp io parent = Inr tmp"
    and stage: "stage_and_persist io path contents old tmp st = (r, history)"
    using assms(1) by auto
  have fresh: "st tmp = None" using assms(2) tmp .
  then have "tmp \<noteq> path" "st(tmp := None) = st" using old by auto
  with stage old show ?thesis
    by (auto simp: stage_and_persist_def Let_def split: option.splits prod.splits)
next
  case False
  then have "(\<exists>e. r = Inl e) \<and> history = [st]"
    using assms(1) unfolding replace_regular_file_def symlink_metadata_def
    by (auto split: option.splits sum.splits if_splits)
  then show ?thesis by auto
qed

definition example_io :: replace_io where
  "example_io = \<lparr>ri_missing = ''ENOENT'', ri_stat = None, ri_open_write = None, ri_temp = (\<lambda>_. Inr ''/w/.tmp1''),
     ri_write = None, ri_chmod = None, ri_sync = None, ri_persist = None\<rparr>"

definition example_store :: file_store where
  "example_store = [''/w/f'' \<mapsto> \<lparr>fe_kind = RegularFile, fe_bytes = ''old'', fe_mode = 420\<rparr>]"

lemma example_replace:
  "\<exists>history. replace_regular_file example_io ''/w/f'' ''new'' example_store = (Inr (), history)"
  by (simp add: replace_regular_file_def stage_and_persist_def symlink_metadata_def example_io_def example_store_def
      readonly_def path_parent_def path_body_def is_absolute_def strip_tail.simps Let_def)

theorem replacement_is_atomic_witness:
  "\<exists>history. replace_regular_file example_io ''/w/f'' ''new'' example_store = (Inr (), history) \<and>
     last history ''/w/f'' = Some \<lparr>fe_kind = RegularFile, fe_bytes = ''new'', fe_mode = 420\<rparr>"
proof -
  obtain history where h: "replace_regular_file example_io ''/w/f'' ''new'' example_store = (Inr (), history)"
    using example_replace by blast
  have "example_store tmp = None" if "ri_temp example_io parent = Inr tmp" for parent tmp
    using that by (auto simp: example_io_def example_store_def)
  from replacement_is_atomic [OF h this] h show ?thesis by (auto simp: example_store_def)
qed

end
