(* ===== verification/Apply_Patch.thy ===== *)
theory Apply_Patch
  imports Patch_Recovery Utf8_Stream
begin

text \<open>
  The \<^verbatim>\<open>apply_patch\<close> tool (\<^verbatim>\<open>src/apply_patch.rs\<close>).  Parsing a patch and applying one hunk are done by the
  Codex library and are parameters, as are the answers of the file system; the files themselves are
  the state.  Every operation the tool starts is recorded with the index of its hunk.
\<close>

section \<open>Data\<close>

datatype parse_error =
    InvalidPatchError rstr
  | InvalidHunkError rstr nat

record apply_failure =
  af_message :: rstr
  af_changes :: "rstr list"
  af_is_empty :: bool
  af_is_exact :: bool

text \<open>\<open>pe_apply_hunk\<close> is \<^verbatim>\<open>apply_hunks\<close> on a single hunk: failure, \<^verbatim>\<open>stderr\<close> and the files afterwards.
  \<open>pe_worker_failure\<close> is the loss of the blocking task after some of its steps.\<close>

record 'z patch_env =
  pe_exists :: "file_store \<Rightarrow> rstr \<Rightarrow> bool"
  pe_is_dir :: "file_store \<Rightarrow> rstr \<Rightarrow> bool"
  pe_canonicalize :: "file_store \<Rightarrow> rstr \<Rightarrow> rstr option"
  pe_metadata_len :: "file_store \<Rightarrow> rstr \<Rightarrow> nat option"
  pe_read_to_string :: "file_store \<Rightarrow> rstr \<Rightarrow> rstr option"
  pe_parse_patch :: "rstr \<Rightarrow> parse_error + 'z hunk list"
  pe_path_uri :: "rstr \<Rightarrow> rstr res"
  pe_apply_hunk :: "file_store \<Rightarrow> rstr \<Rightarrow> 'z hunk \<Rightarrow> apply_failure option \<times> rstr \<times> file_store"
  pe_replace_io :: "file_store \<Rightarrow> rstr \<Rightarrow> replace_io"
  pe_worker_failure :: "file_store \<Rightarrow> rstr \<Rightarrow> (nat \<times> rstr) option"

datatype 'z patch_op = OpApply "'z hunk" | OpReplace rstr rstr

record 'z patch_run =
  pr_store :: file_store
  pr_applied :: "rstr list"
  pr_failed :: "rstr list"
  pr_recovered :: "rstr list"
  pr_ops :: "(nat \<times> 'z patch_op) list"

section \<open>Messages\<close>


definition is_context_failure :: "rstr \<Rightarrow> bool" where
  "is_context_failure reason \<longleftrightarrow>
     starts_with reason ''Failed to find expected lines in '' \<or>
     starts_with reason (''Failed to find context '' @ [CHR 39])"

definition failure_reason :: "apply_failure \<Rightarrow> rstr \<Rightarrow> rstr" where
  "failure_reason failure stderr =
     (let message = trim (from_utf8_lossy stderr) in if message = [] then af_message failure else message)"

fun is_update :: "'z hunk \<Rightarrow> bool" where
  "is_update (UpdateFile _ _ _) = True"
| "is_update _ = False"

definition format_failure :: "rstr \<Rightarrow> 'z hunk \<Rightarrow> apply_failure \<Rightarrow> rstr \<Rightarrow> rstr" where
  "format_failure label hunk failure stderr =
     (let reason = failure_reason failure stderr in
      label @ '': '' @ reason @
      (if af_is_empty failure then []
       else [nl] @ ''  Changes already applied by this failed operation:'' @
         concat (map (\<lambda>path. [nl] @ ''  - '' @ path) (af_changes failure))) @
      (if \<not> af_is_exact failure then
         [nl] @ ''  WARNING: the filesystem may have additional partial writes. Inspect before retrying.''
       else if af_is_empty failure then
         [nl] @ ''  No changes from this failed operation were applied.'' @
         (if is_context_failure reason \<and> is_update hunk then
            [nl] @ ''  Hint: Re-read the current file and retry with whole matching lines, including line breaks and formatting; Zodex does not guess where mismatched text belongs.''
          else [])
       else []))"

fun hunk_label :: "'z hunk \<Rightarrow> rstr" where
  "hunk_label (AddFile path _) = ''A '' @ path"
| "hunk_label (DeleteFile path) = ''D '' @ path"
| "hunk_label (UpdateFile path move_path _) = ''M '' @ (case move_path of None \<Rightarrow> path | Some m \<Rightarrow> m)"

section \<open>One operation\<close>

definition conflict_message :: rstr where
  "conflict_message =
     '': another operation in this patch targets the same path; combine those changes into a single file section''"

definition replace_step :: "'z patch_env \<Rightarrow> nat \<Rightarrow> rstr \<Rightarrow> rstr \<Rightarrow> 'z patch_run \<Rightarrow> 'z patch_run" where
  "replace_step env index path contents run =
     (let (result, history) = replace_regular_file (pe_replace_io env (pr_store run) path) path contents (pr_store run);
          run1 = run\<lparr>pr_ops := pr_ops run @ [(index, OpReplace path contents)]\<rparr>
      in case pe_worker_failure env (pr_store run) path of
           Some (steps, error) \<Rightarrow>
             run1\<lparr>pr_store := history ! min steps (length history - 1),
                  pr_failed := pr_failed run @
                    [''M '' @ path @ '': replacement worker failed: '' @ error @ [nl] @
                     ''  Inspect the file before retrying.'']\<rparr>
         | None \<Rightarrow>
             (case result of
                Inr _ \<Rightarrow> run1\<lparr>pr_store := last history, pr_applied := pr_applied run @ [''M '' @ path @ '' (replaced)'']\<rparr>
              | Inl error \<Rightarrow>
                  run1\<lparr>pr_store := last history,
                       pr_failed := pr_failed run @ [''M '' @ path @ '': '' @ error @ [nl] @ ''  Original file was left intact.'']\<rparr>))"

definition recovery_candidate :: "'z patch_env \<Rightarrow> file_store \<Rightarrow> 'z hunk \<Rightarrow> apply_failure \<Rightarrow> rstr \<Rightarrow> 'z hunk option" where
  "recovery_candidate env st hunk failure stderr =
     (if is_context_failure (failure_reason failure stderr) \<and> af_is_empty failure \<and> af_is_exact failure
      then reorder_unique_nonoverlapping_hunks (pe_metadata_len env st) (pe_read_to_string env st) hunk
      else None)"

definition apply_step :: "'z patch_env \<Rightarrow> rstr \<Rightarrow> nat \<Rightarrow> 'z hunk \<Rightarrow> 'z patch_run \<Rightarrow> 'z patch_run" where
  "apply_step env cwd index hunk run =
     (let label = hunk_label hunk;
          (failure, stderr, st1) = pe_apply_hunk env (pr_store run) cwd hunk;
          run1 = run\<lparr>pr_store := st1, pr_ops := pr_ops run @ [(index, OpApply hunk)]\<rparr>
      in case failure of
           None \<Rightarrow> run1\<lparr>pr_applied := pr_applied run1 @ [label]\<rparr>
         | Some f \<Rightarrow>
             (case recovery_candidate env st1 hunk f stderr of
                None \<Rightarrow> run1\<lparr>pr_failed := pr_failed run1 @ [format_failure label hunk f stderr]\<rparr>
              | Some reordered \<Rightarrow>
                  (let (retry_failure, retry_stderr, st2) = pe_apply_hunk env st1 cwd reordered;
                       run2 = run1\<lparr>pr_store := st2, pr_ops := pr_ops run1 @ [(index, OpApply reordered)]\<rparr>
                   in case retry_failure of
                        None \<Rightarrow>
                          run2\<lparr>pr_applied := pr_applied run2 @ [label], pr_recovered := pr_recovered run2 @ [label]\<rparr>
                      | Some f2 \<Rightarrow>
                          if \<not> af_is_empty f2 \<or> \<not> af_is_exact f2
                          then run2\<lparr>pr_failed := pr_failed run2 @ [format_failure label hunk f2 retry_stderr]\<rparr>
                          else run2\<lparr>pr_failed := pr_failed run2 @ [format_failure label hunk f stderr]\<rparr>)))"

text \<open>The pattern match on the second hunk of a replacement cannot fail (\<open>replacement_pairs\<close>), so the
  \<^verbatim>\<open>unreachable!\<close> branch leaves the run as it is.\<close>

definition hunk_step ::
    "'z patch_env \<Rightarrow> rstr \<Rightarrow> 'z hunk list \<Rightarrow> (nat \<times> nat) list \<Rightarrow> nat list \<Rightarrow> 'z patch_run \<Rightarrow> nat \<Rightarrow> 'z patch_run" where
  "hunk_step env cwd hunks replacements conflicts run index =
     (let hunk = hunks ! index in
      if index \<in> set conflicts then
        run\<lparr>pr_failed := pr_failed run @ [hunk_label hunk @ conflict_message]\<rparr>
      else (case map_of replacements index of
              Some add_index \<Rightarrow>
                (case hunks ! add_index of
                   AddFile path contents \<Rightarrow> replace_step env index path contents run
                 | _ \<Rightarrow> run)
            | None \<Rightarrow>
                if index \<in> snd ` set replacements then run
                else apply_step env cwd index hunk run))"

section \<open>The tool\<close>


definition start_run :: "file_store \<Rightarrow> 'z patch_run" where
  "start_run st = \<lparr>pr_store = st, pr_applied = [], pr_failed = [], pr_recovered = [], pr_ops = []\<rparr>"

definition run_hunks :: "'z patch_env \<Rightarrow> rstr \<Rightarrow> 'z hunk list \<Rightarrow> file_store \<Rightarrow> 'z patch_run" where
  "run_hunks env cwd hunks st =
     (let replacements = replacement_pairs hunks;
          conflicts = conflicting_hunks (physical_path_key (pe_canonicalize env st)) hunks replacements
      in foldl (hunk_step env cwd hunks replacements conflicts) (start_run st) [0..<length hunks])"


section \<open>What one operation does\<close>


definition settled :: "'z patch_run \<Rightarrow> nat" where
  "settled run = length (pr_applied run) + length (pr_failed run)"




lemma replace_step_effect:
  "pr_ops (replace_step env index path contents run) = pr_ops run @ [(index, OpReplace path contents)] \<and>
   settled (replace_step env index path contents run) = Suc (settled run)"
  by (auto simp: replace_step_def settled_def Let_def split: prod.splits option.splits sum.splits)






text \<open>The physical identities of a patch and its conflicting hunks, read from the files as they were.\<close>

definition path_key :: "'z patch_env \<Rightarrow> file_store \<Rightarrow> rstr \<Rightarrow> path_component list" where
  "path_key env st = physical_path_key (pe_canonicalize env st)"



section \<open>Properties\<close>



text \<open>
  After the rewriting of a patch every file header names an absolute path, all other lines are
  unchanged, and rewriting the result again changes nothing.
\<close>

theorem rewritten_patch_paths_are_absolute:
  assumes "is_absolute workdir"
  shows "\<exists>lines. rewrite_patch_paths patch workdir = concat (map (\<lambda>line. line @ [nl]) lines) \<and>
    list_all2 (\<lambda>old new. if is_file_header old then has_absolute_path new else new = old) (str_lines patch) lines \<and>
    (list_all clean_line lines \<longrightarrow>
       rewrite_patch_paths (rewrite_patch_paths patch workdir) workdir' = rewrite_patch_paths patch workdir)"
proof (intro exI conjI impI)
  let ?lines = "map (rewrite_line workdir) (str_lines patch)"
  show 1: "rewrite_patch_paths patch workdir = concat (map (\<lambda>line. line @ [nl]) ?lines)"
    by (simp add: rewrite_patch_paths_def comp_def)
  show "list_all2 (\<lambda>old new. if is_file_header old then has_absolute_path new else new = old) (str_lines patch) ?lines"
    using assms by (auto simp: list.rel_map rewrite_line_header rewrite_line_other intro!: list.rel_refl_strong)
  assume "list_all clean_line ?lines"
  then have "str_lines (rewrite_patch_paths patch workdir) = ?lines"
    unfolding 1 by (intro str_lines_concat) (simp only: list_all_iff)
  then show "rewrite_patch_paths (rewrite_patch_paths patch workdir) workdir' = rewrite_patch_paths patch workdir"
    using assms by (simp add: rewrite_patch_paths_def comp_def rewrite_line_idem)
qed

theorem rewritten_patch_paths_are_absolute_witness:
  "\<exists>lines. rewrite_patch_paths ''*** Add File: a'' ''/w'' = concat (map (\<lambda>line. line @ [nl]) lines) \<and>
     length lines = 1 \<and> has_absolute_path (hd lines)"
proof -
  have "is_absolute ''/w''" by (simp add: is_absolute_def)
  moreover have "str_lines ''*** Add File: a'' = [''*** Add File: a'']"
    by (simp add: str_lines_def strip_line_ending_def strip_suffix_def ends_with_def)
  moreover have "is_file_header ''*** Add File: a''" by (simp add: is_file_header_def patch_prefixes)
  ultimately show ?thesis
    using rewritten_patch_paths_are_absolute [of "''/w''" "''*** Add File: a''" "''/''"]
    by (auto simp: list_all2_Cons1)
qed

section \<open>Example\<close>

text \<open>A host whose directory \<^verbatim>\<open>/w\<close> exists; \<^verbatim>\<open>/w/l\<close> is a symbolic link to \<^verbatim>\<open>/x/d\<close>.\<close>

definition example_canonicalize :: "rstr \<Rightarrow> rstr option" where
  "example_canonicalize p =
     (if p = ''/w'' then Some ''/w'' else if p = ''/w/l/..'' then Some ''/x'' else None)"

definition example_env :: "unit hunk list \<Rightarrow> unit patch_env" where
  "example_env hunks = \<lparr>pe_exists = (\<lambda>_ _. True), pe_is_dir = (\<lambda>_ _. True),
     pe_canonicalize = (\<lambda>_. example_canonicalize), pe_metadata_len = (\<lambda>_ _. None), pe_read_to_string = (\<lambda>_ _. None),
     pe_parse_patch = (\<lambda>_. Inr hunks), pe_path_uri = Inr, pe_apply_hunk = (\<lambda>st _ _. (None, [], st)),
     pe_replace_io = (\<lambda>_ _. example_io), pe_worker_failure = (\<lambda>_ _. None)\<rparr>"

lemmas example_eval =
  path_key_def example_env_def example_canonicalize_def physical_path_key_def physical_path_loop.simps
  path_parent_def path_file_name_def path_of_body_def path_body_def is_absolute_def strip_tail.simps
  components_def segment_components_def lexical_normalize_def path_pop_def

lemma example_keys:
  "path_key (example_env hunks) st ''/w/a'' = [RootDir, Normal ''w'', Normal ''a'']"
  "path_key (example_env hunks) st ''/w/b'' = [RootDir, Normal ''w'', Normal ''b'']"
  "path_key (example_env hunks) st ''/w/l/../b'' = [RootDir, Normal ''x'', Normal ''b'']"
  by (simp_all add: example_eval)






text \<open>
  C30: A deletion followed by the addition of a lexically equal path is carried out as a replacement of
  the added path alone, whatever files the two paths physically name.
\<close>

theorem replacement_ignores_physical_path:
  assumes "lexical_normalize (components p) = lexical_normalize (components q)"
  shows "pr_ops (run_hunks env cwd [DeleteFile p, AddFile q contents] st) = [(0, OpReplace q contents)]"
proof -
  let ?hunks = "[DeleteFile p, AddFile q contents]"
  have pairs: "replacement_pairs ?hunks = [(0, 1)]" using assms by (simp add: replacement_pairs_def upt_rec)
  then have conf: "conflicting_hunks key ?hunks [(0, 1)] = []" for key :: "rstr \<Rightarrow> path_component list"
    by (simp add: conflicting_hunks_def hunk_claims_def claim_path_def)
  have "run_hunks env cwd ?hunks st = foldl (hunk_step env cwd ?hunks [(0, 1)] []) (start_run st) [0, 1]"
    by (simp add: run_hunks_def pairs conf [unfolded One_nat_def] upt_rec Let_def)
  also have "\<dots> = replace_step env 0 q contents (start_run st)" by (simp add: hunk_step_def)
  finally show ?thesis using replace_step_effect [of env 0 q contents "start_run st"] by (simp add: start_run_def)
qed

theorem replacement_ignores_physical_path_witness:
  "pr_ops (run_hunks (example_env []) ''/w'' [DeleteFile ''/w/l/../b'', AddFile ''/w/b'' ''new''] example_store) =
     [(0, OpReplace ''/w/b'' ''new'')] \<and>
   path_key (example_env []) example_store ''/w/l/../b'' \<noteq> path_key (example_env []) example_store ''/w/b''"
proof
  have "lexical_normalize (components ''/w/l/../b'') = lexical_normalize (components ''/w/b'')"
    by (simp add: example_eval)
  then show "pr_ops (run_hunks (example_env []) ''/w'' [DeleteFile ''/w/l/../b'', AddFile ''/w/b'' ''new''] example_store) =
     [(0, OpReplace ''/w/b'' ''new'')]" by (rule replacement_ignores_physical_path)
  show "path_key (example_env []) example_store ''/w/l/../b'' \<noteq> path_key (example_env []) example_store ''/w/b''"
    by (simp add: example_keys)
qed

end
