(* ===== verification/Output_Queue.thy ===== *)
theory Output_Queue
  imports Zodex_Prelude "HOL-Library.Sublist"
begin

text \<open>
  The bounded queue between the readers of command output and the history writer
  (\<^verbatim>\<open>src/local/history/worker/output_queue.rs\<close>, and the observer of \<^verbatim>\<open>src/local/history/worker.rs\<close> that feeds
  it).  The channel to the writer is bounded: whether it takes a message, is full or has lost its
  receiver is the answer \<open>ans n\<close> to the \<open>n\<close>-th attempt.  What it took is the list \<open>hq_sent\<close>.  The state
  collects the two mutexes and the health flags the code updates; a call is one step.
\<close>

section \<open>Data\<close>

definition OUTPUT_CAPTURE_MAX_BYTES_PER_INVOCATION :: nat where
  "OUTPUT_CAPTURE_MAX_BYTES_PER_INVOCATION = 2 * 1024 * 1024"

definition OUTPUT_TRANSIENT_OVERFLOW_MAX_BYTES :: nat where
  "OUTPUT_TRANSIENT_OVERFLOW_MAX_BYTES = 64 * 1024"

datatype output_event =
    Chunk (event_invocation: int) "rstr option" nat int rstr
  | Complete (event_invocation: int) "rstr option"
  | Incomplete (event_invocation: int) "rstr option" rstr

fun output_event_bytes :: "output_event \<Rightarrow> nat" where
  "output_event_bytes (Chunk _ _ _ _ chunk_text) = length chunk_text"
| "output_event_bytes _ = 0"

record output_overflow =
  by_invocation :: "int \<Rightarrow> output_event list option"
  overflow_bytes :: nat
  captured_bytes :: "int \<Rightarrow> nat option"
  incomplete_reasons :: "int \<Rightarrow> rstr option"

datatype send_answer = SendOk | SendFull | SendDisconnected

record history_queue =
  hq_overflow :: output_overflow
  hq_sent :: "output_event list"
  hq_attempts :: nat
  hq_capture :: "int \<Rightarrow> rstr option"
  hq_degraded :: bool
  hq_reason :: "rstr option"

section \<open>The overflow\<close>

definition mark_incomplete :: "int \<Rightarrow> rstr \<Rightarrow> output_overflow \<Rightarrow> output_overflow" where
  "mark_incomplete i reason o' =
     o'\<lparr>incomplete_reasons := (incomplete_reasons o')
          (i := Some (case incomplete_reasons o' i of Some r \<Rightarrow> r | None \<Rightarrow> reason))\<rparr>"

definition capture_exceeded :: rstr where
  "capture_exceeded = ''Local history output capture exceeded '' @
     show_nat OUTPUT_CAPTURE_MAX_BYTES_PER_INVOCATION @ '' bytes; remaining output was omitted from history''"

definition admit_chunk :: "int \<Rightarrow> nat \<Rightarrow> output_overflow \<Rightarrow> bool \<times> output_overflow" where
  "admit_chunk i event_bytes o' =
     (if incomplete_reasons o' i \<noteq> None then (False, o')
      else
        let captured = (case captured_bytes o' i of Some n \<Rightarrow> n | None \<Rightarrow> 0);
            entered = o'\<lparr>captured_bytes := (captured_bytes o')(i := Some captured)\<rparr>
        in if OUTPUT_CAPTURE_MAX_BYTES_PER_INVOCATION < sat_add captured event_bytes
           then (False, mark_incomplete i capture_exceeded entered)
           else (True, entered\<lparr>captured_bytes := (captured_bytes entered)(i := Some (sat_add captured event_bytes))\<rparr>))"

definition pending_events :: "output_overflow \<Rightarrow> int \<Rightarrow> output_event list" where
  "pending_events o' i = (case by_invocation o' i of None \<Rightarrow> [] | Some es \<Rightarrow> es)"

definition has_pending :: "output_overflow \<Rightarrow> int \<Rightarrow> bool" where
  "has_pending o' i = (case by_invocation o' i of None \<Rightarrow> False | Some es \<Rightarrow> es \<noteq> [])"

definition overflow_push_back :: "int \<Rightarrow> output_event \<Rightarrow> output_overflow \<Rightarrow> bool \<times> output_overflow" where
  "overflow_push_back i event o' =
     (let bytes = output_event_bytes event in
      if OUTPUT_TRANSIENT_OVERFLOW_MAX_BYTES < sat_add (overflow_bytes o') bytes then (False, o')
      else (True, o'\<lparr>overflow_bytes := sat_add (overflow_bytes o') bytes,
                     by_invocation := (by_invocation o')(i \<mapsto> pending_events o' i @ [event])\<rparr>))"

definition push_front_existing :: "int \<Rightarrow> output_event \<Rightarrow> output_overflow \<Rightarrow> output_overflow" where
  "push_front_existing i event o' =
     o'\<lparr>overflow_bytes := sat_add (overflow_bytes o') (output_event_bytes event),
        by_invocation := (by_invocation o')(i \<mapsto> event # pending_events o' i)\<rparr>"

definition overflow_pop_front :: "int \<Rightarrow> output_overflow \<Rightarrow> output_event option \<times> output_overflow" where
  "overflow_pop_front i o' =
     (case by_invocation o' i of
        None \<Rightarrow> (None, o')
      | Some [] \<Rightarrow> (None, o')
      | Some (event # rest) \<Rightarrow>
          (Some event,
           o'\<lparr>overflow_bytes := overflow_bytes o' - output_event_bytes event,
              by_invocation := (by_invocation o')(i := if rest = [] then None else Some rest)\<rparr>))"

definition discard_pending :: "int \<Rightarrow> output_overflow \<Rightarrow> output_overflow" where
  "discard_pending i o' =
     o'\<lparr>by_invocation := (by_invocation o')(i := None),
        overflow_bytes := overflow_bytes o' - sum_list (map output_event_bytes (pending_events o' i))\<rparr>"

definition overflow_finish :: "int \<Rightarrow> output_overflow \<Rightarrow> rstr option \<times> output_overflow" where
  "overflow_finish i o' =
     (incomplete_reasons o' i,
      o'\<lparr>captured_bytes := (captured_bytes o')(i := None), incomplete_reasons := (incomplete_reasons o')(i := None)\<rparr>)"

section \<open>Health and channel\<close>

definition note_capture_incomplete :: "int \<Rightarrow> rstr \<Rightarrow> history_queue \<Rightarrow> history_queue" where
  "note_capture_incomplete i reason q =
     q\<lparr>hq_capture := (hq_capture q)(i := Some (case hq_capture q i of Some r \<Rightarrow> r | None \<Rightarrow> reason))\<rparr>"

definition degrade_nonblocking :: "rstr \<Rightarrow> history_queue \<Rightarrow> history_queue" where
  "degrade_nonblocking reason q =
     q\<lparr>hq_degraded := True, hq_reason := (case hq_reason q of Some r \<Rightarrow> Some r | None \<Rightarrow> Some reason)\<rparr>"

definition degrade_output_capture :: "int \<Rightarrow> rstr \<Rightarrow> history_queue \<Rightarrow> history_queue" where
  "degrade_output_capture i reason q =
     degrade_nonblocking reason
       (note_capture_incomplete i reason (q\<lparr>hq_overflow := mark_incomplete i reason (hq_overflow q)\<rparr>))"

definition try_send :: "(nat \<Rightarrow> send_answer) \<Rightarrow> output_event \<Rightarrow> history_queue \<Rightarrow> send_answer \<times> history_queue" where
  "try_send ans event q =
     (let a = ans (hq_attempts q) in
      (a, q\<lparr>hq_attempts := Suc (hq_attempts q),
            hq_sent := (if a = SendOk then hq_sent q @ [event] else hq_sent q)\<rparr>))"

definition writer_unavailable :: rstr where
  "writer_unavailable = ''Local history output writer is unavailable''"

section \<open>Operations\<close>

definition queue_saturated :: rstr where
  "queue_saturated = ''Local history output queue remained saturated after '' @
     show_nat OUTPUT_TRANSIENT_OVERFLOW_MAX_BYTES @
     '' bytes of transient overflow; remaining output was omitted from history''"

definition buffer_output_overflow :: "output_event \<Rightarrow> int \<Rightarrow> history_queue \<Rightarrow> history_queue" where
  "buffer_output_overflow event i q =
     (case overflow_push_back i event (hq_overflow q) of
        (True, o') \<Rightarrow> q\<lparr>hq_overflow := o'\<rparr>
      | (False, o') \<Rightarrow>
          note_capture_incomplete i queue_saturated (q\<lparr>hq_overflow := mark_incomplete i queue_saturated o'\<rparr>))"

lemma pop_front_shrinks:
  "overflow_pop_front i o' = (Some event, o'') \<Longrightarrow> length (pending_events o'' i) < length (pending_events o' i)"
  by (auto simp: overflow_pop_front_def pending_events_def split: option.splits list.splits if_splits)

text \<open>The result is \<^const>\<open>False\<close> for the error the loop leaves with.\<close>

function flush_output_overflow_nonblocking ::
    "(nat \<Rightarrow> send_answer) \<Rightarrow> int \<Rightarrow> history_queue \<Rightarrow> bool \<times> history_queue" where
  "flush_output_overflow_nonblocking ans i q =
     (case overflow_pop_front i (hq_overflow q) of
        (None, _) \<Rightarrow> (True, q)
      | (Some event, o') \<Rightarrow>
          (case try_send ans event (q\<lparr>hq_overflow := o'\<rparr>) of
             (SendOk, q') \<Rightarrow> flush_output_overflow_nonblocking ans i q'
           | (SendFull, q') \<Rightarrow> (True, q'\<lparr>hq_overflow := push_front_existing i event (hq_overflow q')\<rparr>)
           | (SendDisconnected, q') \<Rightarrow> (False, degrade_output_capture i writer_unavailable q')))"
  by pat_completeness auto
termination
  by (relation "measure (\<lambda>(_, i, q). length (pending_events (hq_overflow q) i))")
    (auto simp: try_send_def Let_def dest: pop_front_shrinks [OF sym])

declare flush_output_overflow_nonblocking.simps [simp del]

definition send_or_buffer :: "(nat \<Rightarrow> send_answer) \<Rightarrow> output_event \<Rightarrow> int \<Rightarrow> history_queue \<Rightarrow> history_queue" where
  "send_or_buffer ans event i q =
     (if has_pending (hq_overflow q) i then buffer_output_overflow event i q
      else (case try_send ans event q of
              (SendOk, q') \<Rightarrow> q'
            | (SendFull, q') \<Rightarrow> buffer_output_overflow event i q'
            | (SendDisconnected, q') \<Rightarrow> degrade_output_capture i writer_unavailable q'))"

definition try_enqueue_output_chunk ::
    "(nat \<Rightarrow> send_answer) \<Rightarrow> output_event \<Rightarrow> int \<Rightarrow> history_queue \<Rightarrow> history_queue" where
  "try_enqueue_output_chunk ans event i q =
     (case admit_chunk i (output_event_bytes event) (hq_overflow q) of
        (False, o') \<Rightarrow>
          (case incomplete_reasons o' i of
             Some reason \<Rightarrow> note_capture_incomplete i reason (q\<lparr>hq_overflow := o'\<rparr>)
           | None \<Rightarrow> q\<lparr>hq_overflow := o'\<rparr>)
      | (True, o') \<Rightarrow>
          (case flush_output_overflow_nonblocking ans i (q\<lparr>hq_overflow := o'\<rparr>) of
             (False, q1) \<Rightarrow> q1
           | (True, q1) \<Rightarrow> send_or_buffer ans event i q1))"

definition discard_tail :: "int \<Rightarrow> output_overflow \<Rightarrow> output_overflow" where
  "discard_tail i o' =
     (if has_pending o' i then
        mark_incomplete i ''Local history output queue was still saturated at command completion; queued tail output was omitted from history''
          (discard_pending i o')
      else o')"

definition enqueue_output_completion ::
    "(nat \<Rightarrow> send_answer) \<Rightarrow> int \<Rightarrow> rstr option \<Rightarrow> history_queue \<Rightarrow> history_queue" where
  "enqueue_output_completion ans i agent_id q =
     (case flush_output_overflow_nonblocking ans i q of
        (False, q1) \<Rightarrow> q1
      | (True, q1) \<Rightarrow>
          (let (reason, o') = overflow_finish i (discard_tail i (hq_overflow q1));
               event = (case reason of Some r \<Rightarrow> Incomplete i agent_id r | None \<Rightarrow> Complete i agent_id)
           in case try_send ans event (q1\<lparr>hq_overflow := o'\<rparr>) of
                (SendOk, q2) \<Rightarrow> q2
              | (SendFull, q2) \<Rightarrow> note_capture_incomplete i ''Local history output completion queue is full'' q2
              | (SendDisconnected, q2) \<Rightarrow> degrade_output_capture i writer_unavailable q2))"

text \<open>\<open>now\<close> is the answer of \<^verbatim>\<open>now_ms()\<close>; a session without a durable invocation is not captured.\<close>

definition observe_output ::
    "(nat \<Rightarrow> send_answer) \<Rightarrow> int res \<Rightarrow> int option \<Rightarrow> rstr option \<Rightarrow> nat \<Rightarrow> rstr \<Rightarrow> history_queue \<Rightarrow> history_queue" where
  "observe_output ans now invocation agent_id sequence chunk_text q =
     (case invocation of
        None \<Rightarrow> q
      | Some i \<Rightarrow>
          (case now of
             Inl e \<Rightarrow>
               (let reason = ''failed to timestamp Local PTY output: '' @ e
                in degrade_nonblocking reason (note_capture_incomplete i reason q))
           | Inr observed_at_ms \<Rightarrow>
               try_enqueue_output_chunk ans (Chunk i agent_id sequence observed_at_ms chunk_text) i q))"

definition observe_output_complete ::
    "(nat \<Rightarrow> send_answer) \<Rightarrow> int option \<Rightarrow> rstr option \<Rightarrow> history_queue \<Rightarrow> history_queue" where
  "observe_output_complete ans invocation agent_id q =
     (case invocation of None \<Rightarrow> q | Some i \<Rightarrow> enqueue_output_completion ans i agent_id q)"

section \<open>The view of one invocation\<close>

definition sent_events :: "history_queue \<Rightarrow> int \<Rightarrow> output_event list" where
  "sent_events q i = filter (\<lambda>e. event_invocation e = i) (hq_sent q)"

record capture_view =
  cv_pending :: "output_event list"
  cv_incomplete :: "rstr option"
  cv_captured :: "nat option"
  cv_health :: "rstr option"
  cv_sent :: "output_event list"

definition view :: "history_queue \<Rightarrow> int \<Rightarrow> capture_view" where
  "view q i = \<lparr>cv_pending = pending_events (hq_overflow q) i, cv_incomplete = incomplete_reasons (hq_overflow q) i,
     cv_captured = captured_bytes (hq_overflow q) i, cv_health = hq_capture q i, cv_sent = sent_events q i\<rparr>"

lemma view_eq:
  "view q i = v \<longleftrightarrow>
     pending_events (hq_overflow q) i = cv_pending v \<and> incomplete_reasons (hq_overflow q) i = cv_incomplete v \<and>
     captured_bytes (hq_overflow q) i = cv_captured v \<and> hq_capture q i = cv_health v \<and> sent_events q i = cv_sent v"
  by (cases v) (auto simp: view_def)

lemmas overflow_ops =
  mark_incomplete_def admit_chunk_def overflow_push_back_def push_front_existing_def overflow_pop_front_def
  discard_pending_def overflow_finish_def discard_tail_def pending_events_def

lemmas health_ops =
  note_capture_incomplete_def degrade_nonblocking_def degrade_output_capture_def try_send_def Let_def

lemma view_other_basic [simp]:
  assumes "j \<noteq> i"
  shows "view (note_capture_incomplete i r q) j = view q j"
    "view (degrade_nonblocking r q) j = view q j"
    "view (degrade_output_capture i r q) j = view q j"
    "view (q\<lparr>hq_overflow := mark_incomplete i r o'\<rparr>) j = view (q\<lparr>hq_overflow := o'\<rparr>) j"
    "view (q\<lparr>hq_overflow := push_front_existing i e o'\<rparr>) j = view (q\<lparr>hq_overflow := o'\<rparr>) j"
    "view (q\<lparr>hq_overflow := snd (overflow_push_back i e o')\<rparr>) j = view (q\<lparr>hq_overflow := o'\<rparr>) j"
    "view (q\<lparr>hq_overflow := snd (overflow_pop_front i o')\<rparr>) j = view (q\<lparr>hq_overflow := o'\<rparr>) j"
    "view (q\<lparr>hq_overflow := snd (admit_chunk i n o')\<rparr>) j = view (q\<lparr>hq_overflow := o'\<rparr>) j"
    "view (q\<lparr>hq_overflow := snd (overflow_finish i o')\<rparr>) j = view (q\<lparr>hq_overflow := o'\<rparr>) j"
    "view (q\<lparr>hq_overflow := discard_tail i o'\<rparr>) j = view (q\<lparr>hq_overflow := o'\<rparr>) j"
    "event_invocation e = i \<Longrightarrow> view (snd (try_send ans e q)) j = view q j"
  using assms
  by (auto simp: view_def sent_events_def overflow_ops health_ops split: option.splits list.splits)

lemma view_self [simp]: "q\<lparr>hq_overflow := hq_overflow q\<rparr> = q"
  by simp

lemma flush_other:
  assumes "j \<noteq> i" "list_all (\<lambda>e. event_invocation e = i) (pending_events (hq_overflow q) i)"
  shows "view (snd (flush_output_overflow_nonblocking ans i q)) j = view q j"
  using assms
proof (induction ans i q rule: flush_output_overflow_nonblocking.induct)
  case (1 ans i q)
  show ?case
  proof (cases "overflow_pop_front i (hq_overflow q)")
    case (Pair popped o')
    show ?thesis
    proof (cases popped)
      case None
      with Pair show ?thesis by (simp add: flush_output_overflow_nonblocking.simps)
    next
      case (Some e)
      obtain a q' where send: "try_send ans e (q\<lparr>hq_overflow := o'\<rparr>) = (a, q')" by force
      have e: "event_invocation e = i" and rest: "list_all (\<lambda>e. event_invocation e = i) (pending_events o' i)"
        using Pair Some "1.prems"(2)
        by (auto simp: overflow_pop_front_def pending_events_def split: option.splits list.splits if_splits)
      have o': "o' = snd (overflow_pop_front i (hq_overflow q))" using Pair by simp
      have q': "view q' j = view q j" "hq_overflow q' = o'"
        using view_other_basic(11) [OF "1.prems"(1) e, where ans = ans and q = "q\<lparr>hq_overflow := o'\<rparr>"]
          view_other_basic(7) [OF "1.prems"(1), where q = q and o' = "hq_overflow q"] send
        by (auto simp: o' try_send_def Let_def)
      show ?thesis
      proof (cases a)
        case SendOk
        with "1.IH" Pair Some send rest q' "1.prems"(1) show ?thesis
          by (simp add: flush_output_overflow_nonblocking.simps [of ans i q])
      next
        case SendFull
        with Pair Some send q' "1.prems"(1) show ?thesis
          by (simp add: flush_output_overflow_nonblocking.simps)
            (metis history_queue.surjective history_queue.update_convs(1) view_self)
      next
        case SendDisconnected
        with Pair Some send q' "1.prems"(1) show ?thesis
          by (simp add: flush_output_overflow_nonblocking.simps)
      qed
    qed
  qed
qed

lemma pop_front_Some:
  assumes "overflow_pop_front i o' = (Some e, o'')"
  shows "pending_events o' i = e # pending_events o'' i" "incomplete_reasons o'' = incomplete_reasons o'"
    "captured_bytes o'' = captured_bytes o'"
  using assms by (auto simp: overflow_pop_front_def pending_events_def split: option.splits list.splits if_splits)

lemma pop_front_None: "overflow_pop_front i o' = (None, o'') \<Longrightarrow> pending_events o' i = []"
  by (auto simp: overflow_pop_front_def pending_events_def split: option.splits list.splits)

lemma pending_push_front [simp]: "pending_events (push_front_existing i e o') i = e # pending_events o' i"
  by (simp add: push_front_existing_def pending_events_def)

text \<open>What a flush does to the view of its own invocation.\<close>

definition flush_spec :: "bool \<Rightarrow> capture_view \<Rightarrow> capture_view \<Rightarrow> bool" where
  "flush_spec ok v v' \<longleftrightarrow>
     cv_captured v' = cv_captured v \<and>
     (if ok then cv_sent v' @ cv_pending v' = cv_sent v @ cv_pending v \<and>
        cv_incomplete v' = cv_incomplete v \<and> cv_health v' = cv_health v
      else subseq (cv_sent v' @ cv_pending v') (cv_sent v @ cv_pending v) \<and>
        cv_incomplete v' \<noteq> None \<and> cv_health v' \<noteq> None)"

lemma flush_own:
  assumes "list_all (\<lambda>e. event_invocation e = i) (pending_events (hq_overflow q) i)"
    "flush_output_overflow_nonblocking ans i q = (ok, q')"
  shows "flush_spec ok (view q i) (view q' i)"
  using assms
proof (induction ans i q rule: flush_output_overflow_nonblocking.induct)
  case (1 ans i q)
  obtain popped o' where pop: "overflow_pop_front i (hq_overflow q) = (popped, o')" by force
  show ?case
  proof (cases popped)
    case None
    with pop "1.prems"(2) show ?thesis
      by (auto simp: flush_output_overflow_nonblocking.simps flush_spec_def)
  next
    case (Some e)
    note popped = pop_front_Some [OF pop [unfolded Some]]
    have e: "event_invocation e = i" and rest: "list_all (\<lambda>e. event_invocation e = i) (pending_events o' i)"
      using "1.prems"(1) popped(1) by auto
    obtain a q1 where send: "try_send ans e (q\<lparr>hq_overflow := o'\<rparr>) = (a, q1)" by force
    then have q1: "hq_overflow q1 = o'" "hq_capture q1 = hq_capture q"
      "sent_events q1 i = sent_events q i @ (if a = SendOk then [e] else [])"
      using e by (auto simp: try_send_def Let_def sent_events_def)
    show ?thesis
    proof (cases a)
      case SendOk
      with "1.prems"(2) pop Some send have "flush_output_overflow_nonblocking ans i q1 = (ok, q')"
        by (simp add: flush_output_overflow_nonblocking.simps [of ans i q])
      with "1.IH" pop Some send SendOk rest q1 have "flush_spec ok (view q1 i) (view q' i)" by simp
      with popped q1 SendOk show ?thesis by (auto simp: flush_spec_def view_def)
    next
      case SendFull
      with "1.prems"(2) pop Some send have "ok" "q' = q1\<lparr>hq_overflow := push_front_existing i e o'\<rparr>"
        by (auto simp: flush_output_overflow_nonblocking.simps [of ans i q] q1)
      with popped q1 SendFull show ?thesis
        by (auto simp: flush_spec_def view_def sent_events_def push_front_existing_def pending_events_def)
    next
      case SendDisconnected
      with "1.prems"(2) pop Some send have "\<not> ok" "q' = degrade_output_capture i writer_unavailable q1"
        by (auto simp: flush_output_overflow_nonblocking.simps [of ans i q])
      with popped q1 SendDisconnected show ?thesis
        by (auto simp: flush_spec_def view_def sent_events_def health_ops mark_incomplete_def pending_events_def
            intro: list_emb_append_mono)
    qed
  qed
qed

section \<open>The invariant of a capture\<close>

fun own_chunk :: "int \<Rightarrow> output_event \<Rightarrow> bool" where
  "own_chunk i (Chunk i' _ _ _ _) \<longleftrightarrow> i' = i"
| "own_chunk i _ \<longleftrightarrow> False"

fun chunk_key :: "output_event \<Rightarrow> (nat \<times> rstr) option" where
  "chunk_key (Chunk _ _ sequence _ chunk_text) = Some (sequence, chunk_text)"
| "chunk_key _ = None"

definition chunks :: "output_event list \<Rightarrow> (nat \<times> rstr) list" where
  "chunks es = List.map_filter chunk_key es"

definition events_bytes :: "output_event list \<Rightarrow> nat" where
  "events_bytes es = sum_list (map output_event_bytes es)"

lemma own_chunk_invocation: "own_chunk i e \<Longrightarrow> event_invocation e = i"
  by (cases e) auto

lemma chunks_append [simp]: "chunks (es @ fs) = chunks es @ chunks fs"
  by (simp add: chunks_def map_filter_def)

lemma events_bytes_append [simp]: "events_bytes (es @ fs) = events_bytes es + events_bytes fs"
  by (simp add: events_bytes_def)

lemma chunks_simps [simp]: "chunks [] = []" "chunks [Chunk i a n t x] = [(n, x)]" "chunks [Complete i a] = []"
    "chunks [Incomplete i a r] = []" "events_bytes [] = 0" "events_bytes [Chunk i a n t x] = length x"
    "events_bytes [Complete i a] = 0" "events_bytes [Incomplete i a r] = 0"
  by (simp_all add: chunks_def map_filter_def events_bytes_def)

lemma subseq_chunks: "subseq es fs \<Longrightarrow> subseq (chunks es) (chunks fs)"
  unfolding chunks_def map_filter_def by (intro subseq_map subseq_filter)

lemma subseq_bytes: "subseq es fs \<Longrightarrow> events_bytes es \<le> events_bytes fs"
  by (induction rule: list_emb.induct) (auto simp: events_bytes_def)

lemma subseq_own: "subseq es fs \<Longrightarrow> list_all (own_chunk i) fs \<Longrightarrow> list_all (own_chunk i) es"
  by (induction rule: list_emb.induct) auto

text \<open>While the output of an invocation is being captured, with \<open>offered\<close> the chunks read so far.\<close>

definition capturing :: "int \<Rightarrow> (nat \<times> rstr) list \<Rightarrow> capture_view \<Rightarrow> bool" where
  "capturing i offered v \<longleftrightarrow>
     list_all (own_chunk i) (cv_sent v @ cv_pending v) \<and>
     subseq (chunks (cv_sent v @ cv_pending v)) offered \<and>
     (cv_health v = None \<longrightarrow> cv_incomplete v = None \<and> chunks (cv_sent v @ cv_pending v) = offered) \<and>
     events_bytes (cv_sent v @ cv_pending v) \<le> (case cv_captured v of None \<Rightarrow> 0 | Some n \<Rightarrow> n) \<and>
     (case cv_captured v of None \<Rightarrow> 0 | Some n \<Rightarrow> n) \<le> OUTPUT_CAPTURE_MAX_BYTES_PER_INVOCATION"

text \<open>Once the end of the output has been handled.\<close>

definition captured :: "int \<Rightarrow> (nat \<times> rstr) list \<Rightarrow> capture_view \<Rightarrow> bool" where
  "captured i offered v \<longleftrightarrow>
     subseq (chunks (cv_sent v)) offered \<and>
     events_bytes (cv_sent v @ cv_pending v) \<le> OUTPUT_CAPTURE_MAX_BYTES_PER_INVOCATION \<and>
     ((\<exists>a. Complete i a \<in> set (cv_sent v)) \<and> cv_health v = None \<longrightarrow> chunks (cv_sent v) = offered) \<and>
     (cv_health v \<noteq> None \<or> (\<exists>a r. Incomplete i a r \<in> set (cv_sent v)) \<or> (\<exists>a. Complete i a \<in> set (cv_sent v)))"

section \<open>Effects on the view\<close>

lemma buffer_own:
  obtains "view (buffer_output_overflow e i q) i = (view q i)\<lparr>cv_pending := cv_pending (view q i) @ [e]\<rparr>"
  | r h where "view (buffer_output_overflow e i q) i = (view q i)\<lparr>cv_incomplete := Some r, cv_health := Some h\<rparr>"
proof (cases "fst (overflow_push_back i e (hq_overflow q))")
  case True
  then have "view (buffer_output_overflow e i q) i = (view q i)\<lparr>cv_pending := cv_pending (view q i) @ [e]\<rparr>"
    by (auto simp: buffer_output_overflow_def overflow_push_back_def view_def pending_events_def sent_events_def Let_def
        split: if_splits)
  then show thesis by (rule that(1))
next
  case False
  then have "\<exists>r h. view (buffer_output_overflow e i q) i = (view q i)\<lparr>cv_incomplete := Some r, cv_health := Some h\<rparr>"
    by (auto simp: buffer_output_overflow_def overflow_push_back_def view_def pending_events_def sent_events_def Let_def
        mark_incomplete_def note_capture_incomplete_def split: if_splits)
  then show thesis using that(2) by blast
qed

lemma send_own:
  assumes "try_send ans e q = (a, q')" "event_invocation e = i"
  shows "view q' i = (if a = SendOk then (view q i)\<lparr>cv_sent := cv_sent (view q i) @ [e]\<rparr> else view q i)"
  using assms by (auto simp: try_send_def Let_def view_def sent_events_def)

lemma degrade_own:
  "\<exists>r h. view (degrade_output_capture i reason q) i = (view q i)\<lparr>cv_incomplete := Some r, cv_health := Some h\<rparr>"
  by (auto simp: health_ops mark_incomplete_def view_def pending_events_def sent_events_def)

lemma note_own: "\<exists>h. view (note_capture_incomplete i reason q) i = (view q i)\<lparr>cv_health := Some h\<rparr>"
  by (auto simp: health_ops view_def sent_events_def)

lemma admit_own:
  assumes "admit_chunk i n (hq_overflow q) = (ok, o')" "capturing i off (view q i)"
  defines "c \<equiv> (case cv_captured (view q i) of None \<Rightarrow> 0 | Some m \<Rightarrow> m)"
  shows "if ok then cv_incomplete (view q i) = None \<and> c + n \<le> OUTPUT_CAPTURE_MAX_BYTES_PER_INVOCATION \<and>
      view (q\<lparr>hq_overflow := o'\<rparr>) i = (view q i)\<lparr>cv_captured := Some (c + n)\<rparr>
    else \<exists>r. incomplete_reasons o' i = Some r \<and>
      (view (q\<lparr>hq_overflow := o'\<rparr>) i = (view q i)\<lparr>cv_incomplete := Some r\<rparr> \<or>
       view (q\<lparr>hq_overflow := o'\<rparr>) i = (view q i)\<lparr>cv_incomplete := Some r, cv_captured := Some c\<rparr>)"
proof (cases "incomplete_reasons (hq_overflow q) i")
  case (Some r)
  with assms(1) show ?thesis by (auto simp: admit_chunk_def view_def sent_events_def)
next
  case None
  have c: "c = (case captured_bytes (hq_overflow q) i of Some m \<Rightarrow> m | None \<Rightarrow> 0)"
    by (simp add: c_def view_def)
  have small: "OUTPUT_CAPTURE_MAX_BYTES_PER_INVOCATION < usize_max"
    by (simp add: OUTPUT_CAPTURE_MAX_BYTES_PER_INVOCATION_def usize_max_def)
  have sat: "OUTPUT_CAPTURE_MAX_BYTES_PER_INVOCATION < sat_add c n \<longleftrightarrow> OUTPUT_CAPTURE_MAX_BYTES_PER_INVOCATION < c + n"
    "c + n \<le> OUTPUT_CAPTURE_MAX_BYTES_PER_INVOCATION \<Longrightarrow> sat_add c n = c + n"
    using small by (auto simp: sat_add_def)
  show ?thesis
  proof (cases "OUTPUT_CAPTURE_MAX_BYTES_PER_INVOCATION < c + n")
    case True
    with None assms(1) sat(1) show ?thesis
      unfolding c by (auto simp: admit_chunk_def Let_def mark_incomplete_def view_def pending_events_def sent_events_def)
  next
    case False
    with None assms(1) sat show ?thesis
      unfolding c by (auto simp: admit_chunk_def Let_def view_def pending_events_def sent_events_def)
  qed
qed

section \<open>The invariant is kept\<close>

lemma capturing_lost:
  "capturing i off v \<Longrightarrow> capturing i (off @ [c]) (v\<lparr>cv_health := Some h\<rparr>)"
  "capturing i off v \<Longrightarrow> capturing i (off @ [c]) (v\<lparr>cv_incomplete := Some r, cv_health := Some h\<rparr>)"
  by (auto simp: capturing_def intro: list_emb_append2)

lemma capturing_flush:
  assumes "flush_spec ok v v'" "capturing i off v"
  shows "capturing i off v'"
proof -
  have sub: "subseq (cv_sent v' @ cv_pending v') (cv_sent v @ cv_pending v)"
    using assms(1) by (auto simp: flush_spec_def split: if_splits)
  have own: "list_all (own_chunk i) (cv_sent v' @ cv_pending v')"
    using subseq_own [OF sub] assms(2) by (simp add: capturing_def)
  have keys: "subseq (chunks (cv_sent v' @ cv_pending v')) off"
    using subseq_chunks [OF sub] assms(2) subseq_order.order_trans unfolding capturing_def by blast
  have bytes: "events_bytes (cv_sent v' @ cv_pending v') \<le> events_bytes (cv_sent v @ cv_pending v)"
    by (rule subseq_bytes [OF sub])
  have same: "chunks (cv_sent v' @ cv_pending v') = chunks (cv_sent v @ cv_pending v)" if ok
    using assms(1) that unfolding flush_spec_def by metis
  show ?thesis
  proof (cases ok)
    case True
    with same own keys bytes assms show ?thesis
      unfolding capturing_def flush_spec_def by (simp only: if_True simp_thms) (auto simp del: chunks_append)
  next
    case False
    with own keys bytes assms show ?thesis unfolding capturing_def flush_spec_def by auto
  qed
qed

lemma capturing_own: "capturing i off (view q i) \<Longrightarrow> list_all (\<lambda>e. event_invocation e = i) (pending_events (hq_overflow q) i)"
  by (auto simp: capturing_def view_def list_all_iff own_chunk_invocation)

lemma has_pending_iff: "has_pending o' i \<longleftrightarrow> pending_events o' i \<noteq> []"
  by (simp add: has_pending_def pending_events_def split: option.split)

lemma capturing_gain:
  assumes "capturing i off v" "e = Chunk i a n t x"
    "events_bytes (cv_sent v @ cv_pending v) + length x \<le> (case cv_captured v of None \<Rightarrow> 0 | Some m \<Rightarrow> m)"
    "cv_sent v' @ cv_pending v' = (cv_sent v @ cv_pending v) @ [e]"
    "cv_incomplete v' = cv_incomplete v" "cv_health v' = cv_health v" "cv_captured v' = cv_captured v"
  shows "capturing i (off @ [(n, x)]) v'"
  using assms(1-3,5-7) unfolding capturing_def assms(4) by (auto simp del: append_assoc)

lemma capturing_send_or_buffer:
  assumes inv: "capturing i off (view q i)" and e: "e = Chunk i a n t x"
    and room: "events_bytes (cv_sent (view q i) @ cv_pending (view q i)) + length x
      \<le> (case cv_captured (view q i) of None \<Rightarrow> 0 | Some m \<Rightarrow> m)"
  shows "capturing i (off @ [(n, x)]) (view (send_or_buffer ans e i q) i)"
proof -
  note gain = capturing_gain [OF inv e room]
  have buffered: "capturing i (off @ [(n, x)]) (view (buffer_output_overflow e i q') i)"
    if "view q' i = view q i" for q'
    by (rule buffer_own [of e i q']) (auto simp: that intro!: gain capturing_lost(2) [OF inv])
  show ?thesis
  proof (cases "has_pending (hq_overflow q) i")
    case True
    then show ?thesis using buffered by (simp add: send_or_buffer_def)
  next
    case False
    then have empty: "cv_pending (view q i) = []" by (simp add: has_pending_iff view_def)
    obtain ans' q2 where send: "try_send ans e q = (ans', q2)" by force
    have v2: "view q2 i = (if ans' = SendOk then (view q i)\<lparr>cv_sent := cv_sent (view q i) @ [e]\<rparr> else view q i)"
      by (rule send_own [OF send]) (simp add: e)
    show ?thesis
    proof (cases ans')
      case SendOk
      with False send v2 empty show ?thesis by (auto simp: send_or_buffer_def intro!: gain)
    next
      case SendFull
      with False send v2 show ?thesis by (simp add: send_or_buffer_def buffered)
    next
      case SendDisconnected
      with False send v2 degrade_own [of i writer_unavailable q2] show ?thesis
        using capturing_lost(2) [OF inv] by (auto simp: send_or_buffer_def)
    qed
  qed
qed

lemma capturing_rejected:
  assumes inv: "capturing i off (view q i)" and admit: "admit_chunk i m (hq_overflow q) = (False, o')"
  shows "\<exists>r. incomplete_reasons o' i = Some r \<and>
    capturing i (off @ [c]) (view (note_capture_incomplete i r (q\<lparr>hq_overflow := o'\<rparr>)) i)"
proof -
  let ?c = "case cv_captured (view q i) of None \<Rightarrow> 0 | Some m \<Rightarrow> m"
  from admit_own [OF admit inv] obtain r where r: "incomplete_reasons o' i = Some r"
    and v: "view (q\<lparr>hq_overflow := o'\<rparr>) i = (view q i)\<lparr>cv_incomplete := Some r\<rparr> \<or>
      view (q\<lparr>hq_overflow := o'\<rparr>) i = (view q i)\<lparr>cv_incomplete := Some r, cv_captured := Some ?c\<rparr>" by auto
  obtain h where "view (note_capture_incomplete i r (q\<lparr>hq_overflow := o'\<rparr>)) i =
      (view (q\<lparr>hq_overflow := o'\<rparr>) i)\<lparr>cv_health := Some h\<rparr>" using note_own by blast
  with r v capturing_lost(2) [OF inv, of c r h] show ?thesis by (auto simp: capturing_def)
qed

lemma capturing_chunk:
  assumes inv: "capturing i off (view q i)" and e: "e = Chunk i a n t x"
  shows "capturing i (off @ [(n, x)]) (view (try_enqueue_output_chunk ans e i q) i)"
proof -
  let ?c = "case cv_captured (view q i) of None \<Rightarrow> 0 | Some m \<Rightarrow> m"
  obtain ok o' where admit: "admit_chunk i (output_event_bytes e) (hq_overflow q) = (ok, o')" by force
  show ?thesis
  proof (cases ok)
    case False
    with capturing_rejected [OF inv, of "output_event_bytes e" o' "(n, x)"] admit show ?thesis
      by (auto simp: try_enqueue_output_chunk_def)
  next
    case True
    let ?q0 = "q\<lparr>hq_overflow := o'\<rparr>"
    have bound: "?c + length x \<le> OUTPUT_CAPTURE_MAX_BYTES_PER_INVOCATION"
      and v0: "view ?q0 i = (view q i)\<lparr>cv_captured := Some (?c + length x)\<rparr>"
      using admit_own [OF admit inv] True e by auto
    have inv0: "capturing i off (view ?q0 i)" using inv bound unfolding v0 by (auto simp: capturing_def)
    have room: "events_bytes (cv_sent (view q i) @ cv_pending (view q i)) \<le> ?c" using inv by (simp add: capturing_def)
    obtain ok1 q1 where fl: "flush_output_overflow_nonblocking ans i ?q0 = (ok1, q1)" by force
    note spec = flush_own [OF capturing_own [OF inv0] fl]
    have inv1: "capturing i off (view q1 i)" by (rule capturing_flush [OF spec inv0])
    show ?thesis
    proof (cases ok1)
      case False
      then have "try_enqueue_output_chunk ans e i q = q1" "cv_health (view q1 i) \<noteq> None"
        using admit True fl spec by (simp_all add: try_enqueue_output_chunk_def flush_spec_def)
      with inv1 show ?thesis by (auto simp: capturing_def intro: list_emb_append2)
    next
      case ok1: True
      have "cv_sent (view q1 i) @ cv_pending (view q1 i) = cv_sent (view q i) @ cv_pending (view q i)"
        "cv_captured (view q1 i) = Some (?c + length x)" using spec ok1 v0 by (auto simp: flush_spec_def)
      with room have "events_bytes (cv_sent (view q1 i) @ cv_pending (view q1 i)) + length x
          \<le> (case cv_captured (view q1 i) of None \<Rightarrow> 0 | Some m \<Rightarrow> m)" by simp
      from capturing_send_or_buffer [OF inv1 e this, of ans] show ?thesis
        using admit True fl ok1 by (simp add: try_enqueue_output_chunk_def)
    qed
  qed
qed

lemma capturing_observe:
  assumes "capturing i off (view q i)"
  shows "capturing i (off @ [(n, x)]) (view (observe_output ans now (Some i) a n x q) i)"
proof (cases now)
  case (Inl err)
  obtain h where h: "view (note_capture_incomplete i (''failed to timestamp Local PTY output: '' @ err) q) i =
      (view q i)\<lparr>cv_health := Some h\<rparr>" using note_own by blast
  have "view (degrade_nonblocking r q') i = view q' i" for r q' by (simp add: view_def degrade_nonblocking_def sent_events_def)
  with Inl h capturing_lost(1) [OF assms] show ?thesis by (simp add: observe_output_def Let_def)
next
  case (Inr t)
  with capturing_chunk [OF assms refl] show ?thesis by (simp add: observe_output_def)
qed

section \<open>Completion\<close>

lemma subseq_prefix: "subseq (xs @ ys) zs \<Longrightarrow> subseq xs zs"
  by (metis list_emb_append2 append.right_neutral list_emb_append_mono list_emb_Nil subseq_order.order_trans subseq_order.refl)

lemma own_not_final:
  "list_all (own_chunk i) es \<Longrightarrow> Complete j a \<notin> set es" "list_all (own_chunk i) es \<Longrightarrow> Incomplete j a r \<notin> set es"
  by (auto simp: list_all_iff)

lemma finish_own:
  assumes "overflow_finish i (discard_tail i (hq_overflow q)) = (reason, o')"
  shows "view (q\<lparr>hq_overflow := o'\<rparr>) i =
      (view q i)\<lparr>cv_pending := [], cv_incomplete := None, cv_captured := None\<rparr>"
    "reason = None \<Longrightarrow> cv_pending (view q i) = [] \<and> cv_incomplete (view q i) = None"
  using assms
  by (auto simp: overflow_finish_def discard_tail_def discard_pending_def mark_incomplete_def has_pending_def
      view_def pending_events_def sent_events_def split: if_splits option.splits)

lemma captured_completion:
  assumes inv: "capturing i off (view q i)"
  shows "captured i off (view (enqueue_output_completion ans i a q) i)"
proof -
  obtain ok q1 where fl: "flush_output_overflow_nonblocking ans i q = (ok, q1)" by force
  note spec = flush_own [OF capturing_own [OF inv] fl]
  have inv1: "capturing i off (view q1 i)" by (rule capturing_flush [OF spec inv])
  then have sub: "subseq (chunks (cv_sent (view q1 i))) off"
    by (auto simp: capturing_def dest: subseq_prefix)
  have bytes: "events_bytes (cv_sent (view q1 i) @ cv_pending (view q1 i)) \<le> OUTPUT_CAPTURE_MAX_BYTES_PER_INVOCATION"
    using inv1 by (auto simp: capturing_def)
  have plain: "Complete i b \<notin> set (cv_sent (view q1 i))" for b
    using inv1 own_not_final by (auto simp: capturing_def)
  show ?thesis
  proof (cases ok)
    case False
    with fl spec sub bytes show ?thesis by (auto simp: enqueue_output_completion_def captured_def flush_spec_def)
  next
    case True
    obtain reason o' where fin: "overflow_finish i (discard_tail i (hq_overflow q1)) = (reason, o')" by force
    define event where "event = (case reason of Some r \<Rightarrow> Incomplete i a r | None \<Rightarrow> Complete i a)"
    obtain b q2 where send: "try_send ans event (q1\<lparr>hq_overflow := o'\<rparr>) = (b, q2)" by force
    have "event_invocation event = i" by (simp add: event_def split: option.split)
    note v2 = send_own [OF send this, unfolded finish_own(1) [OF fin]]
    have all: "chunks (cv_sent (view q1 i)) = off" if "reason = None" "cv_health (view q1 i) = None"
      using that finish_own(2) [OF fin] inv1 by (auto simp: capturing_def)
    have event: "chunks [event] = []" "events_bytes [event] = 0" by (simp_all add: event_def split: option.split)
    have result: "enqueue_output_completion ans i a q = (case b of SendOk \<Rightarrow> q2
        | SendFull \<Rightarrow> note_capture_incomplete i ''Local history output completion queue is full'' q2
        | SendDisconnected \<Rightarrow> degrade_output_capture i writer_unavailable q2)"
      using True fl fin send
      by (simp add: enqueue_output_completion_def event_def split: send_answer.split)
    show ?thesis
    proof (cases b)
      case SendOk
      then show ?thesis using result v2 sub bytes plain all event
        by (cases reason) (auto simp: captured_def event_def)
    next
      case SendFull
      then show ?thesis
        using result v2 sub bytes plain note_own [of i "''Local history output completion queue is full''" q2]
        by (auto simp: captured_def)
    next
      case SendDisconnected
      then show ?thesis using result v2 sub bytes plain degrade_own [of i writer_unavailable q2]
        by (auto simp: captured_def)
    qed
  qed
qed

section \<open>Other invocations\<close>

lemma buffer_other: "j \<noteq> i \<Longrightarrow> view (buffer_output_overflow e i q) j = view q j"
  by (cases "overflow_push_back i e (hq_overflow q)")
    (auto simp: buffer_output_overflow_def overflow_push_back_def view_def pending_events_def sent_events_def Let_def
      mark_incomplete_def note_capture_incomplete_def split: if_splits)

lemma send_other: "try_send ans e q = (a, q') \<Longrightarrow> event_invocation e = i \<Longrightarrow> j \<noteq> i \<Longrightarrow> view q' j = view q j"
  by (metis snd_conv view_other_basic(11))

lemma chunk_other:
  assumes "j \<noteq> i" "event_invocation e = i" "capturing i off (view q i)"
  shows "view (try_enqueue_output_chunk ans e i q) j = view q j"
proof -
  obtain ok o' where admit: "admit_chunk i (output_event_bytes e) (hq_overflow q) = (ok, o')" by force
  have 0: "view (q\<lparr>hq_overflow := o'\<rparr>) j = view q j"
    using view_other_basic(8) [OF assms(1), where q = q and o' = "hq_overflow q" and n = "output_event_bytes e"] admit
    by simp
  have "pending_events o' i = pending_events (hq_overflow q) i"
    using admit by (auto simp: admit_chunk_def Let_def mark_incomplete_def pending_events_def split: if_splits)
  then have own: "list_all (\<lambda>e. event_invocation e = i) (pending_events (hq_overflow (q\<lparr>hq_overflow := o'\<rparr>)) i)"
    using capturing_own [OF assms(3)] by simp
  obtain ok1 q1 where fl: "flush_output_overflow_nonblocking ans i (q\<lparr>hq_overflow := o'\<rparr>) = (ok1, q1)" by force
  have 1: "view q1 j = view q j" using flush_other [OF assms(1) own, of ans] fl 0 by simp
  obtain b q2 where send: "try_send ans e q1 = (b, q2)" by force
  have 2: "view q2 j = view q j" using send_other [OF send assms(2,1)] 1 by simp
  have "view (send_or_buffer ans e i q1) j = view q j"
    using 1 2 send assms(1) by (cases b) (simp_all add: send_or_buffer_def buffer_other)
  with 0 1 admit fl assms(1) show ?thesis
    by (cases ok; cases ok1) (auto simp: try_enqueue_output_chunk_def split: option.split)
qed

lemma completion_other:
  assumes "j \<noteq> i" "capturing i off (view q i)"
  shows "view (enqueue_output_completion ans i a q) j = view q j"
proof -
  obtain ok q1 where fl: "flush_output_overflow_nonblocking ans i q = (ok, q1)" by force
  have 1: "view q1 j = view q j" using flush_other [OF assms(1) capturing_own [OF assms(2)], of ans] fl by simp
  obtain reason o' where fin: "overflow_finish i (discard_tail i (hq_overflow q1)) = (reason, o')" by force
  define event where "event = (case reason of Some r \<Rightarrow> Incomplete i a r | None \<Rightarrow> Complete i a)"
  have "view (q1\<lparr>hq_overflow := o'\<rparr>) j = view q j"
    using 1 fin view_other_basic(9) [OF assms(1), where q = q1 and o' = "discard_tail i (hq_overflow q1)"]
      view_other_basic(10) [OF assms(1), where q = q1 and o' = "hq_overflow q1"] by simp
  moreover obtain b q2 where send: "try_send ans event (q1\<lparr>hq_overflow := o'\<rparr>) = (b, q2)" by force
  moreover have "event_invocation event = i" by (simp add: event_def split: option.split)
  ultimately have "view q2 j = view q j" using send_other [OF send] assms(1) by simp
  with 1 fl fin send assms(1) show ?thesis
    by (cases ok; cases b) (auto simp: enqueue_output_completion_def event_def)
qed

section \<open>The bytes held back\<close>

definition overflow_total :: "(int \<Rightarrow> output_event list option) \<Rightarrow> nat" where
  "overflow_total m = (\<Sum>j \<in> dom m. events_bytes (the (m j)))"

definition overflow_bounded :: "output_overflow \<Rightarrow> bool" where
  "overflow_bounded o' \<longleftrightarrow>
     finite (dom (by_invocation o')) \<and> overflow_bytes o' = overflow_total (by_invocation o') \<and>
     overflow_bytes o' \<le> OUTPUT_TRANSIENT_OVERFLOW_MAX_BYTES"

lemma overflow_total_upd:
  assumes "finite (dom m)"
  shows "overflow_total (m(i := v)) + events_bytes (case m i of None \<Rightarrow> [] | Some es \<Rightarrow> es) =
    overflow_total m + events_bytes (case v of None \<Rightarrow> [] | Some es \<Rightarrow> es)"
proof -
  have rest: "(\<Sum>j \<in> dom m - {i}. events_bytes (the ((m(i := v)) j))) = (\<Sum>j \<in> dom m - {i}. events_bytes (the (m j)))"
    by (rule sum.cong) auto
  have old: "overflow_total m = events_bytes (case m i of None \<Rightarrow> [] | Some es \<Rightarrow> es) + (\<Sum>j \<in> dom m - {i}. events_bytes (the (m j)))"
  proof (cases "m i")
    case None
    then have "dom m - {i} = dom m" by auto
    with None show ?thesis by (simp add: overflow_total_def)
  next
    case (Some es)
    with assms show ?thesis by (simp add: overflow_total_def sum.remove [of "dom m" i] domI)
  qed
  have new: "overflow_total (m(i := v)) = events_bytes (case v of None \<Rightarrow> [] | Some es \<Rightarrow> es) +
      (\<Sum>j \<in> dom m - {i}. events_bytes (the ((m(i := v)) j)))"
  proof (cases v)
    case None
    then show ?thesis by (simp add: overflow_total_def)
  next
    case (Some es)
    then have dom: "dom (m(i := v)) = insert i (dom m - {i})" by auto
    show ?thesis unfolding overflow_total_def dom by (subst sum.insert) (use assms Some in auto)
  qed
  show ?thesis using old new rest by simp
qed

lemma event_bytes_single: "events_bytes [e] = output_event_bytes e"
  by (simp add: events_bytes_def)

lemma sat_small: "a + b \<le> OUTPUT_TRANSIENT_OVERFLOW_MAX_BYTES \<Longrightarrow> sat_add a b = a + b"
    "sat_add a b \<le> OUTPUT_TRANSIENT_OVERFLOW_MAX_BYTES \<Longrightarrow> a + b \<le> OUTPUT_TRANSIENT_OVERFLOW_MAX_BYTES"
  by (auto simp: sat_add_def OUTPUT_TRANSIENT_OVERFLOW_MAX_BYTES_def usize_max_def min_def split: if_splits)

lemma bounded_push_back:
  assumes "overflow_bounded o'" "overflow_push_back i e o' = (ok, o'')"
  shows "overflow_bounded o''"
proof (cases ok)
  case True
  then have fits: "sat_add (overflow_bytes o') (output_event_bytes e) \<le> OUTPUT_TRANSIENT_OVERFLOW_MAX_BYTES"
    and o'': "by_invocation o'' = (by_invocation o')(i \<mapsto> pending_events o' i @ [e])"
      "overflow_bytes o'' = sat_add (overflow_bytes o') (output_event_bytes e)"
    using assms(2) by (auto simp: overflow_push_back_def Let_def split: if_splits)
  have "overflow_bytes o'' = overflow_bytes o' + output_event_bytes e" using fits o''(2) sat_small by metis
  then show ?thesis
    using assms(1) fits o'' overflow_total_upd [of "by_invocation o'" i "Some (pending_events o' i @ [e])"]
    by (auto simp: overflow_bounded_def pending_events_def event_bytes_single)
next
  case False
  with assms show ?thesis by (auto simp: overflow_push_back_def Let_def split: if_splits)
qed

lemma bounded_pop_push:
  assumes "overflow_bounded o'" "overflow_pop_front i o' = (Some e, o'')"
  shows "overflow_bounded o'' \<and> overflow_bounded (push_front_existing i e o'')"
proof -
  obtain rest where m: "by_invocation o' i = Some (e # rest)"
    and o'': "by_invocation o'' = (by_invocation o')(i := if rest = [] then None else Some rest)"
      "overflow_bytes o'' = overflow_bytes o' - output_event_bytes e"
    using assms(2) by (auto simp: overflow_pop_front_def split: option.splits list.splits)
  let ?m = "by_invocation o'"
  have e: "events_bytes (e # rest) = output_event_bytes e + events_bytes rest" by (simp add: events_bytes_def)
  have fin: "finite (dom ?m)" and tot: "overflow_bytes o' = overflow_total ?m" using assms(1) by (auto simp: overflow_bounded_def)
  have 1: "overflow_total (by_invocation o'') + output_event_bytes e = overflow_total ?m"
    using overflow_total_upd [OF fin, of i "if rest = [] then None else Some rest"] m e
    unfolding o''(1) by (auto split: if_splits)
  have pop: "overflow_bounded o''"
    using 1 assms(1) fin tot o'' by (auto simp: overflow_bounded_def)
  have pend: "pending_events o'' i = rest" using o''(1) by (simp add: pending_events_def)
  have 2: "overflow_total ((by_invocation o'')(i \<mapsto> e # rest)) = overflow_total (by_invocation o'') + output_event_bytes e"
    using overflow_total_upd [of "by_invocation o''" i "Some (e # rest)"] fin pend e
    by (simp add: o''(1) pending_events_def split: if_splits)
  have "overflow_bytes o'' + output_event_bytes e \<le> OUTPUT_TRANSIENT_OVERFLOW_MAX_BYTES"
    using 1 assms(1) tot o''(2) by (simp add: overflow_bounded_def)
  with 1 2 pop pend tot o''(2) show ?thesis
    by (simp add: overflow_bounded_def push_front_existing_def sat_small(1))
qed

lemma bounded_discard: "overflow_bounded o' \<Longrightarrow> overflow_bounded (discard_pending i o')"
proof -
  assume b: "overflow_bounded o'"
  then have "overflow_total ((by_invocation o')(i := None)) + events_bytes (pending_events o' i) = overflow_total (by_invocation o')"
    using overflow_total_upd [of "by_invocation o'" i None] by (simp add: overflow_bounded_def pending_events_def)
  with b show ?thesis by (auto simp: overflow_bounded_def discard_pending_def events_bytes_def)
qed

lemma bounded_simple [simp]:
  "overflow_bounded (mark_incomplete i r o') = overflow_bounded o'"
  "overflow_bounded (snd (admit_chunk i n o')) = overflow_bounded o'"
  "overflow_bounded (snd (overflow_finish i o')) = overflow_bounded o'"
  "overflow_bounded (hq_overflow (note_capture_incomplete i r q)) = overflow_bounded (hq_overflow q)"
  "overflow_bounded (hq_overflow (degrade_nonblocking r q)) = overflow_bounded (hq_overflow q)"
  "overflow_bounded (hq_overflow (degrade_output_capture i r q)) = overflow_bounded (hq_overflow q)"
  "overflow_bounded (hq_overflow (snd (try_send ans e q))) = overflow_bounded (hq_overflow q)"
  by (simp_all add: overflow_bounded_def mark_incomplete_def admit_chunk_def overflow_finish_def health_ops)

lemma bounded_flush:
  "overflow_bounded (hq_overflow q) \<Longrightarrow> overflow_bounded (hq_overflow (snd (flush_output_overflow_nonblocking ans i q)))"
proof (induction ans i q rule: flush_output_overflow_nonblocking.induct)
  case (1 ans i q)
  obtain popped o' where pop: "overflow_pop_front i (hq_overflow q) = (popped, o')" by force
  show ?case
  proof (cases popped)
    case None
    with pop 1 show ?thesis by (simp add: flush_output_overflow_nonblocking.simps)
  next
    case (Some e)
    note both = bounded_pop_push [OF "1.prems" pop [unfolded Some]]
    obtain a q1 where send: "try_send ans e (q\<lparr>hq_overflow := o'\<rparr>) = (a, q1)" by force
    then have "hq_overflow q1 = o'" by (auto simp: try_send_def Let_def)
    with 1 pop Some send both show ?thesis
      by (cases a) (simp_all add: flush_output_overflow_nonblocking.simps [of ans i q])
  qed
qed

lemma bounded_buffer:
  "overflow_bounded (hq_overflow q) \<Longrightarrow> overflow_bounded (hq_overflow (buffer_output_overflow e i q))"
  by (cases "overflow_push_back i e (hq_overflow q)")
    (auto simp: buffer_output_overflow_def dest: bounded_push_back split: bool.split)

lemma bounded_chunk:
  assumes "overflow_bounded (hq_overflow q)"
  shows "overflow_bounded (hq_overflow (try_enqueue_output_chunk ans e i q))"
proof -
  obtain ok o' where admit: "admit_chunk i (output_event_bytes e) (hq_overflow q) = (ok, o')" by force
  then have 0: "overflow_bounded o'" using assms bounded_simple(2) [of i "output_event_bytes e" "hq_overflow q"] by simp
  obtain ok1 q1 where fl: "flush_output_overflow_nonblocking ans i (q\<lparr>hq_overflow := o'\<rparr>) = (ok1, q1)" by force
  have 1: "overflow_bounded (hq_overflow q1)" using bounded_flush [of "q\<lparr>hq_overflow := o'\<rparr>" ans i] 0 fl by simp
  obtain b q2 where send: "try_send ans e q1 = (b, q2)" by force
  have 2: "overflow_bounded (hq_overflow q2)" using bounded_simple(7) [of ans e q1] 1 send by simp
  have "overflow_bounded (hq_overflow (send_or_buffer ans e i q1))"
    using 1 2 send by (cases b) (simp_all add: send_or_buffer_def bounded_buffer)
  with 0 1 admit fl show ?thesis
    by (cases ok; cases ok1) (auto simp: try_enqueue_output_chunk_def split: option.split)
qed

lemma bounded_completion:
  assumes "overflow_bounded (hq_overflow q)"
  shows "overflow_bounded (hq_overflow (enqueue_output_completion ans i a q))"
proof -
  obtain ok q1 where fl: "flush_output_overflow_nonblocking ans i q = (ok, q1)" by force
  have 1: "overflow_bounded (hq_overflow q1)" using bounded_flush [OF assms, of ans i] fl by simp
  obtain reason o' where fin: "overflow_finish i (discard_tail i (hq_overflow q1)) = (reason, o')" by force
  have "o' = snd (overflow_finish i (discard_tail i (hq_overflow q1)))" using fin by simp
  then have o': "overflow_bounded o'" using 1 bounded_discard [OF 1, of i] by (simp add: discard_tail_def)
  define event where "event = (case reason of Some r \<Rightarrow> Incomplete i a r | None \<Rightarrow> Complete i a)"
  obtain b q2 where send: "try_send ans event (q1\<lparr>hq_overflow := o'\<rparr>) = (b, q2)" by force
  have "overflow_bounded (hq_overflow q2)" using bounded_simple(7) [of ans event "q1\<lparr>hq_overflow := o'\<rparr>"] o' send by simp
  with 1 fl fin send show ?thesis
    by (cases ok; cases b) (auto simp: enqueue_output_completion_def event_def)
qed

section \<open>Runs\<close>

definition queue_new :: history_queue where
  "queue_new = \<lparr>hq_overflow = \<lparr>by_invocation = Map.empty, overflow_bytes = 0, captured_bytes = Map.empty,
     incomplete_reasons = Map.empty\<rparr>, hq_sent = [], hq_attempts = 0, hq_capture = Map.empty,
     hq_degraded = False, hq_reason = None\<rparr>"

text \<open>The runs of the queue for any number of invocations: \<open>offered i\<close> are the sequence numbers and texts
  read for \<open>i\<close>, and \<open>finished\<close> the invocations whose end of output was observed.\<close>

inductive queue_run :: "history_queue \<Rightarrow> (int \<Rightarrow> (nat \<times> rstr) list) \<Rightarrow> int set \<Rightarrow> bool" where
  queue_start: "queue_run queue_new (\<lambda>_. []) {}"
| queue_chunk: "queue_run q offered finished \<Longrightarrow> i \<notin> finished \<Longrightarrow>
    queue_run (observe_output ans now (Some i) a n x q) (offered(i := offered i @ [(n, x)])) finished"
| queue_complete: "queue_run q offered finished \<Longrightarrow> i \<notin> finished \<Longrightarrow>
    queue_run (observe_output_complete ans (Some i) a q) offered (insert i finished)"

lemma observe_other:
  assumes "j \<noteq> i" "capturing i off (view q i)"
  shows "view (observe_output ans now (Some i) a n x q) j = view q j"
  using assms by (cases now) (auto simp: observe_output_def Let_def intro: chunk_other)

lemma queue_run_invariant:
  assumes "queue_run q offered finished"
  shows "overflow_bounded (hq_overflow q) \<and>
    (\<forall>i. if i \<in> finished then captured i (offered i) (view q i) else capturing i (offered i) (view q i))"
  using assms
proof induction
  case queue_start
  show ?case
    by (auto simp: queue_new_def overflow_bounded_def overflow_total_def capturing_def view_def pending_events_def sent_events_def)
next
  case (queue_chunk q offered finished i ans now a n x)
  then have i: "capturing i (offered i) (view q i)" by (metis (full_types))
  have "overflow_bounded (hq_overflow (observe_output ans now (Some i) a n x q))"
    using queue_chunk by (cases now) (auto simp: observe_output_def Let_def bounded_chunk)
  moreover have "view (observe_output ans now (Some i) a n x q) j = view q j" if "j \<noteq> i" for j
    by (rule observe_other [OF that i])
  ultimately show ?case using queue_chunk capturing_observe [OF i] by auto
next
  case (queue_complete q offered finished i ans a)
  then have i: "capturing i (offered i) (view q i)" by (metis (full_types))
  have "view (enqueue_output_completion ans i a q) j = view q j" if "j \<noteq> i" for j
    by (rule completion_other [OF that i])
  then have "if j \<in> insert i finished then captured j (offered j) (view (enqueue_output_completion ans i a q) j)
      else capturing j (offered j) (view (enqueue_output_completion ans i a q) j)" for j
    using queue_complete captured_completion [OF i, of ans a] by (cases "j = i") (simp, metis insert_iff)
  with queue_complete bounded_completion show ?case by (simp add: observe_output_complete_def)
qed

section \<open>Properties\<close>

text \<open>
  C20: However the channel to the history writer answers, and however the outputs of several commands
  interleave: what the writer receives for a command is a subsequence of the chunks read, in order; a
  command whose output has ended has been announced as complete, announced as incomplete, or noted
  as incomplete in the health record; and when it was announced as complete without such a note, the
  writer has received every chunk.
\<close>

theorem output_capture_is_truthful:
  assumes "queue_run q offered finished"
  shows "subseq (chunks (sent_events q i)) (offered i) \<and>
    (i \<in> finished \<longrightarrow>
       hq_capture q i \<noteq> None \<or> (\<exists>a r. Incomplete i a r \<in> set (hq_sent q)) \<or> (\<exists>a. Complete i a \<in> set (hq_sent q))) \<and>
    ((\<exists>a. Complete i a \<in> set (hq_sent q)) \<and> hq_capture q i = None \<longrightarrow> chunks (sent_events q i) = offered i)"
proof -
  have inv: "if i \<in> finished then captured i (offered i) (view q i) else capturing i (offered i) (view q i)"
    using queue_run_invariant [OF assms] by blast
  have sent: "cv_sent (view q i) = sent_events q i" "cv_health (view q i) = hq_capture q i" by (simp_all add: view_def)
  have mem: "Complete i b \<in> set (sent_events q i) \<longleftrightarrow> Complete i b \<in> set (hq_sent q)"
    "Incomplete i b r \<in> set (sent_events q i) \<longleftrightarrow> Incomplete i b r \<in> set (hq_sent q)" for b r
    by (auto simp: sent_events_def)
  show ?thesis
  proof (cases "i \<in> finished")
    case True
    with inv show ?thesis unfolding captured_def sent mem by auto
  next
    case False
    with inv have "list_all (own_chunk i) (sent_events q i)" "subseq (chunks (sent_events q i)) (offered i)"
      by (auto simp: capturing_def sent dest: subseq_prefix)
    with False mem show ?thesis using own_not_final by metis
  qed
qed


section \<open>Example\<close>

text \<open>The channel is full for the first chunk and takes everything from then on.\<close>

definition example_answers :: "nat \<Rightarrow> send_answer" where
  "example_answers n = (if n = 0 then SendFull else SendOk)"

definition example_queue :: history_queue where
  "example_queue =
     observe_output_complete example_answers (Some 7) None
       (observe_output example_answers (Inr 1) (Some 7) None 1 ''b''
         (observe_output example_answers (Inr 0) (Some 7) None 0 ''a'' queue_new))"

lemma example_queue_run: "queue_run example_queue ((\<lambda>_. [])(7 := [(0, ''a''), (1, ''b'')])) {7}"
proof -
  have "queue_run (observe_output example_answers (Inr 1) (Some 7) None 1 ''b''
      (observe_output example_answers (Inr 0) (Some 7) None 0 ''a'' queue_new)) ((\<lambda>_. [])(7 := [(0, ''a''), (1, ''b'')])) {}"
    using queue_chunk [OF queue_chunk [OF queue_start, of 7 example_answers "Inr 0" None 0 "''a''"],
        of 7 example_answers "Inr 1" None 1 "''b''"] by simp
  from queue_complete [OF this, of 7 example_answers None] show ?thesis by (simp add: example_queue_def)
qed

lemma example_sent: "hq_sent example_queue = [Chunk 7 None 0 0 ''a'', Chunk 7 None 1 1 ''b'', Complete 7 None]"
  "hq_capture example_queue 7 = None"
  by (simp_all add: example_queue_def queue_new_def example_answers_def observe_output_def observe_output_complete_def
      try_enqueue_output_chunk_def enqueue_output_completion_def flush_output_overflow_nonblocking.simps
      overflow_ops health_ops has_pending_def send_or_buffer_def buffer_output_overflow_def sat_add_def usize_max_def
      OUTPUT_CAPTURE_MAX_BYTES_PER_INVOCATION_def OUTPUT_TRANSIENT_OVERFLOW_MAX_BYTES_def)

theorem output_capture_is_truthful_witness:
  "chunks (sent_events example_queue 7) = [(0, ''a''), (1, ''b'')]"
  using output_capture_is_truthful [OF example_queue_run, of 7] by (auto simp: example_sent)


end
