(* ===== verification/Display_Text.thy ===== *)
theory Display_Text
  imports Utf8_Stream
begin

text \<open>
  Text made safe for display (\<^verbatim>\<open>src/local/presentation/sanitize.rs\<close>).  Stripping ANSI sequences is done by a
  library and is a parameter; what remains is read scalar by scalar.  The string functions of the
  source work on valid UTF-8, where the scalars are the groups \<open>utf8_chars\<close>.
\<close>

section \<open>Scalars\<close>

function utf8_chars :: "rstr \<Rightarrow> rstr list" where
  "utf8_chars [] = []"
| "utf8_chars (c # s) = (c # takeWhile is_cont s) # utf8_chars (dropWhile is_cont s)"
  by pat_completeness auto
termination
  by (relation "measure length") (auto simp: le_imp_less_Suc length_dropWhile_le)

fun code_point :: "rstr \<Rightarrow> nat" where
  "code_point [a] = byte a"
| "code_point [a, b] = (byte a - 192) * 64 + (byte b - 128)"
| "code_point [a, b, c] = (byte a - 224) * 4096 + (byte b - 128) * 64 + (byte c - 128)"
| "code_point [a, b, c, d] = (byte a - 240) * 262144 + (byte b - 128) * 4096 + (byte c - 128) * 64 + (byte d - 128)"
| "code_point _ = 0"

definition is_control :: "nat \<Rightarrow> bool" where
  "is_control v \<longleftrightarrow> v < 32 \<or> 127 \<le> v \<and> v \<le> 159"

definition is_bidi_control :: "nat \<Rightarrow> bool" where
  "is_bidi_control v \<longleftrightarrow>
     v = 0x061c \<or> v = 0x200e \<or> v = 0x200f \<or> 0x202a \<le> v \<and> v \<le> 0x202e \<or> 0x2066 \<le> v \<and> v \<le> 0x2069"

section \<open>Sanitizing\<close>

definition hex_char :: "nat \<Rightarrow> char" where
  "hex_char d = (if d < 10 then char_of (48 + d) else char_of (87 + d))"

fun show_hex :: "nat \<Rightarrow> rstr" where
  "show_hex n = (if n < 16 then [hex_char n] else show_hex (n div 16) @ [hex_char (n mod 16)])"

declare show_hex.simps [simp del]

definition sanitize_char :: "rstr \<Rightarrow> rstr" where
  "sanitize_char ch =
     (if ch = [nl] \<or> ch = [CHR 9] then ch
      else if is_control (code_point ch) \<or> is_bidi_control (code_point ch)
        then [CHR 92] @ ''u{'' @ show_hex (code_point ch) @ ''}''
      else ch)"

definition sanitize_stripped_text :: "rstr \<Rightarrow> rstr" where
  "sanitize_stripped_text input = concat (map sanitize_char (utf8_chars input))"

definition sanitize_display_text :: "(rstr \<Rightarrow> rstr) \<Rightarrow> rstr \<Rightarrow> rstr" where
  "sanitize_display_text strip_str input = sanitize_stripped_text (strip_str input)"

definition PREVIEW_ELLIPSIS :: rstr where
  "PREVIEW_ELLIPSIS = [CHR 0xE2, CHR 0x80, CHR 0xA6]"

definition PREVIEW_INPUT_SCAN_MULTIPLIER :: nat where "PREVIEW_INPUT_SCAN_MULTIPLIER = 8"
definition PREVIEW_INPUT_SCAN_SLOP :: nat where "PREVIEW_INPUT_SCAN_SLOP = 256"

definition sanitize_preview :: "(rstr \<Rightarrow> rstr) \<Rightarrow> rstr \<Rightarrow> nat \<Rightarrow> rstr \<times> bool" where
  "sanitize_preview strip_str input max_chars =
     (let scan_limit = sat_add (sat_mul max_chars PREVIEW_INPUT_SCAN_MULTIPLIER) PREVIEW_INPUT_SCAN_SLOP;
          input_chars = utf8_chars input;
          input_truncated = scan_limit < length input_chars;
          sanitized = utf8_chars (sanitize_display_text strip_str (concat (take scan_limit input_chars)));
          preview = concat (take max_chars sanitized)
      in if input_truncated \<or> max_chars < length sanitized then (preview @ PREVIEW_ELLIPSIS, True)
         else (preview, False))"

section \<open>Code spans\<close>

text \<open>\<open>tick_runs\<close> are the pieces of \<^verbatim>\<open>split(|ch| ch != '`')\<close>: the runs of backquotes between other characters.\<close>

fun tick_runs :: "nat \<Rightarrow> rstr \<Rightarrow> nat list" where
  "tick_runs n [] = [n]"
| "tick_runs n (c # s) =
     (if c = CHR ''`'' then tick_runs (Suc n) s
      else if is_cont c then tick_runs n s
      else n # tick_runs 0 s)"

definition markdown_code_span :: "rstr \<Rightarrow> rstr" where
  "markdown_code_span value =
     (let flattened = map (\<lambda>c. if c = nl then CHR '' '' else c) value;
          longest_run = foldr max (tick_runs 0 flattened) 0;
          fence = replicate (max (sat_add longest_run 1) 1) (CHR ''`'')
      in if starts_with flattened ''`'' \<or> ends_with flattened ''`'' \<or>
            starts_with flattened '' '' \<and> ends_with flattened '' ''
         then fence @ '' '' @ flattened @ '' '' @ fence
         else fence @ flattened @ fence)"

section \<open>Lemmas on scalars\<close>

definition at_boundary :: "rstr \<Rightarrow> bool" where
  "at_boundary s \<longleftrightarrow> s = [] \<or> \<not> is_cont (hd s)"

lemma valid_at_boundary: "valid_utf8 s \<Longrightarrow> at_boundary s"
proof (cases "s = []")
  case False
  assume "valid_utf8 s"
  with False obtain n where "scan s = Scalar n"
    by (auto simp: valid_utf8_def from_utf8.simps [of s] split: utf8_scan.splits)
  with scan_Scalar_lead False show ?thesis by (auto simp: at_boundary_def hd_conv_nth)
qed (simp add: at_boundary_def)

lemma concat_utf8_chars [simp]: "concat (utf8_chars s) = s"
  by (induction s rule: utf8_chars.induct) simp_all

lemma utf8_chars_append: "at_boundary t \<Longrightarrow> utf8_chars (s @ t) = utf8_chars s @ utf8_chars t"
proof (induction s rule: utf8_chars.induct)
  case (2 c s)
  show ?case
  proof (cases "list_all is_cont s")
    case True
    moreover have "takeWhile is_cont t = []" "dropWhile is_cont t = t"
      using "2.prems" by (cases t; simp add: at_boundary_def)+
    ultimately have *: "takeWhile is_cont (s @ t) = s" "dropWhile is_cont (s @ t) = t"
      "takeWhile is_cont s = s" "dropWhile is_cont s = []"
      by (auto simp: list_all_iff takeWhile_append dropWhile_append)
    show ?thesis by (simp only: append_Cons append_Nil utf8_chars.simps *)
  next
    case False
    then obtain x where "x \<in> set s" "\<not> is_cont x" by (auto simp: list_all_iff)
    then have "takeWhile is_cont (s @ t) = takeWhile is_cont s" "dropWhile is_cont (s @ t) = dropWhile is_cont s @ t"
      by (simp_all add: takeWhile_append1 dropWhile_append1)
    with 2 show ?thesis by simp
  qed
qed simp

lemma utf8_chars_member:
  assumes "at_boundary s" "ch \<in> set (utf8_chars s)"
  shows "at_boundary ch \<and> utf8_chars ch = [ch]"
  using assms
proof (induction s rule: utf8_chars.induct)
  case (2 c s)
  have drop: "at_boundary (dropWhile is_cont s)"
    using hd_dropWhile [of is_cont s] by (auto simp: at_boundary_def)
  have conts: "takeWhile is_cont (takeWhile is_cont s) = takeWhile is_cont s"
    "dropWhile is_cont (takeWhile is_cont s) = []" by (auto dest: set_takeWhileD)
  show ?case
  proof (cases "ch = c # takeWhile is_cont s")
    case True
    then have "utf8_chars ch = [ch]" by (simp only: utf8_chars.simps conts)
    with True "2.prems" show ?thesis by (simp add: at_boundary_def)
  next
    case False
    with "2.prems"(2) have "ch \<in> set (utf8_chars (dropWhile is_cont s))" by simp
    with "2.IH" drop show ?thesis by blast
  qed
qed simp

lemma at_boundary_append: "at_boundary s \<Longrightarrow> at_boundary t \<Longrightarrow> at_boundary (s @ t)"
  by (cases s) (auto simp: at_boundary_def)

lemma at_boundary_concat: "(\<And>p. p \<in> set ps \<Longrightarrow> at_boundary p) \<Longrightarrow> at_boundary (concat ps)"
proof (induction ps)
  case (Cons p ps)
  then show ?case using at_boundary_append [of p "concat ps"] by simp
qed (simp add: at_boundary_def)

lemma utf8_chars_concat:
  "(\<And>p. p \<in> set ps \<Longrightarrow> at_boundary p) \<Longrightarrow> utf8_chars (concat ps) = concat (map utf8_chars ps)"
proof (induction ps)
  case (Cons p ps)
  then have "at_boundary (concat ps)" by (intro at_boundary_concat) auto
  with Cons show ?case by (simp add: utf8_chars_append)
qed simp

lemma utf8_chars_ascii: "(\<And>c. c \<in> set s \<Longrightarrow> \<not> is_cont c) \<Longrightarrow> utf8_chars s = map (\<lambda>c. [c]) s"
proof (induction s rule: utf8_chars.induct)
  case (2 c s)
  then have "takeWhile is_cont s = [] \<and> dropWhile is_cont s = s" by (cases s) auto
  with 2 show ?case by simp
qed simp

section \<open>Safe text\<close>

definition safe_scalar :: "rstr \<Rightarrow> bool" where
  "safe_scalar ch \<longleftrightarrow>
     ch = [nl] \<or> ch = [CHR 9] \<or> \<not> is_control (code_point ch) \<and> \<not> is_bidi_control (code_point ch)"

definition safe_display :: "rstr \<Rightarrow> bool" where
  "safe_display s \<longleftrightarrow> list_all safe_scalar (utf8_chars s)"

definition printable :: "char \<Rightarrow> bool" where
  "printable c \<longleftrightarrow> 32 \<le> byte c \<and> byte c < 127"

lemma printable_safe: "list_all printable s \<Longrightarrow> utf8_chars s = map (\<lambda>c. [c]) s \<and> list_all safe_scalar (utf8_chars s) \<and> at_boundary s"
proof -
  assume p: "list_all printable s"
  then have asc: "\<not> is_cont c" if "c \<in> set s" for c using that by (auto simp: list_all_iff printable_def is_cont_def)
  then have u: "utf8_chars s = map (\<lambda>c. [c]) s" by (rule utf8_chars_ascii)
  have "at_boundary s" using asc by (cases s) (auto simp: at_boundary_def)
  with p u show ?thesis
    by (auto simp: list_all_iff safe_scalar_def printable_def is_control_def is_bidi_control_def)
qed

lemma hex_char_printable: "d < 16 \<Longrightarrow> printable (hex_char d)"
  by (auto simp: hex_char_def printable_def of_char_of)

lemma show_hex_printable: "list_all printable (show_hex n)"
  by (induction n rule: show_hex.induct) (subst show_hex.simps, simp add: hex_char_printable)

lemma sanitize_char_safe:
  assumes "at_boundary ch" "utf8_chars ch = [ch]"
  shows "at_boundary (sanitize_char ch) \<and> list_all safe_scalar (utf8_chars (sanitize_char ch))"
proof (cases "safe_scalar ch")
  case True
  then have "sanitize_char ch = ch" by (auto simp: sanitize_char_def safe_scalar_def)
  with assms True show ?thesis by simp
next
  case False
  then have "sanitize_char ch = [CHR 92] @ ''u{'' @ show_hex (code_point ch) @ ''}''"
    by (auto simp: sanitize_char_def safe_scalar_def)
  moreover have "list_all printable ([CHR 92] @ ''u{'' @ show_hex (code_point ch) @ ''}'')"
    using show_hex_printable by (simp add: printable_def)
  ultimately show ?thesis using printable_safe by metis
qed

lemma sanitize_at_boundary:
  assumes "at_boundary s"
  shows "at_boundary (sanitize_stripped_text s) \<and> safe_display (sanitize_stripped_text s)"
proof -
  have each: "at_boundary (sanitize_char ch) \<and> list_all safe_scalar (utf8_chars (sanitize_char ch))"
    if "ch \<in> set (utf8_chars s)" for ch
    using sanitize_char_safe utf8_chars_member [OF assms that] by blast
  then have "utf8_chars (sanitize_stripped_text s) = concat (map utf8_chars (map sanitize_char (utf8_chars s)))"
    unfolding sanitize_stripped_text_def by (intro utf8_chars_concat) auto
  moreover have "at_boundary (sanitize_stripped_text s)"
    unfolding sanitize_stripped_text_def using each by (intro at_boundary_concat) auto
  moreover have "list_all safe_scalar (concat (map utf8_chars (map sanitize_char (utf8_chars s))))"
    unfolding list_all_iff using each by (force simp only: set_concat set_map list_all_iff)
  ultimately show ?thesis by (simp only: safe_display_def)
qed

lemma sanitize_safe_id: "safe_display s \<Longrightarrow> sanitize_stripped_text s = s"
proof -
  assume "safe_display s"
  then have "safe_scalar ch" if "ch \<in> set (utf8_chars s)" for ch
    using that by (simp add: safe_display_def list_all_iff)
  then have "map sanitize_char (utf8_chars s) = utf8_chars s"
    by (intro map_idI) (metis safe_scalar_def sanitize_char_def)
  then show ?thesis by (simp add: sanitize_stripped_text_def)
qed

lemma sanitize_append: "at_boundary t \<Longrightarrow> sanitize_stripped_text (s @ t) = sanitize_stripped_text s @ sanitize_stripped_text t"
  by (simp add: sanitize_stripped_text_def utf8_chars_append)

section \<open>Properties\<close>

text \<open>
  C33: Text shown to a user contains no control character other than newline and tab and no
  bidirectional override: all of them are replaced by printable escapes.  Text that is already safe
  is shown unchanged, so sanitizing twice changes nothing.
\<close>

theorem sanitized_text_is_safe:
  assumes "valid_utf8 (strip_str input)"
  shows "safe_display (sanitize_display_text strip_str input) \<and>
    (safe_display (strip_str input) \<longrightarrow> sanitize_display_text strip_str input = strip_str input) \<and>
    sanitize_stripped_text (sanitize_display_text strip_str input) = sanitize_display_text strip_str input"
  using sanitize_at_boundary [OF valid_at_boundary [OF assms]] sanitize_safe_id
  by (auto simp: sanitize_display_text_def)

theorem sanitized_text_is_safe_witness:
  "safe_display (sanitize_display_text (\<lambda>s. s) [CHR ''a'', CHR 27, CHR 0xE2, CHR 0x80, CHR 0xAE])"
proof -
  have "valid_utf8 [CHR ''a'', CHR 27, CHR 0xE2, CHR 0x80, CHR 0xAE]"
    by (simp add: valid_utf8_def from_utf8.simps scan_def second_ok3_def is_cont_def)
  with sanitized_text_is_safe [of "\<lambda>s. s"] show ?thesis by blast
qed

section \<open>Code spans\<close>

definition longest_run :: "rstr \<Rightarrow> nat" where
  "longest_run s = foldr max (tick_runs 0 s) 0"

lemma tick_runs_start: "starts_with s (replicate m (CHR ''`'')) \<Longrightarrow> n + m \<le> foldr max (tick_runs n s) 0"
proof (induction m arbitrary: n s)
  case 0
  show ?case
  proof (induction s arbitrary: n)
    case (Cons c s)
    from Cons.IH [of "Suc n"] Cons.IH [of n] show ?case by auto
  qed simp
next
  case (Suc m)
  then obtain r where s: "s = CHR ''`'' # r" "starts_with r (replicate m (CHR ''`''))"
    by (cases s) auto
  with Suc.IH [OF s(2), of "Suc n"] show ?case by simp
qed

lemma tick_runs_anywhere:
  "starts_with (drop j s) (replicate m (CHR ''`'')) \<Longrightarrow> m \<le> foldr max (tick_runs n s) 0"
proof (induction s arbitrary: j n)
  case (Cons c s)
  show ?case
  proof (cases j)
    case 0
    with Cons.prems tick_runs_start [of "c # s" m n] show ?thesis by (simp del: tick_runs.simps)
  next
    case (Suc k)
    with Cons.prems have "starts_with (drop k s) (replicate m (CHR ''`''))" by simp
    from Cons.IH [OF this, of 0] Cons.IH [OF this, of n] Cons.IH [OF this, of "Suc n"] show ?thesis by auto
  qed
qed (simp add: starts_with_def)

lemma no_fence_inside: "longest_run s < m \<Longrightarrow> \<not> str_contains s (replicate m (CHR ''`''))"
proof
  assume m: "longest_run s < m" and "str_contains s (replicate m (CHR ''`''))"
  then obtain j where "find_sub (replicate m (CHR ''`'')) s = Some j" by (auto simp: str_contains_def)
  from tick_runs_anywhere [OF find_sub_Some_match [OF this], of 0] m show False by (simp add: longest_run_def)
qed

lemma tick_runs_snoc: "tick_runs n (s @ '' '') = tick_runs n s @ [0]"
  by (induction s arbitrary: n) (auto simp: is_cont_def)

lemma longest_run_padded: "longest_run ('' '' @ s @ '' '') = longest_run s"
proof -
  have "foldr max (xs @ [0]) 0 = foldr max xs (0::nat)" for xs by (induction xs) auto
  then show ?thesis using tick_runs_snoc by (simp add: longest_run_def is_cont_def)
qed

lemma tick_runs_le: "foldr max (tick_runs n s) 0 \<le> n + length s"
proof (induction s arbitrary: n)
  case (Cons c s)
  from Cons.IH [of "Suc n"] Cons.IH [of n] Cons.IH [of 0] show ?case by auto
qed simp

text \<open>
  A value rendered as a Markdown code span cannot break out of it: the span is a fence of
  backquotes, a one-line body and the same fence, no run of backquotes in the body is as long as the
  fence, and the body neither starts nor ends with a backquote.
\<close>

theorem code_span_cannot_be_closed_early:
  assumes "length value < usize_max"
  shows "\<exists>n body. markdown_code_span value = replicate n (CHR ''`'') @ body @ replicate n (CHR ''`'') \<and> 0 < n \<and>
    \<not> str_contains body (replicate n (CHR ''`'')) \<and> nl \<notin> set body \<and>
    (body = [] \<or> hd body \<noteq> CHR ''`'' \<and> last body \<noteq> CHR ''`'') \<and>
    (let flat = map (\<lambda>c. if c = nl then CHR '' '' else c) value in body = flat \<or> body = '' '' @ flat @ '' '')"
proof -
  define flat where "flat = map (\<lambda>c. if c = nl then CHR '' '' else c) value"
  define n where "n = Suc (longest_run flat)"
  have "longest_run flat \<le> length value" using tick_runs_le [of 0 flat] by (simp add: longest_run_def flat_def)
  then have fence: "max (sat_add (longest_run flat) 1) 1 = n" using assms by (simp add: sat_add_def n_def)
  have plain: "nl \<notin> set flat" by (auto simp: flat_def)
  define padded where "padded \<longleftrightarrow> starts_with flat ''`'' \<or> ends_with flat ''`'' \<or> starts_with flat '' '' \<and> ends_with flat '' ''"
  define body where "body = (if padded then '' '' @ flat @ '' '' else flat)"
  have "markdown_code_span value = replicate n (CHR ''`'') @ body @ replicate n (CHR ''`'')"
    using fence by (simp add: markdown_code_span_def Let_def flat_def [symmetric] longest_run_def [symmetric]
        body_def padded_def)
  moreover have "longest_run body < n" using longest_run_padded by (simp add: body_def n_def)
  moreover have "body = [] \<or> hd body \<noteq> CHR ''`'' \<and> last body \<noteq> CHR ''`''"
  proof (cases padded)
    case False
    then have "\<not> starts_with flat ''`''" "\<not> ends_with flat ''`''" by (auto simp: padded_def)
    moreover have "ends_with flat ''`''" if "flat \<noteq> []" "last flat = CHR ''`''"
      using that by (metis append_butlast_last_id ends_with_iff)
    ultimately show ?thesis using False by (cases flat) (auto simp: body_def)
  qed (simp add: body_def)
  ultimately show ?thesis using plain no_fence_inside [of body n]
    by (intro exI [of _ n] exI [of _ body]) (auto simp: body_def flat_def [symmetric] n_def Let_def)
qed

theorem code_span_cannot_be_closed_early_witness:
  "\<exists>n body. markdown_code_span ''a``b'' = replicate n (CHR ''`'') @ body @ replicate n (CHR ''`'') \<and>
     \<not> str_contains body (replicate n (CHR ''`''))"
  using code_span_cannot_be_closed_early [of "''a``b''"] by (auto simp: usize_max_def)

end
