(* ===== verification/Display_Stream.thy ===== *)
theory Display_Stream
  imports Display_Text
begin

text \<open>
  The display of command output: the stateful sanitizer (\<^verbatim>\<open>StreamingDisplaySanitizer\<close> in
  \<^verbatim>\<open>src/local/presentation/sanitize.rs\<close>), the live streams of the history worker
  (\<^verbatim>\<open>src/local/history/live_display.rs\<close>) and the replay of stored chunks
  (\<^verbatim>\<open>src/local/history/output_display.rs\<close>).  The ANSI parser is a library: \<open>write w raw\<close> are the bytes it emits
  and its next state.  What it must promise for the display to make sense is the contract
  \<open>chunk_decoder\<close>.
\<close>

section \<open>The streaming sanitizer\<close>

text \<open>\<^const>\<open>None\<close> is the panic on output of the parser that is not UTF-8.\<close>

definition sanitizer_push :: "('w \<Rightarrow> rstr \<Rightarrow> rstr \<times> 'w) \<Rightarrow> 'w \<Rightarrow> rstr \<Rightarrow> (rstr \<times> 'w) option" where
  "sanitizer_push write w raw =
     (let (bytes, w') = write w raw
      in if valid_utf8 bytes then Some (sanitize_stripped_text bytes, w') else None)"

definition sanitizer_advance :: "('w \<Rightarrow> rstr \<Rightarrow> rstr \<times> 'w) \<Rightarrow> 'w \<Rightarrow> rstr \<Rightarrow> 'w" where
  "sanitizer_advance write w raw = snd (write w raw)"

section \<open>Live streams\<close>

definition DISPLAY_AVAILABLE :: rstr where "DISPLAY_AVAILABLE = ''available''"
definition DISPLAY_UNAVAILABLE :: rstr where "DISPLAY_UNAVAILABLE = ''unavailable''"

record 'w live_display_stream =
  ls_sanitizer :: 'w
  ls_next_sequence :: nat
  ls_unavailable_reason :: "rstr option"

record live_display_delta =
  ld_text :: rstr
  ld_state :: rstr
  ld_reason :: "rstr option"

type_synonym 'w live_display_streams = "int \<Rightarrow> 'w live_display_stream option"

definition live_gap :: "nat \<Rightarrow> nat \<Rightarrow> rstr" where
  "live_gap expected sequence =
     ''live PTY display sequence is incomplete at '' @ show_nat expected @
     '' (next observed sequence is '' @ show_nat sequence @ '')''"

definition live_note_sequence :: "nat \<Rightarrow> 'w live_display_stream \<Rightarrow> 'w live_display_stream" where
  "live_note_sequence sequence stream =
     stream\<lparr>ls_unavailable_reason :=
              (if ls_unavailable_reason stream = None \<and> sequence \<noteq> ls_next_sequence stream
               then Some (live_gap (ls_next_sequence stream) sequence) else ls_unavailable_reason stream),
            ls_next_sequence := sat_add sequence 1\<rparr>"

definition live_observe ::
    "('w \<Rightarrow> rstr \<Rightarrow> rstr \<times> 'w) \<Rightarrow> 'w \<Rightarrow> int \<Rightarrow> nat \<Rightarrow> rstr \<Rightarrow> bool \<Rightarrow> 'w live_display_streams
      \<Rightarrow> (live_display_delta \<times> 'w live_display_streams) option" where
  "live_observe write w0 i sequence raw capture_text streams =
     (let stream = live_note_sequence sequence
            (case streams i of Some s \<Rightarrow> s
             | None \<Rightarrow> \<lparr>ls_sanitizer = w0, ls_next_sequence = 0, ls_unavailable_reason = None\<rparr>)
      in case ls_unavailable_reason stream of
           Some reason \<Rightarrow>
             Some (\<lparr>ld_text = [], ld_state = DISPLAY_UNAVAILABLE, ld_reason = Some reason\<rparr>, streams(i \<mapsto> stream))
         | None \<Rightarrow>
             if capture_text then
               map_option (\<lambda>(shown, w).
                 (\<lparr>ld_text = shown, ld_state = DISPLAY_AVAILABLE, ld_reason = None\<rparr>,
                  streams(i \<mapsto> stream\<lparr>ls_sanitizer := w\<rparr>)))
                 (sanitizer_push write (ls_sanitizer stream) raw)
             else
               Some (\<lparr>ld_text = [], ld_state = DISPLAY_AVAILABLE, ld_reason = None\<rparr>,
                 streams(i \<mapsto> stream\<lparr>ls_sanitizer := sanitizer_advance write (ls_sanitizer stream) raw\<rparr>)))"

definition live_complete :: "int \<Rightarrow> 'w live_display_streams \<Rightarrow> (rstr \<times> rstr option) \<times> 'w live_display_streams" where
  "live_complete i streams =
     (case Option.bind (streams i) ls_unavailable_reason of
        Some reason \<Rightarrow> ((DISPLAY_UNAVAILABLE, Some reason), streams(i := None))
      | None \<Rightarrow> ((DISPLAY_AVAILABLE, None), streams(i := None)))"

section \<open>Replay\<close>

record history_output_chunk =
  oc_sequence :: nat
  oc_observed_at_ms :: int
  oc_text :: rstr

record history_display_output_page =
  dp_chunks :: "history_output_chunk list"
  dp_next_cursor :: "nat option"
  dp_display_state :: rstr
  dp_display_reason :: "rstr option"

definition display_unavailable :: "rstr \<Rightarrow> history_display_output_page" where
  "display_unavailable reason =
     \<lparr>dp_chunks = [], dp_next_cursor = None, dp_display_state = ''unavailable'', dp_display_reason = Some reason\<rparr>"

definition stored_gap :: "nat \<Rightarrow> nat \<Rightarrow> rstr" where
  "stored_gap expected sequence =
     ''stored PTY output sequence is incomplete at '' @ show_nat expected @
     '' (next retained sequence is '' @ show_nat sequence @ '')''"

text \<open>The loop over the rows, in the order of the query: the reason for an unavailable page, or the
  state of the parser, the number expected next, the chunks and the next cursor.\<close>

fun replay_rows ::
    "('w \<Rightarrow> rstr \<Rightarrow> rstr \<times> 'w) \<Rightarrow> nat \<Rightarrow> nat \<Rightarrow> 'w \<Rightarrow> nat \<Rightarrow> history_output_chunk list \<Rightarrow> (int \<times> int \<times> rstr) list
      \<Rightarrow> (rstr + 'w \<times> nat \<times> history_output_chunk list \<times> nat option) option" where
  "replay_rows write cursor limit w expected chunks [] = Some (Inr (w, expected, chunks, None))"
| "replay_rows write cursor limit w expected chunks ((stored_sequence, observed_at_ms, raw) # rows) =
     (if stored_sequence < 0 then Some (Inl ''stored PTY output has an invalid negative sequence'')
      else
        let sequence = nat stored_sequence in
        if sequence \<noteq> expected then Some (Inl (stored_gap expected sequence))
        else if sequence < cursor then
          (case sanitizer_push write w raw of
             None \<Rightarrow> None
           | Some (_, w') \<Rightarrow> replay_rows write cursor limit w' (sat_add expected 1) chunks rows)
        else if limit \<le> length chunks then Some (Inr (w, sat_add expected 1, chunks, Some sequence))
        else
          (case sanitizer_push write w raw of
             None \<Rightarrow> None
           | Some (shown, w') \<Rightarrow>
               replay_rows write cursor limit w' (sat_add expected 1)
                 (chunks @ [\<lparr>oc_sequence = sequence, oc_observed_at_ms = observed_at_ms, oc_text = shown\<rparr>]) rows))"

text \<open>The rows, the stored result and its time are the answers of the database.\<close>

definition display_output_page ::
    "('w \<Rightarrow> rstr \<Rightarrow> rstr \<times> 'w) \<Rightarrow> 'w \<Rightarrow> int \<Rightarrow> rstr option \<Rightarrow> (int \<times> int \<times> rstr) list \<Rightarrow> nat \<Rightarrow> nat
      \<Rightarrow> history_display_output_page option" where
  "display_output_page write w0 result_observed_at_ms result_output rows cursor limit =
     (case replay_rows write cursor (max limit 1) w0 0 [] rows of
        None \<Rightarrow> None
      | Some (Inl reason) \<Rightarrow> Some (display_unavailable reason)
      | Some (Inr (w, expected, chunks, next_cursor)) \<Rightarrow>
          (case (if expected = 0 \<and> cursor = 0 then result_output else None) of
             Some (b # bs) \<Rightarrow>
               map_option (\<lambda>(shown, _).
                 \<lparr>dp_chunks = chunks @ [\<lparr>oc_sequence = 0, oc_observed_at_ms = result_observed_at_ms, oc_text = shown\<rparr>],
                  dp_next_cursor = next_cursor, dp_display_state = ''available'', dp_display_reason = None\<rparr>)
                 (sanitizer_push write w (b # bs))
           | _ \<Rightarrow>
               Some \<lparr>dp_chunks = chunks, dp_next_cursor = next_cursor, dp_display_state = ''available'',
                     dp_display_reason = None\<rparr>))"

section \<open>The text of a stream\<close>

text \<open>The reference: what each chunk of a stream shows.\<close>

fun display_texts :: "('w \<Rightarrow> rstr \<Rightarrow> rstr \<times> 'w) \<Rightarrow> 'w \<Rightarrow> rstr list \<Rightarrow> rstr list option" where
  "display_texts write w [] = Some []"
| "display_texts write w (raw # raws) =
     (case sanitizer_push write w raw of
        None \<Rightarrow> None
      | Some (shown, w') \<Rightarrow> map_option (Cons shown) (display_texts write w' raws))"

lemma display_texts_length: "display_texts write w raws = Some texts \<Longrightarrow> length texts = length raws"
  by (induction raws arbitrary: w texts) (auto split: option.splits)

lemma push_advance: "sanitizer_push write w raw = Some (t, w') \<Longrightarrow> sanitizer_advance write w raw = w'"
  by (auto simp: sanitizer_push_def sanitizer_advance_def split: prod.splits if_splits)

text \<open>A run of observations of one invocation.\<close>

fun live_feed ::
    "('w \<Rightarrow> rstr \<Rightarrow> rstr \<times> 'w) \<Rightarrow> 'w \<Rightarrow> int \<Rightarrow> (nat \<times> rstr \<times> bool) list \<Rightarrow> 'w live_display_streams
      \<Rightarrow> (live_display_delta list \<times> 'w live_display_streams) option" where
  "live_feed write w0 i [] streams = Some ([], streams)"
| "live_feed write w0 i ((sequence, raw, capture) # rest) streams =
     (case live_observe write w0 i sequence raw capture streams of
        None \<Rightarrow> None
      | Some (delta, streams') \<Rightarrow>
          map_option (\<lambda>(deltas, s). (delta # deltas, s)) (live_feed write w0 i rest streams'))"

definition stream_at :: "'w live_display_streams \<Rightarrow> 'w \<Rightarrow> int \<Rightarrow> 'w live_display_stream" where
  "stream_at streams w0 i = (case streams i of Some s \<Rightarrow> s
     | None \<Rightarrow> \<lparr>ls_sanitizer = w0, ls_next_sequence = 0, ls_unavailable_reason = None\<rparr>)"

lemma live_feed_texts:
  assumes "display_texts write w raws = Some texts" "length flags = length raws"
    "stream_at streams w0 i = \<lparr>ls_sanitizer = w, ls_next_sequence = e, ls_unavailable_reason = None\<rparr>"
    "e + length raws \<le> usize_max"
  shows "\<exists>streams'. live_feed write w0 i (zip [e..<e + length raws] (zip raws flags)) streams =
    Some (map (\<lambda>(t, f). \<lparr>ld_text = if f then t else [], ld_state = DISPLAY_AVAILABLE, ld_reason = None\<rparr>) (zip texts flags), streams')"
  using assms
proof (induction raws arbitrary: w texts flags streams e)
  case (Cons raw raws)
  from Cons.prems(1) obtain t w' texts' where push: "sanitizer_push write w raw = Some (t, w')"
    and rest: "display_texts write w' raws = Some texts'" "texts = t # texts'" by (auto split: option.splits)
  from Cons.prems(2) obtain f flags' where f: "flags = f # flags'" "length flags' = length raws" by (cases flags) auto
  have sat: "sat_add e 1 = Suc e" using Cons.prems(4) by (simp add: sat_add_def)
  let ?s = "\<lparr>ls_sanitizer = w', ls_next_sequence = Suc e, ls_unavailable_reason = None\<rparr>"
  have step: "live_observe write w0 i e raw f streams =
      Some (\<lparr>ld_text = if f then t else [], ld_state = DISPLAY_AVAILABLE, ld_reason = None\<rparr>, streams(i \<mapsto> ?s))"
    using push push_advance [OF push] sat Cons.prems(3)
    by (simp add: live_observe_def live_note_sequence_def stream_at_def [symmetric] Let_def)
  define streams1 where "streams1 = streams(i \<mapsto> ?s)"
  have "stream_at streams1 w0 i = ?s" by (simp add: streams1_def stream_at_def)
  from Cons.IH [OF rest(1) f(2) this] Cons.prems(4) step [folded streams1_def] rest(2) f(1)
  show ?case by (auto simp: upt_conv_Cons simp del: upt_Suc)
qed simp

definition output_chunks :: "nat \<Rightarrow> int list \<Rightarrow> rstr list \<Rightarrow> history_output_chunk list" where
  "output_chunks e stamps texts =
     map (\<lambda>(n, t, x). \<lparr>oc_sequence = n, oc_observed_at_ms = t, oc_text = x\<rparr>) (zip [e..<e + length texts] (zip stamps texts))"

definition stored_rows :: "nat \<Rightarrow> int list \<Rightarrow> rstr list \<Rightarrow> (int \<times> int \<times> rstr) list" where
  "stored_rows e stamps raws = zip (map int [e..<e + length raws]) (zip stamps raws)"

lemma output_chunks_Cons:
  "output_chunks e (t # stamps) (x # texts) =
     \<lparr>oc_sequence = e, oc_observed_at_ms = t, oc_text = x\<rparr> # output_chunks (Suc e) stamps texts"
  by (simp add: output_chunks_def upt_conv_Cons del: upt_Suc)

lemma stored_rows_Cons: "stored_rows e (t # stamps) (r # raws) = (int e, t, r) # stored_rows (Suc e) stamps raws"
  by (simp add: stored_rows_def upt_conv_Cons del: upt_Suc)

lemma output_chunks_length: "length stamps = length texts \<Longrightarrow> length (output_chunks e stamps texts) = length texts"
  by (simp add: output_chunks_def)

text \<open>The replay of stored chunks shows a window of the reference.\<close>

lemma replay_rows_texts:
  assumes "display_texts write w raws = Some texts" "length stamps = length raws" "e + length raws \<le> usize_max"
    "chunks = [] \<or> cursor \<le> e" "length chunks \<le> limit"
  shows "\<exists>w' expected. replay_rows write cursor limit w e chunks (stored_rows e stamps raws) =
      Some (Inr (w', expected, chunks @ take (limit - length chunks) (drop (cursor - e) (output_chunks e stamps texts)),
        (let k = (cursor - e) + (limit - length chunks) in if k < length raws then Some (e + k) else None))) \<and>
    e + (if raws = [] then 0 else 1) \<le> expected"
  using assms
proof (induction raws arbitrary: w texts stamps e chunks)
  case Nil
  then show ?case by (auto simp: stored_rows_def output_chunks_def)
next
  case (Cons raw raws)
  from Cons.prems(1) obtain t w' texts' where push: "sanitizer_push write w raw = Some (t, w')"
    and rest: "display_texts write w' raws = Some texts'" "texts = t # texts'" by (auto split: option.splits)
  from Cons.prems(2) obtain m stamps' where stamps: "stamps = m # stamps'" "length stamps' = length raws" by (cases stamps) auto
  have sat: "sat_add e 1 = Suc e" using Cons.prems(3) by (simp add: sat_add_def)
  have bound: "Suc e + length raws \<le> usize_max" using Cons.prems(3) by simp
  note IH = Cons.IH [OF rest(1) stamps(2) bound]
  let ?c = "\<lparr>oc_sequence = e, oc_observed_at_ms = m, oc_text = t\<rparr>"
  consider "e < cursor" | "cursor \<le> e" "limit \<le> length chunks" | "cursor \<le> e" "length chunks < limit" by linarith
  then show ?case
  proof cases
    case 1
    then have empty: "chunks = []" using Cons.prems(4) by auto
    have "cursor - e = Suc (cursor - Suc e)" using 1 by simp
    with 1 IH [of chunks] empty push sat rest(2) stamps(1) show ?thesis
      by (auto simp: stored_rows_Cons output_chunks_Cons Let_def)
  next
    case 2
    with Cons.prems(5) sat stamps(1) rest(2) show ?thesis by (auto simp: stored_rows_Cons output_chunks_Cons Let_def)
  next
    case 3
    then obtain d where d: "limit - length chunks = Suc d" by (metis Suc_diff_Suc)
    then have "limit - length (chunks @ [?c]) = d" by simp
    with 3 d IH [of "chunks @ [?c]"] push sat rest(2) stamps(1) show ?thesis
      by (auto simp: stored_rows_Cons output_chunks_Cons Let_def)
  qed
qed

lemma display_texts_concat:
  assumes "chunk_decoder ok write" "ok w" "display_texts write w raws = Some texts"
  shows "concat texts = sanitize_stripped_text (fst (write w (concat raws))) \<and> at_boundary (fst (write w (concat raws)))"
  using assms(2,3)
proof (induction raws arbitrary: w texts)
  case Nil
  have "write w [] = ([], w)" using chunk_decoder.feed_Nil [OF assms(1) Nil(1)] .
  with Nil show ?case by (simp add: sanitize_stripped_text_def at_boundary_def)
next
  case (Cons raw raws)
  obtain bytes w' where 1: "write w raw = (bytes, w')" by force
  from Cons.prems(2) 1 obtain texts' where valid: "valid_utf8 bytes"
    and texts: "texts = sanitize_stripped_text bytes # texts'" "display_texts write w' raws = Some texts'"
    by (auto simp: sanitizer_push_def split: if_splits)
  have inv: "ok w'" using chunk_decoder.inv_feed [OF assms(1) Cons.prems(1) 1] .
  obtain bytes2 w2 where 2: "write w' (concat raws) = (bytes2, w2)" by force
  have "write w (raw @ concat raws) = (bytes @ bytes2, w2)"
    using chunk_decoder.feed_append [OF assms(1) Cons.prems(1) 1 2] .
  moreover from Cons.IH [OF inv texts(2)] 2
  have "concat texts' = sanitize_stripped_text bytes2" "at_boundary bytes2" by auto
  ultimately show ?case using texts(1) valid_at_boundary [OF valid] by (simp add: sanitize_append at_boundary_append)
qed

section \<open>Properties\<close>

text \<open>
  C34: The live display and the replay of stored output show the same text for every chunk, namely what
  the sanitizer shows for it after all earlier chunks, whether or not those were displayed; a page
  is the window of this text given by its cursor and limit, and its next cursor continues it without
  gap; and with a parser that does not depend on chunk boundaries the whole is the sanitized text of
  the stream.
\<close>

theorem live_display_agrees_with_replay:
  assumes "display_texts write w0 raws = Some texts" "length flags = length raws" "length stamps = length raws"
    "length raws \<le> usize_max" "raws \<noteq> []"
  shows "(\<exists>streams. live_feed write w0 i (zip [0..<length raws] (zip raws flags)) Map.empty =
      Some (map (\<lambda>(t, f). \<lparr>ld_text = if f then t else [], ld_state = DISPLAY_AVAILABLE, ld_reason = None\<rparr>) (zip texts flags), streams)) \<and>
    display_output_page write w0 observed result (stored_rows 0 stamps raws) cursor limit =
      Some \<lparr>dp_chunks = take (max limit 1) (drop cursor (output_chunks 0 stamps texts)),
            dp_next_cursor = (if cursor + max limit 1 < length raws then Some (cursor + max limit 1) else None),
            dp_display_state = ''available'', dp_display_reason = None\<rparr> \<and>
    (chunk_decoder ok write \<and> ok w0 \<longrightarrow> concat texts = sanitize_stripped_text (fst (write w0 (concat raws))))"
proof (intro conjI impI)
  have start: "stream_at Map.empty w0 i = \<lparr>ls_sanitizer = w0, ls_next_sequence = 0, ls_unavailable_reason = None\<rparr>"
    by (simp add: stream_at_def)
  show "\<exists>streams. live_feed write w0 i (zip [0..<length raws] (zip raws flags)) Map.empty =
      Some (map (\<lambda>(t, f). \<lparr>ld_text = if f then t else [], ld_state = DISPLAY_AVAILABLE, ld_reason = None\<rparr>) (zip texts flags), streams)"
    using live_feed_texts [OF assms(1,2) start] assms(4) by simp
  show "display_output_page write w0 observed result (stored_rows 0 stamps raws) cursor limit =
      Some \<lparr>dp_chunks = take (max limit 1) (drop cursor (output_chunks 0 stamps texts)),
            dp_next_cursor = (if cursor + max limit 1 < length raws then Some (cursor + max limit 1) else None),
            dp_display_state = ''available'', dp_display_reason = None\<rparr>"
    using replay_rows_texts [OF assms(1,3), of 0 "[]" cursor "max limit 1"] assms(4,5)
    by (auto simp: display_output_page_def Let_def split: option.split list.split)
next
  assume "chunk_decoder ok write \<and> ok w0"
  then show "concat texts = sanitize_stripped_text (fst (write w0 (concat raws)))"
    using display_texts_concat [OF _ _ assms(1)] by blast
qed

lemma plain_push: "valid_utf8 raw \<Longrightarrow> safe_display raw \<Longrightarrow> sanitizer_push (\<lambda>w s. (s, w)) w raw = Some (raw, w)"
  by (simp add: sanitizer_push_def sanitize_safe_id)

lemma plain_decoder: "chunk_decoder (\<lambda>_. True) (\<lambda>(w::nat) (s::rstr). (s, w))"
  by unfold_locales auto

theorem live_display_agrees_with_replay_witness:
  "display_output_page (\<lambda>w s. (s, w)) (0::nat) 9 None (stored_rows 0 [5, 6] [''a'', ''b'']) 1 1 =
     Some \<lparr>dp_chunks = [\<lparr>oc_sequence = 1, oc_observed_at_ms = 6, oc_text = ''b''\<rparr>], dp_next_cursor = None,
       dp_display_state = ''available'', dp_display_reason = None\<rparr> \<and>
   concat [''a'', ''b''] = sanitize_stripped_text ''ab''"
proof -
  have p: "list_all printable ''ab''" "list_all printable ''a''" "list_all printable ''b''" by (simp_all add: printable_def)
  then have "safe_display ''a''" "safe_display ''b''"
    unfolding safe_display_def using printable_safe p(2,3) by blast+
  moreover have "valid_utf8 ''a''" "valid_utf8 ''b''" by (simp_all add: valid_utf8_def from_utf8.simps scan_def)
  ultimately have texts: "display_texts (\<lambda>w s. (s, w)) (0::nat) [''a'', ''b''] = Some [''a'', ''b'']" by (simp add: plain_push)
  show ?thesis
    using live_display_agrees_with_replay [OF texts, of "[True, False]" "[5, 6]" 0 9 None 1 1 "\<lambda>_. True"] plain_decoder
    by (simp add: usize_max_def output_chunks_def upt_rec)
qed

section \<open>Gaps\<close>

lemma live_observe_closed:
  assumes "ls_unavailable_reason (stream_at streams w0 i) \<noteq> None"
  shows "\<exists>r streams'. live_observe write w0 i n raw capture streams =
      Some (\<lparr>ld_text = [], ld_state = DISPLAY_UNAVAILABLE, ld_reason = Some r\<rparr>, streams') \<and>
    ls_unavailable_reason (stream_at streams' w0 i) \<noteq> None"
  using assms by (auto simp: live_observe_def live_note_sequence_def stream_at_def Let_def split: option.splits)

lemma live_feed_closed:
  assumes "live_feed write w0 i obs streams = Some (deltas, streams')"
    "ls_unavailable_reason (stream_at streams w0 i) \<noteq> None"
  shows "length deltas = length obs \<and> (\<forall>d \<in> set deltas. ld_state d = DISPLAY_UNAVAILABLE \<and> ld_text d = []) \<and>
    ls_unavailable_reason (stream_at streams' w0 i) \<noteq> None"
  using assms
proof (induction obs arbitrary: streams deltas)
  case (Cons ob obs)
  obtain n raw capture where ob: "ob = (n, raw, capture)" by (metis prod_cases3)
  obtain r streams1 where step: "live_observe write w0 i n raw capture streams =
      Some (\<lparr>ld_text = [], ld_state = DISPLAY_UNAVAILABLE, ld_reason = Some r\<rparr>, streams1)"
    and closed: "ls_unavailable_reason (stream_at streams1 w0 i) \<noteq> None"
    using live_observe_closed [OF Cons.prems(2)] by blast
  from Cons.prems(1) step obtain deltas1 where "live_feed write w0 i obs streams1 = Some (deltas1, streams')"
    "deltas = \<lparr>ld_text = [], ld_state = DISPLAY_UNAVAILABLE, ld_reason = Some r\<rparr> # deltas1" by (auto simp: ob)
  with Cons.IH [OF _ closed] show ?case by auto
qed auto

lemma live_observe_open:
  assumes "live_observe write w0 i n raw capture streams = Some (d, streams')"
    "ls_unavailable_reason (stream_at streams w0 i) = None" "ls_next_sequence (stream_at streams w0 i) = e" "e < usize_max"
  shows "if n = e then ld_state d = DISPLAY_AVAILABLE \<and> ls_unavailable_reason (stream_at streams' w0 i) = None \<and>
      ls_next_sequence (stream_at streams' w0 i) = Suc e
    else ld_state d = DISPLAY_UNAVAILABLE \<and> ld_text d = [] \<and> ls_unavailable_reason (stream_at streams' w0 i) \<noteq> None"
  using assms
  by (auto simp: live_observe_def stream_at_def [symmetric] live_note_sequence_def Let_def sat_add_def split: if_splits)
    (auto simp: stream_at_def)

lemma live_feed_open:
  assumes "live_feed write w0 i obs streams = Some (deltas, streams')"
    "ls_unavailable_reason (stream_at streams w0 i) = None" "ls_next_sequence (stream_at streams w0 i) = e"
    "e + length obs \<le> usize_max"
  shows "length deltas = length obs \<and>
    (\<forall>k<length obs. if map fst (take (Suc k) obs) = [e..<e + Suc k] then ld_state (deltas ! k) = DISPLAY_AVAILABLE
       else ld_state (deltas ! k) = DISPLAY_UNAVAILABLE \<and> ld_text (deltas ! k) = []) \<and>
    (ls_unavailable_reason (stream_at streams' w0 i) = None \<longleftrightarrow> map fst obs = [e..<e + length obs])"
  using assms
proof (induction obs arbitrary: streams deltas e)
  case (Cons ob obs)
  obtain n raw capture where ob: "ob = (n, raw, capture)" by (metis prod_cases3)
  from Cons.prems(1) obtain d streams1 deltas1 where step: "live_observe write w0 i n raw capture streams = Some (d, streams1)"
    and rest: "live_feed write w0 i obs streams1 = Some (deltas1, streams')" and deltas: "deltas = d # deltas1"
    by (auto simp: ob split: option.splits)
  note first = live_observe_open [OF step Cons.prems(2,3)]
  have cons: "map fst (take (Suc k) (ob # obs)) = [e..<e + Suc k] \<longleftrightarrow> n = e \<and> map fst (take k obs) = [Suc e..<Suc e + k]" for k
    by (auto simp: ob upt_conv_Cons simp del: upt_Suc)
  have whole: "map fst (ob # obs) = [e..<e + length (ob # obs)] \<longleftrightarrow> n = e \<and> map fst obs = [Suc e..<Suc e + length obs]"
    using cons [of "length obs"] by simp
  show ?case
  proof (cases "n = e")
    case True
    with first Cons.prems(4) have open1: "ls_unavailable_reason (stream_at streams1 w0 i) = None"
      "ls_next_sequence (stream_at streams1 w0 i) = Suc e" "ld_state d = DISPLAY_AVAILABLE" by auto
    note IH = Cons.IH [OF rest open1(1,2)]
    show ?thesis unfolding whole cons deltas using IH Cons.prems(4) True open1(3)
      by (auto simp: nth_Cons split: nat.split simp del: upt_Suc)
  next
    case False
    with first Cons.prems(4) have closed: "ls_unavailable_reason (stream_at streams1 w0 i) \<noteq> None"
      "ld_state d = DISPLAY_UNAVAILABLE \<and> ld_text d = []" by auto
    from live_feed_closed [OF rest closed(1)] closed(2) False show ?thesis
      unfolding whole cons deltas by (auto simp: nth_Cons all_set_conv_all_nth split: nat.split)
  qed
qed auto

text \<open>
  The live display fails closed.  Text is shown for a chunk only when the sequence numbers
  observed so far are exactly 0, 1, 2 and so on; from the first gap, repetition or reordering on,
  nothing is shown any more, and the completion reports the display as available exactly when there
  was none.
\<close>

theorem live_display_fails_closed:
  assumes "live_feed write w0 i obs Map.empty = Some (deltas, streams)" "length obs \<le> usize_max"
  shows "length deltas = length obs \<and>
    (\<forall>k<length obs. if map fst (take (Suc k) obs) = [0..<Suc k] then ld_state (deltas ! k) = DISPLAY_AVAILABLE
       else ld_state (deltas ! k) = DISPLAY_UNAVAILABLE \<and> ld_text (deltas ! k) = []) \<and>
    (fst (fst (live_complete i streams)) = DISPLAY_AVAILABLE \<longleftrightarrow> map fst obs = [0..<length obs])"
proof -
  have start: "ls_unavailable_reason (stream_at Map.empty w0 i) = None" "ls_next_sequence (stream_at Map.empty w0 i) = 0"
    by (simp_all add: stream_at_def)
  have "fst (fst (live_complete i streams)) = DISPLAY_AVAILABLE \<longleftrightarrow> ls_unavailable_reason (stream_at streams w0 i) = None"
    by (auto simp: live_complete_def stream_at_def DISPLAY_AVAILABLE_def DISPLAY_UNAVAILABLE_def split: option.splits)
  with live_feed_open [OF assms(1) start] assms(2) show ?thesis by simp
qed

theorem live_display_fails_closed_witness:
  "\<exists>deltas streams. live_feed (\<lambda>w s. (s, w)) (0::nat) 7 [(0, [], True), (2, ''x'', True)] Map.empty = Some (deltas, streams) \<and>
     ld_text (deltas ! 1) = []"
proof -
  obtain deltas streams where f: "live_feed (\<lambda>w s. (s, w)) (0::nat) 7 [(0, [], True), (2, ''x'', True)] Map.empty = Some (deltas, streams)"
    by (simp add: live_observe_def live_note_sequence_def sanitizer_push_def sat_add_def usize_max_def)
  from live_display_fails_closed [OF f] have "ld_text (deltas ! 1) = []"
    by (auto simp: usize_max_def upt_rec dest!: spec [of _ 1])
  with f show ?thesis by blast
qed

end
