(* ===== verification/Timeline_Cursor.thy ===== *)
theory Timeline_Cursor
  imports Zodex_Prelude
begin

text \<open>
  The opaque cursors of the history timeline (\<^verbatim>\<open>src/local/history/timeline_cursor.rs\<close>).  URL-safe base64 and JSON
  are libraries and parameters; the theorems name what is needed of them: decoding inverts encoding.
\<close>

section \<open>Model\<close>

definition TIMELINE_CURSOR_VERSION :: nat where
  "TIMELINE_CURSOR_VERSION = 1"

datatype history_timeline_cursor =
    History (c_timestamp: int) (c_id: int) "int option"
  | Recovery (c_timestamp: int) (c_id: int) int
  | Checkpoints (c_timestamp: int) (c_id: int) int

record cursor_payload =
  cp_version :: nat
  cp_kind :: rstr
  cp_timestamp_ms :: int
  cp_id :: int
  cp_scope_ms :: "int option"
  cp_scope_id :: "int option"

record cursor_codec =
  base64_encode :: "rstr \<Rightarrow> rstr"
  base64_decode :: "rstr \<Rightarrow> rstr res"
  json_to_vec :: "cursor_payload \<Rightarrow> rstr"
  json_from_slice :: "rstr \<Rightarrow> cursor_payload res"

definition payload_cursor :: "cursor_payload \<Rightarrow> history_timeline_cursor res" where
  "payload_cursor payload =
     (if cp_version payload \<noteq> TIMELINE_CURSOR_VERSION then
        Inl (''unsupported timeline cursor version '' @ show_nat (cp_version payload) @ ''; expected '' @
          show_nat TIMELINE_CURSOR_VERSION)
      else if cp_id payload \<le> 0 then Inl ''timeline cursor contains an invalid identifier''
      else if cp_kind payload = ''history'' then
        Inr (History (cp_timestamp_ms payload) (cp_id payload) (cp_scope_ms payload))
      else if cp_kind payload = ''recovery'' then
        and_then (ok_or (cp_scope_ms payload) ''recovery cursor is missing its watermark'')
          (\<lambda>since. Inr (Recovery (cp_timestamp_ms payload) (cp_id payload) since))
      else if cp_kind payload = ''checkpoints'' then
        and_then (ok_or (cp_scope_id payload) ''checkpoint cursor is missing its presentation root'')
          (\<lambda>root. Inr (Checkpoints (cp_timestamp_ms payload) (cp_id payload) root))
      else Inl (''unsupported timeline cursor kind `'' @ cp_kind payload @ ''`''))"

definition cursor_decode :: "cursor_codec \<Rightarrow> rstr \<Rightarrow> history_timeline_cursor res" where
  "cursor_decode codec value =
     (if value = [] \<or> 512 < length value then Inl ''timeline cursor is empty or too long''
      else and_then (with_ctx ''timeline cursor is not valid URL-safe base64'' (base64_decode codec value)) (\<lambda>bytes.
           and_then (with_ctx ''timeline cursor payload is not valid JSON'' (json_from_slice codec bytes))
             payload_cursor))"

fun cursor_payload_of :: "history_timeline_cursor \<Rightarrow> cursor_payload" where
  "cursor_payload_of (History started_at_ms root_id before_ms) =
     \<lparr>cp_version = TIMELINE_CURSOR_VERSION, cp_kind = ''history'', cp_timestamp_ms = started_at_ms, cp_id = root_id,
      cp_scope_ms = before_ms, cp_scope_id = None\<rparr>"
| "cursor_payload_of (Recovery changed_at_ms root_id since_ms) =
     \<lparr>cp_version = TIMELINE_CURSOR_VERSION, cp_kind = ''recovery'', cp_timestamp_ms = changed_at_ms, cp_id = root_id,
      cp_scope_ms = Some since_ms, cp_scope_id = None\<rparr>"
| "cursor_payload_of (Checkpoints started_at_ms invocation_id presentation_root_id) =
     \<lparr>cp_version = TIMELINE_CURSOR_VERSION, cp_kind = ''checkpoints'', cp_timestamp_ms = started_at_ms,
      cp_id = invocation_id, cp_scope_ms = None, cp_scope_id = Some presentation_root_id\<rparr>"

definition cursor_encode :: "cursor_codec \<Rightarrow> history_timeline_cursor \<Rightarrow> rstr" where
  "cursor_encode codec cursor = base64_encode codec (json_to_vec codec (cursor_payload_of cursor))"

fun matches_history :: "history_timeline_cursor \<Rightarrow> int option \<Rightarrow> bool" where
  "matches_history (History _ _ cursor_before) before_ms \<longleftrightarrow> cursor_before = before_ms"
| "matches_history _ _ \<longleftrightarrow> False"

fun matches_recovery :: "history_timeline_cursor \<Rightarrow> int \<Rightarrow> bool" where
  "matches_recovery (Recovery _ _ cursor_since) since_ms \<longleftrightarrow> cursor_since = since_ms"
| "matches_recovery _ _ \<longleftrightarrow> False"

fun matches_checkpoints :: "history_timeline_cursor \<Rightarrow> int \<Rightarrow> bool" where
  "matches_checkpoints (Checkpoints _ _ cursor_root) presentation_root_id \<longleftrightarrow> cursor_root = presentation_root_id"
| "matches_checkpoints _ _ \<longleftrightarrow> False"

section \<open>Properties\<close>

lemma payload_cursor_of:
  "payload_cursor (cursor_payload_of cursor) =
     (if c_id cursor \<le> 0 then Inl ''timeline cursor contains an invalid identifier'' else Inr cursor)"
  by (cases cursor) (simp_all add: payload_cursor_def ok_or_def)

lemma payload_cursor_sound:
  "payload_cursor p = Inr cursor \<Longrightarrow> 0 < c_id cursor \<and> c_id cursor = cp_id p \<and> c_timestamp cursor = cp_timestamp_ms p \<and>
     cp_kind (cursor_payload_of cursor) = cp_kind p"
  by (auto simp: payload_cursor_def and_then_Inr split: if_splits)

text \<open>
  A cursor handed to a client and sent back is read as the same cursor, so that paging resumes where
  it stopped and in the scope it was made for; and whatever string is accepted as a cursor has a
  positive identifier and comes from a payload of the current version.
\<close>

theorem timeline_cursor_round_trip:
  assumes "json_from_slice codec (json_to_vec codec (cursor_payload_of cursor)) = Inr (cursor_payload_of cursor)"
    and "base64_decode codec (cursor_encode codec cursor) = Inr (json_to_vec codec (cursor_payload_of cursor))"
    and "cursor_encode codec cursor \<noteq> []" "length (cursor_encode codec cursor) \<le> 512"
  shows "cursor_decode codec (cursor_encode codec cursor) =
      (if c_id cursor \<le> 0 then Inl ''timeline cursor contains an invalid identifier'' else Inr cursor) \<and>
    (\<forall>value accepted. cursor_decode codec value = Inr accepted \<longrightarrow>
       0 < c_id accepted \<and> length value \<le> 512 \<and>
       (\<exists>bytes p. base64_decode codec value = Inr bytes \<and> json_from_slice codec bytes = Inr p \<and>
          cp_version p = TIMELINE_CURSOR_VERSION \<and> cp_kind p = cp_kind (cursor_payload_of accepted) \<and> cp_id p = c_id accepted))"
proof (intro conjI allI impI)
  show "cursor_decode codec (cursor_encode codec cursor) =
      (if c_id cursor \<le> 0 then Inl ''timeline cursor contains an invalid identifier'' else Inr cursor)"
    using assms by (simp add: cursor_decode_def payload_cursor_of)
next
  fix "value" accepted assume "cursor_decode codec value = Inr accepted"
  then obtain bytes p where *: "base64_decode codec value = Inr bytes" "json_from_slice codec bytes = Inr p"
    "payload_cursor p = Inr accepted" "length value \<le> 512"
    by (auto simp: cursor_decode_def and_then_Inr split: if_splits)
  from *(3) have "cp_version p = TIMELINE_CURSOR_VERSION" by (auto simp: payload_cursor_def split: if_splits)
  with * payload_cursor_sound [OF *(3)]
  show "0 < c_id accepted" "length value \<le> 512"
    "\<exists>bytes p. base64_decode codec value = Inr bytes \<and> json_from_slice codec bytes = Inr p \<and>
       cp_version p = TIMELINE_CURSOR_VERSION \<and> cp_kind p = cp_kind (cursor_payload_of accepted) \<and> cp_id p = c_id accepted"
    by auto
qed

definition example_codec :: cursor_codec where
  "example_codec = \<lparr>base64_encode = rev, base64_decode = (\<lambda>s. Inr (rev s)), json_to_vec = cp_kind,
     json_from_slice = (\<lambda>_. Inr (cursor_payload_of (Recovery 5 3 1)))\<rparr>"

theorem timeline_cursor_round_trip_witness:
  "cursor_decode example_codec (cursor_encode example_codec (Recovery 5 3 1)) = Inr (Recovery 5 3 1)"
  using timeline_cursor_round_trip [of example_codec "Recovery 5 3 1"] by (simp add: example_codec_def cursor_encode_def)

end
