(* ===== verification/File_Evidence.thy ===== *)
theory File_Evidence
  imports Patch_Paths Utf8_Stream
begin

text \<open>
  File evidence (\<^verbatim>\<open>src/local/file_evidence/\<close>): which files a tool call is about to write, read off the
  arguments of the call, and the snapshots of these files taken before and after it.

  Characters are bytes.  The tokenizer of the source works on Unicode scalars, but every character it
  looks at is ASCII, and a byte inside a scalar never starts white space, so reading a scalar byte by byte
  gives the same words.
\<close>

section \<open>Plans\<close>

definition MAX_FILE_EVIDENCE_FILES :: nat where "MAX_FILE_EVIDENCE_FILES = 8"
definition MAX_FILE_EVIDENCE_BYTES :: nat where "MAX_FILE_EVIDENCE_BYTES = 256 * 1024"

datatype file_evidence_source = ApplyPatch | ShellWrite

datatype file_operation_hint = HCreate | HUpdate | HDelete | HMove | HOverwrite | HAppend

record file_capture_plan =
  fp_source :: file_evidence_source
  fp_operation :: file_operation_hint
  fp_path_before :: rstr
  fp_path_after :: rstr

definition same_path_plan :: "file_evidence_source \<Rightarrow> file_operation_hint \<Rightarrow> rstr \<Rightarrow> file_capture_plan" where
  "same_path_plan source operation path =
     \<lparr>fp_source = source, fp_operation = operation, fp_path_before = path, fp_path_after = path\<rparr>"

definition absolute_workdir :: "rstr \<Rightarrow> rstr option" where
  "absolute_workdir path = (if is_absolute path then Some path else None)"

definition resolve_path :: "rstr \<Rightarrow> rstr \<Rightarrow> rstr option" where
  "resolve_path workdir path =
     (if path = [] \<or> nl \<in> set path \<or> cr \<in> set path \<or> CHR 0x00 \<in> set path then None
      else Some (if is_absolute path then path else path_join workdir path))"

section \<open>Patches\<close>

definition unknown_patch_directive :: "rstr \<Rightarrow> bool" where
  "unknown_patch_directive line \<longleftrightarrow>
     starts_with line ''*** '' \<and>
     line \<noteq> ''*** Begin Patch'' \<and> line \<noteq> ''*** End Patch'' \<and> line \<noteq> ''*** End of File'' \<and>
     \<not> starts_with line ADD_FILE_PREFIX \<and> \<not> starts_with line UPDATE_FILE_PREFIX \<and>
     \<not> starts_with line DELETE_FILE_PREFIX \<and> \<not> starts_with line MOVE_TO_PREFIX"

text \<open>One round of the loop at \<open>line\<close>, followed by \<open>next\<close>: whether \<open>next\<close> was consumed too, and the plan
  that is pushed.\<close>

definition plan_of_line :: "rstr \<Rightarrow> rstr \<Rightarrow> rstr \<Rightarrow> (bool \<times> file_capture_plan option) option" where
  "plan_of_line workdir line next_line =
     (case strip_prefix ADD_FILE_PREFIX line of
        Some raw_path \<Rightarrow>
          map_option (\<lambda>path. (False, Some (same_path_plan ApplyPatch HCreate path))) (resolve_path workdir raw_path)
      | None \<Rightarrow> (case strip_prefix DELETE_FILE_PREFIX line of
        Some raw_path \<Rightarrow>
          map_option (\<lambda>path. (False, Some (same_path_plan ApplyPatch HDelete path))) (resolve_path workdir raw_path)
      | None \<Rightarrow> (case strip_prefix UPDATE_FILE_PREFIX line of
        Some raw_path \<Rightarrow>
          Option.bind (resolve_path workdir raw_path) (\<lambda>source.
            case strip_prefix MOVE_TO_PREFIX next_line of
              Some move_path \<Rightarrow>
                map_option (\<lambda>destination.
                  (True, Some \<lparr>fp_source = ApplyPatch, fp_operation = HMove,
                               fp_path_before = source, fp_path_after = destination\<rparr>))
                  (resolve_path workdir move_path)
            | None \<Rightarrow> Some (False, Some (same_path_plan ApplyPatch HUpdate source)))
      | None \<Rightarrow>
          if starts_with line MOVE_TO_PREFIX \<or> unknown_patch_directive line then None
          else Some (False, None))))"

text \<open>The loop over the lines after the first; the last line is only looked ahead to.\<close>

fun patch_plans :: "rstr \<Rightarrow> file_capture_plan list \<Rightarrow> rstr list \<Rightarrow> file_capture_plan list option" where
  "patch_plans workdir plans (line # next_line # rest) =
     (case plan_of_line workdir line next_line of
        None \<Rightarrow> None
      | Some (consumed, plan) \<Rightarrow>
          (let plans' = plans @ (case plan of None \<Rightarrow> [] | Some p \<Rightarrow> [p]) in
           if MAX_FILE_EVIDENCE_FILES < length plans' then None
           else patch_plans workdir plans' (if consumed then rest else next_line # rest)))"
| "patch_plans workdir plans _ = Some plans"

text \<open>\<open>args key\<close> is \<^verbatim>\<open>arguments.get(key)?.as_str()\<close>, the string stored under \<open>key\<close>.\<close>

definition parse_apply_patch :: "(rstr \<Rightarrow> rstr option) \<Rightarrow> file_capture_plan list option" where
  "parse_apply_patch args =
     Option.bind (args ''patch'') (\<lambda>patch.
     Option.bind (args ''workdir'') (\<lambda>dir.
     Option.bind (absolute_workdir dir) (\<lambda>workdir.
       let lines = str_lines patch in
       if lines = [] \<or> hd lines \<noteq> ''*** Begin Patch'' \<or> last lines \<noteq> ''*** End Patch'' then None
       else Option.bind (patch_plans workdir [] (tl lines)) (\<lambda>plans.
              if plans = [] then None else Some plans))))"

section \<open>Shell words\<close>

datatype token = Word rstr | Operator rstr

fun token_word :: "token \<Rightarrow> rstr option" where
  "token_word (Word w) = Some w"
| "token_word (Operator _) = None"

fun token_operator :: "token \<Rightarrow> rstr option" where
  "token_operator (Operator w) = Some w"
| "token_operator (Word _) = None"

definition redirect_operator :: "token \<Rightarrow> rstr option" where
  "redirect_operator t =
     (case token_operator t of
        None \<Rightarrow> None
      | Some w \<Rightarrow> if w = ''>'' \<or> w = ''>>'' then Some w else None)"

text \<open>The characters from the current index on.\<close>

definition shell_operator :: "rstr \<Rightarrow> (rstr \<times> nat) option" where
  "shell_operator s =
     (if starts_with s ''>>'' then Some (''>>'', 2)
      else if starts_with s ''<<'' then Some (''<<'', 2)
      else if starts_with s ''>'' then Some (''>'', 1)
      else None)"

definition shell_breaks :: rstr where "shell_breaks = '';|&()<>''"
definition shell_expansions :: rstr where "shell_expansions = ''$`*?[]{}~#''"

definition double_quote_expansions :: rstr where "double_quote_expansions = ''$`''"
definition double_quote_escapes :: rstr where "double_quote_escapes = ''$`'' @ [CHR 34, CHR 92]"

fun single_quoted :: "rstr \<Rightarrow> (rstr \<times> rstr) option" where
  "single_quoted [] = None"
| "single_quoted (c # s) =
     (if c = CHR 39 then Some ([], s) else map_option (apfst ((#) c)) (single_quoted s))"

fun double_quoted :: "rstr \<Rightarrow> (rstr \<times> rstr) option" where
  "double_quoted [] = None"
| "double_quoted (c # s) =
     (if c = CHR 34 then Some ([], s)
      else if c \<in> set double_quote_expansions then None
      else if c = CHR 92 then
        (case s of
           [] \<Rightarrow> None
         | next # s' \<Rightarrow>
             if next \<in> set double_quote_escapes
             then map_option (apfst ((#) next)) (double_quoted s')
             else map_option (apfst ((#) (CHR 92))) (double_quoted s))
      else map_option (apfst ((#) c)) (double_quoted s))"

lemma single_quoted_len: "single_quoted s = Some (w, r) \<Longrightarrow> length w + length r < length s"
  by (induction s arbitrary: w) (auto split: if_splits)

lemma map_apfst_Some: "map_option (apfst f) x = Some (w, r) \<longleftrightarrow> (\<exists>w'. x = Some (w', r) \<and> w = f w')"
  by (cases x) (auto simp: apfst_def)

lemma double_quoted_cases:
  assumes "double_quoted (c # s) = Some (w, r)"
  shows "w = [] \<and> r = s \<or> (\<exists>d w'. w = d # w' \<and> double_quoted s = Some (w', r)) \<or>
    (\<exists>d s' w'. s = d # s' \<and> w = d # w' \<and> double_quoted s' = Some (w', r))"
proof -
  have "(case s of [] \<Rightarrow> None
         | next # s' \<Rightarrow> if E next then map_option (apfst ((#) next)) (double_quoted s')
             else map_option (apfst ((#) (CHR 92))) (double_quoted s)) = Some (w, r) \<Longrightarrow> ?thesis" for E
    by (cases s) (simp_all only: map_apfst_Some list.case option.simps if_split_eq1, blast+)
  then show ?thesis
    using assms unfolding double_quoted.simps(2)
    by (auto simp only: map_apfst_Some option.inject prod.inject option.simps split: if_splits)
qed

lemma double_quoted_len: "double_quoted s = Some (w, r) \<Longrightarrow> length w + length r < length s"
proof (induction s arbitrary: w rule: length_induct)
  case (1 s)
  show ?case
  proof (cases s)
    case (Cons c t)
    have "w = [] \<and> r = t \<or> (\<exists>d w' t'. w = d # w' \<and> double_quoted t' = Some (w', r) \<and> length t' \<le> length t)"
      using double_quoted_cases [OF "1.prems" [unfolded Cons]] by fastforce
    then show ?thesis
    proof
      assume "\<exists>d w' t'. w = d # w' \<and> double_quoted t' = Some (w', r) \<and> length t' \<le> length t"
      then obtain d w' t' where t': "w = d # w'" "double_quoted t' = Some (w', r)" "length t' \<le> length t" by blast
      with "1.IH" have "length w' + length r < length t'" by (simp add: Cons)
      with t' show ?thesis by (simp add: Cons)
    qed (simp add: Cons)
  qed (use "1.prems" in simp)
qed

text \<open>The loop that collects one word: the word and the rest of the line.\<close>

function shell_word :: "rstr \<Rightarrow> (rstr \<times> rstr) option" where
  "shell_word s =
     (case s of
        [] \<Rightarrow> Some ([], [])
      | c # r \<Rightarrow>
          if ws_prefix s \<noteq> 0 \<or> shell_operator s \<noteq> None \<or> c \<in> set shell_breaks then Some ([], s)
          else if c = CHR 39 then
            (case single_quoted r of
               None \<Rightarrow> None
             | Some (w, r') \<Rightarrow> map_option (apfst (append w)) (shell_word r'))
          else if c = CHR 34 then
            (case double_quoted r of
               None \<Rightarrow> None
             | Some (w, r') \<Rightarrow> map_option (apfst (append w)) (shell_word r'))
          else if c = CHR 92 then
            (case r of [] \<Rightarrow> None | next # r' \<Rightarrow> map_option (apfst ((#) next)) (shell_word r'))
          else if c \<in> set shell_expansions then None
          else map_option (apfst ((#) c)) (shell_word r))"
  by pat_completeness auto
termination
  by (relation "measure length") (auto dest!: single_quoted_len double_quoted_len)

declare shell_word.simps [simp del]

lemma shell_word_Nil [simp]: "shell_word [] = Some ([], [])"
  by (simp add: shell_word.simps)

lemma shell_word_cases:
  assumes "shell_word (c # s) = Some (w, r)"
  shows "w = [] \<and> r = c # s \<or>
    (\<exists>v s' w'. shell_word s' = Some (w', r) \<and> w = v @ w' \<and> length v + length s' \<le> Suc (length s) \<and> length s' \<le> length s)"
proof -
  have quoted: ?thesis
    if q: "(case q of None \<Rightarrow> None | Some (v, s') \<Rightarrow> map_option (apfst (append v)) (shell_word s')) = Some (w, r)"
      and len: "\<And>v s'. q = Some (v, s') \<Longrightarrow> length v + length s' < length s" for q
  proof -
    from q obtain v s' w' where v: "q = Some (v, s')" "shell_word s' = Some (w', r)" "w = v @ w'"
      by (cases q) (auto simp: map_apfst_Some)
    with len [OF v(1)] show ?thesis by (intro disjI2 exI [of _ v] exI [of _ s'] exI [of _ w']) simp
  qed
  have step: ?thesis
    if "map_option (apfst ((#) d)) (shell_word s') = Some (w, r)" "length s' \<le> length s" for d s'
  proof -
    from that(1) obtain w' where "shell_word s' = Some (w', r)" "w = d # w'" by (auto simp: map_apfst_Some)
    with that(2) show ?thesis by (intro disjI2 exI [of _ "[d]"] exI [of _ s'] exI [of _ w']) simp
  qed
  have escaped: ?thesis
    if "(case s of [] \<Rightarrow> None | next # s' \<Rightarrow> map_option (apfst ((#) next)) (shell_word s')) = Some (w, r)"
    using that step [of "hd s" "tl s"] by (cases s) simp_all
  have branch: "P = Some x \<or> A = Some x \<or> B = Some x \<or> C = Some x \<or> D = Some x"
    if "(if a then P else if b then A else if d then B else if e then C else if f then None else D) = Some x"
    for a b d e f and P A B C D :: "(rstr \<times> rstr) option" and x
    using that by (simp split: if_splits)
  from branch [OF assms [unfolded shell_word.simps [of "c # s"] list.case]] show ?thesis
    using quoted [OF _ single_quoted_len] quoted [OF _ double_quoted_len] escaped step [of c s]
    by (elim disjE) simp_all
qed

lemma shell_word_le: "shell_word s = Some (w, r) \<Longrightarrow> length w + length r \<le> length s"
proof (induction s arbitrary: w rule: length_induct)
  case (1 s)
  show ?case
  proof (cases s)
    case (Cons c t)
    from shell_word_cases [OF "1.prems" [unfolded Cons]] show ?thesis
    proof
      assume "\<exists>v s' w'. shell_word s' = Some (w', r) \<and> w = v @ w' \<and> length v + length s' \<le> Suc (length t) \<and>
        length s' \<le> length t"
      then obtain v s' w' where s': "shell_word s' = Some (w', r)" "w = v @ w'"
        "length v + length s' \<le> Suc (length t)" "length s' \<le> length t" by blast
      with "1.IH" have "length w' + length r \<le> length s'" by (simp add: Cons)
      with s' show ?thesis by (simp add: Cons)
    qed (simp add: Cons)
  qed (use "1.prems" in simp)
qed

function tokenize_simple_shell_line :: "rstr \<Rightarrow> token list option" where
  "tokenize_simple_shell_line line =
     (let s = trim_start line in
      if s = [] then Some []
      else case shell_operator s of
             Some (operator, consumed) \<Rightarrow>
               map_option ((#) (Operator operator)) (tokenize_simple_shell_line (drop consumed s))
           | None \<Rightarrow>
               if hd s \<in> set shell_breaks then None
               else (case shell_word s of
                       None \<Rightarrow> None
                     | Some (w, rest) \<Rightarrow>
                         if w = [] then None
                         else map_option ((#) (Word w)) (tokenize_simple_shell_line rest)))"
  by pat_completeness auto
termination
proof (relation "measure length")
  fix line s x operator consumed
  assume "s = trim_start line" "s \<noteq> []" "shell_operator s = Some x" "(operator, consumed) = x"
  then have "0 < consumed" "0 < length s" "length s \<le> length line"
    by (auto simp: shell_operator_def trim_start_le split: if_splits)
  then show "(drop consumed s, line) \<in> measure length" by (simp del: length_greater_0_conv)
next
  fix line s x w rest
  assume "s = trim_start line" "shell_word s = Some x" "(w, rest) = x" "w \<noteq> []"
  then show "(rest, line) \<in> measure length"
    using trim_start_le [of line] shell_word_le [of s w rest] by (cases w) auto
qed simp

declare tokenize_simple_shell_line.simps [simp del]

section \<open>Shell writes\<close>

text \<open>\<^verbatim>\<open>replace("\r\n", "\n").replace('\r', "\n")\<close>\<close>

fun replace_crlf :: "rstr \<Rightarrow> rstr" where
  "replace_crlf [] = []"
| "replace_crlf (c # s) =
     (if c = cr \<and> starts_with s [nl] then replace_crlf s else c # replace_crlf s)"

definition normalize_newlines :: "rstr \<Rightarrow> rstr" where
  "normalize_newlines s = map (\<lambda>c. if c = cr then nl else c) (replace_crlf s)"

definition write_plan :: "rstr \<Rightarrow> rstr \<Rightarrow> rstr \<Rightarrow> file_capture_plan option" where
  "write_plan workdir redirect path =
     map_option (\<lambda>p. same_path_plan ShellWrite (if redirect = ''>>'' then HAppend else HOverwrite) p)
       (resolve_path workdir path)"

text \<open>The redirection, the path and the delimiter of \<^verbatim>\<open>cat > path << delimiter\<close>, in either order.\<close>

definition heredoc_parts :: "token list \<Rightarrow> (rstr \<times> rstr \<times> rstr) option" where
  "heredoc_parts tokens =
     (case tokens of
        [t0, t1, t2, t3, t4] \<Rightarrow>
          if token_word t0 \<noteq> Some ''cat'' then None
          else if token_operator t1 = Some ''<<'' then
            Option.bind (redirect_operator t3) (\<lambda>redirect. Option.bind (token_word t4) (\<lambda>path.
              map_option (\<lambda>delimiter. (redirect, path, delimiter)) (token_word t2)))
          else if token_operator t3 = Some ''<<'' then
            Option.bind (redirect_operator t1) (\<lambda>redirect. Option.bind (token_word t2) (\<lambda>path.
              map_option (\<lambda>delimiter. (redirect, path, delimiter)) (token_word t4)))
          else None
      | _ \<Rightarrow> None)"

definition parse_cat_heredoc :: "rstr \<Rightarrow> rstr \<Rightarrow> file_capture_plan option" where
  "parse_cat_heredoc command workdir =
     (case str_lines (normalize_newlines command) of
        [] \<Rightarrow> None
      | first # rest \<Rightarrow>
          Option.bind (tokenize_simple_shell_line (trim first)) (\<lambda>tokens.
          Option.bind (heredoc_parts tokens) (\<lambda>(redirect, path, delimiter).
            if delimiter = [] then None
            else Option.bind (first_index (\<lambda>line. line = delimiter) rest) (\<lambda>closing.
              if list_ex (\<lambda>line. trim line \<noteq> []) (drop (Suc closing) rest) then None
              else write_plan workdir redirect path))))"

text \<open>The redirection and the path of \<^verbatim>\<open>printf [--] format > path\<close>.\<close>

fun printf_parts :: "token list \<Rightarrow> (rstr \<times> rstr) option" where
  "printf_parts [Word name, Word _, Operator redirect, Word path] =
     (if name = ''printf'' then map_option (\<lambda>r. (r, path)) (redirect_operator (Operator redirect)) else None)"
| "printf_parts [Word name, Word flag, Word _, Operator redirect, Word path] =
     (if name = ''printf'' \<and> flag = ''--''
      then map_option (\<lambda>r. (r, path)) (redirect_operator (Operator redirect)) else None)"
| "printf_parts _ = None"

definition parse_printf :: "rstr \<Rightarrow> rstr \<Rightarrow> file_capture_plan option" where
  "parse_printf command workdir =
     (if nl \<in> set command \<or> cr \<in> set command then None
      else Option.bind (tokenize_simple_shell_line (trim command)) (\<lambda>tokens.
           Option.bind (printf_parts tokens) (\<lambda>(redirect, path). write_plan workdir redirect path)))"

definition parse_shell_write :: "(rstr \<Rightarrow> rstr option) \<Rightarrow> file_capture_plan option" where
  "parse_shell_write args =
     Option.bind (args ''cmd'') (\<lambda>command.
     Option.bind (args ''workdir'') (\<lambda>dir.
     Option.bind (absolute_workdir dir) (\<lambda>workdir.
       case parse_cat_heredoc command workdir of
         Some plan \<Rightarrow> Some plan
       | None \<Rightarrow> parse_printf command workdir)))"

definition parse_file_capture_plans :: "rstr \<Rightarrow> (rstr \<Rightarrow> rstr option) \<Rightarrow> file_capture_plan list option" where
  "parse_file_capture_plans tool_name args =
     (if tool_name = ''apply_patch'' then parse_apply_patch args
      else if tool_name = ''exec_command'' then map_option (\<lambda>plan. [plan]) (parse_shell_write args)
      else None)"

section \<open>Snapshots\<close>

datatype file_snapshot = Missing | Text rstr | Unavailable rstr

text \<open>The answers of the file system: \<open>Inl None\<close> is \<^verbatim>\<open>ErrorKind::NotFound\<close>, otherwise whether the path is a
  regular file and its size; then the opening of the file, and all its bytes.\<close>

record evidence_fs =
  ef_metadata :: "rstr \<Rightarrow> rstr option + bool \<times> nat"
  ef_open :: "rstr \<Rightarrow> unit res"
  ef_read :: "rstr \<Rightarrow> rstr res"

definition capture_text_snapshot :: "evidence_fs \<Rightarrow> rstr \<Rightarrow> file_snapshot" where
  "capture_text_snapshot fs path =
     (case ef_metadata fs path of
        Inl None \<Rightarrow> Missing
      | Inl (Some e) \<Rightarrow> Unavailable (''failed to inspect file: '' @ e)
      | Inr (is_file, len) \<Rightarrow>
          if \<not> is_file then Unavailable ''path is not a regular file''
          else if MAX_FILE_EVIDENCE_BYTES < len then
            Unavailable (''file exceeds '' @ show_nat MAX_FILE_EVIDENCE_BYTES @ ''-byte enrichment limit'')
          else (case ef_open fs path of
                  Inl e \<Rightarrow> Unavailable (''failed to open file: '' @ e)
                | Inr _ \<Rightarrow>
                    (case ef_read fs path of
                       Inl e \<Rightarrow> Unavailable (''failed to read file: '' @ e)
                     | Inr contents \<Rightarrow>
                         (let bytes = take (sat_add MAX_FILE_EVIDENCE_BYTES 1) contents in
                          if MAX_FILE_EVIDENCE_BYTES < length bytes then
                            Unavailable (''file grew beyond '' @ show_nat MAX_FILE_EVIDENCE_BYTES @ ''-byte enrichment limit'')
                          else if valid_utf8 bytes then Text bytes
                          else Unavailable ''file is not UTF-8 text''))))"

record pending_file_evidence =
  pf_ordinal :: nat
  pf_plan :: file_capture_plan
  pf_before :: file_snapshot
  pf_destination_before :: "file_snapshot option"

record completed_file_evidence =
  cf_ordinal :: nat
  cf_after :: file_snapshot
  cf_source_after :: "file_snapshot option"

text \<open>\<open>fs n\<close> are the states of the file system in which the two snapshots of the \<open>n\<close>-th file are taken.
  Whether two \<^verbatim>\<open>PathBuf\<close>s are equal is decided on their components.\<close>

definition moves :: "file_capture_plan \<Rightarrow> bool" where
  "moves plan \<longleftrightarrow> components (fp_path_before plan) \<noteq> components (fp_path_after plan)"

definition prepare_one :: "(nat \<Rightarrow> evidence_fs \<times> evidence_fs) \<Rightarrow> nat \<times> file_capture_plan \<Rightarrow> pending_file_evidence" where
  "prepare_one fs = (\<lambda>(index, plan).
     \<lparr>pf_ordinal = index, pf_plan = plan,
      pf_before = capture_text_snapshot (fst (fs index)) (fp_path_before plan),
      pf_destination_before =
        (if moves plan then Some (capture_text_snapshot (snd (fs index)) (fp_path_after plan)) else None)\<rparr>)"

definition prepare_file_evidence ::
    "(nat \<Rightarrow> evidence_fs \<times> evidence_fs) \<Rightarrow> rstr \<Rightarrow> (rstr \<Rightarrow> rstr option) \<Rightarrow> pending_file_evidence list" where
  "prepare_file_evidence fs tool_name args =
     (case parse_file_capture_plans tool_name args of
        None \<Rightarrow> []
      | Some plans \<Rightarrow> map (prepare_one fs) (enumerate 0 plans))"

definition complete_file_evidence ::
    "(nat \<Rightarrow> evidence_fs \<times> evidence_fs) \<Rightarrow> pending_file_evidence list \<Rightarrow> completed_file_evidence list" where
  "complete_file_evidence fs evidences =
     map (\<lambda>(index, evidence).
       \<lparr>cf_ordinal = pf_ordinal evidence,
        cf_after = capture_text_snapshot (fst (fs index)) (fp_path_after (pf_plan evidence)),
        cf_source_after =
          (if moves (pf_plan evidence)
           then Some (capture_text_snapshot (snd (fs index)) (fp_path_before (pf_plan evidence))) else None)\<rparr>)
       (enumerate 0 evidences)"

section \<open>Every plan names absolute paths\<close>

lemma resolve_path_absolute: "resolve_path workdir path = Some p \<Longrightarrow> is_absolute workdir \<Longrightarrow> is_absolute p"
  by (auto simp: resolve_path_def path_join_absolute split: if_splits)

lemma resolve_path_agrees: "resolve_path workdir path = Some p \<Longrightarrow> resolve_patch_path path workdir = p"
  by (auto simp: resolve_path_def resolve_patch_path_def split: if_splits)

definition resolved :: "rstr \<Rightarrow> rstr \<Rightarrow> bool" where
  "resolved workdir path \<longleftrightarrow> (\<exists>raw. resolve_path workdir raw = Some path)"

definition plan_ok :: "rstr \<Rightarrow> file_capture_plan \<Rightarrow> bool" where
  "plan_ok workdir plan \<longleftrightarrow>
     resolved workdir (fp_path_before plan) \<and> resolved workdir (fp_path_after plan) \<and>
     (fp_operation plan = HMove \<or> fp_path_before plan = fp_path_after plan)"


lemma resolvedI: "resolve_path workdir raw = Some path \<Longrightarrow> resolved workdir path"
  by (auto simp: resolved_def)

text \<open>The paths a plan is about, in the order of the patch.\<close>

definition plan_paths :: "file_capture_plan \<Rightarrow> rstr list" where
  "plan_paths plan =
     (if fp_operation plan = HMove then [fp_path_before plan, fp_path_after plan] else [fp_path_after plan])"

text \<open>The path a line of a patch names.\<close>

definition line_paths :: "rstr \<Rightarrow> rstr list" where
  "line_paths line =
     concat (map (\<lambda>prefix. case strip_prefix prefix line of None \<Rightarrow> [] | Some path \<Rightarrow> [path])
       [ADD_FILE_PREFIX, UPDATE_FILE_PREFIX, DELETE_FILE_PREFIX, MOVE_TO_PREFIX])"


lemma line_paths_prefix:
  "line_paths (ADD_FILE_PREFIX @ p) = [p]" "line_paths (UPDATE_FILE_PREFIX @ p) = [p]"
  "line_paths (DELETE_FILE_PREFIX @ p) = [p]" "line_paths (MOVE_TO_PREFIX @ p) = [p]"
  by (simp_all add: line_paths_def strip_prefix_def patch_prefixes)

lemma line_paths_other: "\<not> is_file_header line \<Longrightarrow> line_paths line = []"
  by (simp add: line_paths_def is_file_header_def strip_prefix_def)

lemma rewrite_line_prefix:
  "rewrite_line w (ADD_FILE_PREFIX @ p) = ADD_FILE_PREFIX @ resolve_patch_path p w"
  "rewrite_line w (UPDATE_FILE_PREFIX @ p) = UPDATE_FILE_PREFIX @ resolve_patch_path p w"
  "rewrite_line w (DELETE_FILE_PREFIX @ p) = DELETE_FILE_PREFIX @ resolve_patch_path p w"
  "rewrite_line w (MOVE_TO_PREFIX @ p) = MOVE_TO_PREFIX @ resolve_patch_path p w"
  by (simp_all add: rewrite_line_def strip_prefix_def patch_prefixes)

text \<open>One round of the loop.\<close>

lemma plan_of_line_sound:
  assumes "plan_of_line workdir line next_line = Some (consumed, plan)"
  shows "(\<forall>p \<in> set_option plan. plan_ok workdir p) \<and>
    concat (map (\<lambda>l. line_paths (rewrite_line workdir l)) (line # (if consumed then [next_line] else []))) =
    concat (map plan_paths (case plan of None \<Rightarrow> [] | Some p \<Rightarrow> [p]))"
proof -
  consider (add) p where "line = ADD_FILE_PREFIX @ p" | (delete) p where "line = DELETE_FILE_PREFIX @ p"
    | (update) p where "line = UPDATE_FILE_PREFIX @ p"
    | (other) "strip_prefix ADD_FILE_PREFIX line = None" "strip_prefix DELETE_FILE_PREFIX line = None"
        "strip_prefix UPDATE_FILE_PREFIX line = None"
    by (metis not_None_eq strip_prefix_Some)
  then show ?thesis
  proof cases
    case add
    with assms show ?thesis
      by (auto simp: plan_of_line_def rewrite_line_prefix line_paths_prefix resolve_path_agrees plan_paths_def
          same_path_plan_def plan_ok_def resolvedI)
  next
    case (delete p)
    have "strip_prefix ADD_FILE_PREFIX line = None" by (simp add: delete strip_prefix_def patch_prefixes)
    with delete assms show ?thesis
      by (auto simp: plan_of_line_def rewrite_line_prefix line_paths_prefix resolve_path_agrees plan_paths_def
          same_path_plan_def plan_ok_def resolvedI)
  next
    case (update p)
    have none: "strip_prefix ADD_FILE_PREFIX line = None" "strip_prefix DELETE_FILE_PREFIX line = None"
      by (simp_all add: update strip_prefix_def patch_prefixes)
    from none update assms show ?thesis
      by (auto simp: plan_of_line_def rewrite_line_prefix line_paths_prefix resolve_path_agrees plan_paths_def
          same_path_plan_def plan_ok_def resolvedI strip_prefix_Some bind_eq_Some_conv split: option.splits)
  next
    case other
    with assms(1) have *: "\<not> starts_with line MOVE_TO_PREFIX" "\<not> consumed" "plan = None"
      by (auto simp: plan_of_line_def split: if_splits)
    with other have "\<not> is_file_header line"
      by (auto simp: is_file_header_def strip_prefix_def split: if_splits)
    with * show ?thesis by (simp add: rewrite_line_other line_paths_other)
  qed
qed

lemma patch_plans_sound:
  assumes "patch_plans workdir plans ls = Some plans'"
    "list_all (plan_ok workdir) plans" "length plans \<le> MAX_FILE_EVIDENCE_FILES"
    "ls \<noteq> [] \<Longrightarrow> last ls = ''*** End Patch''"
  shows "list_all (plan_ok workdir) plans' \<and> length plans' \<le> MAX_FILE_EVIDENCE_FILES \<and>
    concat (map plan_paths plans') =
    concat (map plan_paths plans) @ concat (map (\<lambda>l. line_paths (rewrite_line workdir l)) ls)"
  using assms
proof (induction workdir plans ls rule: patch_plans.induct)
  case (1 workdir plans line next_line rest)
  from "1.prems"(1) obtain consumed plan where step: "plan_of_line workdir line next_line = Some (consumed, plan)"
    by (auto split: option.splits)
  let ?new = "case plan of None \<Rightarrow> [] | Some p \<Rightarrow> [p]" and ?rest = "if consumed then rest else next_line # rest"
  have len: "length (plans @ ?new) \<le> MAX_FILE_EVIDENCE_FILES"
    and rec: "patch_plans workdir (plans @ ?new) ?rest = Some plans'"
    using "1.prems"(1) step by (auto simp: Let_def split: if_splits)
  note sound = plan_of_line_sound [OF step]
  have move: "consumed \<Longrightarrow> next_line \<noteq> ''*** End Patch''"
    using step by (auto simp: plan_of_line_def patch_prefixes strip_prefix_def bind_eq_Some_conv split: option.splits if_splits)
  have "list_all (plan_ok workdir) (plans @ ?new)" using sound "1.prems"(2) by (auto split: option.split)
  moreover have "?rest \<noteq> [] \<Longrightarrow> last ?rest = ''*** End Patch''"
    using "1.prems"(4) by (auto split: if_splits)
  ultimately have "list_all (plan_ok workdir) plans' \<and> length plans' \<le> MAX_FILE_EVIDENCE_FILES \<and>
      concat (map plan_paths plans') =
      concat (map plan_paths (plans @ ?new)) @ concat (map (\<lambda>l. line_paths (rewrite_line workdir l)) ?rest)"
    using "1.IH" [OF step refl refl _ rec _ len] len by simp
  with sound show ?case by auto
next
  case "2_2"
  have "\<not> is_file_header ''*** End Patch''" by (simp add: is_file_header_def patch_prefixes)
  with "2_2" show ?case by (auto simp: rewrite_line_other line_paths_other)
qed simp

section \<open>Evidence and the patch tool agree\<close>


lemma str_lines_single:
  assumes "nl \<notin> set s" "s \<noteq> []"
  shows "str_lines s = [s]"
proof -
  have "nl \<notin> set s \<Longrightarrow> s \<noteq> [] \<Longrightarrow> split_inclusive nl s = [s]" for s
  proof (induction s)
    case (Cons c s)
    then show ?case by (cases s) auto
  qed simp
  moreover have "strip_line_ending s = s"
    using assms(1) by (auto simp: strip_line_ending_def strip_suffix_Some split: option.splits)
  ultimately show ?thesis using assms by (simp add: str_lines_def)
qed





lemma parse_apply_patch_plans:
  assumes "parse_apply_patch args = Some plans"
  obtains patch workdir where "args ''patch'' = Some patch" "args ''workdir'' = Some workdir" "is_absolute workdir"
    "plans \<noteq> []" "list_all (plan_ok workdir) plans" "length plans \<le> MAX_FILE_EVIDENCE_FILES"
    "concat (map plan_paths plans) = concat (map (\<lambda>l. line_paths (rewrite_line workdir l)) (str_lines patch))"
proof -
  from assms obtain patch workdir where *: "args ''patch'' = Some patch" "args ''workdir'' = Some workdir"
    "is_absolute workdir" "str_lines patch \<noteq> []" "hd (str_lines patch) = ''*** Begin Patch''"
    "last (str_lines patch) = ''*** End Patch''" "patch_plans workdir [] (tl (str_lines patch)) = Some plans" "plans \<noteq> []"
    by (auto simp: parse_apply_patch_def absolute_workdir_def bind_eq_Some_conv Let_def split: if_splits)
  obtain rest where rest: "str_lines patch = ''*** Begin Patch'' # rest" using *(4,5) by (metis list.collapse)
  then have "rest \<noteq> [] \<Longrightarrow> last rest = ''*** End Patch''" using *(6) by simp
  from patch_plans_sound [OF *(7) [unfolded rest list.sel] _ _ this]
  have "list_all (plan_ok workdir) plans" "length plans \<le> MAX_FILE_EVIDENCE_FILES"
    "concat (map plan_paths plans) = concat (map (\<lambda>l. line_paths (rewrite_line workdir l)) rest)" by simp_all
  moreover have "\<not> is_file_header ''*** Begin Patch''" by (simp add: is_file_header_def patch_prefixes)
  ultimately show ?thesis
    using *(3,8) by (intro that [OF *(1,2)]) (simp_all add: rest rewrite_line_other line_paths_other)
qed



definition example_patch :: rstr where
  "example_patch = ''*** Begin Patch'' @ [nl] @ ''*** Delete File: a'' @ [nl] @ ''*** End Patch''"

definition example_patch_call :: "rstr \<Rightarrow> rstr option" where
  "example_patch_call = [''patch'' \<mapsto> example_patch, ''workdir'' \<mapsto> ''/w'']"

lemma example_patch_lines:
  "str_lines example_patch = [''*** Begin Patch'', ''*** Delete File: a'', ''*** End Patch'']"
  by (simp add: example_patch_def str_lines_def strip_line_ending_def strip_suffix_def ends_with_def)

lemma example_patch_plans:
  "parse_apply_patch example_patch_call = Some [same_path_plan ApplyPatch HDelete ''/w/a'']"
  by (simp add: parse_apply_patch_def example_patch_call_def example_patch_lines absolute_workdir_def is_absolute_def
      plan_of_line_def patch_prefixes strip_prefix_def resolve_path_def path_join_def ends_with_def MAX_FILE_EVIDENCE_FILES_def)


section \<open>Evidence is bounded\<close>

lemma write_plan_ok:
  "write_plan workdir redirect path = Some plan \<Longrightarrow> plan_ok workdir plan"
  by (auto simp: write_plan_def plan_ok_def same_path_plan_def resolvedI)

lemma parse_shell_write_ok:
  assumes "parse_shell_write args = Some plan"
  obtains workdir where "args ''workdir'' = Some workdir" "is_absolute workdir" "plan_ok workdir plan"
proof -
  from assms obtain command workdir where *: "args ''workdir'' = Some workdir" "is_absolute workdir"
    "parse_cat_heredoc command workdir = Some plan \<or> parse_printf command workdir = Some plan"
    by (auto simp: parse_shell_write_def absolute_workdir_def bind_eq_Some_conv split: if_splits option.splits)
  have "parse_cat_heredoc command workdir = Some plan \<Longrightarrow> plan_ok workdir plan"
    by (auto simp: parse_cat_heredoc_def bind_eq_Some_conv split: list.splits if_splits intro: write_plan_ok)
  moreover have "parse_printf command workdir = Some plan \<Longrightarrow> plan_ok workdir plan"
    by (auto simp: parse_printf_def bind_eq_Some_conv split: if_splits intro: write_plan_ok)
  ultimately show ?thesis using * that by blast
qed

lemma parse_plans_ok:
  assumes "parse_file_capture_plans tool_name args = Some plans"
  obtains workdir where "args ''workdir'' = Some workdir" "is_absolute workdir"
    "list_all (plan_ok workdir) plans" "length plans \<le> MAX_FILE_EVIDENCE_FILES"
proof -
  from assms consider (patch) "parse_apply_patch args = Some plans" |
    (shell) plan where "parse_shell_write args = Some plan" "plans = [plan]"
    by (auto simp: parse_file_capture_plans_def split: if_splits)
  then show ?thesis
  proof cases
    case patch
    then show ?thesis by (rule parse_apply_patch_plans) (rule that)
  next
    case shell
    from shell(1) show ?thesis
      by (rule parse_shell_write_ok) (auto simp: shell(2) MAX_FILE_EVIDENCE_FILES_def intro: that)
  qed
qed

fun snapshot_bounded :: "file_snapshot \<Rightarrow> bool" where
  "snapshot_bounded (Text t) \<longleftrightarrow> length t \<le> MAX_FILE_EVIDENCE_BYTES \<and> valid_utf8 t"
| "snapshot_bounded _ \<longleftrightarrow> True"

lemma capture_bounded: "snapshot_bounded (capture_text_snapshot fs path)"
  by (auto simp: capture_text_snapshot_def Let_def split: sum.splits option.splits)

lemma capture_exact:
  assumes "capture_text_snapshot fs path = Text t"
  shows "ef_read fs path = Inr t"
proof -
  from assms obtain contents where *: "ef_read fs path = Inr contents"
    "t = take (sat_add MAX_FILE_EVIDENCE_BYTES 1) contents" "length t \<le> MAX_FILE_EVIDENCE_BYTES"
    by (auto simp: capture_text_snapshot_def Let_def split: sum.splits option.splits if_splits)
  moreover have "sat_add MAX_FILE_EVIDENCE_BYTES 1 = Suc MAX_FILE_EVIDENCE_BYTES"
    by (simp add: sat_add_def usize_max_def MAX_FILE_EVIDENCE_BYTES_def)
  ultimately show ?thesis by (auto simp: min_def split: if_splits)
qed

text \<open>
  Evidence is bounded and pairs up.  For whatever call, at most eight files are looked at, all under
  absolute paths; the snapshots before and after carry the same ordinals \<open>0, 1, \<dots>\<close>; every stored text is
  valid UTF-8 of at most 256 KiB and is the whole file as it was read; and a second snapshot is
  taken on both sides exactly for a file that moves.
\<close>

theorem file_evidence_is_bounded:
  assumes "before = prepare_file_evidence fs tool_name args" "after = complete_file_evidence fs' before"
  shows "length before \<le> 8 \<and> map pf_ordinal before = [0..<length before] \<and>
    map cf_ordinal after = map pf_ordinal before \<and>
    (\<forall>e \<in> set before. is_absolute (fp_path_before (pf_plan e)) \<and> is_absolute (fp_path_after (pf_plan e))) \<and>
    (\<forall>e \<in> set before. list_all snapshot_bounded (pf_before e # (case pf_destination_before e of None \<Rightarrow> [] | Some d \<Rightarrow> [d]))) \<and>
    (\<forall>e \<in> set after. list_all snapshot_bounded (cf_after e # (case cf_source_after e of None \<Rightarrow> [] | Some d \<Rightarrow> [d]))) \<and>
    (\<forall>i<length before. \<forall>t. pf_before (before ! i) = Text t \<longrightarrow>
       ef_read (fst (fs i)) (fp_path_before (pf_plan (before ! i))) = Inr t) \<and>
    (\<forall>i<length before. \<forall>t. cf_after (after ! i) = Text t \<longrightarrow>
       ef_read (fst (fs' i)) (fp_path_after (pf_plan (before ! i))) = Inr t) \<and>
    (\<forall>i<length before. (pf_destination_before (before ! i) = None) = (cf_source_after (after ! i) = None)) \<and>
    (\<forall>e \<in> set before. pf_destination_before e \<noteq> None \<longrightarrow> fp_operation (pf_plan e) = HMove)"
proof -
  define plans where "plans = (case parse_file_capture_plans tool_name args of None \<Rightarrow> [] | Some plans \<Rightarrow> plans)"
  have before: "before = map (prepare_one fs) (enumerate 0 plans)"
    by (simp add: assms(1) prepare_file_evidence_def plans_def split: option.split)
  obtain workdir where plans: "plans = [] \<or> is_absolute workdir" "list_all (plan_ok workdir) plans" "length plans \<le> 8"
    unfolding plans_def MAX_FILE_EVIDENCE_FILES_def [symmetric]
    by (cases "parse_file_capture_plans tool_name args") (auto elim: parse_plans_ok)
  have len: "length before = length plans" by (simp add: before)
  have nth: "before ! i = prepare_one fs (i, plans ! i)" if "i < length plans" for i
    using that by (simp add: before nth_enumerate_eq)
  have nth': "after ! i = \<lparr>cf_ordinal = pf_ordinal (before ! i),
        cf_after = capture_text_snapshot (fst (fs' i)) (fp_path_after (pf_plan (before ! i))),
        cf_source_after = (if moves (pf_plan (before ! i))
          then Some (capture_text_snapshot (snd (fs' i)) (fp_path_before (pf_plan (before ! i)))) else None)\<rparr>"
    if "i < length plans" for i
    using that by (simp add: assms(2) complete_file_evidence_def nth_enumerate_eq len)
  have len': "length after = length plans" by (simp add: assms(2) complete_file_evidence_def len)
  have abs: "is_absolute p" if "resolved workdir p" "plans \<noteq> []" for p
    using that plans(1) by (auto simp: resolved_def intro: resolve_path_absolute)
  have ok: "plan_ok workdir (plans ! i)" if "i < length plans" for i using that plans(2) by (simp add: list_all_length)
  have ordinals: "map pf_ordinal before = [0..<length before]"
    by (rule nth_equalityI) (simp_all add: len nth prepare_one_def)
  moreover have "map cf_ordinal after = map pf_ordinal before"
    by (rule nth_equalityI) (simp_all add: len len' nth nth')
  moreover have "\<forall>e \<in> set before. is_absolute (fp_path_before (pf_plan e)) \<and> is_absolute (fp_path_after (pf_plan e))"
    using ok abs by (fastforce simp: in_set_conv_nth len nth prepare_one_def plan_ok_def)
  moreover have "\<forall>e \<in> set before. list_all snapshot_bounded (pf_before e # (case pf_destination_before e of None \<Rightarrow> [] | Some d \<Rightarrow> [d]))"
    by (auto simp: before prepare_one_def capture_bounded)
  moreover have "\<forall>e \<in> set after. list_all snapshot_bounded (cf_after e # (case cf_source_after e of None \<Rightarrow> [] | Some d \<Rightarrow> [d]))"
    by (auto simp: assms(2) complete_file_evidence_def capture_bounded)
  moreover have "\<forall>e \<in> set before. pf_destination_before e \<noteq> None \<longrightarrow> fp_operation (pf_plan e) = HMove"
    using ok by (fastforce simp: in_set_conv_nth len nth prepare_one_def plan_ok_def moves_def)
  ultimately show ?thesis
    using plans(3) by (auto simp: len nth nth' prepare_one_def intro: capture_exact)
qed

definition example_files :: "rstr \<Rightarrow> evidence_fs" where
  "example_files t =
     \<lparr>ef_metadata = (\<lambda>p. if p = ''/w/a'' then Inr (True, length t) else Inl None),
      ef_open = (\<lambda>_. Inr ()), ef_read = (\<lambda>_. Inr t)\<rparr>"

theorem file_evidence_is_bounded_witness:
  "map cf_ordinal (complete_file_evidence (\<lambda>_. (example_files ''y'', example_files ''y''))
     (prepare_file_evidence (\<lambda>_. (example_files ''x'', example_files ''x'')) ''apply_patch'' example_patch_call)) = [0]"
proof -
  let ?fs = "\<lambda>_ :: nat. (example_files ''x'', example_files ''x'')"
  let ?before = "prepare_file_evidence ?fs ''apply_patch'' example_patch_call"
  have "parse_file_capture_plans ''apply_patch'' example_patch_call = Some [same_path_plan ApplyPatch HDelete ''/w/a'']"
    by (simp add: parse_file_capture_plans_def example_patch_plans)
  then have "length ?before = 1" by (simp add: prepare_file_evidence_def)
  with file_evidence_is_bounded [OF refl refl, of ?fs "''apply_patch''" example_patch_call
      "\<lambda>_. (example_files ''y'', example_files ''y'')"]
  show ?thesis by simp
qed

section \<open>Quoted words\<close>

text \<open>The usual quoting of a word for a shell: single quotes around it, and each single quote in it as
  \<^verbatim>\<open>'\''\<close>.\<close>

definition quote_char :: "char \<Rightarrow> rstr" where
  "quote_char c = (if c = CHR 39 then [CHR 39, CHR 92, CHR 39, CHR 39] else [c])"

definition shell_quote :: "rstr \<Rightarrow> rstr" where
  "shell_quote w = CHR 39 # concat (map quote_char w) @ [CHR 39]"

fun render_token :: "token \<Rightarrow> rstr" where
  "render_token (Word w) = shell_quote w"
| "render_token (Operator op) = op"

fun token_ok :: "token \<Rightarrow> bool" where
  "token_ok (Word w) \<longleftrightarrow> w \<noteq> []"
| "token_ok (Operator op) \<longleftrightarrow> op \<in> {''<<'', ''>'', ''>>''}"

lemma single_quoted_span: "CHR 39 \<notin> set a \<Longrightarrow> single_quoted (a @ CHR 39 # r) = Some (a, r)"
  by (induction a) auto

lemma plain_quote_bytes: "plain_byte (CHR 39)" "plain_byte (CHR 92)"
  by (simp_all add: plain_byte_def is_ascii_ws_def)

lemma shell_word_open: "shell_word (CHR 39 # r) =
    (case single_quoted r of None \<Rightarrow> None | Some (w, r') \<Rightarrow> map_option (apfst (append w)) (shell_word r'))"
  by (subst shell_word.simps)
     (simp add: ws_prefix_plain plain_quote_bytes shell_operator_def shell_breaks_def)

lemma shell_word_backslash: "shell_word (CHR 92 # c # r) = map_option (apfst ((#) c)) (shell_word r)"
  by (subst shell_word.simps)
     (simp add: ws_prefix_plain plain_quote_bytes shell_operator_def shell_breaks_def)

lemma quote_free: "CHR 39 \<notin> set w \<Longrightarrow> concat (map quote_char w) = w"
  by (induction w) (auto simp: quote_char_def)

lemma shell_word_quoted:
  "shell_word (shell_quote w @ r) = map_option (apfst (append w)) (shell_word r)"
proof (induction w rule: length_induct)
  case (1 w)
  show ?case
  proof (cases "CHR 39 \<in> set w")
    case False
    then show ?thesis by (simp add: shell_quote_def quote_free shell_word_open single_quoted_span)
  next
    case True
    then obtain a b where ab: "w = a @ CHR 39 # b" "CHR 39 \<notin> set a" by (meson split_list_first)
    have "shell_quote w @ r = CHR 39 # a @ CHR 39 # CHR 92 # CHR 39 # shell_quote b @ r"
      by (simp add: shell_quote_def ab quote_free) (simp add: quote_char_def)
    moreover have "shell_word (shell_quote b @ r) = map_option (apfst (append b)) (shell_word r)"
      using "1.IH" by (simp add: ab(1))
    ultimately show ?thesis
      by (simp add: shell_word_open single_quoted_span [OF ab(2)] shell_word_backslash option.map_comp comp_def
          apfst_compose ab(1))
  qed
qed

definition safe_char :: "char \<Rightarrow> bool" where
  "safe_char c \<longleftrightarrow>
     plain_byte c \<and> c \<notin> set shell_breaks \<and> c \<notin> set shell_expansions \<and> c \<noteq> CHR 39 \<and> c \<noteq> CHR 34 \<and> c \<noteq> CHR 92"

lemma shell_operator_None: "c \<notin> set shell_breaks \<Longrightarrow> shell_operator (c # r) = None"
  by (auto simp: shell_operator_def shell_breaks_def)

lemma shell_word_safe:
  "list_all safe_char w \<Longrightarrow> shell_word (w @ r) = map_option (apfst (append w)) (shell_word r)"
proof (induction w)
  case Nil
  show ?case by (cases "shell_word r") (auto simp: apfst_def)
next
  case (Cons c w)
  then have "shell_word (c # w @ r) = map_option (apfst ((#) c)) (shell_word (w @ r))"
    by (subst shell_word.simps) (simp add: safe_char_def ws_prefix_plain shell_operator_None)
  with Cons show ?case by (simp add: option.map_comp comp_def apfst_compose)
qed

lemma tokenize_space: "tokenize_simple_shell_line (CHR '' '' # r) = tokenize_simple_shell_line r"
proof -
  have "trim_start (CHR '' '' # r) = trim_start r"
    by (subst trim_start.simps) (simp add: ws_prefix_def is_ascii_ws_def)
  then show ?thesis by (simp add: tokenize_simple_shell_line.simps [of "CHR '' '' # r"] tokenize_simple_shell_line.simps [of r])
qed

lemma trim_start_plain: "plain_byte c \<Longrightarrow> trim_start (c # r) = c # r"
  by (simp add: trim_start.simps ws_prefix_plain)

definition word_ends :: "rstr \<Rightarrow> bool" where
  "word_ends r \<longleftrightarrow> r = [] \<or> (\<exists>r'. r = CHR '' '' # r')"

lemma shell_word_ends: "word_ends r \<Longrightarrow> shell_word r = Some ([], r)"
  by (auto simp: word_ends_def shell_word.simps ws_prefix_def is_ascii_ws_def)

lemma tokenize_word:
  assumes "\<And>r. shell_word (x @ r) = map_option (apfst (append w)) (shell_word r)"
    "x = c # x'" "plain_byte c" "c \<notin> set shell_breaks" "w \<noteq> []" "word_ends r"
  shows "tokenize_simple_shell_line (x @ r) = map_option ((#) (Word w)) (tokenize_simple_shell_line r)"
proof -
  have "trim_start (x @ r) = x @ r" using assms(2,3) by (simp add: trim_start_plain)
  moreover have "shell_operator (x @ r) = None" using assms(2,4) by (simp add: shell_operator_None)
  moreover have "shell_word (x @ r) = Some (w, r)" using assms(1,6) by (simp add: shell_word_ends apfst_def)
  ultimately show ?thesis
    using assms(2,4,5) by (subst tokenize_simple_shell_line.simps) (simp add: Let_def)
qed

lemma tokenize_quoted:
  assumes "w \<noteq> []" "word_ends r"
  shows "tokenize_simple_shell_line (shell_quote w @ r) = map_option ((#) (Word w)) (tokenize_simple_shell_line r)"
proof (rule tokenize_word)
  show "shell_quote w = CHR 39 # concat (map quote_char w) @ [CHR 39]" by (simp add: shell_quote_def)
qed (use assms in \<open>simp_all add: shell_word_quoted plain_quote_bytes shell_breaks_def\<close>)

lemma tokenize_operator:
  assumes "op \<in> {''<<'', ''>'', ''>>''}" "word_ends r"
  shows "tokenize_simple_shell_line (op @ r) = map_option ((#) (Operator op)) (tokenize_simple_shell_line r)"
proof -
  obtain c t where op: "op = c # t" "c = CHR ''<'' \<or> c = CHR ''>''" using assms(1) by auto
  then have "plain_byte c" by (auto simp: plain_byte_def is_ascii_ws_def)
  with op have "trim_start (op @ r) = op @ r" by (simp add: trim_start_plain)
  moreover have "shell_operator (op @ r) = Some (op, length op)"
    using assms by (auto simp: shell_operator_def word_ends_def)
  ultimately show ?thesis using op(1) by (subst tokenize_simple_shell_line.simps) (simp add: Let_def)
qed

lemma tokenize_token:
  "token_ok t \<Longrightarrow> word_ends r \<Longrightarrow>
     tokenize_simple_shell_line (render_token t @ r) = map_option ((#) t) (tokenize_simple_shell_line r)"
  by (cases t) (simp_all add: tokenize_quoted tokenize_operator)

text \<open>What is quoted is read back.\<close>

lemma tokenize_rendered:
  "list_all token_ok ts \<Longrightarrow> tokenize_simple_shell_line (join_with '' '' (map render_token ts)) = Some ts"
proof (induction ts)
  case Nil
  show ?case by (simp add: tokenize_simple_shell_line.simps trim_start.simps)
next
  case (Cons t ts)
  show ?case
  proof (cases ts)
    case Nil
    have "tokenize_simple_shell_line [] = Some []" by (simp add: tokenize_simple_shell_line.simps trim_start.simps)
    with Nil Cons.prems tokenize_token [of t "[]"] show ?thesis by (simp add: word_ends_def)
  next
    case (Cons t' ts')
    with Cons.IH Cons.prems tokenize_token [of t "CHR '' '' # join_with '' '' (map render_token ts)"]
    show ?thesis by (simp add: word_ends_def tokenize_space)
  qed
qed

section \<open>Quoted writes are recognised\<close>

definition printf_command :: "rstr \<Rightarrow> rstr \<Rightarrow> rstr \<Rightarrow> rstr" where
  "printf_command format redirect path =
     ''printf '' @ join_with '' '' (map render_token [Word format, Operator redirect, Word path])"

definition heredoc_line :: "rstr \<Rightarrow> rstr \<Rightarrow> rstr \<Rightarrow> rstr" where
  "heredoc_line redirect path delimiter =
     ''cat '' @ join_with '' '' (map render_token [Operator redirect, Word path, Operator ''<<'', Word delimiter])"

definition heredoc_command :: "rstr \<Rightarrow> rstr \<Rightarrow> rstr \<Rightarrow> rstr list \<Rightarrow> rstr" where
  "heredoc_command redirect path delimiter body =
     concat (map (\<lambda>l. l @ [nl]) (heredoc_line redirect path delimiter # body @ [delimiter]))"

lemma tokenize_named:
  assumes "list_all safe_char name" "name \<noteq> []" "list_all token_ok ts"
  shows "tokenize_simple_shell_line (name @ CHR '' '' # join_with '' '' (map render_token ts)) = Some (Word name # ts)"
proof -
  obtain c x where name: "name = c # x" using assms(2) by (cases name) auto
  have "tokenize_simple_shell_line (name @ CHR '' '' # join_with '' '' (map render_token ts)) =
      map_option ((#) (Word name)) (tokenize_simple_shell_line (CHR '' '' # join_with '' '' (map render_token ts)))"
    using assms(1) by (intro tokenize_word [OF shell_word_safe [OF assms(1)] name])
      (auto simp: name safe_char_def word_ends_def)
  then show ?thesis by (simp add: tokenize_space tokenize_rendered [OF assms(3)])
qed

lemma safe_names: "list_all safe_char ''printf''" "list_all safe_char ''cat''"
  by (simp_all add: safe_char_def plain_byte_def is_ascii_ws_def shell_breaks_def shell_expansions_def)

lemma set_shell_quote: "set (shell_quote w) \<subseteq> set w \<union> {CHR 39, CHR 92}"
  by (auto simp: shell_quote_def quote_char_def split: if_splits)

lemma trim_command: "trim (CHR ''c'' # x @ shell_quote w) = CHR ''c'' # x @ shell_quote w"
    "trim (CHR ''p'' # x @ shell_quote w) = CHR ''p'' # x @ shell_quote w"
  by (rule trim_plain; simp add: shell_quote_def plain_byte_def is_ascii_ws_def)+

lemma normalize_newlines_id: "cr \<notin> set s \<Longrightarrow> normalize_newlines s = s"
proof -
  have "cr \<notin> set s \<Longrightarrow> replace_crlf s = s" for s by (induction s) auto
  moreover have "cr \<notin> set s \<Longrightarrow> map (\<lambda>c. if c = cr then nl else c) s = s" for s by (induction s) auto
  ultimately show "cr \<notin> set s \<Longrightarrow> normalize_newlines s = s" by (simp add: normalize_newlines_def)
qed

lemma tokenize_printf:
  assumes "format \<noteq> []" "path \<noteq> []" "redirect \<in> {''>'', ''>>''}"
  shows "tokenize_simple_shell_line (trim (printf_command format redirect path)) =
    Some [Word ''printf'', Word format, Operator redirect, Word path]"
proof -
  have "printf_command format redirect path =
      CHR ''p'' # (''rintf '' @ shell_quote format @ '' '' @ redirect @ '' '') @ shell_quote path"
    by (simp add: printf_command_def)
  then have "trim (printf_command format redirect path) = printf_command format redirect path"
    by (metis trim_command(2))
  then show ?thesis
    using tokenize_named [OF safe_names(1), of "[Word format, Operator redirect, Word path]"] assms
    by (auto simp: printf_command_def)
qed

lemma tokenize_heredoc:
  assumes "path \<noteq> []" "delimiter \<noteq> []" "redirect \<in> {''>'', ''>>''}"
  shows "tokenize_simple_shell_line (trim (heredoc_line redirect path delimiter)) =
    Some [Word ''cat'', Operator redirect, Word path, Operator ''<<'', Word delimiter]"
proof -
  have "heredoc_line redirect path delimiter =
      CHR ''c'' # (''at '' @ redirect @ '' '' @ shell_quote path @ '' << '') @ shell_quote delimiter"
    by (simp add: heredoc_line_def)
  then have "trim (heredoc_line redirect path delimiter) = heredoc_line redirect path delimiter"
    by (metis trim_command(1))
  then show ?thesis
    using tokenize_named [OF safe_names(2), of "[Operator redirect, Word path, Operator ''<<'', Word delimiter]"] assms
    by (auto simp: heredoc_line_def)
qed

lemma write_plan_resolved:
  assumes "path \<noteq> []" "set path \<inter> {nl, cr, CHR 0x00} = {}"
  shows "write_plan workdir redirect path =
    Some (same_path_plan ShellWrite (if redirect = ''>>'' then HAppend else HOverwrite) (resolve_patch_path path workdir))"
  using assms by (auto simp: write_plan_def resolve_path_def resolve_patch_path_def)

lemma redirect_operator_ok: "redirect \<in> {''>'', ''>>''} \<Longrightarrow> redirect_operator (Operator redirect) = Some redirect"
  by (auto simp: redirect_operator_def)

lemma parse_printf_command:
  assumes "format \<noteq> []" "set format \<inter> {nl, cr} = {}" "path \<noteq> []" "set path \<inter> {nl, cr, CHR 0x00} = {}"
    "redirect \<in> {''>'', ''>>''}"
  shows "parse_printf (printf_command format redirect path) workdir = write_plan workdir redirect path"
proof -
  have "nl \<notin> set (printf_command format redirect path)" "cr \<notin> set (printf_command format redirect path)"
    using assms(2,4,5) set_shell_quote [of format] set_shell_quote [of path] by (auto simp: printf_command_def)
  then show ?thesis
    by (simp add: parse_printf_def tokenize_printf [OF assms(1,3,5)] redirect_operator_ok [OF assms(5)])
qed

lemma parse_heredoc_command:
  assumes "path \<noteq> []" "set path \<inter> {nl, cr, CHR 0x00} = {}" "redirect \<in> {''>'', ''>>''}"
    "delimiter \<noteq> []" "set delimiter \<inter> {nl, cr} = {}" "delimiter \<notin> set body"
    "\<forall>l \<in> set body. set l \<inter> {nl, cr} = {}"
  shows "parse_cat_heredoc (heredoc_command redirect path delimiter body) workdir = write_plan workdir redirect path"
proof -
  let ?lines = "heredoc_line redirect path delimiter # body @ [delimiter]"
  have first: "nl \<notin> set (heredoc_line redirect path delimiter)" "cr \<notin> set (heredoc_line redirect path delimiter)"
    using assms(2,3,5) set_shell_quote [of delimiter] set_shell_quote [of path] by (auto simp: heredoc_line_def)
  have "cr \<notin> set (heredoc_command redirect path delimiter body)"
    using first(2) assms(5,7) by (auto simp: heredoc_command_def)
  moreover have "str_lines (heredoc_command redirect path delimiter body) = ?lines"
    unfolding heredoc_command_def
  proof (rule str_lines_concat)
    have last: "cr \<notin> set l \<Longrightarrow> l = [] \<or> last l \<noteq> cr" for l by (metis last_in_set)
    show "clean_line l" if "l \<in> set ?lines" for l
      using that first assms(5,7) last [of l] by (auto simp: clean_line_def)
  qed
  moreover have "first_index (\<lambda>l. l = delimiter) (body @ [delimiter]) = Some (length body)"
    using assms(6) by (induction body) auto
  moreover have "redirect \<noteq> ''<<''" using assms(3) by auto
  ultimately show ?thesis
    using tokenize_heredoc [OF assms(1,4,3)] assms(4)
    by (simp add: parse_cat_heredoc_def normalize_newlines_id heredoc_parts_def redirect_operator_ok [OF assms(3)])
qed

text \<open>
  Properly quoted writes are recognised.  A \<^verbatim>\<open>printf\<close> or a \<^verbatim>\<open>cat\<close> with a here-document whose words are
  quoted for the shell is given evidence for exactly the file it writes, with the right operation, whatever
  else the words and the document contain.
\<close>

theorem quoted_shell_writes_are_recognised:
  assumes "args ''workdir'' = Some workdir" "is_absolute workdir"
    "args ''cmd'' = Some (printf_command format redirect path) \<and> format \<noteq> [] \<and> set format \<inter> {nl, cr} = {} \<or>
     args ''cmd'' = Some (heredoc_command redirect path delimiter body) \<and>
       delimiter \<noteq> [] \<and> set delimiter \<inter> {nl, cr} = {} \<and> delimiter \<notin> set body \<and> (\<forall>l \<in> set body. set l \<inter> {nl, cr} = {})"
    "redirect \<in> {''>'', ''>>''}" "path \<noteq> []" "set path \<inter> {nl, cr, CHR 0x00} = {}"
  shows "parse_file_capture_plans ''exec_command'' args =
    Some [same_path_plan ShellWrite (if redirect = ''>>'' then HAppend else HOverwrite) (resolve_patch_path path workdir)]"
  using assms(3)
proof (elim disjE conjE)
  assume cmd: "args ''cmd'' = Some (printf_command format redirect path)" "format \<noteq> []" "set format \<inter> {nl, cr} = {}"
  have "parse_cat_heredoc (printf_command format redirect path) workdir = None"
  proof -
    have "cr \<notin> set (printf_command format redirect path)" "nl \<notin> set (printf_command format redirect path)"
      using cmd(3) assms(4,6) set_shell_quote [of format] set_shell_quote [of path] by (auto simp: printf_command_def)
    moreover from this(2) have "str_lines (printf_command format redirect path) = [printf_command format redirect path]"
      by (rule str_lines_single) (simp add: printf_command_def)
    ultimately show ?thesis
      using tokenize_printf [OF cmd(2) assms(5,4)]
      by (simp add: parse_cat_heredoc_def normalize_newlines_id heredoc_parts_def)
  qed
  then show ?thesis
    using assms(1,2) cmd parse_printf_command [OF cmd(2,3) assms(5,6,4)] write_plan_resolved [OF assms(5,6)]
    by (simp add: parse_file_capture_plans_def parse_shell_write_def absolute_workdir_def)
next
  assume cmd: "args ''cmd'' = Some (heredoc_command redirect path delimiter body)" "delimiter \<noteq> []"
    "set delimiter \<inter> {nl, cr} = {}" "delimiter \<notin> set body" "\<forall>l \<in> set body. set l \<inter> {nl, cr} = {}"
  show ?thesis
    using assms(1,2) cmd parse_heredoc_command [OF assms(5,6,4) cmd(2-5)] write_plan_resolved [OF assms(5,6)]
    by (simp add: parse_file_capture_plans_def parse_shell_write_def absolute_workdir_def)
qed

theorem quoted_shell_writes_are_recognised_witness:
  "parse_file_capture_plans ''exec_command''
     [''cmd'' \<mapsto> printf_command ''it'' ''>'' ''a b'', ''workdir'' \<mapsto> ''/w''] =
   Some [same_path_plan ShellWrite HOverwrite ''/w/a b'']"
proof -
  have "resolve_patch_path ''a b'' ''/w'' = ''/w/a b''"
    by (simp add: resolve_patch_path_def is_absolute_def path_join_def ends_with_def)
  moreover have "is_absolute ''/w''" by (simp add: is_absolute_def)
  ultimately show ?thesis
    using quoted_shell_writes_are_recognised
      [of "[''cmd'' \<mapsto> printf_command ''it'' ''>'' ''a b'', ''workdir'' \<mapsto> ''/w'']" "''/w''" "''it''" "''>''" "''a b''"]
    by simp
qed

end
