(* ===== verification/Sse_Stream.thy ===== *)
theory Sse_Stream
  imports Utf8_Stream
begin

text \<open>
  The decoder of server-sent events of the terminal viewer (\<^verbatim>\<open>src/local/watch/sse.rs\<close>).  JSON is a parameter.
  Cutting the stream into blocks is the second interpretation of \<open>chunk_decoder\<close>.
\<close>

section \<open>Model\<close>

fun next_event_boundary :: "rstr \<Rightarrow> (nat \<times> nat) option" where
  "next_event_boundary [] = None"
| "next_event_boundary (c # s) =
     (if starts_with (c # s) [nl, nl] then Some (0, 2)
      else if starts_with (c # s) [cr, nl, cr, nl] then Some (0, 4)
      else map_option (\<lambda>(i, d). (Suc i, d)) (next_event_boundary s))"

definition sse_data_step :: "rstr \<Rightarrow> rstr \<Rightarrow> rstr" where
  "sse_data_step data line =
     (case strip_prefix ''data:'' line of
        None \<Rightarrow> data
      | Some value \<Rightarrow>
          (if data = [] then data else data @ [nl]) @
          (case strip_prefix '' '' value of Some v \<Rightarrow> v | None \<Rightarrow> value))"

definition decode_sse_block :: "(rstr \<Rightarrow> 'e res) \<Rightarrow> rstr \<Rightarrow> 'e option res" where
  "decode_sse_block json block =
     (let data = foldl sse_data_step [] (str_lines block)
      in if data = [] then Inr None
         else (case with_ctx ''failed to decode Local live event'' (json data) of
                 Inl e \<Rightarrow> Inl e | Inr event \<Rightarrow> Inr (Some event)))"

definition decode_block_bytes :: "(rstr \<Rightarrow> 'e res) \<Rightarrow> rstr \<Rightarrow> 'e option res" where
  "decode_block_bytes json block =
     (if valid_utf8 block then decode_sse_block json block else Inl ''Local SSE event was not valid UTF-8'')"

lemma boundary_bounds: "next_event_boundary s = Some (i, d) \<Longrightarrow> 0 < d \<and> i + d \<le> length s"
proof (induction s arbitrary: i)
  case (Cons c s)
  consider "starts_with (c # s) [nl, nl]" | "starts_with (c # s) [cr, nl, cr, nl]" "\<not> starts_with (c # s) [nl, nl]"
    | "\<not> starts_with (c # s) [nl, nl]" "\<not> starts_with (c # s) [cr, nl, cr, nl]" by blast
  then show ?case
  proof cases
    case 3
    with Cons show ?thesis by fastforce
  qed (use Cons.prems in \<open>auto simp: starts_with_iff simp del: starts_with_Cons\<close>)
qed simp

text \<open>The loop of \<^verbatim>\<open>SseDecoder::push\<close> on the pending bytes: the events or the first error, and the bytes that
  stay pending.\<close>

function sse_loop :: "(rstr \<Rightarrow> 'e res) \<Rightarrow> rstr \<Rightarrow> 'e list \<Rightarrow> 'e list res \<times> rstr" where
  "sse_loop json buffer decoded =
     (case next_event_boundary buffer of
        None \<Rightarrow> (Inr decoded, buffer)
      | Some (stop, delimiter_len) \<Rightarrow>
          (case decode_block_bytes json (take stop buffer) of
             Inl e \<Rightarrow> (Inl e, drop (stop + delimiter_len) buffer)
           | Inr None \<Rightarrow> sse_loop json (drop (stop + delimiter_len) buffer) decoded
           | Inr (Some event) \<Rightarrow> sse_loop json (drop (stop + delimiter_len) buffer) (decoded @ [event])))"
  by pat_completeness auto
termination
  by (relation "measure (\<lambda>(_, p, _). length p)") (auto dest!: boundary_bounds)

declare sse_loop.simps [simp del]

definition sse_push :: "(rstr \<Rightarrow> 'e res) \<Rightarrow> rstr \<Rightarrow> rstr \<Rightarrow> 'e list res \<times> rstr" where
  "sse_push json buffer chunk = sse_loop json (buffer @ chunk) []"

section \<open>Blocks\<close>

function split_blocks :: "rstr \<Rightarrow> rstr list \<times> rstr" where
  "split_blocks s =
     (case next_event_boundary s of
        None \<Rightarrow> ([], s)
      | Some (i, d) \<Rightarrow> (let (blocks, rest) = split_blocks (drop (i + d) s) in (take i s # blocks, rest)))"
  by pat_completeness auto
termination
  by (relation "measure length") (auto dest!: boundary_bounds)

declare split_blocks.simps [simp del]

fun decode_blocks :: "(rstr \<Rightarrow> 'e res) \<Rightarrow> rstr list \<Rightarrow> 'e list res" where
  "decode_blocks json [] = Inr []"
| "decode_blocks json (b # bs) =
     and_then (decode_block_bytes json b) (\<lambda>event.
     and_then (decode_blocks json bs) (\<lambda>events. Inr (case event of None \<Rightarrow> events | Some e \<Rightarrow> e # events)))"

lemma boundary_append: "next_event_boundary s = Some r \<Longrightarrow> next_event_boundary (s @ t) = Some r"
proof (induction s arbitrary: r)
  case (Cons c s)
  show ?case
  proof (cases "starts_with (c # s) [nl, nl] \<or> starts_with (c # s) [cr, nl, cr, nl]")
    case True
    then show ?thesis using Cons.prems by (auto simp: starts_with_iff simp del: starts_with_Cons)
  next
    case False
    then obtain i d where s: "next_event_boundary s = Some (i, d)" "r = (Suc i, d)" using Cons.prems by auto
    have "2 \<le> length s" using boundary_bounds [OF s(1)] s(1)
      by (cases s; cases "tl s") (auto split: if_splits)
    then obtain a b u where u: "s = a # b # u" by (metis Suc_le_length_iff numeral_2_eq_2)
    have "\<not> starts_with (c # s @ t) [nl, nl]" using False by (simp add: u)
    moreover have "\<not> starts_with (c # s @ t) [cr, nl, cr, nl]"
    proof (cases u)
      case Nil
      with s(1) u show ?thesis by (auto split: if_splits)
    next
      case (Cons e v)
      with False u show ?thesis by auto
    qed
    ultimately show ?thesis using Cons.IH [OF s(1)] s(2) by simp
  qed
qed simp

lemma split_blocks_append:
  assumes "split_blocks s = (bs, rest)"
  shows "split_blocks (s @ t) = (let (cs, rest') = split_blocks (rest @ t) in (bs @ cs, rest'))"
  using assms
proof (induction s arbitrary: bs rule: split_blocks.induct)
  case (1 s)
  show ?case
  proof (cases "next_event_boundary s")
    case None
    with "1.prems" have "bs = []" "rest = s" by (simp_all add: split_blocks.simps [of s])
    then show ?thesis by (simp split: prod.split)
  next
    case (Some r)
    obtain i d where r: "r = (i, d)" by force
    note b = boundary_bounds [OF Some [unfolded r]]
    obtain bs' where rec: "split_blocks (drop (i + d) s) = (bs', rest)" and bs: "bs = take i s # bs'"
      using "1.prems" Some r by (auto simp: split_blocks.simps [of s] split: prod.splits)
    have "split_blocks (s @ t) = (let (blocks, rest') = split_blocks (drop (i + d) s @ t) in (take i s # blocks, rest'))"
      using boundary_append [OF Some, of t] b by (simp add: split_blocks.simps [of "s @ t"] r)
    with "1.IH" [OF Some r [symmetric] rec] bs show ?thesis by (simp split: prod.splits)
  qed
qed

lemma split_blocks_rest: "split_blocks s = (bs, rest) \<Longrightarrow> next_event_boundary rest = None"
proof (induction s arbitrary: bs rule: split_blocks.induct)
  case (1 s)
  then show ?case
    by (cases "next_event_boundary s") (auto simp: split_blocks.simps [of s] split: prod.splits)
qed

lemma split_blocks_none: "next_event_boundary s = None \<Longrightarrow> split_blocks s = ([], s)"
  by (simp add: split_blocks.simps)

definition block_feed :: "rstr \<Rightarrow> rstr \<Rightarrow> rstr list \<times> rstr" where
  "block_feed buffer chunk = split_blocks (buffer @ chunk)"

definition no_boundary :: "rstr \<Rightarrow> bool" where
  "no_boundary buffer \<longleftrightarrow> next_event_boundary buffer = None"

interpretation sse_blocks: chunk_decoder no_boundary block_feed
proof
  show "no_boundary s'" if "no_boundary s" "block_feed s xs = (out, s')" for s xs out s'
    using that split_blocks_rest by (auto simp: no_boundary_def block_feed_def)
  show "block_feed s [] = ([], s)" if "no_boundary s" for s
    using that by (simp add: no_boundary_def block_feed_def split_blocks_none)
  show "block_feed s (xs @ ys) = (o1 @ o2, s2)"
    if "no_boundary s" "block_feed s xs = (o1, s1)" "block_feed s1 ys = (o2, s2)" for s xs o1 s1 ys o2 s2
    using that split_blocks_append [of "s @ xs" o1 s1 ys] by (simp add: block_feed_def)
qed

section \<open>Pushes\<close>

lemma sse_loop_blocks:
  "split_blocks s = (blocks, rest) \<Longrightarrow>
     fst (sse_loop json s acc) = and_then (decode_blocks json blocks) (\<lambda>events. Inr (acc @ events)) \<and>
     (\<forall>events. decode_blocks json blocks = Inr events \<longrightarrow> snd (sse_loop json s acc) = rest)"
proof (induction json s acc arbitrary: blocks rule: sse_loop.induct)
  case (1 json s acc)
  show ?case
  proof (cases "next_event_boundary s")
    case None
    with "1.prems" show ?thesis by (auto simp: sse_loop.simps split_blocks.simps [of s])
  next
    case (Some r)
    obtain i d where r: "r = (i, d)" by force
    obtain blocks' where rec: "split_blocks (drop (i + d) s) = (blocks', rest)" and b: "blocks = take i s # blocks'"
      using "1.prems" Some r by (auto simp: split_blocks.simps [of s] split: prod.splits)
    show ?thesis
    proof (cases "decode_block_bytes json (take i s)")
      case (Inl e)
      with Some r b show ?thesis by (simp add: sse_loop.simps [of json s])
    next
      case (Inr ev)
      show ?thesis
      proof (cases ev)
        case None
        from "1.IH"(1) [OF Some r [symmetric] Inr None rec] Some r b Inr None show ?thesis
          by (cases "decode_blocks json blocks'") (simp_all add: sse_loop.simps [of json s])
      next
        case (Some e)
        from "1.IH"(2) [OF \<open>next_event_boundary s = Some r\<close> r [symmetric] Inr Some rec]
          \<open>next_event_boundary s = Some r\<close> r b Inr Some show ?thesis
          by (cases "decode_blocks json blocks'") (simp_all add: sse_loop.simps [of json s])
      qed
    qed
  qed
qed

lemma sse_push_blocks:
  assumes "block_feed buffer chunk = (blocks, rest)"
  shows "fst (sse_push json buffer chunk) = decode_blocks json blocks"
    "decode_blocks json blocks = Inr events \<Longrightarrow> snd (sse_push json buffer chunk) = rest"
  using sse_loop_blocks [OF assms [unfolded block_feed_def], of json "[]"]
  by (cases "decode_blocks json blocks"; auto simp: sse_push_def)+

lemma decode_blocks_append:
  "decode_blocks json (bs @ cs) =
     and_then (decode_blocks json bs) (\<lambda>xs. and_then (decode_blocks json cs) (\<lambda>ys. Inr (xs @ ys)))"
proof (induction bs)
  case Nil
  show ?case by (cases "decode_blocks json cs") simp_all
next
  case (Cons b bs)
  then show ?case
    by (cases "decode_block_bytes json b"; cases "decode_blocks json bs"; cases "decode_blocks json cs")
      (simp_all split: option.split)
qed

text \<open>The events of a connection that delivers its bytes in chunks, up to the first error.\<close>

fun sse_run :: "(rstr \<Rightarrow> 'e res) \<Rightarrow> rstr \<Rightarrow> rstr list \<Rightarrow> 'e list res" where
  "sse_run json buffer [] = Inr []"
| "sse_run json buffer (chunk # chunks) =
     (case sse_push json buffer chunk of
        (Inl e, _) \<Rightarrow> Inl e
      | (Inr events, buffer') \<Rightarrow> and_then (sse_run json buffer' chunks) (\<lambda>rest. Inr (events @ rest)))"

lemma sse_run_blocks:
  "no_boundary buffer \<Longrightarrow> sse_run json buffer chunks = decode_blocks json (fst (feed_all block_feed buffer chunks))"
proof (induction chunks arbitrary: buffer)
  case (Cons chunk chunks)
  obtain blocks rest where 1: "block_feed buffer chunk = (blocks, rest)" by force
  obtain blocks2 rest2 where 2: "feed_all block_feed rest chunks = (blocks2, rest2)" by force
  note IH = Cons.IH [OF sse_blocks.inv_feed [OF Cons.prems 1]]
  obtain r buf where push: "sse_push json buffer chunk = (r, buf)" by force
  show ?case
  proof (cases r)
    case (Inl e)
    with push sse_push_blocks(1) [OF 1, of json] have "decode_blocks json blocks = Inl e" by simp
    with 1 2 push Inl show ?thesis by (simp add: decode_blocks_append)
  next
    case (Inr events)
    with push sse_push_blocks(1) [OF 1, of json] have ok: "decode_blocks json blocks = Inr events" by simp
    with push sse_push_blocks(2) [OF 1 ok] have "buf = rest" by simp
    with 1 2 push Inr IH ok show ?thesis by (simp add: decode_blocks_append)
  qed
qed simp

section \<open>Properties\<close>

text \<open>
  C35: The events the viewer decodes from a connection, and the first error, do not depend on how the
  bytes were cut into chunks.
\<close>

theorem sse_decoding_chunk_independent:
  "sse_run json [] chunks = fst (sse_push json [] (concat chunks))"
proof -
  have start: "no_boundary []" by (simp add: no_boundary_def)
  obtain blocks rest where b: "block_feed [] (concat chunks) = (blocks, rest)" by force
  with sse_blocks.feed_all_concat [OF start, of chunks] have "fst (feed_all block_feed [] chunks) = blocks" by simp
  with sse_run_blocks [OF start, of json chunks] sse_push_blocks(1) [OF b, of json] show ?thesis by simp
qed

text \<open>Every event is delivered by the push that completes its block: no complete block stays pending.\<close>

lemma sse_push_complete: "fst (sse_push json buffer chunk) = Inr events \<Longrightarrow> no_boundary (snd (sse_push json buffer chunk))"
proof -
  assume ok: "fst (sse_push json buffer chunk) = Inr events"
  obtain blocks rest where b: "block_feed buffer chunk = (blocks, rest)" by force
  with ok sse_push_blocks [OF b, of json] have "snd (sse_push json buffer chunk) = rest" by simp
  with b split_blocks_rest show ?thesis by (simp add: no_boundary_def block_feed_def)
qed

end
