(* ===== verification/Presentation_Model.thy ===== *)
theory Presentation_Model
  imports Display_Text
begin

text \<open>
  The records that are shown for the history (\<^verbatim>\<open>src/local/presentation/model.rs\<close>), shared by the
  builder of presentations and the terminal viewer.
\<close>

definition PRESENTATION_RAW_INVOCATION_ID_SAMPLE_LIMIT :: nat where
  "PRESENTATION_RAW_INVOCATION_ID_SAMPLE_LIMIT = 32"

record presentation_evidence =
  pv_evidence_state :: rstr
  pv_capture_state :: rstr
  pv_degraded :: bool
  pv_reason :: "rstr option"

record presentation_poll_summary =
  ps_count :: nat
  ps_final_status :: "rstr option"
  ps_caller_agent_ids :: "rstr list"
  ps_cross_agent :: bool

record presentation_diff_line =
  dl_kind :: rstr
  dl_old_line :: "nat option"
  dl_new_line :: "nat option"
  dl_text :: rstr

datatype presentation_file_operation = Created | Edited | Deleted | Renamed

datatype presentation_write_mode = Overwrite | Append

record presentation_file_change =
  fc_operation :: presentation_file_operation
  fc_path :: rstr
  fc_old_path :: "rstr option"
  fc_write_mode :: "presentation_write_mode option"
  fc_added :: nat
  fc_removed :: nat
  fc_diff_truncated :: bool
  fc_diff_lines_included :: bool
  fc_lines :: "presentation_diff_line list"

text \<open>The arguments are in the order of the fields of the source.\<close>

datatype presentation_kind =
    Command rstr rstr "rstr option" "int option" "rstr option" "rstr option" bool "presentation_poll_summary option"
  | FileChanges rstr "presentation_file_change list"
  | Stdin rstr rstr bool "rstr option" bool "rstr option"
  | Kill rstr "rstr option" "rstr option" bool "rstr option"
  | PollAggregate rstr nat "rstr option" "rstr option" "rstr list" bool
  | Generic rstr rstr "rstr option"

record presentation_record =
  pr_presentation_id :: rstr
  pr_primary_invocation_id :: int
  pr_raw_evidence_count :: nat
  pr_raw_invocation_ids :: "int list"
  pr_raw_invocation_ids_truncated :: bool
  pr_agent_id :: "rstr option"
  pr_declared_workdir :: "rstr option"
  pr_normalized_workdir :: "rstr option"
  pr_new_workdir :: "rstr option"
  pr_started_at_ms :: int
  pr_duration_ms :: "int option"
  pr_evidence :: presentation_evidence
  pr_kind :: presentation_kind

record history_agent_workdir =
  hw_normalized_workdir :: rstr
  hw_ordinal :: nat
  hw_first_seen_at_ms :: int
  hw_last_seen_at_ms :: int
  hw_first_invocation_id :: int
  hw_last_invocation_id :: int
  hw_retained_invocation_count :: nat

record presentation_workdir =
  pw_normalized_workdir :: rstr
  pw_first_seen_at_ms :: int
  pw_last_seen_at_ms :: int
  pw_first_invocation_id :: int
  pw_last_invocation_id :: int
  pw_retained_invocation_count :: nat

record presentation_agent =
  pg_id :: rstr
  pg_first_seen_at_ms :: int
  pg_last_seen_at_ms :: int
  pg_workdirs :: "presentation_workdir list"

definition presentation_id_for_root :: "int \<Rightarrow> rstr" where
  "presentation_id_for_root primary_invocation_id = ''inv-'' @ show_int primary_invocation_id"

end
