(* ===== verification/Watch_Cards.thy ===== *)
theory Watch_Cards
  imports Presentation_Model "HOL-Library.Product_Lexorder"
begin

text \<open>
  The records shown by the terminal viewer and the cards they are merged into
  (\<^verbatim>\<open>src/local/presentation/model.rs\<close>, \<^verbatim>\<open>src/local/watch/cards.rs\<close> and the sanitizing of records in
  \<^verbatim>\<open>src/local/watch/model.rs\<close>).
\<close>

section \<open>Cleaning a record\<close>

definition sanitize_change :: "(rstr \<Rightarrow> rstr) \<Rightarrow> presentation_file_change \<Rightarrow> presentation_file_change" where
  "sanitize_change clean change =
     change\<lparr>fc_path := clean (fc_path change), fc_old_path := map_option clean (fc_old_path change),
            fc_lines := map (\<lambda>l. l\<lparr>dl_kind := clean (dl_kind l), dl_text := clean (dl_text l)\<rparr>) (fc_lines change)\<rparr>"

definition sanitize_polls :: "(rstr \<Rightarrow> rstr) \<Rightarrow> presentation_poll_summary \<Rightarrow> presentation_poll_summary" where
  "sanitize_polls clean polls =
     polls\<lparr>ps_final_status := map_option clean (ps_final_status polls),
           ps_caller_agent_ids := map clean (ps_caller_agent_ids polls)\<rparr>"

fun sanitize_kind :: "(rstr \<Rightarrow> rstr) \<Rightarrow> presentation_kind \<Rightarrow> presentation_kind" where
  "sanitize_kind clean (Command command status cwd exit_code reason output truncated polls) =
     Command (clean command) (clean status) (map_option clean cwd) exit_code (map_option clean reason)
       (map_option clean output) truncated (map_option (sanitize_polls clean) polls)"
| "sanitize_kind clean (FileChanges source_tool changes) =
     FileChanges (clean source_tool) (map (sanitize_change clean) changes)"
| "sanitize_kind clean (Stdin handle chars truncated creator cross result_status) =
     Stdin (clean handle) (clean chars) truncated (map_option clean creator) cross (map_option clean result_status)"
| "sanitize_kind clean (Kill handle command creator cross result_status) =
     Kill (clean handle) (map_option clean command) (map_option clean creator) cross (map_option clean result_status)"
| "sanitize_kind clean (PollAggregate handle count final_status creator callers cross) =
     PollAggregate (clean handle) count (map_option clean final_status) (map_option clean creator) (map clean callers) cross"
| "sanitize_kind clean (Generic tool_name status summary) =
     Generic (clean tool_name) (clean status) (map_option clean summary)"

definition sanitize_record_for_terminal :: "(rstr \<Rightarrow> rstr) \<Rightarrow> presentation_record \<Rightarrow> presentation_record" where
  "sanitize_record_for_terminal strip_str record =
     (let clean = sanitize_display_text strip_str; e = pr_evidence record in
      record\<lparr>pr_agent_id := map_option clean (pr_agent_id record),
             pr_declared_workdir := map_option clean (pr_declared_workdir record),
             pr_normalized_workdir := map_option clean (pr_normalized_workdir record),
             pr_new_workdir := map_option clean (pr_new_workdir record),
             pr_evidence := e\<lparr>pv_evidence_state := clean (pv_evidence_state e),
                              pv_capture_state := clean (pv_capture_state e),
                              pv_reason := map_option clean (pv_reason e)\<rparr>,
             pr_kind := sanitize_kind clean (pr_kind record)\<rparr>)"

section \<open>Cards\<close>

record watch_card =
  card_key :: rstr
  card_record :: presentation_record

definition selected_invocation_id :: "watch_card \<Rightarrow> int option" where
  "selected_invocation_id wcard =
     (if 0 < pr_primary_invocation_id (card_record wcard)
      then Some (pr_primary_invocation_id (card_record wcard)) else None)"

fun is_poll :: "presentation_kind \<Rightarrow> bool" where
  "is_poll (PollAggregate _ _ _ _ _ _) = True"
| "is_poll _ = False"

fun poll_handle :: "presentation_kind \<Rightarrow> rstr option" where
  "poll_handle (PollAggregate handle _ _ _ _ _) = Some handle"
| "poll_handle _ = None"

definition raw_samples_overlap :: "presentation_record \<Rightarrow> presentation_record \<Rightarrow> bool" where
  "raw_samples_overlap left right =
     list_ex (\<lambda>i. i \<in> set (pr_raw_invocation_ids right)) (pr_raw_invocation_ids left)"

definition legacy_poll_merge_index :: "watch_card list \<Rightarrow> presentation_record \<Rightarrow> nat option" where
  "legacy_poll_merge_index cards incoming =
     (case poll_handle (pr_kind incoming) of
        None \<Rightarrow> None
      | Some handle \<Rightarrow>
          first_index (\<lambda>wcard. pr_agent_id (card_record wcard) = pr_agent_id incoming \<and>
                              poll_handle (pr_kind (card_record wcard)) = Some handle) cards)"

definition latest_sample_id :: "presentation_record \<Rightarrow> int" where
  "latest_sample_id record =
     (case pr_raw_invocation_ids record of [] \<Rightarrow> 0 | i # is' \<Rightarrow> fold max is' i)"

definition merge_evidence_state :: "rstr \<Rightarrow> rstr \<Rightarrow> rstr" where
  "merge_evidence_state existing incoming =
     (if existing = ''incomplete'' \<or> incoming = ''incomplete'' then ''incomplete''
      else if existing = ''pending'' \<or> incoming = ''pending'' then ''pending''
      else ''complete'')"

definition merge_capture_state :: "rstr \<Rightarrow> rstr \<Rightarrow> rstr" where
  "merge_capture_state existing incoming =
     (if existing = ''incomplete'' \<or> incoming = ''incomplete'' then ''incomplete''
      else if existing = ''pending'' \<or> incoming = ''pending'' then ''pending''
      else if existing = ''complete'' \<or> incoming = ''complete'' then ''complete''
      else ''not_applicable'')"

definition merge_evidence :: "presentation_evidence \<Rightarrow> presentation_evidence \<Rightarrow> presentation_evidence" where
  "merge_evidence existing incoming =
     existing\<lparr>pv_evidence_state := merge_evidence_state (pv_evidence_state existing) (pv_evidence_state incoming),
              pv_capture_state := merge_capture_state (pv_capture_state existing) (pv_capture_state incoming),
              pv_degraded := (pv_degraded existing \<or> pv_degraded incoming),
              pv_reason := (case pv_reason existing of None \<Rightarrow> pv_reason incoming | Some r \<Rightarrow> Some r)\<rparr>"

definition add_caller :: "rstr \<Rightarrow> rstr list \<Rightarrow> rstr list" where
  "add_caller caller callers = (if caller \<in> set callers then callers else callers @ [caller])"

text \<open>The loop that adds the sampled identifiers until the sample is full.\<close>

fun add_samples :: "int list \<Rightarrow> int list \<Rightarrow> int list" where
  "add_samples existing [] = existing"
| "add_samples existing (i # is') =
     (if PRESENTATION_RAW_INVOCATION_ID_SAMPLE_LIMIT \<le> length existing then existing
      else add_samples (if i \<in> set existing then existing else existing @ [i]) is')"

definition is_later :: "presentation_record \<Rightarrow> presentation_record \<Rightarrow> bool" where
  "is_later incoming existing \<longleftrightarrow>
     (pr_started_at_ms existing, latest_sample_id existing) < (pr_started_at_ms incoming, latest_sample_id incoming)"

definition merge_legacy_poll_record ::
    "presentation_record \<Rightarrow> presentation_record \<Rightarrow> bool \<Rightarrow> presentation_record" where
  "merge_legacy_poll_record existing incoming duplicate_detail =
     (case (pr_kind existing, pr_kind incoming) of
        (PollAggregate handle count final_status creator callers cross,
         PollAggregate _ _ incoming_status incoming_creator incoming_callers incoming_cross) \<Rightarrow>
          (let later = is_later incoming existing;
               final_status' = (if later then incoming_status else final_status);
               creator' = (case creator of None \<Rightarrow> incoming_creator | Some c \<Rightarrow> Some c);
               callers' = fold add_caller incoming_callers callers;
               total = sat_add (pr_raw_evidence_count existing) (pr_raw_evidence_count incoming);
               samples = sort (add_samples (pr_raw_invocation_ids existing) (pr_raw_invocation_ids incoming));
               r1 = existing\<lparr>pr_started_at_ms := (if later then pr_started_at_ms incoming else pr_started_at_ms existing),
                             pr_duration_ms := (if later then pr_duration_ms incoming else pr_duration_ms existing)\<rparr>;
               r2 = (if duplicate_detail
                     then r1\<lparr>pr_kind := PollAggregate handle count final_status' creator' callers' (cross \<or> incoming_cross)\<rparr>
                     else r1\<lparr>pr_kind := PollAggregate handle total final_status' creator' callers' (cross \<or> incoming_cross),
                              pr_raw_evidence_count := total,
                              pr_raw_invocation_ids := samples,
                              pr_raw_invocation_ids_truncated := length samples < total\<rparr>)
           in r2\<lparr>pr_evidence := merge_evidence (pr_evidence existing) (pr_evidence incoming)\<rparr>)
      | _ \<Rightarrow> existing)"

definition merge_card :: "watch_card list \<Rightarrow> presentation_record \<Rightarrow> bool \<Rightarrow> watch_card list" where
  "merge_card cards record duplicate_detail =
     (let key = pr_presentation_id record in
      case first_index (\<lambda>wcard. card_key wcard = key) cards of
        Some index \<Rightarrow>
          (let wcard = cards ! index in
           if duplicate_detail \<and> is_poll (pr_kind (card_record wcard)) \<and> is_poll (pr_kind record)
           then cards[index := wcard\<lparr>card_record := merge_legacy_poll_record (card_record wcard) record True\<rparr>]
           else filter (\<lambda>c. card_key c = key \<or> \<not> raw_samples_overlap (card_record c) record)
                  (cards[index := wcard\<lparr>card_record := record\<rparr>]))
      | None \<Rightarrow>
          (case legacy_poll_merge_index cards record of
             Some index \<Rightarrow>
               (let wcard = cards ! index in
                if pr_primary_invocation_id record \<notin> set (pr_raw_invocation_ids record) \<or>
                   1 < pr_raw_evidence_count record
                then cards[index := \<lparr>card_key = key, card_record = record\<rparr>]
                else cards[index := wcard\<lparr>card_record := merge_legacy_poll_record (card_record wcard) record duplicate_detail\<rparr>])
           | None \<Rightarrow>
               filter (\<lambda>c. \<not> raw_samples_overlap (card_record c) record) cards @
               [\<lparr>card_key = key, card_record = record\<rparr>]))"

section \<open>The texts of a record\<close>

definition opt_list :: "'a option \<Rightarrow> 'a list" where
  "opt_list x = (case x of None \<Rightarrow> [] | Some v \<Rightarrow> [v])"

lemma opt_list_simps [simp]: "opt_list None = []" "opt_list (Some v) = [v]"
  by (simp_all add: opt_list_def)

lemma list_all_opt_map: "(\<And>x. P (f x)) \<Longrightarrow> list_all P (opt_list (map_option f v))"
  by (cases v) simp_all

lemma list_all_map: "(\<And>x. P (f x)) \<Longrightarrow> list_all P (map f xs)"
  by (induction xs) simp_all

definition polls_texts :: "presentation_poll_summary \<Rightarrow> rstr list" where
  "polls_texts p = opt_list (ps_final_status p) @ ps_caller_agent_ids p"

definition change_texts :: "presentation_file_change \<Rightarrow> rstr list" where
  "change_texts c = fc_path c # opt_list (fc_old_path c) @ concat (map (\<lambda>l. [dl_kind l, dl_text l]) (fc_lines c))"

fun kind_texts :: "presentation_kind \<Rightarrow> rstr list" where
  "kind_texts (Command command status cwd _ reason output _ polls) =
     command # status # opt_list cwd @ opt_list reason @ opt_list output @ concat (map polls_texts (opt_list polls))"
| "kind_texts (FileChanges source_tool changes) = source_tool # concat (map change_texts changes)"
| "kind_texts (Stdin handle chars _ creator _ result_status) = handle # chars # opt_list creator @ opt_list result_status"
| "kind_texts (Kill handle command creator _ result_status) =
     handle # opt_list command @ opt_list creator @ opt_list result_status"
| "kind_texts (PollAggregate handle _ final_status creator callers _) =
     handle # opt_list final_status @ opt_list creator @ callers"
| "kind_texts (Generic tool_name status summary) = tool_name # status # opt_list summary"

definition evidence_texts :: "presentation_evidence \<Rightarrow> rstr list" where
  "evidence_texts e = pv_evidence_state e # pv_capture_state e # opt_list (pv_reason e)"

text \<open>Every string of a record that is shown; the identifier of the presentation is not.\<close>

definition record_texts :: "presentation_record \<Rightarrow> rstr list" where
  "record_texts r =
     opt_list (pr_agent_id r) @ opt_list (pr_declared_workdir r) @ opt_list (pr_normalized_workdir r) @
     opt_list (pr_new_workdir r) @ evidence_texts (pr_evidence r) @ kind_texts (pr_kind r)"

definition record_safe :: "presentation_record \<Rightarrow> bool" where
  "record_safe r \<longleftrightarrow> list_all safe_display (record_texts r)"

lemma sanitize_kind_texts: "(\<And>x. P (clean x)) \<Longrightarrow> list_all P (kind_texts (sanitize_kind clean k))"
proof (cases k)
  case (Command a1 a2 a3 a4 a5 a6 a7 polls)
  moreover assume "\<And>x. P (clean x)"
  ultimately show ?thesis
    by (cases polls) (simp_all add: list_all_opt_map list_all_map polls_texts_def sanitize_polls_def)
next
  case (FileChanges source_tool changes)
  moreover assume P: "\<And>x. P (clean x)"
  have "list_all P (change_texts (sanitize_change clean c))" for c
    using P by (auto simp: change_texts_def sanitize_change_def list_all_opt_map) (auto simp: list_all_iff)
  with P FileChanges show ?thesis by (auto simp: list_all_iff)
qed (simp_all add: list_all_opt_map list_all_map)

lemma sanitize_record_safe:
  assumes "\<And>s. valid_utf8 (strip_str s)"
  shows "record_safe (sanitize_record_for_terminal strip_str r)"
proof -
  have clean: "safe_display (sanitize_display_text strip_str s)" for s
    using sanitize_at_boundary [OF valid_at_boundary [OF assms]] by (simp add: sanitize_display_text_def)
  then show ?thesis
    by (simp add: record_safe_def record_texts_def sanitize_record_for_terminal_def Let_def evidence_texts_def
        list_all_opt_map sanitize_kind_texts)
qed

lemma sanitize_record_id [simp]:
  "pr_presentation_id (sanitize_record_for_terminal strip_str r) = pr_presentation_id r"
  "pr_primary_invocation_id (sanitize_record_for_terminal strip_str r) = pr_primary_invocation_id r"
  "is_poll (pr_kind (sanitize_record_for_terminal strip_str r)) = is_poll (pr_kind r)"
  "pr_raw_invocation_ids (sanitize_record_for_terminal strip_str r) = pr_raw_invocation_ids r"
  by (simp_all add: sanitize_record_for_terminal_def Let_def) (cases "pr_kind r"; simp)

lemma display_of_printable: "list_all printable s \<Longrightarrow> safe_display s"
  by (rule printable_safe [THEN conjunct2, THEN conjunct1, folded safe_display_def])

lemma state_names_safe:
  "safe_display ''incomplete''" "safe_display ''pending''" "safe_display ''complete''" "safe_display ''not_applicable''"
  by (rule display_of_printable; simp add: printable_def)+

lemma set_fold_add_caller: "set (fold add_caller cs ds) = set ds \<union> set cs"
  by (induction cs arbitrary: ds) (auto simp: add_caller_def)

lemma merge_evidence_safe:
  assumes "list_all safe_display (evidence_texts e)" "list_all safe_display (evidence_texts f)"
  shows "list_all safe_display (evidence_texts (merge_evidence e f))"
  using assms state_names_safe
  by (auto simp: evidence_texts_def merge_evidence_def merge_evidence_state_def merge_capture_state_def split: option.splits)

lemma merge_legacy_safe:
  assumes "record_safe existing" "record_safe incoming"
  shows "record_safe (merge_legacy_poll_record existing incoming duplicate_detail)"
proof (cases "\<exists>h n f c as x h' n' f' c' as' x'. pr_kind existing = PollAggregate h n f c as x \<and>
    pr_kind incoming = PollAggregate h' n' f' c' as' x'")
  case True
  then obtain h n f c as x h' n' f' c' as' x' where
    k: "pr_kind existing = PollAggregate h n f c as x" "pr_kind incoming = PollAggregate h' n' f' c' as' x'" by blast
  have ev: "list_all safe_display (evidence_texts (merge_evidence (pr_evidence existing) (pr_evidence incoming)))"
    using assms by (intro merge_evidence_safe) (auto simp: record_safe_def record_texts_def)
  have "list_all safe_display (kind_texts (PollAggregate h m (if b then f' else f)
      (case c of None \<Rightarrow> c' | Some c \<Rightarrow> Some c) (fold add_caller as' as) y))" for m b y
    using assms k by (auto simp: record_safe_def record_texts_def list_all_iff set_fold_add_caller split: option.split)
  with ev assms(1) show ?thesis
    unfolding merge_legacy_poll_record_def k
    by (auto simp: record_safe_def record_texts_def Let_def)
next
  case False
  then have "merge_legacy_poll_record existing incoming duplicate_detail = existing"
    by (auto simp: merge_legacy_poll_record_def split: presentation_kind.split)
  with assms(1) show ?thesis by simp
qed

lemma merge_legacy_id [simp]:
  "pr_presentation_id (merge_legacy_poll_record existing incoming d) = pr_presentation_id existing"
  by (auto simp: merge_legacy_poll_record_def Let_def split: presentation_kind.split)

section \<open>Merging cards\<close>

definition card_ok :: "watch_card \<Rightarrow> bool" where
  "card_ok c \<longleftrightarrow> card_key c = pr_presentation_id (card_record c) \<and> record_safe (card_record c)"

definition cards_ok :: "watch_card list \<Rightarrow> bool" where
  "cards_ok cards \<longleftrightarrow> distinct (map card_key cards) \<and> list_all card_ok cards"

lemma cards_ok_filter: "cards_ok cards \<Longrightarrow> cards_ok (filter P cards)"
  by (auto simp: cards_ok_def list_all_iff distinct_map_filter)

lemma cards_ok_update:
  assumes "cards_ok cards" "i < length cards" "card_ok c" "card_key c = card_key (cards ! i) \<or> card_key c \<notin> card_key ` set cards"
  shows "cards_ok (cards[i := c])"
proof -
  have "distinct ((map card_key cards)[i := card_key c])"
    using assms(1,2,4) by (auto simp: cards_ok_def intro!: distinct_list_update)
  moreover have "list_all card_ok (cards[i := c])"
    using assms(1,3) by (auto simp: cards_ok_def list_all_iff dest!: set_update_subset_insert [THEN subsetD])
  ultimately show ?thesis by (simp add: cards_ok_def map_update)
qed

lemma merge_card_ok:
  assumes "cards_ok cards" "record_safe record"
  shows "cards_ok (merge_card cards record duplicate_detail)"
proof (cases "first_index (\<lambda>c. card_key c = pr_presentation_id record) cards")
  case (Some i)
  from first_index_Some [OF this] have i: "i < length cards" "card_key (cards ! i) = pr_presentation_id record" by auto
  then have "card_ok (cards ! i)" using assms(1) by (simp add: cards_ok_def list_all_length)
  with i assms have "cards_ok (cards[i := (cards ! i)\<lparr>card_record := merge_legacy_poll_record (card_record (cards ! i)) record True\<rparr>])"
    "cards_ok (cards[i := (cards ! i)\<lparr>card_record := record\<rparr>])"
    by (auto intro!: cards_ok_update simp: card_ok_def merge_legacy_safe)
  then show ?thesis by (simp add: merge_card_def Let_def Some cards_ok_filter)
next
  case None
  then have fresh: "pr_presentation_id record \<notin> card_key ` set cards" by (auto simp: first_index_None)
  have new: "card_ok \<lparr>card_key = pr_presentation_id record, card_record = record\<rparr>" using assms(2) by (simp add: card_ok_def)
  show ?thesis
  proof (cases "legacy_poll_merge_index cards record")
    case (Some i)
    then have i: "i < length cards"
      by (auto simp: legacy_poll_merge_index_def split: option.splits dest: first_index_Some)
    then have "card_ok (cards ! i)" using assms(1) by (simp add: cards_ok_def list_all_length)
    with i new fresh assms have "cards_ok (cards[i := \<lparr>card_key = pr_presentation_id record, card_record = record\<rparr>])"
      "cards_ok (cards[i := (cards ! i)\<lparr>card_record := merge_legacy_poll_record (card_record (cards ! i)) record duplicate_detail\<rparr>])"
      by (auto intro!: cards_ok_update simp: card_ok_def merge_legacy_safe)
    then show ?thesis by (simp add: merge_card_def Let_def None Some)
  next
    case none: None
    have "cards_ok (filter (\<lambda>c. \<not> raw_samples_overlap (card_record c) record) cards)"
      using assms(1) by (rule cards_ok_filter)
    with new fresh show ?thesis
      by (auto simp: merge_card_def Let_def None none cards_ok_def)
  qed
qed

lemma merge_card_length: "length (merge_card cards record d) \<le> Suc (length cards)"
  by (auto simp: merge_card_def Let_def split: option.split intro: le_SucI order_trans [OF length_filter_le])

text \<open>No invocation is sampled by two cards.\<close>

definition cards_disjoint :: "watch_card list \<Rightarrow> bool" where
  "cards_disjoint cards \<longleftrightarrow>
     sorted_wrt (\<lambda>a b. set (pr_raw_invocation_ids (card_record a)) \<inter> set (pr_raw_invocation_ids (card_record b)) = {}) cards"

lemma overlap_iff: "raw_samples_overlap a b \<longleftrightarrow> set (pr_raw_invocation_ids a) \<inter> set (pr_raw_invocation_ids b) \<noteq> {}"
  by (auto simp: raw_samples_overlap_def list_ex_iff)

lemma cards_disjoint_filter: "cards_disjoint cards \<Longrightarrow> cards_disjoint (filter P cards)"
  by (simp add: cards_disjoint_def sorted_wrt_filter)

lemma merge_card_disjoint:
  assumes "cards_ok cards" "cards_disjoint cards" "\<not> is_poll (pr_kind record)"
  shows "cards_disjoint (merge_card cards record duplicate_detail)"
proof (cases "first_index (\<lambda>c. card_key c = pr_presentation_id record) cards")
  case (Some i)
  let ?new = "(cards ! i)\<lparr>card_record := record\<rparr>" and ?P = "\<lambda>c. card_key c = pr_presentation_id record \<or> \<not> raw_samples_overlap (card_record c) record"
  from first_index_Some [OF Some] have i: "i < length cards" "card_key (cards ! i) = pr_presentation_id record" by auto
  define xs ys where "xs = take i cards" and "ys = drop (Suc i) cards"
  have cards: "cards = xs @ cards ! i # ys" unfolding xs_def ys_def by (rule id_take_nth_drop [OF i(1)])
  have upd: "cards[i := ?new] = xs @ ?new # ys" unfolding xs_def ys_def by (rule upd_conv_take_nth_drop [OF i(1)])
  have other: "card_key c \<noteq> pr_presentation_id record" if "c \<in> set xs \<union> set ys" for c
    using assms(1) that i(2) unfolding cards_ok_def by (subst (asm) cards) (auto simp: image_iff)
  have "cards_disjoint (xs @ ys)"
    using assms(2) unfolding cards_disjoint_def by (subst (asm) cards) (auto simp: sorted_wrt_append)
  then have "cards_disjoint (filter ?P xs @ filter ?P ys)" by (metis cards_disjoint_filter filter_append)
  moreover have "set (pr_raw_invocation_ids (card_record c)) \<inter> set (pr_raw_invocation_ids record) = {}"
    if "c \<in> set (filter ?P xs) \<union> set (filter ?P ys)" for c
    using that other by (auto simp: overlap_iff)
  ultimately have "cards_disjoint (filter ?P xs @ ?new # filter ?P ys)"
    by (fastforce simp: cards_disjoint_def sorted_wrt_append)
  with i(2) assms(3) show ?thesis by (simp add: merge_card_def Let_def Some upd)
next
  case None
  moreover have "legacy_poll_merge_index cards record = None"
    using assms(3) by (cases "pr_kind record") (simp_all add: legacy_poll_merge_index_def)
  ultimately show ?thesis
    using cards_disjoint_filter [OF assms(2)]
    by (auto simp: merge_card_def Let_def cards_disjoint_def sorted_wrt_append overlap_iff)
qed

end
