(* ===== verification/Watch_Model.thy ===== *)
theory Watch_Model
  imports Watch_Cards "HOL-Library.AList" "HOL-Library.Multiset"
begin

text \<open>
  The state of the terminal viewer (\<^verbatim>\<open>src/local/watch/model.rs\<close>) and its keys (\<^verbatim>\<open>src/local/watch/input.rs\<close>).
  What a library computes is a field of \<open>watch_env\<close>: the removal of ANSI sequences, the JSON text of a
  record and of the raw evidence.  An index the code would panic on is the result \<open>None\<close>.
\<close>

section \<open>Data\<close>

definition MAX_LIVE_OUTPUT_CHARS :: nat where "MAX_LIVE_OUTPUT_CHARS = 32 * 1024"
definition MAX_LIVE_CARDS :: nat where "MAX_LIVE_CARDS = 2000"
definition TRANSIENT_NOTICE_DURATION :: nat where "TRANSIENT_NOTICE_DURATION = 5"

record api_agent =
  ag_id :: rstr
  ag_first_seen_at_ms :: int
  ag_last_seen_at_ms :: int
  ag_seen_in_current_runtime :: bool
  ag_active_process_count :: nat
  ag_workdirs :: "history_agent_workdir list"

text \<open>The parts of an invocation's detail the viewer reads; \<open>ad_argument key\<close> is the string argument \<open>key\<close>.\<close>

record api_invocation_detail =
  ad_id :: int
  ad_tool_name :: rstr
  ad_argument :: "rstr \<Rightarrow> rstr option"
  ad_records :: "presentation_record list"

text \<open>A live event; its JSON payload is read by key as a number or as a string.\<close>

record history_live_event =
  le_sequence :: nat
  le_event_type :: rstr
  le_agent_id :: "rstr option"
  le_invocation_id :: "int option"
  le_presentation_id :: "rstr option"
  le_payload_u64 :: "rstr \<Rightarrow> nat option"
  le_payload_str :: "rstr \<Rightarrow> rstr option"
  le_chunk_texts :: "rstr list option"

record watch_options =
  wo_agent :: "rstr option"
  wo_all :: bool

datatype watch_scope = Waiting | Picker | Agent rstr | All | Unattributed

datatype connection_state = Connecting | Connected | Degraded rstr

record live_output =
  lo_text :: rstr
  lo_truncated :: bool

datatype watch_effect = Quit | Resubscribe "rstr option" | RefreshAgents | CycleAgents int | Copy rstr

datatype watch_input =
    IQuit | IMove int | IEnter | ICycleAgents int | IOpenPicker | IToggleRaw | ICopy | ITop | IBottom
  | IStartSearch | ISearchChar rstr | ISearchBackspace | ISearchCommit | ISearchCancel

record watch_app =
  wa_runtime_id :: rstr
  wa_recovery_since_ms :: int
  wa_expires_at :: "rstr option"
  wa_connection :: connection_state
  wa_agents :: "api_agent list"
  wa_scope :: watch_scope
  wa_picker_index :: nat
  wa_selected :: nat
  wa_scroll :: nat
  wa_search_input :: "rstr option"
  wa_search_query :: rstr
  wa_status_active_process_count :: nat
  wa_new_workdir_notice :: "rstr option"
  wa_new_workdir_notice_expires_at :: "nat option"
  wa_recovery_notice :: "rstr option"
  wa_recovery_notice_expires_at :: "nat option"
  wa_cards :: "watch_card list"
  wa_details :: "(int \<times> api_invocation_detail) list"
  wa_live_output :: "(int \<times> live_output) list"
  wa_expanded :: "rstr set"
  wa_raw_open :: "int set"
  wa_automatic_scope :: bool
  wa_last_live_sequence :: nat

record watch_env =
  we_strip :: "rstr \<Rightarrow> rstr"
  we_record_json :: "presentation_record \<Rightarrow> rstr"
  we_raw_evidence :: "api_invocation_detail \<Rightarrow> rstr"

abbreviation clean_text :: "watch_env \<Rightarrow> rstr \<Rightarrow> rstr" where
  "clean_text env \<equiv> sanitize_display_text (we_strip env)"

section \<open>Scopes\<close>

fun automatic_scope_for_agents :: "api_agent list \<Rightarrow> watch_scope" where
  "automatic_scope_for_agents [] = Waiting"
| "automatic_scope_for_agents [agent] = Agent (ag_id agent)"
| "automatic_scope_for_agents _ = Picker"

definition default_picker_index :: "api_agent list \<Rightarrow> nat" where
  "default_picker_index agents = (if agents = [] then 0 else 1)"

definition watch_app_new :: "rstr \<Rightarrow> rstr option \<Rightarrow> api_agent list \<Rightarrow> nat \<Rightarrow> int \<Rightarrow> watch_options \<Rightarrow> watch_app" where
  "watch_app_new runtime_id expires_at agents active_process_count now options =
     (let scope = (if wo_all options then All
                   else case wo_agent options of Some agent \<Rightarrow> Agent agent | None \<Rightarrow> automatic_scope_for_agents agents)
      in \<lparr>wa_runtime_id = runtime_id, wa_recovery_since_ms = now, wa_expires_at = expires_at,
          wa_connection = Connecting, wa_agents = agents, wa_scope = scope,
          wa_picker_index = (if scope = Picker then 1 else 0), wa_selected = 0, wa_scroll = 0,
          wa_search_input = None, wa_search_query = [], wa_status_active_process_count = active_process_count,
          wa_new_workdir_notice = None, wa_new_workdir_notice_expires_at = None,
          wa_recovery_notice = None, wa_recovery_notice_expires_at = None,
          wa_cards = [], wa_details = [], wa_live_output = [], wa_expanded = {}, wa_raw_open = {},
          wa_automatic_scope = (wo_agent options = None \<and> \<not> wo_all options), wa_last_live_sequence = 0\<rparr>)"

fun scope_filter :: "watch_scope \<Rightarrow> rstr option" where
  "scope_filter (Agent i) = Some i"
| "scope_filter _ = None"

definition stream_filter :: "watch_app \<Rightarrow> rstr option" where
  "stream_filter app = scope_filter (wa_scope app)"

definition reset_selection :: "watch_app \<Rightarrow> watch_app" where
  "reset_selection app = app\<lparr>wa_selected := 0, wa_scroll := 0\<rparr>"

definition set_connected :: "watch_app \<Rightarrow> watch_app" where
  "set_connected app = app\<lparr>wa_connection := Connected\<rparr>"

definition set_degraded :: "watch_env \<Rightarrow> rstr \<Rightarrow> watch_app \<Rightarrow> watch_app" where
  "set_degraded env message app = app\<lparr>wa_connection := Degraded (clean_text env message)\<rparr>"

definition set_recovered :: "watch_env \<Rightarrow> nat \<Rightarrow> rstr \<Rightarrow> watch_app \<Rightarrow> watch_app" where
  "set_recovered env now message app =
     app\<lparr>wa_connection := Connected, wa_recovery_notice := Some (clean_text env message),
         wa_recovery_notice_expires_at := Some (now + TRANSIENT_NOTICE_DURATION)\<rparr>"

definition set_status_active_process_count :: "nat \<Rightarrow> watch_app \<Rightarrow> watch_app" where
  "set_status_active_process_count cnt app = app\<lparr>wa_status_active_process_count := cnt\<rparr>"

definition sanitize_agents_for_terminal :: "watch_env \<Rightarrow> api_agent list \<Rightarrow> api_agent list" where
  "sanitize_agents_for_terminal env =
     map (\<lambda>agent. agent\<lparr>ag_workdirs := map (\<lambda>w. w\<lparr>hw_normalized_workdir := clean_text env (hw_normalized_workdir w)\<rparr>)
                          (ag_workdirs agent)\<rparr>)"

definition adopt_agents :: "watch_env \<Rightarrow> api_agent list \<Rightarrow> watch_app \<Rightarrow> watch_app" where
  "adopt_agents env agents app =
     (let app1 = app\<lparr>wa_agents := sanitize_agents_for_terminal env agents\<rparr>;
          app2 = (if wa_automatic_scope app1 \<and> wa_scope app1 = Waiting
                  then app1\<lparr>wa_scope := automatic_scope_for_agents (wa_agents app1)\<rparr> else app1);
          app3 = (if wa_scope app = Waiting \<and> wa_scope app2 = Picker
                  then app2\<lparr>wa_picker_index := default_picker_index (wa_agents app2)\<rparr>
                  else app2\<lparr>wa_picker_index := min (wa_picker_index app2) (length (wa_agents app2))\<rparr>)
      in if wa_scope app3 \<noteq> wa_scope app then reset_selection app3 else app3)"

definition set_agents :: "watch_env \<Rightarrow> api_agent list \<Rightarrow> watch_app \<Rightarrow> watch_app \<times> watch_effect list" where
  "set_agents env agents app =
     (let app' = adopt_agents env agents app in
      (app', if stream_filter app' \<noteq> stream_filter app then [Resubscribe (stream_filter app')] else []))"

section \<open>Live events\<close>

definition in_scope_of :: "watch_scope \<Rightarrow> history_live_event \<Rightarrow> bool" where
  "in_scope_of scope event \<longleftrightarrow>
     le_event_type event = ''gap'' \<or> (case scope of Agent i \<Rightarrow> le_agent_id event = Some i | _ \<Rightarrow> True)"

definition should_process_live_event :: "history_live_event \<Rightarrow> watch_app \<Rightarrow> bool \<times> watch_app" where
  "should_process_live_event event app =
     (let control_event = (le_event_type event \<noteq> ''output'') in
      if control_event \<and> le_sequence event \<le> wa_last_live_sequence app then (False, app)
      else
        let in_scope = in_scope_of (wa_scope app) event in
        (in_scope, if in_scope \<and> control_event then app\<lparr>wa_last_live_sequence := le_sequence event\<rparr> else app))"

definition note_live_event :: "watch_env \<Rightarrow> nat \<Rightarrow> history_live_event \<Rightarrow> watch_app \<Rightarrow> watch_app \<times> watch_effect list" where
  "note_live_event env now event app =
     (if le_event_type event = ''gap'' then
        (let skipped = (case le_payload_u64 event ''skipped_events'' of Some n \<Rightarrow> n | None \<Rightarrow> 0) in
         (set_degraded env (''live event gap ('' @ show_nat skipped @ '' skipped); recovering from durable history'') app,
          [RefreshAgents]))
      else
        let app1 = (if wa_automatic_scope app \<and> wa_scope app = Waiting \<and> le_agent_id event = None \<and>
                       le_invocation_id event \<noteq> None
                    then reset_selection (app\<lparr>wa_scope := Unattributed\<rparr>) else app) in
        if le_event_type event = ''agent_first_seen'' then (app1, [RefreshAgents])
        else if le_event_type event = ''agent_workdir_added'' then
          (case le_payload_str event ''normalized_workdir'' of
             Some path \<Rightarrow>
               (app1\<lparr>wa_new_workdir_notice := Some (clean_text env path),
                     wa_new_workdir_notice_expires_at := Some (now + TRANSIENT_NOTICE_DURATION)\<rparr>, [RefreshAgents])
           | None \<Rightarrow> (app1, [RefreshAgents]))
        else if le_event_type event = ''process_started'' \<or> le_event_type event = ''process_ended'' then
          (case le_payload_u64 event ''active_process_count'' of
             Some cnt \<Rightarrow> (app1\<lparr>wa_status_active_process_count := cnt\<rparr>, [RefreshAgents])
           | None \<Rightarrow> (app1, [RefreshAgents]))
        else (app1, []))"

section \<open>Cards and output\<close>

definition card_in_scope :: "watch_scope \<Rightarrow> watch_card \<Rightarrow> bool" where
  "card_in_scope scope c =
     (case scope of
        Agent i \<Rightarrow> pr_agent_id (card_record c) = Some i
      | Unattributed \<Rightarrow> pr_agent_id (card_record c) = None
      | All \<Rightarrow> True
      | _ \<Rightarrow> False)"

definition card_matches :: "watch_env \<Rightarrow> rstr \<Rightarrow> watch_card \<Rightarrow> bool" where
  "card_matches env query c \<longleftrightarrow>
     query = [] \<or> str_contains (to_ascii_lowercase (we_record_json env (card_record c))) query"

definition visible_cards :: "watch_env \<Rightarrow> watch_app \<Rightarrow> watch_card list" where
  "visible_cards env app =
     filter (card_matches env (to_ascii_lowercase (wa_search_query app)))
       (filter (card_in_scope (wa_scope app)) (wa_cards app))"

definition clamp_selection :: "watch_env \<Rightarrow> watch_app \<Rightarrow> watch_app" where
  "clamp_selection env app =
     app\<lparr>wa_selected := min (wa_selected app) (length (visible_cards env app) - 1)\<rparr>"

definition sort_cards :: "watch_card list \<Rightarrow> watch_card list" where
  "sort_cards = sort_key (\<lambda>c. (pr_started_at_ms (card_record c), pr_primary_invocation_id (card_record c)))"

definition merge_record :: "presentation_record \<Rightarrow> bool \<Rightarrow> watch_app \<Rightarrow> watch_app" where
  "merge_record record duplicate_detail app =
     (let cards = sort_cards (merge_card (wa_cards app) record duplicate_detail) in
      app\<lparr>wa_cards := (if MAX_LIVE_CARDS < length cards then tl cards else cards)\<rparr>)"

definition merge_detail :: "watch_env \<Rightarrow> api_invocation_detail \<Rightarrow> watch_app \<Rightarrow> watch_app" where
  "merge_detail env detail app =
     (let duplicate_detail = (map_of (wa_details app) (ad_id detail) \<noteq> None);
          app1 = fold (\<lambda>record. merge_record (sanitize_record_for_terminal (we_strip env) record) duplicate_detail)
                   (ad_records detail) app
      in clamp_selection env
           (app1\<lparr>wa_live_output := AList.delete (ad_id detail) (wa_live_output app1),
                 wa_details := AList.update (ad_id detail) detail (wa_details app1)\<rparr>))"

definition cache_detail :: "api_invocation_detail \<Rightarrow> watch_app \<Rightarrow> watch_app" where
  "cache_detail detail app = app\<lparr>wa_details := AList.update (ad_id detail) detail (wa_details app)\<rparr>"

definition merge_one :: "watch_env \<Rightarrow> presentation_record \<Rightarrow> watch_app \<Rightarrow> watch_app" where
  "merge_one env record app =
     merge_record (sanitize_record_for_terminal (we_strip env) record) False
       (app\<lparr>wa_live_output := AList.delete (pr_primary_invocation_id record) (wa_live_output app)\<rparr>)"

definition merge_timeline_record :: "watch_env \<Rightarrow> presentation_record \<Rightarrow> watch_app \<Rightarrow> watch_app" where
  "merge_timeline_record env record app = clamp_selection env (merge_one env record app)"

definition merge_presentation :: "watch_env \<Rightarrow> presentation_record list \<Rightarrow> watch_app \<Rightarrow> watch_app" where
  "merge_presentation env records app = clamp_selection env (fold (merge_one env) records app)"

definition trim_live_output :: "live_output \<Rightarrow> live_output" where
  "trim_live_output output =
     (let chars = utf8_chars (lo_text output); cnt = length chars in
      if MAX_LIVE_OUTPUT_CHARS < cnt then
        (let drop_chars = cnt - MAX_LIVE_OUTPUT_CHARS;
             byte_index = (if drop_chars < cnt then length (concat (take drop_chars chars)) else 0)
         in \<lparr>lo_text = drop byte_index (lo_text output), lo_truncated = True\<rparr>)
      else output)"

definition append_live_output :: "watch_env \<Rightarrow> int \<Rightarrow> rstr \<Rightarrow> watch_app \<Rightarrow> watch_app" where
  "append_live_output env invocation_id chunk app =
     (let output = (case map_of (wa_live_output app) invocation_id of
                      Some o' \<Rightarrow> o' | None \<Rightarrow> \<lparr>lo_text = [], lo_truncated = False\<rparr>)
      in app\<lparr>wa_live_output := AList.update invocation_id
               (trim_live_output (output\<lparr>lo_text := lo_text output @ clean_text env chunk\<rparr>)) (wa_live_output app)\<rparr>)"

definition selected_card :: "watch_env \<Rightarrow> watch_app \<Rightarrow> watch_card option" where
  "selected_card env app =
     (let cards = visible_cards env app in if wa_selected app < length cards then Some (cards ! wa_selected app) else None)"

definition is_expanded :: "watch_app \<Rightarrow> watch_card \<Rightarrow> bool" where
  "is_expanded app c \<longleftrightarrow> card_key c \<in> wa_expanded app"

definition raw_is_open :: "watch_app \<Rightarrow> watch_card \<Rightarrow> bool" where
  "raw_is_open app c = (case selected_invocation_id c of None \<Rightarrow> False | Some i \<Rightarrow> i \<in> wa_raw_open app)"

definition raw_display_for :: "watch_env \<Rightarrow> watch_app \<Rightarrow> watch_card \<Rightarrow> rstr option" where
  "raw_display_for env app c =
     Option.bind (selected_invocation_id c) (\<lambda>i.
       map_option (\<lambda>detail. clean_text env (we_raw_evidence env detail)) (map_of (wa_details app) i))"

definition live_output_for :: "watch_app \<Rightarrow> watch_card \<Rightarrow> (rstr \<times> bool) option" where
  "live_output_for app c =
     Option.bind (selected_invocation_id c) (\<lambda>i.
       map_option (\<lambda>output. (lo_text output, lo_truncated output)) (map_of (wa_live_output app) i))"

definition detail_mode :: "watch_env \<Rightarrow> watch_app \<Rightarrow> bool" where
  "detail_mode env app =
     (case selected_card env app of None \<Rightarrow> False | Some c \<Rightarrow> is_expanded app c \<or> raw_is_open app c)"

definition copy_text_for :: "watch_env \<Rightarrow> watch_app \<Rightarrow> watch_card \<Rightarrow> rstr option" where
  "copy_text_for env app c =
     Option.bind (selected_invocation_id c) (\<lambda>i.
     Option.bind (map_of (wa_details app) i) (\<lambda>detail.
       if i \<in> wa_raw_open app then Some (we_raw_evidence env detail)
       else if ad_tool_name detail = ''exec_command'' then ad_argument detail ''cmd''
       else if ad_tool_name detail = ''apply_patch'' then ad_argument detail ''patch''
       else if ad_tool_name detail = ''write_stdin'' then
         (case ad_argument detail ''chars'' of Some chars \<Rightarrow> Some chars | None \<Rightarrow> Some (we_raw_evidence env detail))
       else Some (we_raw_evidence env detail)))"

section \<open>What is shown around the cards\<close>

definition current_agent :: "watch_app \<Rightarrow> api_agent option" where
  "current_agent app =
     (case wa_scope app of Agent i \<Rightarrow> find (\<lambda>agent. ag_id agent = i) (wa_agents app) | _ \<Rightarrow> None)"

definition notice_at :: "nat option \<Rightarrow> rstr option \<Rightarrow> nat \<Rightarrow> rstr option" where
  "notice_at expires_at notice now =
     (case expires_at of None \<Rightarrow> None | Some e \<Rightarrow> if now < e then notice else None)"

definition new_workdir_notice_at :: "watch_app \<Rightarrow> nat \<Rightarrow> rstr option" where
  "new_workdir_notice_at app now = notice_at (wa_new_workdir_notice_expires_at app) (wa_new_workdir_notice app) now"

definition recovery_notice_at :: "watch_app \<Rightarrow> nat \<Rightarrow> rstr option" where
  "recovery_notice_at app now = notice_at (wa_recovery_notice_expires_at app) (wa_recovery_notice app) now"

text \<open>\<open>remaining\<close> parses the time of expiry and gives the whole seconds until then.\<close>

definition ttl_label :: "watch_env \<Rightarrow> (rstr \<Rightarrow> int option) \<Rightarrow> watch_app \<Rightarrow> rstr" where
  "ttl_label env remaining app =
     (case wa_expires_at app of
        None \<Rightarrow> ''TTL: no expiry''
      | Some expires_at \<Rightarrow>
          (case remaining expires_at of
             None \<Rightarrow> ''expires '' @ clean_text env expires_at
           | Some seconds \<Rightarrow>
               if seconds \<le> 0 then ''TTL: expired''
               else let s = nat seconds in
                 if 86400 \<le> s then ''TTL: '' @ show_nat (s div 86400) @ ''d '' @ show_nat (s mod 86400 div 3600) @ ''h''
                 else if 3600 \<le> s then ''TTL: '' @ show_nat (s div 3600) @ ''h '' @ show_nat (s mod 3600 div 60) @ ''m''
                 else if 60 \<le> s then ''TTL: '' @ show_nat (s div 60) @ ''m '' @ show_nat (s mod 60) @ ''s''
                 else ''TTL: '' @ show_nat s @ ''s''))"

section \<open>Keys\<close>

datatype key_code = KChar rstr | KEsc | KEnter | KBackspace | KUp | KDown | KTab | KBackTab | KOther

record key_event =
  ke_press :: bool
  ke_control :: bool
  ke_alt :: bool
  ke_shift :: bool
  ke_code :: key_code

fun search_key :: "bool \<Rightarrow> key_code \<Rightarrow> watch_input option" where
  "search_key modified KEsc = Some ISearchCancel"
| "search_key modified KEnter = Some ISearchCommit"
| "search_key modified KBackspace = Some ISearchBackspace"
| "search_key modified (KChar ch) = (if modified then None else Some (ISearchChar ch))"
| "search_key modified _ = None"

fun command_key :: "bool \<Rightarrow> key_code \<Rightarrow> watch_input option" where
  "command_key shift KUp = Some (IMove (- 1))"
| "command_key shift KDown = Some (IMove 1)"
| "command_key shift KEnter = Some IEnter"
| "command_key shift KTab = Some (ICycleAgents (if shift then - 1 else 1))"
| "command_key shift KBackTab = Some (ICycleAgents (- 1))"
| "command_key shift (KChar ch) =
     map_of [(''q'', IQuit), (''k'', IMove (- 1)), (''j'', IMove 1), (''a'', IOpenPicker), (''r'', IToggleRaw),
       (''y'', ICopy), (''g'', ITop), (''G'', IBottom), (''/'', IStartSearch)] ch"
| "command_key shift _ = None"

definition map_key :: "key_event \<Rightarrow> bool \<Rightarrow> watch_input option" where
  "map_key key searching =
     (if \<not> ke_press key then None
      else if ke_control key \<and> ke_code key = KChar ''c'' then Some IQuit
      else if searching then search_key (ke_control key \<or> ke_alt key) (ke_code key)
      else command_key (ke_shift key) (ke_code key))"

section \<open>Input\<close>

definition move_index :: "nat \<Rightarrow> nat \<Rightarrow> int \<Rightarrow> nat" where
  "move_index current len delta =
     (if len = 0 then 0
      else if delta < 0 then current - nat (- delta)
      else min (sat_add current (nat delta)) (len - 1))"

definition picker_scope :: "watch_app \<Rightarrow> watch_scope option" where
  "picker_scope app =
     (if wa_picker_index app = 0 then Some All
      else if wa_picker_index app - 1 < length (wa_agents app)
        then Some (Agent (ag_id (wa_agents app ! (wa_picker_index app - 1))))
      else None)"

definition choose_picker :: "watch_app \<Rightarrow> (watch_app \<times> watch_effect list) option" where
  "choose_picker app =
     map_option (\<lambda>scope.
       let app1 = reset_selection (app\<lparr>wa_scope := scope\<rparr>) in (app1, [Resubscribe (stream_filter app1)]))
       (picker_scope app)"

definition agent_position :: "watch_app \<Rightarrow> nat option" where
  "agent_position app =
     (case wa_scope app of Agent i \<Rightarrow> first_index (\<lambda>agent. ag_id agent = i) (wa_agents app) | _ \<Rightarrow> None)"

definition cycle_index :: "int \<Rightarrow> watch_app \<Rightarrow> nat" where
  "cycle_index direction app =
     (let len = length (wa_agents app) in
      case agent_position app of
        Some index \<Rightarrow>
          if 0 \<le> direction then (index + 1) mod len
          else if index = 0 then len - 1 else index - 1
      | None \<Rightarrow> if direction < 0 then len - 1 else 0)"

definition cycle_agents_after_refresh :: "int \<Rightarrow> watch_app \<Rightarrow> (watch_app \<times> watch_effect list) option" where
  "cycle_agents_after_refresh direction app =
     (if wa_agents app = [] then Some (app, [])
      else
        let next_index = cycle_index direction app in
        if next_index < length (wa_agents app) then
          (let app1 = reset_selection (app\<lparr>wa_scope := Agent (ag_id (wa_agents app ! next_index))\<rparr>)
           in Some (app1, [Resubscribe (stream_filter app1)]))
        else None)"

fun apply_search_input :: "watch_input \<Rightarrow> rstr \<Rightarrow> watch_app \<Rightarrow> watch_app" where
  "apply_search_input (ISearchChar ch) search app = app\<lparr>wa_search_input := Some (search @ ch)\<rparr>"
| "apply_search_input ISearchBackspace search app = app\<lparr>wa_search_input := Some (concat (butlast (utf8_chars search)))\<rparr>"
| "apply_search_input ISearchCommit search app = reset_selection (app\<lparr>wa_search_query := search, wa_search_input := None\<rparr>)"
| "apply_search_input ISearchCancel search app = app\<lparr>wa_search_input := None\<rparr>"
| "apply_search_input IQuit search app = app\<lparr>wa_search_input := None\<rparr>"
| "apply_search_input _ search app = app"

definition move_scroll :: "nat \<Rightarrow> int \<Rightarrow> nat" where
  "move_scroll scroll delta =
     (if delta < 0 then scroll - nat (- delta) mod 65536 else min (scroll + nat delta mod 65536) 65535)"

definition toggle :: "'a \<Rightarrow> 'a set \<Rightarrow> 'a set" where
  "toggle x xs = (if x \<in> xs then xs - {x} else insert x xs)"

definition open_picker :: "watch_app \<Rightarrow> watch_app" where
  "open_picker app =
     (let index = (case wa_scope app of
                     Agent i \<Rightarrow> (case first_index (\<lambda>agent. ag_id agent = i) (wa_agents app) of
                                  Some index \<Rightarrow> index + 1 | None \<Rightarrow> default_picker_index (wa_agents app))
                   | All \<Rightarrow> 0
                   | _ \<Rightarrow> default_picker_index (wa_agents app))
      in reset_selection (app\<lparr>wa_picker_index := index, wa_scope := Picker\<rparr>))"

fun apply_command :: "watch_env \<Rightarrow> watch_input \<Rightarrow> watch_app \<Rightarrow> (watch_app \<times> watch_effect list) option" where
  "apply_command env IQuit app = Some (app, [Quit])"
| "apply_command env (IMove delta) app =
     (if wa_scope app = Picker then
        Some (app\<lparr>wa_picker_index := move_index (wa_picker_index app) (length (wa_agents app) + 1) delta\<rparr>, [])
      else if detail_mode env app then Some (app\<lparr>wa_scroll := move_scroll (wa_scroll app) delta\<rparr>, [])
      else Some (app\<lparr>wa_selected := move_index (wa_selected app) (length (visible_cards env app)) delta\<rparr>, []))"
| "apply_command env IEnter app =
     (if wa_scope app = Picker then choose_picker app
      else Some (app\<lparr>wa_expanded := (case selected_card env app of
                                       None \<Rightarrow> wa_expanded app | Some c \<Rightarrow> toggle (card_key c) (wa_expanded app)),
                     wa_scroll := 0\<rparr>, []))"
| "apply_command env (ICycleAgents direction) app = Some (app, [CycleAgents direction])"
| "apply_command env IOpenPicker app = Some (open_picker app, [RefreshAgents, Resubscribe None])"
| "apply_command env IToggleRaw app =
     Some (app\<lparr>wa_raw_open := (case Option.bind (selected_card env app) selected_invocation_id of
                                None \<Rightarrow> wa_raw_open app | Some i \<Rightarrow> toggle i (wa_raw_open app)),
               wa_scroll := 0\<rparr>, [])"
| "apply_command env ICopy app =
     Some (app, case Option.bind (selected_card env app) (copy_text_for env app) of None \<Rightarrow> [] | Some t \<Rightarrow> [Copy t])"
| "apply_command env ITop app =
     Some (if detail_mode env app then app\<lparr>wa_scroll := 0\<rparr> else app\<lparr>wa_selected := 0, wa_scroll := 0\<rparr>, [])"
| "apply_command env IBottom app =
     Some (if detail_mode env app then app\<lparr>wa_scroll := 65535\<rparr>
           else app\<lparr>wa_selected := length (visible_cards env app) - 1\<rparr>, [])"
| "apply_command env IStartSearch app = Some (app\<lparr>wa_search_input := Some (wa_search_query app)\<rparr>, [])"
| "apply_command env _ app = Some (app, [])"

definition apply_input :: "watch_env \<Rightarrow> watch_input \<Rightarrow> watch_app \<Rightarrow> (watch_app \<times> watch_effect list) option" where
  "apply_input env input app =
     (case wa_search_input app of
        Some search \<Rightarrow> Some (apply_search_input input search app, [])
      | None \<Rightarrow> apply_command env input app)"

section \<open>The invariant\<close>

definition selection_ok :: "watch_env \<Rightarrow> watch_app \<Rightarrow> bool" where
  "selection_ok env app \<longleftrightarrow> wa_selected app \<le> length (visible_cards env app) - 1"

definition card_time :: "watch_card \<Rightarrow> int \<times> int" where
  "card_time c = (pr_started_at_ms (card_record c), pr_primary_invocation_id (card_record c))"

definition board_ok :: "watch_card list \<Rightarrow> bool" where
  "board_ok cards \<longleftrightarrow> cards_ok cards \<and> sorted (map card_time cards) \<and> length cards \<le> MAX_LIVE_CARDS"

definition output_ok :: "live_output \<Rightarrow> bool" where
  "output_ok output \<longleftrightarrow>
     length (utf8_chars (lo_text output)) \<le> MAX_LIVE_OUTPUT_CHARS \<and> safe_display (lo_text output) \<and> at_boundary (lo_text output)"

fun connection_texts :: "connection_state \<Rightarrow> rstr list" where
  "connection_texts (Degraded message) = [message]"
| "connection_texts _ = []"

definition notices_ok :: "watch_app \<Rightarrow> bool" where
  "notices_ok app \<longleftrightarrow>
     list_all safe_display (connection_texts (wa_connection app) @ opt_list (wa_new_workdir_notice app) @
       opt_list (wa_recovery_notice app))"

text \<open>The invariant without the selection, which several operations repair at their end.\<close>

definition core_ok :: "watch_app \<Rightarrow> bool" where
  "core_ok app \<longleftrightarrow>
     wa_picker_index app \<le> length (wa_agents app) \<and> board_ok (wa_cards app) \<and>
     list_all (\<lambda>(_, output). output_ok output) (wa_live_output app) \<and> notices_ok app"

definition app_ok :: "watch_env \<Rightarrow> watch_app \<Rightarrow> bool" where
  "app_ok env app \<longleftrightarrow> core_ok app \<and> selection_ok env app"

text \<open>What is visible depends on the cards, the scope and the search only.\<close>

lemma visible_cards_cong:
  "wa_cards app = wa_cards app' \<Longrightarrow> wa_scope app = wa_scope app' \<Longrightarrow> wa_search_query app = wa_search_query app' \<Longrightarrow>
     visible_cards env app = visible_cards env app'"
  by (simp add: visible_cards_def)

lemma selection_ok_zero: "wa_selected app = 0 \<Longrightarrow> selection_ok env app"
  by (simp add: selection_ok_def)

lemma selection_ok_cong:
  "selection_ok env app \<Longrightarrow> wa_selected app' = wa_selected app \<Longrightarrow> wa_cards app' = wa_cards app \<Longrightarrow>
     wa_scope app' = wa_scope app \<Longrightarrow> wa_search_query app' = wa_search_query app \<Longrightarrow> selection_ok env app'"
  by (simp add: selection_ok_def visible_cards_def)

lemma clamp_selection_ok: "selection_ok env (clamp_selection env app)"
  by (simp add: selection_ok_def clamp_selection_def visible_cards_def)

lemma clean_text_safe:
  assumes "\<And>s. valid_utf8 (we_strip env s)"
  shows "safe_display (clean_text env s) \<and> at_boundary (clean_text env s)"
  using sanitize_at_boundary [OF valid_at_boundary [OF assms]] by (simp add: sanitize_display_text_def)

lemma merge_record_board:
  assumes "board_ok (wa_cards app)" "record_safe r"
  shows "board_ok (wa_cards (merge_record r d app))"
proof -
  let ?cards = "sort_cards (merge_card (wa_cards app) r d)"
  have "cards_ok (merge_card (wa_cards app) r d)" using assms by (intro merge_card_ok) (simp_all add: board_ok_def)
  then have ok: "cards_ok ?cards"
    by (simp add: cards_ok_def list_all_iff sort_cards_def distinct_map)
  have sorted: "sorted (map card_time ?cards)" by (simp add: sort_cards_def card_time_def [abs_def])
  have len: "length ?cards \<le> Suc MAX_LIVE_CARDS"
    using merge_card_length [of "wa_cards app" r d] assms(1) by (simp add: board_ok_def sort_cards_def)
  show ?thesis
  proof (cases "MAX_LIVE_CARDS < length ?cards")
    case True
    then obtain c cs where cs: "?cards = c # cs" by (cases ?cards) auto
    from ok sorted len True show ?thesis
      unfolding board_ok_def merge_record_def Let_def cs by (auto simp: cards_ok_def)
  next
    case False
    with ok sorted show ?thesis by (simp add: board_ok_def merge_record_def Let_def)
  qed
qed

lemma fold_preserves: "P a \<Longrightarrow> (\<And>x a. P a \<Longrightarrow> P (f x a)) \<Longrightarrow> P (fold f xs a)"
  by (induction xs arbitrary: a) simp_all

lemma core_okI:
  assumes "core_ok app" "wa_picker_index app' \<le> length (wa_agents app')"
    "wa_cards app' = wa_cards app" "wa_live_output app' = wa_live_output app" "wa_connection app' = wa_connection app"
    "wa_new_workdir_notice app' = wa_new_workdir_notice app" "wa_recovery_notice app' = wa_recovery_notice app"
  shows "core_ok app'"
  using assms by (simp add: core_ok_def notices_ok_def)

lemma core_okD: "core_ok app \<Longrightarrow> wa_picker_index app \<le> length (wa_agents app)"
  by (simp add: core_ok_def)

lemma merge_record_core:
  assumes "core_ok app" "record_safe r"
  shows "core_ok (merge_record r d app)"
proof -
  have same: "wa_picker_index (merge_record r d app) = wa_picker_index app"
    "wa_agents (merge_record r d app) = wa_agents app"
    "wa_live_output (merge_record r d app) = wa_live_output app"
    "notices_ok (merge_record r d app) = notices_ok app"
    by (simp_all add: merge_record_def Let_def notices_ok_def)
  with assms merge_record_board [of app r d] show ?thesis by (simp add: core_ok_def)
qed

lemma outputs_delete: "list_all P outputs \<Longrightarrow> list_all P (AList.delete i outputs)"
  by (auto simp: list_all_iff AList.delete_eq)

lemma core_delete_output:
  "core_ok app \<Longrightarrow> core_ok (app\<lparr>wa_live_output := AList.delete i (wa_live_output app)\<rparr>)"
  by (simp add: core_ok_def notices_ok_def outputs_delete)

lemma core_details: "core_ok (app\<lparr>wa_details := d\<rparr>) = core_ok app"
  by (simp add: core_ok_def notices_ok_def)

lemma clamp_selection_app_ok: "core_ok app \<Longrightarrow> app_ok env (clamp_selection env app)"
  unfolding app_ok_def
  by (intro conjI clamp_selection_ok; rule core_okI [of app]; simp add: clamp_selection_def core_okD)

lemma outputs_update: "list_all P outputs \<Longrightarrow> P (i, v) \<Longrightarrow> list_all P (AList.update i v outputs)"
  by (induction outputs) auto

lemma trim_live_output_eq:
  "lo_text (trim_live_output output) =
     concat (drop (length (utf8_chars (lo_text output)) - MAX_LIVE_OUTPUT_CHARS) (utf8_chars (lo_text output)))"
proof -
  let ?chars = "utf8_chars (lo_text output)"
  have "drop (length (concat (take k ?chars))) (lo_text output) = concat (drop k ?chars)" for k
  proof -
    have "lo_text output = concat (take k ?chars) @ concat (drop k ?chars)"
      by (metis append_take_drop_id concat_append concat_utf8_chars)
    then show ?thesis by (metis append_eq_conv_conj)
  qed
  moreover have "0 < MAX_LIVE_OUTPUT_CHARS" by (simp add: MAX_LIVE_OUTPUT_CHARS_def)
  ultimately show ?thesis by (auto simp: trim_live_output_def Let_def not_less)
qed

lemma utf8_chars_drop:
  assumes "at_boundary s"
  shows "utf8_chars (concat (drop k (utf8_chars s))) = drop k (utf8_chars s) \<and> at_boundary (concat (drop k (utf8_chars s)))"
proof -
  have each: "at_boundary ch \<and> utf8_chars ch = [ch]" if "ch \<in> set (drop k (utf8_chars s))" for ch
    using utf8_chars_member [OF assms] that by (meson in_set_dropD)
  then have "utf8_chars (concat (drop k (utf8_chars s))) = concat (map utf8_chars (drop k (utf8_chars s)))"
    by (intro utf8_chars_concat) blast
  also have "map utf8_chars (drop k (utf8_chars s)) = map (\<lambda>ch. [ch]) (drop k (utf8_chars s))"
    by (rule map_cong [OF refl]) (use each in blast)
  also have "concat (map (\<lambda>ch. [ch]) (drop k (utf8_chars s))) = drop k (utf8_chars s)" by simp
  finally have chars: "utf8_chars (concat (drop k (utf8_chars s))) = drop k (utf8_chars s)" .
  show ?thesis by (rule conjI [OF chars at_boundary_concat]) (use each in blast)
qed

lemma trim_live_output_chars:
  assumes "at_boundary (lo_text output)"
  shows "utf8_chars (lo_text (trim_live_output output)) =
    drop (length (utf8_chars (lo_text output)) - MAX_LIVE_OUTPUT_CHARS) (utf8_chars (lo_text output)) \<and>
    at_boundary (lo_text (trim_live_output output))"
  unfolding trim_live_output_eq using utf8_chars_drop [OF assms] by simp

lemma trim_live_output_ok:
  assumes "safe_display (lo_text output)" "at_boundary (lo_text output)"
  shows "output_ok (trim_live_output output)"
  using trim_live_output_chars [OF assms(2)] assms(1)
  by (auto simp: output_ok_def safe_display_def list_all_iff dest: in_set_dropD)

lemma safe_display_append: "safe_display s \<Longrightarrow> safe_display t \<Longrightarrow> at_boundary t \<Longrightarrow> safe_display (s @ t)"
  by (simp add: safe_display_def utf8_chars_append)

lemma append_live_output_core:
  assumes "core_ok app" "\<And>s. valid_utf8 (we_strip env s)"
  shows "core_ok (append_live_output env i chunk app)"
proof -
  let ?output = "case map_of (wa_live_output app) i of Some o' \<Rightarrow> o' | None \<Rightarrow> \<lparr>lo_text = [], lo_truncated = False\<rparr>"
  have "output_ok \<lparr>lo_text = [], lo_truncated = False\<rparr>"
    by (simp add: output_ok_def safe_display_def at_boundary_def)
  then have "output_ok ?output"
    using assms(1) by (auto simp: core_ok_def list_all_iff dest!: map_of_SomeD split: option.split)
  then have "output_ok (trim_live_output (?output\<lparr>lo_text := lo_text ?output @ clean_text env chunk\<rparr>))"
    using clean_text_safe [OF assms(2), of chunk]
    by (intro trim_live_output_ok) (simp_all add: output_ok_def safe_display_append at_boundary_append)
  with assms(1) show ?thesis
    unfolding append_live_output_def Let_def
    by (simp add: core_ok_def notices_ok_def outputs_update)
qed

lemma merge_one_core:
  assumes "core_ok app" "\<And>s. valid_utf8 (we_strip env s)"
  shows "core_ok (merge_one env r app)"
  unfolding merge_one_def by (intro merge_record_core core_delete_output assms(1) sanitize_record_safe assms(2))

lemma merge_detail_ok:
  assumes "core_ok app" "\<And>s. valid_utf8 (we_strip env s)"
  shows "app_ok env (merge_detail env detail app)"
proof -
  have "core_ok (fold (\<lambda>r. merge_record (sanitize_record_for_terminal (we_strip env) r) d) (ad_records detail) app)" for d
    by (rule fold_preserves) (auto intro: assms(1) merge_record_core sanitize_record_safe assms(2))
  from core_delete_output [OF this] show ?thesis
    unfolding merge_detail_def Let_def by (intro clamp_selection_app_ok) (simp add: core_details)
qed

lemma merge_presentation_ok:
  assumes "core_ok app" "\<And>s. valid_utf8 (we_strip env s)"
  shows "app_ok env (merge_presentation env records app)"
  unfolding merge_presentation_def
  by (rule clamp_selection_app_ok, rule fold_preserves) (auto intro: assms merge_one_core)

lemma move_index_le: "current \<le> len \<Longrightarrow> move_index current (Suc len) delta \<le> len"
  by (auto simp: move_index_def sat_add_def)

lemma default_picker_index_le: "default_picker_index agents \<le> length agents"
  by (cases agents) (simp_all add: default_picker_index_def)

lemma length_sanitized_agents [simp]: "length (sanitize_agents_for_terminal env agents) = length agents"
  by (simp add: sanitize_agents_for_terminal_def)

lemma picker_scope_defined: "core_ok app \<Longrightarrow> picker_scope app \<noteq> None"
  by (auto simp: core_ok_def picker_scope_def)

lemma reset_selection_parts [simp]: "core_ok (reset_selection app) = core_ok app" "selection_ok env (reset_selection app)"
  by (simp_all add: reset_selection_def core_ok_def notices_ok_def selection_ok_def)

lemma reset_selection_ok: "core_ok app \<Longrightarrow> app_ok env (reset_selection app)"
  by (simp add: app_ok_def)

lemma core_scope: "core_ok (app\<lparr>wa_scope := scope\<rparr>) = core_ok app"
  by (simp add: core_ok_def notices_ok_def)

lemma choose_picker_ok:
  assumes "core_ok app"
  obtains app' where "choose_picker app = Some (app', [Resubscribe (stream_filter app')])" "app_ok env app'"
proof -
  obtain scope where "picker_scope app = Some scope" using picker_scope_defined [OF assms] by blast
  then have "choose_picker app =
      Some (reset_selection (app\<lparr>wa_scope := scope\<rparr>), [Resubscribe (stream_filter (reset_selection (app\<lparr>wa_scope := scope\<rparr>)))])"
    by (simp add: choose_picker_def Let_def)
  then show ?thesis using assms by (intro that) (auto intro: reset_selection_ok simp: core_scope)
qed

lemma agent_position_less: "agent_position app = Some i \<Longrightarrow> i < length (wa_agents app)"
  by (auto simp: agent_position_def dest: first_index_Some split: watch_scope.splits)

lemma cycle_agents_ok:
  assumes "app_ok env app"
  obtains app' where "cycle_agents_after_refresh direction app = Some (app', if wa_agents app = [] then [] else [Resubscribe (stream_filter app')])"
    "app_ok env app'"
proof (cases "wa_agents app = []")
  case True
  with assms show ?thesis by (intro that [of app]) (simp_all add: cycle_agents_after_refresh_def)
next
  case False
  define app1 where "app1 = reset_selection (app\<lparr>wa_scope := Agent (ag_id (wa_agents app ! cycle_index direction app))\<rparr>)"
  have "cycle_index direction app < length (wa_agents app)"
    using False agent_position_less [of app] by (auto simp: cycle_index_def Let_def split: option.split)
  then have "cycle_agents_after_refresh direction app = Some (app1, [Resubscribe (stream_filter app1)])"
    using False by (simp add: cycle_agents_after_refresh_def Let_def app1_def)
  moreover have "app_ok env app1"
    using assms unfolding app1_def by (intro reset_selection_ok) (simp add: core_scope app_ok_def)
  ultimately show ?thesis using False by (intro that [of app1]) simp_all
qed

lemma set_agents_ok:
  assumes "app_ok env app"
  shows "app_ok env (fst (set_agents env agents app))"
proof -
  define app1 where "app1 = app\<lparr>wa_agents := sanitize_agents_for_terminal env agents\<rparr>"
  define app2 where "app2 = (if wa_automatic_scope app1 \<and> wa_scope app1 = Waiting
    then app1\<lparr>wa_scope := automatic_scope_for_agents (wa_agents app1)\<rparr> else app1)"
  define app3 where "app3 = (if wa_scope app = Waiting \<and> wa_scope app2 = Picker
    then app2\<lparr>wa_picker_index := default_picker_index (wa_agents app2)\<rparr>
    else app2\<lparr>wa_picker_index := min (wa_picker_index app2) (length (wa_agents app2))\<rparr>)"
  have fst: "fst (set_agents env agents app) = (if wa_scope app3 \<noteq> wa_scope app then reset_selection app3 else app3)"
    unfolding set_agents_def adopt_agents_def Let_def fst_conv app3_def app2_def app1_def by (rule refl)
  have core: "core_ok app3"
    by (rule core_okI [of app])
      (use assms in \<open>auto simp: app_ok_def app3_def app2_def app1_def default_picker_index_le\<close>)
  show ?thesis
  proof (cases "wa_scope app3 = wa_scope app")
    case True
    moreover have "selection_ok env app3"
      by (rule selection_ok_cong [of env app]) (use assms True in \<open>auto simp: app_ok_def app3_def app2_def app1_def\<close>)
    ultimately show ?thesis using core by (simp add: fst app_ok_def)
  qed (simp add: fst reset_selection_ok core)
qed

lemma core_notices:
  assumes "core_ok app" "\<And>s. valid_utf8 (we_strip env s)"
  shows "core_ok (set_degraded env message app)" "core_ok (set_recovered env now message app)" "core_ok (set_connected app)"
    "core_ok (app\<lparr>wa_connection := Connecting\<rparr>)"
    "core_ok (app\<lparr>wa_new_workdir_notice := Some (clean_text env path), wa_new_workdir_notice_expires_at := t\<rparr>)"
  using assms(1) clean_text_safe [OF assms(2)]
  by (simp_all add: core_ok_def notices_ok_def set_degraded_def set_recovered_def set_connected_def)

lemma selection_notices:
  assumes "selection_ok env app"
  shows "selection_ok env (set_degraded env message app)" "selection_ok env (set_recovered env now message app)"
    "selection_ok env (set_connected app)" "selection_ok env (app\<lparr>wa_connection := c\<rparr>)"
    "selection_ok env (app\<lparr>wa_new_workdir_notice := n, wa_new_workdir_notice_expires_at := t\<rparr>)"
    "selection_ok env (app\<lparr>wa_status_active_process_count := cnt\<rparr>)"
    "selection_ok env (app\<lparr>wa_last_live_sequence := l\<rparr>)" "selection_ok env (app\<lparr>wa_details := d\<rparr>)"
    "selection_ok env (append_live_output env i chunk app)"
  using assms
  by (simp_all add: selection_ok_def visible_cards_def set_degraded_def set_recovered_def set_connected_def
      append_live_output_def Let_def)

lemma core_other:
  "core_ok (app\<lparr>wa_status_active_process_count := cnt\<rparr>) = core_ok app"
  "core_ok (app\<lparr>wa_last_live_sequence := l\<rparr>) = core_ok app"
  by (simp_all add: core_ok_def notices_ok_def)

lemma note_live_event_ok:
  assumes "app_ok env app" "\<And>s. valid_utf8 (we_strip env s)"
  shows "app_ok env (fst (note_live_event env now event app))"
proof -
  define app1 where "app1 = (if wa_automatic_scope app \<and> wa_scope app = Waiting \<and> le_agent_id event = None \<and>
    le_invocation_id event \<noteq> None then reset_selection (app\<lparr>wa_scope := Unattributed\<rparr>) else app)"
  have 1: "app_ok env app1"
    using assms(1) unfolding app1_def by (simp add: core_scope app_ok_def)
  then have "app_ok env (app1\<lparr>wa_status_active_process_count := n\<rparr>)"
    "app_ok env (app1\<lparr>wa_new_workdir_notice := Some (clean_text env path), wa_new_workdir_notice_expires_at := t\<rparr>)" for n path t
    by (simp_all add: app_ok_def core_other selection_notices core_notices [OF _ assms(2)])
  with 1 assms show ?thesis
    unfolding note_live_event_def app1_def [symmetric] Let_def
    by (auto simp: app_ok_def core_notices selection_notices split: option.split)
qed

lemma apply_search_input_ok:
  assumes "app_ok env app"
  shows "app_ok env (apply_search_input input search app)"
proof -
  have core: "core_ok (app\<lparr>wa_search_input := x\<rparr>)" "core_ok (app\<lparr>wa_search_query := q, wa_search_input := x\<rparr>)" for x q
    using assms by (simp_all add: app_ok_def core_ok_def notices_ok_def)
  moreover have "selection_ok env (app\<lparr>wa_search_input := x\<rparr>)" for x
    using assms by (auto simp: app_ok_def intro: selection_ok_cong [of env app])
  ultimately show ?thesis using assms
    by (cases input) (simp_all add: app_ok_def)
qed

lemma core_view:
  "core_ok (app\<lparr>wa_selected := n\<rparr>) = core_ok app" "core_ok (app\<lparr>wa_scroll := n\<rparr>) = core_ok app"
  "core_ok (app\<lparr>wa_selected := n, wa_scroll := m\<rparr>) = core_ok app"
  "core_ok (app\<lparr>wa_expanded := ks, wa_scroll := n\<rparr>) = core_ok app"
  "core_ok (app\<lparr>wa_raw_open := is', wa_scroll := n\<rparr>) = core_ok app"
  "core_ok (app\<lparr>wa_expanded := ks\<rparr>) = core_ok app" "core_ok (app\<lparr>wa_raw_open := is'\<rparr>) = core_ok app"
  "core_ok (app\<lparr>wa_search_input := q\<rparr>) = core_ok app"
  by (simp_all add: core_ok_def notices_ok_def)

lemma selection_view:
  "selection_ok env (app\<lparr>wa_scroll := n\<rparr>) = selection_ok env app"
  "selection_ok env (app\<lparr>wa_expanded := ks, wa_scroll := n\<rparr>) = selection_ok env app"
  "selection_ok env (app\<lparr>wa_raw_open := is', wa_scroll := n\<rparr>) = selection_ok env app"
  "selection_ok env (app\<lparr>wa_expanded := ks\<rparr>) = selection_ok env app"
  "selection_ok env (app\<lparr>wa_raw_open := is'\<rparr>) = selection_ok env app"
  "selection_ok env (app\<lparr>wa_search_input := q\<rparr>) = selection_ok env app"
  "selection_ok env (app\<lparr>wa_picker_index := i\<rparr>) = selection_ok env app"
  "selection_ok env (app\<lparr>wa_selected := n\<rparr>) \<longleftrightarrow> n \<le> length (visible_cards env app) - 1"
  "selection_ok env (app\<lparr>wa_selected := 0, wa_scroll := n\<rparr>)"
  by (simp_all add: selection_ok_def visible_cards_def)

lemma open_picker_ok: "app_ok env app \<Longrightarrow> app_ok env (open_picker app)"
proof -
  define index where "index = (case wa_scope app of
      Agent i \<Rightarrow> (case first_index (\<lambda>agent. ag_id agent = i) (wa_agents app) of
                   Some index \<Rightarrow> index + 1 | None \<Rightarrow> default_picker_index (wa_agents app))
    | All \<Rightarrow> 0
    | _ \<Rightarrow> default_picker_index (wa_agents app))"
  have "index \<le> length (wa_agents app)"
    by (auto simp: index_def default_picker_index_le Suc_le_eq dest: first_index_Some split: watch_scope.split option.split)
  moreover assume "app_ok env app"
  ultimately have "core_ok (app\<lparr>wa_picker_index := index, wa_scope := Picker\<rparr>)"
    unfolding app_ok_def by (elim conjE) (rule core_okI [of app], simp_all)
  then show ?thesis
    unfolding open_picker_def Let_def index_def [symmetric] by (rule reset_selection_ok)
qed

lemma move_selection_le: "current \<le> len - 1 \<Longrightarrow> move_index current len delta \<le> len - 1"
  by (auto simp: move_index_def)

text \<open>No input leads to a panic, and every input keeps the invariant.\<close>

lemma apply_command_ok:
  assumes "app_ok env app"
  shows "\<exists>app' effects. apply_command env input app = Some (app', effects) \<and> app_ok env app'"
proof -
  have ok: "core_ok app" "selection_ok env app" using assms by (simp_all add: app_ok_def)
  have picker: "app_ok env (app\<lparr>wa_picker_index := move_index (wa_picker_index app) (length (wa_agents app) + 1) delta\<rparr>)" for delta
    using ok move_index_le [OF core_okD [OF ok(1)], of delta]
    by (simp add: app_ok_def selection_view core_ok_def notices_ok_def)
  have moved: "move_index (wa_selected app) (length (visible_cards env app)) delta \<le> length (visible_cards env app) - 1" for delta
    using ok(2) by (intro move_selection_le) (simp add: selection_ok_def)
  show ?thesis
  proof (cases input)
    case IEnter
    show ?thesis
    proof (cases "wa_scope app = Picker")
      case True
      moreover obtain app' where "choose_picker app = Some (app', [Resubscribe (stream_filter app')])" "app_ok env app'"
        by (rule choose_picker_ok [OF ok(1)])
      ultimately show ?thesis using IEnter by simp
    qed (use IEnter ok in \<open>simp add: app_ok_def core_view selection_view\<close>)
  next
    case (IMove delta)
    with picker [of delta] moved [of delta] ok show ?thesis by (auto simp: app_ok_def core_view selection_view)
  next
    case IOpenPicker
    with open_picker_ok [OF assms] show ?thesis by simp
  qed (use assms ok in \<open>auto simp: app_ok_def core_view selection_view\<close>)
qed

section \<open>Runs of the viewer\<close>

text \<open>Everything the event loop does to the state.\<close>

inductive watch_step :: "watch_env \<Rightarrow> watch_app \<Rightarrow> watch_app \<Rightarrow> bool" for env where
  step_input: "apply_input env input app = Some (app', effects) \<Longrightarrow> watch_step env app app'"
| step_cycle: "cycle_agents_after_refresh direction app = Some (app', effects) \<Longrightarrow> watch_step env app app'"
| step_agents: "watch_step env app (fst (set_agents env agents app))"
| step_process: "watch_step env app (snd (should_process_live_event event app))"
| step_note: "watch_step env app (fst (note_live_event env now event app))"
| step_detail: "watch_step env app (merge_detail env detail app)"
| step_cache: "watch_step env app (cache_detail detail app)"
| step_timeline: "watch_step env app (merge_timeline_record env r app)"
| step_presentation: "watch_step env app (merge_presentation env records app)"
| step_output: "watch_step env app (append_live_output env i chunk app)"
| step_connected: "watch_step env app (set_connected app)"
| step_degraded: "watch_step env app (set_degraded env message app)"
| step_recovered: "watch_step env app (set_recovered env now message app)"
| step_status: "watch_step env app (set_status_active_process_count cnt app)"
| step_resubscribe: "watch_step env app (app\<lparr>wa_connection := Connecting\<rparr>)"

inductive watch_reach :: "watch_env \<Rightarrow> watch_app \<Rightarrow> bool" for env where
  reach_new: "watch_reach env (watch_app_new runtime_id expires_at agents active_process_count now options)"
| reach_step: "watch_reach env app \<Longrightarrow> watch_step env app app' \<Longrightarrow> watch_reach env app'"

lemma watch_app_new_ok: "app_ok env (watch_app_new runtime_id expires_at agents active_process_count now options)"
proof -
  have "automatic_scope_for_agents agents = Picker \<Longrightarrow> 1 \<le> length agents"
    by (cases agents rule: automatic_scope_for_agents.cases) auto
  then show ?thesis
    by (auto simp: app_ok_def core_ok_def selection_ok_def board_ok_def cards_ok_def notices_ok_def watch_app_new_def Let_def
        split: option.splits if_splits)
qed

lemma apply_input_ok:
  assumes "app_ok env app"
  shows "\<exists>app' effects. apply_input env input app = Some (app', effects) \<and> app_ok env app'"
  using apply_command_ok [OF assms, of input] apply_search_input_ok [OF assms]
  by (auto simp: apply_input_def split: option.split)

lemma watch_step_ok:
  assumes "watch_step env app app'" "app_ok env app" "\<And>s. valid_utf8 (we_strip env s)"
  shows "app_ok env app'"
  using assms(1)
proof cases
  case (step_input input effects)
  with apply_input_ok [OF assms(2), of input] show ?thesis by auto
next
  case (step_cycle direction effects)
  obtain app'' where "cycle_agents_after_refresh direction app =
      Some (app'', if wa_agents app = [] then [] else [Resubscribe (stream_filter app'')])" "app_ok env app''"
    by (rule cycle_agents_ok [OF assms(2)])
  with step_cycle show ?thesis by simp
next
  case (step_process event)
  with assms(2) show ?thesis
    by (simp add: should_process_live_event_def Let_def app_ok_def core_other selection_notices)
next
  case (step_note now event)
  with note_live_event_ok [OF assms(2,3)] show ?thesis by simp
next
  case (step_timeline r)
  have "core_ok app" using assms(2) by (simp add: app_ok_def)
  then show ?thesis
    unfolding step_timeline merge_timeline_record_def by (intro clamp_selection_app_ok merge_one_core assms(3))
next
  case (step_agents agents)
  with set_agents_ok [OF assms(2)] show ?thesis by simp
next
  case (step_detail detail)
  with merge_detail_ok [OF _ assms(3)] assms(2) show ?thesis by (simp add: app_ok_def)
next
  case (step_presentation records)
  with merge_presentation_ok [OF _ assms(3)] assms(2) show ?thesis by (simp add: app_ok_def)
next
  case (step_output i chunk)
  with append_live_output_core [OF _ assms(3)] assms(2) show ?thesis by (simp add: app_ok_def selection_notices)
qed (use assms(2) core_notices [OF _ assms(3)] in
    \<open>simp_all add: app_ok_def selection_notices core_other core_details cache_detail_def set_status_active_process_count_def\<close>)

text \<open>
  C25: The state of the viewer stays consistent.  Whatever keys are pressed and whatever the daemon sends, in
  any order: the index of the picker names an entry, the selection names a visible card (or none is
  visible), there are at most 2000 cards, in order of time and with different keys, the live output
  of an invocation is at most 32768 characters, and every text the viewer keeps for display is free of
  control characters.  No input makes the viewer panic.
\<close>

theorem watch_state_stays_consistent:
  assumes "watch_reach env app" "\<And>s. valid_utf8 (we_strip env s)"
  shows "app_ok env app \<and> apply_input env input app \<noteq> None \<and> cycle_agents_after_refresh direction app \<noteq> None"
proof -
  have ok: "app_ok env app"
    using assms(1)
  proof induction
    case reach_new
    show ?case by (rule watch_app_new_ok)
  next
    case (reach_step app app')
    then show ?case using watch_step_ok assms(2) by blast
  qed
  obtain app' where "cycle_agents_after_refresh direction app =
      Some (app', if wa_agents app = [] then [] else [Resubscribe (stream_filter app')])"
    by (rule cycle_agents_ok [OF ok])
  with ok apply_input_ok [OF ok, of input] show ?thesis by auto
qed

definition plain_env :: watch_env where
  "plain_env = \<lparr>we_strip = (\<lambda>_. []), we_record_json = (\<lambda>_. []), we_raw_evidence = (\<lambda>_. [])\<rparr>"

theorem watch_state_stays_consistent_witness:
  "apply_input plain_env IEnter
     (fst (set_agents plain_env [] (watch_app_new ''r'' None [] 0 0 \<lparr>wo_agent = None, wo_all = True\<rparr>))) \<noteq> None"
proof -
  have "watch_reach plain_env (fst (set_agents plain_env [] (watch_app_new ''r'' None [] 0 0 \<lparr>wo_agent = None, wo_all = True\<rparr>)))"
    by (rule reach_step [OF reach_new step_agents])
  moreover have "valid_utf8 (we_strip plain_env s)" for s by (simp add: plain_env_def)
  ultimately show ?thesis using watch_state_stays_consistent by blast
qed

section \<open>Live output\<close>

definition last_chars :: "nat \<Rightarrow> rstr \<Rightarrow> rstr" where
  "last_chars n s = concat (drop (length (utf8_chars s) - n) (utf8_chars s))"

lemma last_chars_chars:
  "at_boundary s \<Longrightarrow> utf8_chars (last_chars n s) = drop (length (utf8_chars s) - n) (utf8_chars s) \<and> at_boundary (last_chars n s)"
  unfolding last_chars_def by (rule utf8_chars_drop)

lemma last_chars_append:
  assumes "at_boundary s" "at_boundary t"
  shows "last_chars n (last_chars n s @ t) = last_chars n (s @ t)"
proof -
  let ?s = "utf8_chars s" and ?t = "utf8_chars t"
  have "utf8_chars (last_chars n s @ t) = drop (length ?s - n) ?s @ ?t"
    using last_chars_chars [OF assms(1), of n] by (simp add: utf8_chars_append assms(2))
  moreover have "drop (length (drop (length ?s - n) ?s @ ?t) - n) (drop (length ?s - n) ?s @ ?t) =
      drop (length (?s @ ?t) - n) (?s @ ?t)"
    by (cases "length ?s \<le> n") (auto simp: min_def not_le add.commute split: if_splits)
  ultimately show ?thesis by (simp only: last_chars_def utf8_chars_append [OF assms(2)])
qed

text \<open>
  The live output of an invocation is the end of everything received for it: its text is the last
  32768 characters of the sanitized chunks, and it is marked as truncated exactly when there were more.
\<close>

theorem live_output_keeps_the_tail:
  assumes "\<And>s. valid_utf8 (we_strip env s)" "map_of (wa_live_output app) i = None" "chunks \<noteq> []"
  shows "map_of (wa_live_output (fold (append_live_output env i) chunks app)) i =
    Some \<lparr>lo_text = last_chars MAX_LIVE_OUTPUT_CHARS (concat (map (clean_text env) chunks)),
          lo_truncated = (MAX_LIVE_OUTPUT_CHARS < length (utf8_chars (concat (map (clean_text env) chunks))))\<rparr>"
  using assms(3)
proof (induction chunks rule: rev_nonempty_induct)
  have trim: "trim_live_output out =
      \<lparr>lo_text = last_chars MAX_LIVE_OUTPUT_CHARS (lo_text out),
       lo_truncated = (lo_truncated out \<or> MAX_LIVE_OUTPUT_CHARS < length (utf8_chars (lo_text out)))\<rparr>" for out
    using trim_live_output_eq [of out]
    by (cases out) (auto simp: trim_live_output_def last_chars_def Let_def)
  note clean = clean_text_safe [OF assms(1)]
  have step: "map_of (wa_live_output (append_live_output env i chunk app')) i =
      Some (trim_live_output \<lparr>lo_text = lo_text out @ clean_text env chunk, lo_truncated = lo_truncated out\<rparr>)"
    if "out = (case map_of (wa_live_output app') i of Some o' \<Rightarrow> o' | None \<Rightarrow> \<lparr>lo_text = [], lo_truncated = False\<rparr>)"
    for app' chunk out
    unfolding append_live_output_def Let_def that [symmetric] by (cases out) (simp add: update_conv')
  {
    case (single chunk)
    show ?case using step [OF refl, where app' = app and chunk = chunk] assms(2) by (simp add: trim)
  next
    case (snoc chunk chunks)
    let ?t = "concat (map (clean_text env) chunks)"
    have t: "at_boundary ?t" using clean by (intro at_boundary_concat) auto
    have len: "length (utf8_chars (?t @ clean_text env chunk)) =
        length (utf8_chars ?t) + length (utf8_chars (clean_text env chunk))"
      using clean [of chunk] by (simp add: utf8_chars_append)
    have len': "length (utf8_chars (last_chars MAX_LIVE_OUTPUT_CHARS ?t @ clean_text env chunk)) =
        min (length (utf8_chars ?t)) MAX_LIVE_OUTPUT_CHARS + length (utf8_chars (clean_text env chunk))"
      using clean [of chunk] last_chars_chars [OF t, of MAX_LIVE_OUTPUT_CHARS]
      by (auto simp: utf8_chars_append min_def)
    from step [OF refl, where app' = "fold (append_live_output env i) chunks app" and chunk = chunk] snoc.IH
    show ?case
      using last_chars_append [OF t, of "clean_text env chunk" MAX_LIVE_OUTPUT_CHARS] clean [of chunk] len len'
      by (auto simp: trim min_def split: if_splits)
  }
qed

definition fixed_env :: watch_env where
  "fixed_env = \<lparr>we_strip = (\<lambda>_. ''x''), we_record_json = (\<lambda>_. []), we_raw_evidence = (\<lambda>_. [])\<rparr>"

theorem live_output_keeps_the_tail_witness:
  "map_of (wa_live_output (fold (append_live_output fixed_env 7) [''a'']
     (watch_app_new ''r'' None [] 0 0 \<lparr>wo_agent = None, wo_all = True\<rparr>))) 7 = Some \<lparr>lo_text = ''x'', lo_truncated = False\<rparr>"
proof -
  let ?app = "watch_app_new ''r'' None [] 0 0 \<lparr>wo_agent = None, wo_all = True\<rparr>"
  have "valid_utf8 (we_strip fixed_env s)" for s
    by (simp add: fixed_env_def valid_utf8_def from_utf8.simps scan_def)
  moreover have "map_of (wa_live_output ?app) 7 = None" by (simp add: watch_app_new_def Let_def)
  moreover have "clean_text fixed_env ''a'' = ''x''"
    by (simp add: fixed_env_def sanitize_display_text_def sanitize_stripped_text_def sanitize_char_def is_control_def is_bidi_control_def)
  ultimately show ?thesis
    using live_output_keeps_the_tail [of fixed_env ?app 7 "[''a'']"]
    by (simp add: last_chars_def MAX_LIVE_OUTPUT_CHARS_def)
qed

section \<open>No invocation is shown twice\<close>

text \<open>Whether all pairs of a list are in a symmetric relation does not depend on its order.\<close>

lemma sorted_wrt_symmetric:
  assumes "\<And>a b. D a b = D b a"
  shows "sorted_wrt D xs \<longleftrightarrow> (\<forall>x \<in># mset xs. \<forall>y \<in># mset xs - {#x#}. D x y)"
proof (induction xs)
  case (Cons c cs)
  have "mset (c # cs) - {#x#} = add_mset c (mset cs - {#x#})" if "x \<in># mset cs" for x
    using that by (simp add: add_mset_diff_bothsides)
  then have "(\<forall>x \<in># mset (c # cs). \<forall>y \<in># mset (c # cs) - {#x#}. D x y) \<longleftrightarrow>
      (\<forall>y \<in># mset cs. D c y) \<and> (\<forall>x \<in># mset cs. D x c \<and> (\<forall>y \<in># mset cs - {#x#}. D x y))"
    by simp
  with Cons assms show ?case by auto
qed simp

lemma cards_disjoint_mset: "mset cards = mset cards' \<Longrightarrow> cards_disjoint cards \<Longrightarrow> cards_disjoint cards'"
  unfolding cards_disjoint_def by (simp add: sorted_wrt_symmetric Int_commute)

lemma merge_record_disjoint:
  assumes "cards_ok (wa_cards app)" "cards_disjoint (wa_cards app)" "\<not> is_poll (pr_kind r)" "record_safe r"
  shows "cards_disjoint (wa_cards (merge_record r d app)) \<and> cards_ok (wa_cards (merge_record r d app))"
proof -
  let ?m = "merge_card (wa_cards app) r d"
  have "cards_disjoint (sort_cards ?m)"
    using merge_card_disjoint [OF assms(1-3), of d] by (rule cards_disjoint_mset [rotated]) (simp add: sort_cards_def)
  moreover have "cards_ok (sort_cards ?m)"
    using merge_card_ok [OF assms(1,4), of d] by (simp add: cards_ok_def list_all_iff sort_cards_def distinct_map)
  moreover have "cards_disjoint (tl cs)" "cards_ok (tl cs)" if "cards_disjoint cs" "cards_ok cs" for cs
    using that by (cases cs; simp add: cards_disjoint_def cards_ok_def)+
  ultimately show ?thesis by (simp add: merge_record_def Let_def)
qed

text \<open>
  No invocation is shown on two cards.  However often details and timelines without poll summaries are
  merged, the samples of any two cards stay disjoint and no two cards have the same key.
\<close>

theorem no_invocation_on_two_cards:
  assumes "\<And>s. valid_utf8 (we_strip env s)"
    "cards_ok (wa_cards app)" "cards_disjoint (wa_cards app)"
    "\<forall>r \<in> set records. \<not> is_poll (pr_kind r)"
  shows "cards_disjoint (wa_cards (merge_presentation env records app)) \<and>
    distinct (map card_key (wa_cards (merge_presentation env records app)))"
proof -
  have "cards_disjoint (wa_cards (fold (merge_one env) records app)) \<and> cards_ok (wa_cards (fold (merge_one env) records app))"
    using assms(2-4)
  proof (induction records arbitrary: app)
    case (Cons r records)
    let ?app = "app\<lparr>wa_live_output := AList.delete (pr_primary_invocation_id r) (wa_live_output app)\<rparr>"
    have "cards_disjoint (wa_cards (merge_one env r app)) \<and> cards_ok (wa_cards (merge_one env r app))"
      unfolding merge_one_def
      using Cons.prems by (intro merge_record_disjoint sanitize_record_safe assms(1)) simp_all
    with Cons show ?case by simp
  qed simp
  then show ?thesis by (simp add: merge_presentation_def clamp_selection_def cards_ok_def)
qed

definition example_record :: "int \<Rightarrow> presentation_record" where
  "example_record i =
     \<lparr>pr_presentation_id = show_nat (nat i), pr_primary_invocation_id = i, pr_raw_evidence_count = 1,
      pr_raw_invocation_ids = [i], pr_raw_invocation_ids_truncated = False, pr_agent_id = None,
      pr_declared_workdir = None, pr_normalized_workdir = None, pr_new_workdir = None, pr_started_at_ms = 0,
      pr_duration_ms = None,
      pr_evidence = \<lparr>pv_evidence_state = [], pv_capture_state = [], pv_degraded = False, pv_reason = None\<rparr>,
      pr_kind = Generic [] [] None\<rparr>"

theorem no_invocation_on_two_cards_witness:
  "cards_disjoint (wa_cards (merge_presentation plain_env [example_record 1, example_record 2, example_record 1]
     (watch_app_new ''r'' None [] 0 0 \<lparr>wo_agent = None, wo_all = True\<rparr>)))"
proof -
  have "valid_utf8 (we_strip plain_env s)" for s by (simp add: plain_env_def)
  moreover have "cards_ok []" "cards_disjoint []" by (simp_all add: cards_ok_def cards_disjoint_def)
  ultimately show ?thesis
    using no_invocation_on_two_cards [of plain_env "watch_app_new ''r'' None [] 0 0 \<lparr>wo_agent = None, wo_all = True\<rparr>"
        "[example_record 1, example_record 2, example_record 1]"]
    by (simp add: watch_app_new_def Let_def example_record_def)
qed

end
