(* ===== verification/Watch_Loop.thy ===== *)
theory Watch_Loop
  imports Watch_Model
begin

text \<open>
  The event loop of the terminal viewer (\<^verbatim>\<open>src/local/watch/mod.rs\<close>): keys and network events, the effects they
  ask for, the subscription to the event stream and the recovery from the durable history.  The answers
  of the daemon, the clipboard and the clock at the \<open>n\<close>-th call are \<open>cl n\<close>.
\<close>

section \<open>Subscription\<close>

text \<open>A running event stream is its generation and the filter it was opened with; cancelling a stream stops it
  but events it had already queued may still arrive.\<close>

type_synonym event_stream = "nat \<times> rstr option"

record subscription =
  sub_current :: event_stream
  sub_previous :: "event_stream option"
  sub_draining_generation :: "nat option"

definition subscription_start :: "nat \<Rightarrow> rstr option \<Rightarrow> subscription" where
  "subscription_start generation stream =
     \<lparr>sub_current = (generation, stream), sub_previous = None, sub_draining_generation = None\<rparr>"

definition stop_previous :: "subscription \<Rightarrow> subscription" where
  "stop_previous sub =
     (case sub_previous sub of
        None \<Rightarrow> sub
      | Some previous \<Rightarrow> sub\<lparr>sub_previous := None, sub_draining_generation := Some (fst previous)\<rparr>)"

definition subscription_replace :: "nat \<Rightarrow> rstr option \<Rightarrow> subscription \<Rightarrow> subscription" where
  "subscription_replace generation stream sub =
     (let sub1 = stop_previous sub in
      sub1\<lparr>sub_current := (generation, stream), sub_previous := Some (sub_current sub1)\<rparr>)"

definition mark_connected :: "nat \<Rightarrow> subscription \<Rightarrow> subscription" where
  "mark_connected generation sub = (if fst (sub_current sub) \<noteq> generation then sub else stop_previous sub)"

definition accepts_generation :: "nat \<Rightarrow> subscription \<Rightarrow> bool" where
  "accepts_generation generation sub \<longleftrightarrow>
     fst (sub_current sub) = generation \<or>
     (case sub_previous sub of None \<Rightarrow> False | Some previous \<Rightarrow> fst previous = generation) \<or>
     sub_draining_generation sub = Some generation"

section \<open>The daemon\<close>

record observer_client =
  oc_current_agents :: "api_agent list res"
  oc_status :: "nat res"
  oc_invocation :: "int \<Rightarrow> api_invocation_detail res"
  oc_recovery :: "rstr option \<Rightarrow> int \<Rightarrow> (int list \<times> presentation_record list) res"
  oc_timeline_detail :: "rstr \<Rightarrow> presentation_record res"
  oc_copy :: "rstr \<Rightarrow> unit res"
  oc_now :: nat

type_synonym daemon = "nat \<Rightarrow> observer_client"

definition refresh_agents ::
    "watch_env \<Rightarrow> daemon \<Rightarrow> nat \<Rightarrow> watch_app \<Rightarrow> nat \<times> watch_app \<times> watch_effect list" where
  "refresh_agents env cl n app =
     (case oc_current_agents (cl n) of
        Inl e \<Rightarrow> (Suc n, set_degraded env (''failed to refresh current Agents: '' @ e) app, [])
      | Inr agents \<Rightarrow>
          (let (app1, effects) = set_agents env agents app in
           (n + 2,
            (case oc_status (cl (Suc n)) of
               Inr active \<Rightarrow> set_status_active_process_count active app1
             | Inl e \<Rightarrow> set_degraded env (''failed to refresh Local status: '' @ e) app1),
            effects)))"

fun recover_each ::
    "watch_env \<Rightarrow> daemon \<Rightarrow> nat \<Rightarrow> watch_app \<Rightarrow> rstr list \<Rightarrow> int list \<Rightarrow> nat \<times> watch_app \<times> rstr list" where
  "recover_each env cl n app errors [] = (n, app, errors)"
| "recover_each env cl n app errors (i # is') =
     (case oc_invocation (cl n) i of
        Inr detail \<Rightarrow> recover_each env cl (Suc n) (merge_detail env detail app) errors is'
      | Inl e \<Rightarrow> recover_each env cl (Suc n) app
          (errors @ [''failed to recover Local invocation '' @ show_int i @ '': '' @ e]) is')"

definition recovery_bound_reached :: rstr where
  "recovery_bound_reached =
     ''durable recovery reached the 100-invocation API bound; use `zodex local history` to inspect possible older missed activity''"

definition recover_from_history :: "watch_env \<Rightarrow> daemon \<Rightarrow> nat \<Rightarrow> watch_app \<Rightarrow> nat \<times> watch_app \<times> unit res" where
  "recover_from_history env cl n app =
     (let known = map fst (wa_details app);
          (ids, errors) = (case oc_recovery (cl n) (stream_filter app) (wa_recovery_since_ms app) of
             Inr (invocations, _) \<Rightarrow>
               (known @ invocations, if length invocations = 100 then [recovery_bound_reached] else [])
           | Inl e \<Rightarrow> (known, [''failed to query durable Local recovery state: '' @ e]));
          (n', app', errors') = recover_each env cl (Suc n) app errors (remdups_adj (sort ids))
      in (n', app', if errors' = [] then Inr () else Inl (join_with ''; '' errors')))"

definition merge_live_detail ::
    "watch_env \<Rightarrow> daemon \<Rightarrow> nat \<Rightarrow> int \<Rightarrow> rstr option \<Rightarrow> watch_app \<Rightarrow> nat \<times> watch_app \<times> unit res" where
  "merge_live_detail env cl n i presentation_id app =
     (case oc_invocation (cl n) i of
        Inl e \<Rightarrow> (Suc n, app, Inl e)
      | Inr detail \<Rightarrow>
          if list_ex (\<lambda>r. is_poll (pr_kind r)) (ad_records detail) then
            (case presentation_id of
               Some p \<Rightarrow>
                 (let app1 = cache_detail detail app in
                  case oc_timeline_detail (cl (Suc n)) p of
                    Inr canonical \<Rightarrow> (n + 2, merge_timeline_record env canonical app1, Inr ())
                  | Inl e \<Rightarrow> (n + 2, merge_detail env detail app1,
                      Inl (''failed to reconcile canonical poll presentation `'' @ p @ ''`: '' @ e)))
             | None \<Rightarrow>
                 (let app1 = merge_detail env detail app in
                  case oc_recovery (cl (Suc n)) (stream_filter app1) (wa_recovery_since_ms app1) of
                    Inr (_, records) \<Rightarrow> (n + 2, merge_presentation env records app1, Inr ())
                  | Inl e \<Rightarrow> (n + 2, app1, Inl (''failed to reconcile poll presentation: '' @ e))))
          else (Suc n, merge_detail env detail app, Inr ()))"

section \<open>Live events\<close>

definition report :: "watch_env \<Rightarrow> rstr \<Rightarrow> nat \<times> watch_app \<times> unit res \<Rightarrow> nat \<times> watch_app" where
  "report env prefix r =
     (case r of (n, app, Inr _) \<Rightarrow> (n, app) | (n, app, Inl e) \<Rightarrow> (n, set_degraded env (prefix @ e) app))"

definition recover_and_report :: "watch_env \<Rightarrow> daemon \<Rightarrow> rstr \<Rightarrow> nat \<Rightarrow> watch_app \<Rightarrow> nat \<times> watch_app" where
  "recover_and_report env cl message n app =
     (case recover_from_history env cl n app of
        (n', app', Inr _) \<Rightarrow> (n', set_recovered env (oc_now (cl n')) message app')
      | (n', app', Inl e) \<Rightarrow> (n', set_degraded env e app'))"

definition apply_live_update ::
    "watch_env \<Rightarrow> daemon \<Rightarrow> history_live_event \<Rightarrow> nat \<Rightarrow> watch_app \<Rightarrow> nat \<times> watch_app \<times> watch_effect list" where
  "apply_live_update env cl live n app =
     (let (process, app1) = should_process_live_event live app in
      if \<not> process then (n, app1, [])
      else
        let known = (case le_invocation_id live of None \<Rightarrow> False | Some i \<Rightarrow> map_of (wa_details app1) i \<noteq> None);
            (app2, effects) = note_live_event env (oc_now (cl n)) live app1;
            (n', app3) =
              (if le_event_type live = ''gap'' then
                 recover_and_report env cl ''live event gap recovered from durable history'' n app2
               else case le_invocation_id live of
                 None \<Rightarrow> (n, app2)
               | Some i \<Rightarrow>
                   if \<not> known then
                     report env (''live invocation '' @ show_int i @ '' could not be loaded: '')
                       (merge_live_detail env cl n i (le_presentation_id live) app2)
                   else if le_event_type live = ''output'' then
                     (case le_chunk_texts live of
                        None \<Rightarrow> (n, app2)
                      | Some texts \<Rightarrow>
                          (n, if concat texts = [] then app2 else append_live_output env i (concat texts) app2))
                   else if le_event_type live = ''presentation_updated'' \<or> le_event_type live = ''invocation_completed'' then
                     report env (''live invocation '' @ show_int i @ '' could not be refreshed: '')
                       (merge_live_detail env cl n i (le_presentation_id live) app2)
                   else (n, app2))
        in (n', app3, effects))"

section \<open>Effects\<close>

record watch_loop =
  wl_app :: watch_app
  wl_subscription :: subscription
  wl_generation :: nat
  wl_calls :: nat

fun effect_weight :: "watch_effect \<Rightarrow> nat" where
  "effect_weight RefreshAgents = 2"
| "effect_weight (CycleAgents _) = 2"
| "effect_weight _ = 1"

lemma refresh_agents_effects:
  "refresh_agents env cl n app = (n', app', effects) \<Longrightarrow> effects = [] \<or> (\<exists>f. effects = [Resubscribe f])"
  by (auto simp: refresh_agents_def set_agents_def Let_def split: sum.splits if_splits)

lemma cycle_agents_effects:
  "cycle_agents_after_refresh d app = Some (app', effects) \<Longrightarrow> effects = [] \<or> (\<exists>f. effects = [Resubscribe f])"
  by (auto simp: cycle_agents_after_refresh_def Let_def split: if_splits)

lemma weight_butlast:
  "effects \<noteq> [] \<Longrightarrow> sum_list (map effect_weight effects) = sum_list (map effect_weight (butlast effects)) + effect_weight (last effects)"
  by (cases effects rule: rev_cases) simp_all

text \<open>\<^verbatim>\<open>while let Some(effect) = effects.pop()\<close>: whether the viewer quits, and the state.\<close>

function apply_effects :: "watch_env \<Rightarrow> daemon \<Rightarrow> watch_effect list \<Rightarrow> watch_loop \<Rightarrow> (bool \<times> watch_loop) option" where
  "apply_effects env cl effects st =
     (if effects = [] then Some (False, st)
      else case last effects of
        Quit \<Rightarrow> Some (True, st)
      | Resubscribe stream \<Rightarrow>
          (let generation = sat_add (wl_generation st) 1 in
           apply_effects env cl (butlast effects)
             (st\<lparr>wl_generation := generation, wl_app := (wl_app st)\<lparr>wa_connection := Connecting\<rparr>,
                 wl_subscription := subscription_replace generation stream (wl_subscription st)\<rparr>))
      | RefreshAgents \<Rightarrow>
          (case refresh_agents env cl (wl_calls st) (wl_app st) of
             (n, app, more_effects) \<Rightarrow>
               apply_effects env cl (butlast effects @ more_effects) (st\<lparr>wl_app := app, wl_calls := n\<rparr>))
      | CycleAgents direction \<Rightarrow>
          (case oc_current_agents (cl (wl_calls st)) of
             Inr agents \<Rightarrow>
               (case cycle_agents_after_refresh direction (fst (set_agents env agents (wl_app st))) of
                  None \<Rightarrow> None
                | Some (app, more_effects) \<Rightarrow>
                    apply_effects env cl (butlast effects @ more_effects)
                      (st\<lparr>wl_app := app, wl_calls := Suc (wl_calls st)\<rparr>))
           | Inl e \<Rightarrow>
               apply_effects env cl (butlast effects)
                 (st\<lparr>wl_app := set_degraded env (''failed to refresh current Agents before switching: '' @ e) (wl_app st),
                     wl_calls := Suc (wl_calls st)\<rparr>))
      | Copy t \<Rightarrow>
          apply_effects env cl (butlast effects)
            (case oc_copy (cl (wl_calls st)) t of
               Inr _ \<Rightarrow> st\<lparr>wl_calls := Suc (wl_calls st)\<rparr>
             | Inl e \<Rightarrow> st\<lparr>wl_app := set_degraded env (''clipboard copy failed: '' @ e) (wl_app st),
                            wl_calls := Suc (wl_calls st)\<rparr>))"
  by pat_completeness auto
termination
  by (relation "measure (\<lambda>(env, cl, effects, st). sum_list (map effect_weight effects))")
     (auto simp: weight_butlast dest!: refresh_agents_effects [OF sym] cycle_agents_effects)

declare apply_effects.simps [simp del]

section \<open>The loop\<close>

datatype watch_network_event =
    NetConnected nat
  | NetLive nat history_live_event
  | NetDisconnected nat rstr

definition handle_network_event :: "watch_env \<Rightarrow> daemon \<Rightarrow> watch_network_event \<Rightarrow> watch_loop \<Rightarrow> watch_loop option" where
  "handle_network_event env cl event st =
     (case event of
        NetConnected g \<Rightarrow>
          if g \<noteq> wl_generation st then Some st
          else
            (let app = wl_app st;
                 (n, app1) = (if wa_connection app = Connecting then (wl_calls st, set_connected app)
                   else recover_and_report env cl ''live stream reconnected; state recovered from durable history''
                          (wl_calls st) (set_connected app));
                 (n', app2, effects) = refresh_agents env cl n app1
             in map_option snd (apply_effects env cl effects
                  (st\<lparr>wl_subscription := mark_connected g (wl_subscription st), wl_app := app2, wl_calls := n'\<rparr>)))
      | NetDisconnected g message \<Rightarrow>
          if g \<noteq> wl_generation st then Some st
          else Some (st\<lparr>wl_app := set_degraded env message (wl_app st)\<rparr>)
      | NetLive g live \<Rightarrow>
          if \<not> accepts_generation g (wl_subscription st) then Some st
          else
            (let (n, app, effects) = apply_live_update env cl live (wl_calls st) (wl_app st)
             in map_option snd (apply_effects env cl effects (st\<lparr>wl_app := app, wl_calls := n\<rparr>))))"

definition handle_key :: "watch_env \<Rightarrow> daemon \<Rightarrow> key_event \<Rightarrow> watch_loop \<Rightarrow> (bool \<times> watch_loop) option" where
  "handle_key env cl key st =
     (case map_key key (wa_search_input (wl_app st) \<noteq> None) of
        None \<Rightarrow> Some (False, st)
      | Some input \<Rightarrow>
          (case apply_input env input (wl_app st) of
             None \<Rightarrow> None
           | Some (app, effects) \<Rightarrow> apply_effects env cl effects (st\<lparr>wl_app := app\<rparr>)))"

definition valid_agent_id :: "rstr \<Rightarrow> bool" where
  "valid_agent_id v \<longleftrightarrow> length v = 4 \<and> list_all (\<lambda>c. is_ascii_lower c \<or> is_ascii_digit c) v"

definition check_options :: "bool \<Rightarrow> watch_options \<Rightarrow> unit res" where
  "check_options terminal options =
     (if \<not> terminal then Inl ''`zodex local watch` requires an interactive terminal''
      else if wo_all options \<and> wo_agent options \<noteq> None then Inl ''`zodex local watch` cannot combine `--all` and `--agent`''
      else (case wo_agent options of
              Some i \<Rightarrow> if valid_agent_id i then Inr ()
                        else Inl ''`zodex local watch --agent` expects an Agent ID matching [a-z0-9]{4}''
            | None \<Rightarrow> Inr ()))"

definition loop_start :: "watch_app \<Rightarrow> watch_loop" where
  "loop_start app =
     \<lparr>wl_app = app, wl_subscription = subscription_start 1 (stream_filter app), wl_generation = 1, wl_calls = 0\<rparr>"

section \<open>What the handlers keep\<close>

definition keeps :: "watch_env \<Rightarrow> watch_app \<Rightarrow> watch_app \<Rightarrow> bool" where
  "keeps env app app' \<longleftrightarrow>
     (app_ok env app \<longrightarrow> app_ok env app') \<and> stream_filter app' = stream_filter app \<and>
     wa_last_live_sequence app' = wa_last_live_sequence app"

lemma keeps_refl [simp]: "keeps env app app"
  by (simp add: keeps_def)

lemma keeps_trans: "keeps env app app' \<Longrightarrow> keeps env app' app'' \<Longrightarrow> keeps env app app''"
  by (simp add: keeps_def)

lemma keepsI:
  assumes "watch_step env app app'" "\<And>s. valid_utf8 (we_strip env s)"
    "wa_scope app' = wa_scope app" "wa_last_live_sequence app' = wa_last_live_sequence app"
  shows "keeps env app app'"
  using watch_step_ok [OF assms(1) _ assms(2)] assms(3,4) by (simp add: keeps_def stream_filter_def)

lemma merge_same:
  "wa_scope (merge_one env r app) = wa_scope app" "wa_last_live_sequence (merge_one env r app) = wa_last_live_sequence app"
  "wa_scope (merge_detail env d app) = wa_scope app" "wa_last_live_sequence (merge_detail env d app) = wa_last_live_sequence app"
  "wa_scope (merge_presentation env rs app) = wa_scope app"
  "wa_last_live_sequence (merge_presentation env rs app) = wa_last_live_sequence app"
proof -
  have rec: "wa_scope (merge_record r d app) = wa_scope app \<and> wa_last_live_sequence (merge_record r d app) = wa_last_live_sequence app"
    for r d and app :: watch_app by (simp add: merge_record_def Let_def)
  then show one: "wa_scope (merge_one env r app) = wa_scope app"
    "wa_last_live_sequence (merge_one env r app) = wa_last_live_sequence app" for r app
    by (simp_all add: merge_one_def)
  have fold: "wa_scope (fold f xs app) = wa_scope app \<and> wa_last_live_sequence (fold f xs app) = wa_last_live_sequence app"
    if "\<And>x app. wa_scope (f x app) = wa_scope app \<and> wa_last_live_sequence (f x app) = wa_last_live_sequence app"
    for f and xs :: "presentation_record list" and app :: watch_app
    using that by (induction xs arbitrary: app) simp_all
  show "wa_scope (merge_detail env d app) = wa_scope app" "wa_last_live_sequence (merge_detail env d app) = wa_last_live_sequence app"
    using rec by (simp_all add: merge_detail_def Let_def clamp_selection_def fold)
  show "wa_scope (merge_presentation env rs app) = wa_scope app"
    "wa_last_live_sequence (merge_presentation env rs app) = wa_last_live_sequence app"
    using one by (simp_all add: merge_presentation_def clamp_selection_def fold)
qed

lemma keeps_ops:
  assumes "\<And>s. valid_utf8 (we_strip env s)"
  shows "keeps env app (set_degraded env message app)" "keeps env app (set_recovered env now message app)"
    "keeps env app (set_connected app)" "keeps env app (set_status_active_process_count active app)"
    "keeps env app (merge_detail env detail app)" "keeps env app (cache_detail detail app)"
    "keeps env app (merge_timeline_record env r app)" "keeps env app (merge_presentation env records app)"
    "keeps env app (append_live_output env i chunk app)" "keeps env app (app\<lparr>wa_connection := Connecting\<rparr>)"
  by (rule keepsI [OF step_degraded assms] keepsI [OF step_recovered assms] keepsI [OF step_connected assms] keepsI [OF step_status assms]
        keepsI [OF step_detail assms] keepsI [OF step_cache assms] keepsI [OF step_timeline assms] keepsI [OF step_presentation assms]
        keepsI [OF step_output assms] keepsI [OF step_resubscribe assms]; simp add: merge_same set_degraded_def set_recovered_def
      set_connected_def set_status_active_process_count_def cache_detail_def merge_timeline_record_def clamp_selection_def
      append_live_output_def Let_def)+

lemma recover_each_keeps:
  assumes "\<And>s. valid_utf8 (we_strip env s)"
  shows "keeps env app (fst (snd (recover_each env cl n app errors is')))"
proof (induction is' arbitrary: n app errors)
  case (Cons i is')
  then show ?case by (auto intro: keeps_trans [OF keeps_ops(5) [OF assms]] split: sum.split)
qed simp

lemma recover_from_history_keeps:
  assumes "\<And>s. valid_utf8 (we_strip env s)"
  shows "keeps env app (fst (snd (recover_from_history env cl n app)))"
  using recover_each_keeps [OF assms]
  by (auto simp: recover_from_history_def Let_def case_prod_beta)

lemma recover_and_report_keeps:
  assumes "\<And>s. valid_utf8 (we_strip env s)"
  shows "keeps env app (snd (recover_and_report env cl message n app))"
proof -
  obtain n' app' r where r: "recover_from_history env cl n app = (n', app', r)" by (metis prod_cases3)
  then have "keeps env app app'" using recover_from_history_keeps [OF assms, of app cl n] by simp
  then show ?thesis
    by (cases r) (auto simp: recover_and_report_def r intro: keeps_trans keeps_ops assms)
qed

lemma merge_live_detail_keeps:
  assumes "\<And>s. valid_utf8 (we_strip env s)"
  shows "keeps env app (fst (snd (merge_live_detail env cl n i p app)))"
  by (auto simp: merge_live_detail_def Let_def intro: keeps_trans keeps_ops [OF assms] split: sum.split option.split)

lemma report_keeps:
  assumes "\<And>s. valid_utf8 (we_strip env s)" "keeps env app (fst (snd r))"
  shows "keeps env app (snd (report env prefix r))"
  using assms(2) by (auto simp: report_def intro: keeps_trans keeps_ops [OF assms(1)] split: prod.split sum.split)

lemma note_live_event_keeps:
  assumes "\<And>s. valid_utf8 (we_strip env s)"
  shows "keeps env app (fst (note_live_event env now event app))"
proof -
  have "stream_filter (fst (note_live_event env now event app)) = stream_filter app \<and>
      wa_last_live_sequence (fst (note_live_event env now event app)) = wa_last_live_sequence app"
    by (auto simp: note_live_event_def Let_def stream_filter_def set_degraded_def reset_selection_def split: option.split)
  with note_live_event_ok [OF _ assms] show ?thesis by (simp add: keeps_def)
qed

lemma note_live_event_effects: "snd (note_live_event env now event app) \<in> {[], [RefreshAgents]}"
  by (auto simp: note_live_event_def Let_def split: option.split)

text \<open>A live event, after the check of its number.\<close>

lemma apply_live_update_keeps:
  assumes "\<And>s. valid_utf8 (we_strip env s)" "apply_live_update env cl live n app = (n', app', effects)"
  shows "keeps env (snd (should_process_live_event live app)) app' \<and> effects \<in> {[], [RefreshAgents]}"
proof -
  obtain process app1 where p: "should_process_live_event live app = (process, app1)" by (metis prod.exhaust)
  obtain app2 eff where nt: "note_live_event env (oc_now (cl n)) live app1 = (app2, eff)" by (metis prod.exhaust)
  have 2: "keeps env app1 app2" using note_live_event_keeps [OF assms(1), of app1 "oc_now (cl n)" live] nt by simp
  note merged = keeps_trans [OF 2 report_keeps [OF assms(1) merge_live_detail_keeps [OF assms(1)]]]
  note recovered = keeps_trans [OF 2 recover_and_report_keeps [OF assms(1)]]
  note appended = keeps_trans [OF 2 keeps_ops(9) [OF assms(1)]]
  have "keeps env app1 app'"
    using assms(2) 2 unfolding apply_live_update_def p nt Let_def prod.case
    by (auto simp: case_prod_beta intro: merged recovered appended split: if_splits option.splits)
  moreover have "effects \<in> {[], [RefreshAgents]}"
    using assms(2) note_live_event_effects [of env "oc_now (cl n)" live app1]
    unfolding apply_live_update_def p nt Let_def prod.case by (auto simp: case_prod_beta split: if_splits)
  ultimately show ?thesis by (simp add: p)
qed

section \<open>The subscription follows the scope\<close>

definition loop_ok :: "watch_env \<Rightarrow> watch_loop \<Rightarrow> bool" where
  "loop_ok env st \<longleftrightarrow>
     app_ok env (wl_app st) \<and> sub_current (wl_subscription st) = (wl_generation st, stream_filter (wl_app st))"

text \<open>The same while effects are pending: a new subscription is asked for at most once, as the next effect, with
  the filter of the current scope.\<close>

definition pending_ok :: "watch_env \<Rightarrow> watch_effect list \<Rightarrow> watch_loop \<Rightarrow> bool" where
  "pending_ok env effects st \<longleftrightarrow>
     app_ok env (wl_app st) \<and> fst (sub_current (wl_subscription st)) = wl_generation st \<and>
     (\<forall>f. Resubscribe f \<notin> set (butlast effects)) \<and>
     (case rev effects of
        Resubscribe f # _ \<Rightarrow> f = stream_filter (wl_app st)
      | _ \<Rightarrow> snd (sub_current (wl_subscription st)) = stream_filter (wl_app st))"

lemma replace_current [simp]: "sub_current (subscription_replace g f sub) = (g, f)"
  by (simp add: subscription_replace_def Let_def)

lemma stop_previous_current [simp]: "sub_current (stop_previous sub) = sub_current sub"
  by (simp add: stop_previous_def split: option.split)

lemma mark_connected_current [simp]: "sub_current (mark_connected g sub) = sub_current sub"
  by (simp add: mark_connected_def)

lemma pending_ok_nil: "pending_ok env [] st = loop_ok env st"
  by (cases "sub_current (wl_subscription st)") (auto simp: pending_ok_def loop_ok_def)

lemma pending_ok_other:
  assumes "\<And>f. e \<noteq> Resubscribe f"
  shows "pending_ok env (effects @ [e]) st \<longleftrightarrow> loop_ok env st \<and> (\<forall>f. Resubscribe f \<notin> set effects)"
  using assms
  by (cases e; cases "sub_current (wl_subscription st)") (auto simp: pending_ok_def loop_ok_def)

lemma pending_ok_plain:
  "loop_ok env st \<Longrightarrow> (\<forall>f. Resubscribe f \<notin> set effects) \<Longrightarrow> pending_ok env effects st"
proof (cases effects rule: rev_cases)
  case (snoc es e)
  assume "loop_ok env st" "\<forall>f. Resubscribe f \<notin> set effects"
  with snoc show ?thesis by (subst snoc, subst pending_ok_other) auto
qed (simp add: pending_ok_nil)

lemma pending_ok_resubscribe:
  "pending_ok env (effects @ [Resubscribe f]) st \<longleftrightarrow>
     app_ok env (wl_app st) \<and> fst (sub_current (wl_subscription st)) = wl_generation st \<and>
     (\<forall>f. Resubscribe f \<notin> set effects) \<and> f = stream_filter (wl_app st)"
  by (auto simp: pending_ok_def)

text \<open>After a change of the agents either the filter is the same or its renewal is the next effect.\<close>

lemma set_agents_pending:
  assumes "loop_ok env st" "\<forall>f. Resubscribe f \<notin> set effects" "stream_filter app = stream_filter (fst (set_agents env agents (wl_app st)))"
    "app_ok env app"
  shows "pending_ok env (effects @ snd (set_agents env agents (wl_app st))) (st\<lparr>wl_app := app, wl_calls := n\<rparr>)"
proof (cases "snd (set_agents env agents (wl_app st)) = []")
  case True
  then have "stream_filter app = stream_filter (wl_app st)"
    using assms(3) by (auto simp: set_agents_def Let_def split: if_splits)
  with True assms show ?thesis by (auto intro!: pending_ok_plain simp: loop_ok_def)
next
  case False
  then have "snd (set_agents env agents (wl_app st)) = [Resubscribe (stream_filter app)]"
    using assms(3) by (auto simp: set_agents_def Let_def split: if_splits)
  with assms show ?thesis by (auto simp: pending_ok_resubscribe loop_ok_def)
qed

lemma refresh_agents_pending:
  assumes "\<And>s. valid_utf8 (we_strip env s)" "loop_ok env st" "\<forall>f. Resubscribe f \<notin> set effects"
    "refresh_agents env cl n (wl_app st) = (n', app, more_effects)"
  shows "pending_ok env (effects @ more_effects) (st\<lparr>wl_app := app, wl_calls := n'\<rparr>) \<and>
    wa_last_live_sequence app = wa_last_live_sequence (wl_app st)"
proof (cases "oc_current_agents (cl n)")
  case (Inl e)
  then have app: "app = set_degraded env (''failed to refresh current Agents: '' @ e) (wl_app st)" "more_effects = []"
    using assms(4) by (simp_all add: refresh_agents_def)
  with keeps_ops(1) [OF assms(1)] assms(2,3) show ?thesis
    by (auto intro!: pending_ok_plain simp: loop_ok_def keeps_def)
next
  case (Inr agents)
  let ?app1 = "fst (set_agents env agents (wl_app st))"
  have eff: "more_effects = snd (set_agents env agents (wl_app st))"
    and app: "app = set_status_active_process_count (projr (oc_status (cl (Suc n)))) ?app1 \<or>
      (\<exists>m. app = set_degraded env m ?app1)"
    using assms(4) Inr by (auto simp: refresh_agents_def case_prod_beta split: sum.splits)
  have keep: "keeps env ?app1 app" using app keeps_ops [OF assms(1)] by auto
  have ok: "app_ok env ?app1" using assms(2) by (intro set_agents_ok) (simp add: loop_ok_def)
  have "wa_last_live_sequence ?app1 = wa_last_live_sequence (wl_app st)"
    by (simp add: set_agents_def adopt_agents_def Let_def reset_selection_def)
  with keep ok assms(2,3) show ?thesis
    unfolding eff by (auto intro!: set_agents_pending simp: keeps_def)
qed

lemma cycle_agents_pending:
  assumes "loop_ok env st" "\<forall>f. Resubscribe f \<notin> set effects"
  obtains app more_effects where
    "cycle_agents_after_refresh direction (fst (set_agents env agents (wl_app st))) = Some (app, more_effects)"
    "pending_ok env (effects @ more_effects) (st\<lparr>wl_app := app, wl_calls := n\<rparr>)"
    "wa_last_live_sequence app = wa_last_live_sequence (wl_app st)"
proof -
  let ?app1 = "fst (set_agents env agents (wl_app st))"
  have ok: "app_ok env ?app1" using assms(1) by (intro set_agents_ok) (simp add: loop_ok_def)
  obtain app where app: "cycle_agents_after_refresh direction ?app1 =
      Some (app, if wa_agents ?app1 = [] then [] else [Resubscribe (stream_filter app)])" "app_ok env app"
    by (rule cycle_agents_ok [OF ok])
  have same: "wa_last_live_sequence app = wa_last_live_sequence (wl_app st)"
    using app(1) by (auto simp: cycle_agents_after_refresh_def set_agents_def adopt_agents_def Let_def reset_selection_def
        split: if_splits)
  show ?thesis
  proof (cases "wa_agents ?app1 = []")
    case True
    then have "sanitize_agents_for_terminal env agents = []"
      by (auto simp: set_agents_def adopt_agents_def Let_def reset_selection_def split: if_splits)
    then have "stream_filter ?app1 = stream_filter (wl_app st)"
      by (simp add: set_agents_def adopt_agents_def Let_def stream_filter_def reset_selection_def)
    moreover have "app = ?app1" using app(1) True by (simp add: cycle_agents_after_refresh_def)
    ultimately show ?thesis using app True assms same by (intro that [of app "[]"]) (auto intro!: pending_ok_plain simp: loop_ok_def)
  next
    case False
    with app assms same show ?thesis
      by (intro that [of app "[Resubscribe (stream_filter app)]"]) (auto simp: pending_ok_resubscribe loop_ok_def)
  qed
qed

text \<open>One round of the loop over the effects.\<close>

definition effect_round ::
    "watch_env \<Rightarrow> daemon \<Rightarrow> watch_effect list \<Rightarrow> watch_effect \<Rightarrow> watch_loop \<Rightarrow> watch_effect list \<Rightarrow> watch_loop \<Rightarrow> bool" where
  "effect_round env cl es e st more_effects st' \<longleftrightarrow>
     apply_effects env cl (es @ [e]) st = apply_effects env cl (es @ more_effects) st' \<and>
     pending_ok env (es @ more_effects) st' \<and>
     sum_list (map effect_weight more_effects) < effect_weight e \<and> Quit \<notin> set more_effects \<and>
     wa_last_live_sequence (wl_app st') = wa_last_live_sequence (wl_app st)"

lemma round_resubscribe:
  assumes "\<And>s. valid_utf8 (we_strip env s)" "pending_ok env (es @ [Resubscribe f]) st"
  shows "\<exists>st'. effect_round env cl es (Resubscribe f) st [] st'"
proof -
  let ?g = "sat_add (wl_generation st) 1"
  let ?st = "st\<lparr>wl_generation := ?g, wl_app := (wl_app st)\<lparr>wa_connection := Connecting\<rparr>,
      wl_subscription := subscription_replace ?g f (wl_subscription st)\<rparr>"
  have "pending_ok env es ?st"
    using assms(2) [unfolded pending_ok_resubscribe] keeps_ops(10) [OF assms(1), of "wl_app st"]
    by (intro pending_ok_plain) (simp_all add: loop_ok_def keeps_def)
  then show ?thesis
    by (intro exI [of _ ?st]) (simp add: effect_round_def apply_effects.simps [of env cl "es @ [Resubscribe f]"] Let_def)
qed

lemma round_refresh:
  assumes "\<And>s. valid_utf8 (we_strip env s)" "loop_ok env st" "\<forall>f. Resubscribe f \<notin> set es"
  shows "\<exists>more_effects st'. effect_round env cl es RefreshAgents st more_effects st'"
proof -
  obtain n app eff where r: "refresh_agents env cl (wl_calls st) (wl_app st) = (n, app, eff)" by (metis prod_cases3)
  show ?thesis
    using refresh_agents_pending [OF assms r] refresh_agents_effects [OF r]
    by (intro exI [of _ eff] exI [of _ "st\<lparr>wl_app := app, wl_calls := n\<rparr>"])
       (auto simp: effect_round_def apply_effects.simps [of env cl "es @ [RefreshAgents]"] r)
qed

lemma round_cycle:
  assumes "\<And>s. valid_utf8 (we_strip env s)" "loop_ok env st" "\<forall>f. Resubscribe f \<notin> set es"
  shows "\<exists>more_effects st'. effect_round env cl es (CycleAgents d) st more_effects st'"
proof (cases "oc_current_agents (cl (wl_calls st))")
  case (Inl m)
  let ?st = "st\<lparr>wl_app := set_degraded env (''failed to refresh current Agents before switching: '' @ m) (wl_app st),
      wl_calls := Suc (wl_calls st)\<rparr>"
  have "pending_ok env es ?st" "wa_last_live_sequence (wl_app ?st) = wa_last_live_sequence (wl_app st)"
    using assms(2,3) keeps_ops(1) [OF assms(1)] by (auto intro: pending_ok_plain simp: loop_ok_def keeps_def)
  then show ?thesis
    by (intro exI [of _ "[]"] exI [of _ ?st])
       (simp add: effect_round_def apply_effects.simps [of env cl "es @ [CycleAgents d]"] Inl)
next
  case (Inr agents)
  obtain app eff where c: "cycle_agents_after_refresh d (fst (set_agents env agents (wl_app st))) = Some (app, eff)"
    "pending_ok env (es @ eff) (st\<lparr>wl_app := app, wl_calls := Suc (wl_calls st)\<rparr>)"
    "wa_last_live_sequence app = wa_last_live_sequence (wl_app st)"
    by (rule cycle_agents_pending [OF assms(2,3)])
  then show ?thesis
    using cycle_agents_effects [OF c(1)]
    by (intro exI [of _ eff] exI [of _ "st\<lparr>wl_app := app, wl_calls := Suc (wl_calls st)\<rparr>"])
       (auto simp: effect_round_def apply_effects.simps [of env cl "es @ [CycleAgents d]"] Inr)
qed

lemma round_copy:
  assumes "\<And>s. valid_utf8 (we_strip env s)" "loop_ok env st" "\<forall>f. Resubscribe f \<notin> set es"
  shows "\<exists>st'. effect_round env cl es (Copy t) st [] st'"
proof -
  let ?st = "case oc_copy (cl (wl_calls st)) t of
      Inr _ \<Rightarrow> st\<lparr>wl_calls := Suc (wl_calls st)\<rparr>
    | Inl m \<Rightarrow> st\<lparr>wl_app := set_degraded env (''clipboard copy failed: '' @ m) (wl_app st), wl_calls := Suc (wl_calls st)\<rparr>"
  have st: "loop_ok env ?st" "wa_last_live_sequence (wl_app ?st) = wa_last_live_sequence (wl_app st)"
    using assms(2) keeps_ops(1) [OF assms(1)] by (auto simp: loop_ok_def keeps_def split: sum.split)
  then show ?thesis
    using pending_ok_plain [OF st(1) assms(3)]
    by (intro exI [of _ ?st]) (simp add: effect_round_def apply_effects.simps [of env cl "es @ [Copy t]"])
qed

lemma effect_round_exists:
  assumes "\<And>s. valid_utf8 (we_strip env s)" "pending_ok env (es @ [e]) st" "e \<noteq> Quit"
  shows "\<exists>more_effects st'. effect_round env cl es e st more_effects st'"
proof (cases "\<exists>f. e = Resubscribe f")
  case True
  with round_resubscribe [OF assms(1)] assms(2) show ?thesis by blast
next
  case False
  then have ok: "loop_ok env st" "\<forall>f. Resubscribe f \<notin> set es" using assms(2) by (simp_all add: pending_ok_other)
  show ?thesis
  proof (cases e)
    case RefreshAgents
    with round_refresh [OF assms(1) ok] show ?thesis by simp
  next
    case (CycleAgents d)
    with round_cycle [OF assms(1) ok] show ?thesis by simp
  next
    case (Copy t)
    with round_copy [OF assms(1) ok] show ?thesis by blast
  qed (use assms(3) False in auto)
qed

lemma apply_effects_ok:
  assumes "\<And>s. valid_utf8 (we_strip env s)" "pending_ok env effects st"
  shows "\<exists>quit st'. apply_effects env cl effects st = Some (quit, st') \<and> (\<not> quit \<longrightarrow> loop_ok env st') \<and>
    (quit \<longrightarrow> Quit \<in> set effects) \<and> wa_last_live_sequence (wl_app st') = wa_last_live_sequence (wl_app st)"
  using assms(2)
proof (induction "sum_list (map effect_weight effects)" arbitrary: effects st rule: less_induct)
  case less
  show ?case
  proof (cases effects rule: rev_cases)
    case Nil
    with less.prems show ?thesis by (auto simp: apply_effects.simps pending_ok_nil)
  next
    case (snoc es e)
    note prems = less.prems [unfolded snoc]
    show ?thesis
    proof (cases "e = Quit")
      case True
      with snoc show ?thesis by (auto simp: apply_effects.simps [of env cl "es @ [Quit]"])
    next
      case False
      with prems have "\<exists>more_effects st'. effect_round env cl es e st more_effects st'" by (rule effect_round_exists [OF assms(1)])
      then obtain eff st' where r: "effect_round env cl es e st eff st'" by blast
      then have "sum_list (map effect_weight (es @ eff)) < sum_list (map effect_weight effects)"
        "pending_ok env (es @ eff) st'" by (simp_all add: effect_round_def snoc)
      from less.hyps [OF this] r show ?thesis by (auto simp: effect_round_def snoc)
    qed
  qed
qed

lemma apply_input_effects:
  assumes "apply_input env input app = Some (app', effects)"
  shows "wa_last_live_sequence app' = wa_last_live_sequence app \<and>
    ((\<forall>f. Resubscribe f \<notin> set effects) \<and> stream_filter app' = stream_filter app \<or>
     (\<exists>es. effects = es @ [Resubscribe (stream_filter app')] \<and> (\<forall>f. Resubscribe f \<notin> set es)))"
proof (cases "wa_search_input app")
  case None
  with assms have "apply_command env input app = Some (app', effects)" by (simp add: apply_input_def)
  then show ?thesis
    by (cases input)
       (auto simp: stream_filter_def open_picker_def reset_selection_def choose_picker_def Let_def
          split: if_splits option.splits)
next
  case (Some search)
  with assms show ?thesis
    by (cases input) (auto simp: apply_input_def stream_filter_def reset_selection_def)
qed

lemma handle_key_ok:
  assumes "\<And>s. valid_utf8 (we_strip env s)" "loop_ok env st"
  shows "\<exists>quit st'. handle_key env cl key st = Some (quit, st') \<and> (\<not> quit \<longrightarrow> loop_ok env st') \<and>
    wa_last_live_sequence (wl_app st') = wa_last_live_sequence (wl_app st)"
proof (cases "map_key key (wa_search_input (wl_app st) \<noteq> None)")
  case None
  with assms(2) show ?thesis by (auto simp: handle_key_def)
next
  case (Some input)
  have "app_ok env (wl_app st)" using assms(2) by (simp add: loop_ok_def)
  then obtain app effects where a: "apply_input env input (wl_app st) = Some (app, effects)" "app_ok env app"
    using apply_input_ok by blast
  let ?st = "st\<lparr>wl_app := app\<rparr>"
  note eff = apply_input_effects [OF a(1)]
  have "pending_ok env effects ?st"
  proof (cases "\<forall>f. Resubscribe f \<notin> set effects")
    case True
    with eff have "stream_filter app = stream_filter (wl_app st)" by auto
    with True a(2) assms(2) show ?thesis by (intro pending_ok_plain) (simp_all add: loop_ok_def)
  next
    case False
    with eff a(2) assms(2) show ?thesis by (auto simp: pending_ok_resubscribe loop_ok_def)
  qed
  then obtain quit st' where "apply_effects env cl effects ?st = Some (quit, st')" "\<not> quit \<longrightarrow> loop_ok env st'"
    "wa_last_live_sequence (wl_app st') = wa_last_live_sequence app"
    using apply_effects_ok [OF assms(1), of effects ?st cl] by auto
  moreover have "handle_key env cl key st = apply_effects env cl effects ?st"
    unfolding handle_key_def Some option.case a(1) prod.case ..
  ultimately show ?thesis using eff by auto
qed

text \<open>The numbers of the control events that a network event makes the viewer process.\<close>

fun processed :: "watch_network_event \<Rightarrow> watch_loop \<Rightarrow> nat list" where
  "processed (NetLive g live) st =
     (if accepts_generation g (wl_subscription st) \<and> fst (should_process_live_event live (wl_app st)) \<and>
         le_event_type live \<noteq> ''output''
      then [le_sequence live] else [])"
| "processed _ st = []"

lemma should_process_facts:
  "app_ok env app \<Longrightarrow> app_ok env (snd (should_process_live_event live app))"
  "stream_filter (snd (should_process_live_event live app)) = stream_filter app"
  by (simp_all add: should_process_live_event_def Let_def app_ok_def core_other selection_notices stream_filter_def)

lemma should_process_sequence:
  "if fst (should_process_live_event live app) \<and> le_event_type live \<noteq> ''output''
   then wa_last_live_sequence app < le_sequence live \<and>
     wa_last_live_sequence (snd (should_process_live_event live app)) = le_sequence live
   else wa_last_live_sequence (snd (should_process_live_event live app)) = wa_last_live_sequence app"
  unfolding should_process_live_event_def Let_def
  by (cases "le_event_type live = ''output''"; cases "le_sequence live \<le> wa_last_live_sequence app";
      cases "in_scope_of (wa_scope app) live") simp_all

lemma handle_live_ok:
  assumes "\<And>s. valid_utf8 (we_strip env s)" "loop_ok env st"
  shows "\<exists>st'. handle_network_event env cl (NetLive g live) st = Some st' \<and> loop_ok env st' \<and>
    wa_last_live_sequence (wl_app st') =
      (if accepts_generation g (wl_subscription st) then wa_last_live_sequence (snd (should_process_live_event live (wl_app st)))
       else wa_last_live_sequence (wl_app st))"
proof (cases "accepts_generation g (wl_subscription st)")
  case False
  with assms(2) show ?thesis by (simp add: handle_network_event_def)
next
  case True
  obtain n app effects where u: "apply_live_update env cl live (wl_calls st) (wl_app st) = (n, app, effects)"
    by (metis prod_cases3)
  note keep = apply_live_update_keeps [OF assms(1) u]
  let ?st = "st\<lparr>wl_app := app, wl_calls := n\<rparr>"
  have "loop_ok env ?st"
    using assms(2) keep should_process_facts(1) [of env "wl_app st" live] should_process_facts(2) [of live "wl_app st"] by (auto simp: loop_ok_def keeps_def)
  then have pend: "pending_ok env effects ?st" using keep by (intro pending_ok_plain) auto
  obtain quit st' where st': "apply_effects env cl effects ?st = Some (quit, st')" "\<not> quit \<Longrightarrow> loop_ok env st'"
    "quit \<Longrightarrow> Quit \<in> set effects" "wa_last_live_sequence (wl_app st') = wa_last_live_sequence app"
    using apply_effects_ok [OF assms(1) pend, of cl] by auto
  moreover have "\<not> quit" using keep st'(3) by auto
  ultimately show ?thesis using True keep by (auto simp: handle_network_event_def u keeps_def)
qed

lemma handle_network_event_ok:
  assumes "\<And>s. valid_utf8 (we_strip env s)" "loop_ok env st"
  shows "\<exists>st'. handle_network_event env cl event st = Some st' \<and> loop_ok env st' \<and>
    (processed event st = [] \<longrightarrow> wa_last_live_sequence (wl_app st') = wa_last_live_sequence (wl_app st)) \<and>
    (\<forall>n. processed event st = [n] \<longrightarrow>
       wa_last_live_sequence (wl_app st) < n \<and> wa_last_live_sequence (wl_app st') = n)"
proof (cases event)
  case (NetLive g live)
  obtain st' where st': "handle_network_event env cl event st = Some st'" "loop_ok env st'"
    "wa_last_live_sequence (wl_app st') =
      (if accepts_generation g (wl_subscription st) then wa_last_live_sequence (snd (should_process_live_event live (wl_app st)))
       else wa_last_live_sequence (wl_app st))"
    using handle_live_ok [OF assms, of cl g live] NetLive by auto
  show ?thesis
    using should_process_sequence [of live "wl_app st"]
    by (intro exI [of _ st'] conjI st'(1,2)) (simp_all add: NetLive st'(3))
next
  case (NetDisconnected g message)
  with assms(2) keeps_ops(1) [OF assms(1)] show ?thesis
    by (auto simp: handle_network_event_def loop_ok_def keeps_def)
next
  case (NetConnected g)
  show ?thesis
  proof (cases "g = wl_generation st")
    case False
    with NetConnected assms(2) show ?thesis by (simp add: handle_network_event_def)
  next
    case True
    define rec where "rec = (if wa_connection (wl_app st) = Connecting then (wl_calls st, set_connected (wl_app st))
      else recover_and_report env cl ''live stream reconnected; state recovered from durable history''
        (wl_calls st) (set_connected (wl_app st)))"
    obtain n' app2 effects where r: "refresh_agents env cl (fst rec) (snd rec) = (n', app2, effects)" by (metis prod_cases3)
    let ?st = "st\<lparr>wl_app := snd rec, wl_subscription := mark_connected g (wl_subscription st)\<rparr>"
    have keep: "keeps env (wl_app st) (snd rec)"
      using keeps_trans [OF keeps_ops(3) [OF assms(1)] recover_and_report_keeps [OF assms(1)]] keeps_ops(3) [OF assms(1)]
      by (simp add: rec_def)
    then have "loop_ok env ?st" using assms(2) by (auto simp: loop_ok_def keeps_def)
    from refresh_agents_pending [OF assms(1) this, of "[]" cl "fst rec" n' app2 effects] r
    have pend: "pending_ok env effects (?st\<lparr>wl_app := app2, wl_calls := n'\<rparr>)"
      "wa_last_live_sequence app2 = wa_last_live_sequence (snd rec)" by simp_all
    obtain quit st' where st': "apply_effects env cl effects (?st\<lparr>wl_app := app2, wl_calls := n'\<rparr>) = Some (quit, st')"
      "\<not> quit \<Longrightarrow> loop_ok env st'" "quit \<Longrightarrow> Quit \<in> set effects"
      "wa_last_live_sequence (wl_app st') = wa_last_live_sequence app2"
      using apply_effects_ok [OF assms(1) pend(1), of cl] by auto
    have "\<not> quit" using st'(3) refresh_agents_effects [OF r] by auto
    moreover have "handle_network_event env cl event st =
        map_option snd (apply_effects env cl effects (?st\<lparr>wl_app := app2, wl_calls := n'\<rparr>))"
      using True r by (cases rec) (simp add: handle_network_event_def NetConnected Let_def rec_def [symmetric])
    ultimately show ?thesis using st' pend(2) keep by (simp add: NetConnected keeps_def)
  qed
qed

section \<open>Runs\<close>

text \<open>A run of the loop from its start, with the control events it processed.\<close>

inductive loop_run :: "watch_env \<Rightarrow> daemon \<Rightarrow> nat list \<Rightarrow> watch_loop \<Rightarrow> bool" for env cl where
  run_start: "loop_run env cl [] (loop_start (watch_app_new runtime_id expires_at agents active_process_count now options))"
| run_key: "loop_run env cl trace st \<Longrightarrow> handle_key env cl key st = Some (False, st') \<Longrightarrow> loop_run env cl trace st'"
| run_network: "loop_run env cl trace st \<Longrightarrow> handle_network_event env cl event st = Some st' \<Longrightarrow>
    loop_run env cl (trace @ processed event st) st'"

lemma loop_run_ok:
  assumes "loop_run env cl trace st" "\<And>s. valid_utf8 (we_strip env s)"
  shows "loop_ok env st \<and> sorted_wrt (<) trace \<and> (\<forall>n \<in> set trace. n \<le> wa_last_live_sequence (wl_app st))"
  using assms(1)
proof induction
  case run_start
  show ?case by (simp add: loop_ok_def loop_start_def subscription_start_def watch_app_new_ok)
next
  case (run_key trace st key st')
  then show ?case using handle_key_ok [OF assms(2), of st cl key] by auto
next
  case (run_network trace st event st')
  obtain st'' where e: "handle_network_event env cl event st = Some st''" "loop_ok env st''"
    "processed event st = [] \<longrightarrow> wa_last_live_sequence (wl_app st'') = wa_last_live_sequence (wl_app st)"
    "\<forall>n. processed event st = [n] \<longrightarrow>
       wa_last_live_sequence (wl_app st) < n \<and> wa_last_live_sequence (wl_app st'') = n"
    using handle_network_event_ok [OF assms(2), of st cl event] run_network.IH by auto
  have "processed event st = [] \<or> (\<exists>n. processed event st = [n])" by (cases event) auto
  with e run_network show ?case by (fastforce simp: sorted_wrt_append)
qed

text \<open>A run with two control events, the first of them sent twice.\<close>

definition quiet_daemon :: daemon where
  "quiet_daemon n =
     \<lparr>oc_current_agents = Inl ''down'', oc_status = Inl ''down'', oc_invocation = (\<lambda>_. Inl ''down''),
      oc_recovery = (\<lambda>_ _. Inl ''down''), oc_timeline_detail = (\<lambda>_. Inl ''down''), oc_copy = (\<lambda>_. Inr ()), oc_now = n\<rparr>"

definition example_event :: "nat \<Rightarrow> watch_network_event" where
  "example_event n = NetLive 1
     \<lparr>le_sequence = n, le_event_type = ''tick'', le_agent_id = None, le_invocation_id = None, le_presentation_id = None,
      le_payload_u64 = (\<lambda>_. None), le_payload_str = (\<lambda>_. None), le_chunk_texts = None\<rparr>"

definition example_loop :: "nat \<Rightarrow> watch_loop" where
  "example_loop n = loop_start
     ((watch_app_new ''r'' None [] 0 0 \<lparr>wo_agent = None, wo_all = True\<rparr>)\<lparr>wa_last_live_sequence := n\<rparr>)"

lemma example_loop_simps:
  "wl_app (example_loop n) = (watch_app_new ''r'' None [] 0 0 \<lparr>wo_agent = None, wo_all = True\<rparr>)\<lparr>wa_last_live_sequence := n\<rparr>"
  "wl_calls (example_loop n) = 0" "accepts_generation (Suc 0) (wl_subscription (example_loop n))"
  "(example_loop n)\<lparr>wl_app := (wl_app (example_loop n))\<lparr>wa_last_live_sequence := m\<rparr>, wl_calls := 0\<rparr> = example_loop m"
  by (simp_all add: example_loop_def loop_start_def accepts_generation_def subscription_start_def stream_filter_def)

lemma example_event_processed:
  "processed (example_event n) (example_loop m) = (if m < n then [n] else [])"
  by (simp add: example_event_def example_loop_simps should_process_live_event_def in_scope_of_def watch_app_new_def Let_def)

lemma example_event_handled:
  "handle_network_event env cl (example_event n) (example_loop m) = Some (example_loop (if m < n then n else m))"
  by (simp add: handle_network_event_def example_event_def example_loop_simps apply_live_update_def note_live_event_def
      should_process_live_event_def in_scope_of_def watch_app_new_def Let_def apply_effects.simps)
     (simp add: example_loop_def loop_start_def stream_filter_def watch_app_new_def Let_def
      accepts_generation_def subscription_start_def)

lemma example_run: "loop_run plain_env quiet_daemon [5, 7] (example_loop 7)"
proof -
  have "example_loop 0 = loop_start (watch_app_new ''r'' None [] 0 0 \<lparr>wo_agent = None, wo_all = True\<rparr>)"
    by (simp add: example_loop_def watch_app_new_def Let_def)
  then have "loop_run plain_env quiet_daemon [] (example_loop 0)" by (simp only: loop_run.run_start)
  from run_network [OF this example_event_handled [of _ _ 5]]
  have "loop_run plain_env quiet_daemon [5] (example_loop 5)" by (simp add: example_event_processed)
  from run_network [OF this example_event_handled [of _ _ 5]]
  have "loop_run plain_env quiet_daemon [5] (example_loop 5)" by (simp add: example_event_processed)
  from run_network [OF this example_event_handled [of _ _ 7]] show ?thesis by (simp add: example_event_processed)
qed

lemma plain_env_valid: "valid_utf8 (we_strip plain_env s)"
  by (simp add: plain_env_def)



text \<open>
  Every control event is processed at most once and in order: over a run of the viewer, across
  reconnections and changes of the subscription, the sequence numbers of the control events it acts on
  strictly increase.
\<close>

theorem control_events_are_processed_once:
  assumes "loop_run env cl trace st" "\<And>s. valid_utf8 (we_strip env s)"
  shows "sorted_wrt (<) trace \<and> distinct trace"
  using loop_run_ok [OF assms] strict_sorted_iff by auto

theorem control_events_are_processed_once_witness: "loop_run plain_env quiet_daemon [5, 7] (example_loop 7) \<and> distinct [5::nat, 7]"
  using control_events_are_processed_once [OF example_run plain_env_valid] example_run by blast

end
