(* ===== verification/Process_Registry.thy ===== *)
theory Process_Registry
  imports Session_Runtime Host_Paths
begin

text \<open>
  The registry of owned processes (\<^verbatim>\<open>src/local/process_registry.rs\<close>).  The registry is an observer of the
  sessions: it keeps a record for every process that was started and not yet released, and writes
  the records to a file before it adopts them, so that a later runtime can find processes a crash
  left behind.  The second half is that recovery: it signals what is left, and only what it can prove
  to be owned.

  The file system is a \<open>file_store\<close> whose successive states are returned; the outcomes of the system
  calls of one update are the record \<open>registry_io\<close>.  \<^verbatim>\<open>serde_json\<close> is the pair \<open>rg_encode\<close>, \<open>rg_decode\<close>.
\<close>

section \<open>Records and documents\<close>

definition LOCAL_PROCESS_REGISTRY_SCHEMA_VERSION :: nat where
  "LOCAL_PROCESS_REGISTRY_SCHEMA_VERSION = 1"

definition STALE_PROCESS_DISCOVERY_LIMIT :: nat where "STALE_PROCESS_DISCOVERY_LIMIT = 1024"

text \<open>In milliseconds.\<close>

definition STALE_PROCESS_TERM_GRACE :: nat where "STALE_PROCESS_TERM_GRACE = 5000"
definition STALE_PROCESS_KILL_GRACE :: nat where "STALE_PROCESS_KILL_GRACE = 1000"
definition STALE_PROCESS_POLL :: nat where "STALE_PROCESS_POLL = 50"

record local_owned_process_record =
  lp_session_id :: nat
  lp_handle :: rstr
  lp_identity :: process_identity
  lp_members :: "process_identity list"
  lp_agent_id :: "rstr option"
  lp_correlation_id :: "rstr option"

record registry_document =
  rd_schema_version :: nat
  rd_runtime_id :: rstr
  rd_processes :: "local_owned_process_record list"

definition record_from :: "owned_process \<Rightarrow> local_owned_process_record" where
  "record_from p =
     \<lparr>lp_session_id = op_session_id p, lp_handle = op_handle p, lp_identity = op_identity p, lp_members = [],
      lp_agent_id = ic_agent_id (op_created_by p), lp_correlation_id = ic_correlation_id (op_created_by p)\<rparr>"

section \<open>The file\<close>

record registry_io =
  rg_encode :: "registry_document \<Rightarrow> rstr res"
  rg_decode :: "rstr \<Rightarrow> registry_document res"
  rg_visible :: bool
  rg_read :: "rstr option"
  rg_missing :: rstr
  rg_remove :: "rstr option"
  rg_create_dir :: "rstr option"
  rg_chmod_dir :: "rstr option"
  rg_pid :: nat
  rg_nonce :: rstr
  rg_open :: "rstr option"
  rg_write :: "(nat \<times> rstr) option"
  rg_sync :: "rstr option"
  rg_rename :: "rstr option"
  rg_chmod_file :: "rstr option"
  rg_temp_stays :: bool

text \<open>\<^verbatim>\<open>Path::exists\<close> is false when the file cannot be inspected.\<close>

definition registry_exists :: "registry_io \<Rightarrow> file_store \<Rightarrow> rstr \<Rightarrow> bool" where
  "registry_exists io st path \<longleftrightarrow> rg_visible io \<and> st path \<noteq> None"

definition load_document :: "registry_io \<Rightarrow> file_store \<Rightarrow> rstr \<Rightarrow> registry_document res" where
  "load_document io st path =
     and_then (with_ctx (''failed to read Local process registry '' @ path)
         (case (rg_read io, st path) of
            (Some e, _) \<Rightarrow> Inl e
          | (None, None) \<Rightarrow> Inl (rg_missing io)
          | (None, Some entry) \<Rightarrow> Inr (fe_bytes entry)))
     (\<lambda>raw. and_then (with_ctx (''failed to parse Local process registry '' @ path) (rg_decode io raw))
     (\<lambda>document.
        if rd_schema_version document \<noteq> LOCAL_PROCESS_REGISTRY_SCHEMA_VERSION then
          Inl (''unsupported Local process registry schema version '' @ show_nat (rd_schema_version document) @
               '' at '' @ path @ ''; expected '' @ show_nat LOCAL_PROCESS_REGISTRY_SCHEMA_VERSION)
        else Inr document))"

definition active_process_record_count :: "registry_io \<Rightarrow> file_store \<Rightarrow> rstr \<Rightarrow> nat res" where
  "active_process_record_count io st path =
     (if \<not> registry_exists io st path then Inr 0
      else and_then (load_document io st path) (\<lambda>document. Inr (length (rd_processes document))))"

text \<open>An operation of the file system: an error text or success.\<close>

definition io_res :: "rstr \<Rightarrow> rstr option \<Rightarrow> unit res" where
  "io_res msg outcome = with_ctx msg (case outcome of None \<Rightarrow> Inr () | Some e \<Rightarrow> Inl e)"

text \<open>The temporary file: created, written, synced, renamed over the registry, and removed again when one
  of these steps or the final change of permissions fails (unless the removal fails as well).\<close>

definition publish_encoded :: "registry_io \<Rightarrow> rstr \<Rightarrow> rstr \<Rightarrow> rstr \<Rightarrow> file_store \<Rightarrow> unit res \<times> file_store list" where
  "publish_encoded io path temp encoded st =
     (let private = (\<lambda>bytes. \<lparr>fe_kind = RegularFile, fe_bytes = bytes, fe_mode = 384\<rparr>);
          drop_temp = (\<lambda>s. if rg_temp_stays io then s else s(temp := None));
          created = st(temp \<mapsto> private []);
          written = st(temp \<mapsto> private encoded);
          renamed = st(temp := None, path \<mapsto> private encoded)
      in case io_res (''failed to create temporary registry '' @ temp)
                (if st temp \<noteq> None then Some ''File exists (os error 17)'' else rg_open io) of
           Inl e \<Rightarrow> (Inl e, [drop_temp st])
         | Inr _ \<Rightarrow>
             (case rg_write io of
                Some (n, e) \<Rightarrow>
                  (let partial = st(temp \<mapsto> private (take n encoded)) in
                   (Inl (''failed to write temporary registry '' @ temp @ '': '' @ e), [created, partial, drop_temp partial]))
              | None \<Rightarrow>
                  (case io_res (''failed to sync temporary registry '' @ temp) (rg_sync io) of
                     Inl e \<Rightarrow> (Inl e, [created, written, drop_temp written])
                   | Inr _ \<Rightarrow>
                       (case io_res (''failed to publish Local process registry '' @ temp @ '' -> '' @ path) (rg_rename io) of
                          Inl e \<Rightarrow> (Inl e, [created, written, drop_temp written])
                        | Inr _ \<Rightarrow>
                            (io_res (''failed to set user-only permissions on '' @ path) (rg_chmod_file io),
                             [created, written, renamed])))))"

text \<open>\<open>rg_nonce\<close> is the random number in sixteen hexadecimal digits.\<close>

definition registry_temp :: "registry_io \<Rightarrow> rstr \<Rightarrow> rstr" where
  "registry_temp io parent = path_join parent (''.owned-processes.'' @ show_nat (rg_pid io) @ ''.'' @ rg_nonce io @ ''.tmp'')"

definition persist_records ::
    "registry_io \<Rightarrow> rstr \<Rightarrow> rstr \<Rightarrow> local_owned_process_record list \<Rightarrow> file_store \<Rightarrow> unit res \<times> file_store list" where
  "persist_records io path runtime_id records st =
     (if records = [] then
        (if \<not> registry_exists io st path then (Inr (), [st])
         else (case io_res (''failed to remove empty Local process registry '' @ path) (rg_remove io) of
                 Inl e \<Rightarrow> (Inl e, [st])
               | Inr _ \<Rightarrow> (Inr (), [st(path := None)])))
      else (case path_parent path of
          None \<Rightarrow> (Inl ''Local process registry path has no parent'', [st])
        | Some parent \<Rightarrow>
            (case and_then (io_res (''failed to create Local runtime directory '' @ parent) (rg_create_dir io))
                    (\<lambda>_. and_then (io_res (''failed to set user-only permissions on '' @ parent) (rg_chmod_dir io))
                    (\<lambda>_. with_ctx ''failed to encode Local process registry''
                       (rg_encode io \<lparr>rd_schema_version = LOCAL_PROCESS_REGISTRY_SCHEMA_VERSION,
                          rd_runtime_id = runtime_id, rd_processes = records\<rparr>))) of
               Inl e \<Rightarrow> (Inl e, [st])
             | Inr encoded \<Rightarrow> publish_encoded io path (registry_temp io parent) encoded st)))"

section \<open>The registry\<close>

record owned_registry =
  reg_path :: rstr
  reg_runtime_id :: rstr
  reg_records :: "local_owned_process_record list"

definition fresh_registry :: "registry_io \<Rightarrow> rstr \<Rightarrow> rstr \<Rightarrow> file_store \<Rightarrow> file_store \<times> owned_registry res" where
  "fresh_registry io path runtime_id st =
     (let registry = \<lparr>reg_path = path, reg_runtime_id = runtime_id, reg_records = []\<rparr> in
      if trim runtime_id = [] then (st, Inl ''Local owned-process registry runtime identity must not be empty'')
      else if \<not> registry_exists io st path then (st, Inr registry)
      else (case load_document io st path of
          Inl e \<Rightarrow> (st, Inl e)
        | Inr existing \<Rightarrow>
            if rd_processes existing \<noteq> [] then
              (st, Inl (''Local owned-process registry at '' @ path @ '' still contains '' @
                 show_nat (length (rd_processes existing)) @
                 '' process record(s); stale recovery must resolve it before a fresh runtime starts''))
            else (case io_res (''failed to remove empty stale registry '' @ path) (rg_remove io) of
                Inl e \<Rightarrow> (st, Inl e)
              | Inr _ \<Rightarrow> (st(path := None), Inr registry))))"

definition update_registry ::
    "registry_io \<Rightarrow> (local_owned_process_record list \<Rightarrow> local_owned_process_record list)
      \<Rightarrow> owned_registry \<Rightarrow> file_store \<Rightarrow> owned_registry \<times> unit res \<times> file_store list" where
  "update_registry io mutate reg st =
     (let changed = mutate (reg_records reg) in
      case persist_records io (reg_path reg) (reg_runtime_id reg) changed st of
        (Inl e, states) \<Rightarrow> (reg, Inl e, states)
      | (Inr _, states) \<Rightarrow> (reg\<lparr>reg_records := changed\<rparr>, Inr (), states))"

definition add_record :: "local_owned_process_record \<Rightarrow> local_owned_process_record list \<Rightarrow> local_owned_process_record list" where
  "add_record r records = filter (\<lambda>old. lp_session_id old \<noteq> lp_session_id r) records @ [r]"

fun set_members ::
    "nat \<Rightarrow> process_identity list \<Rightarrow> local_owned_process_record list \<Rightarrow> local_owned_process_record list" where
  "set_members sid members [] = []"
| "set_members sid members (r # records) =
     (if lp_session_id r = sid then r\<lparr>lp_members := members\<rparr> # records else r # set_members sid members records)"

definition remove_record :: "nat \<Rightarrow> local_owned_process_record list \<Rightarrow> local_owned_process_record list" where
  "remove_record sid records = filter (\<lambda>r. lp_session_id r \<noteq> sid) records"

definition process_started ::
    "registry_io \<Rightarrow> owned_process \<Rightarrow> owned_registry \<Rightarrow> file_store \<Rightarrow> owned_registry \<times> unit res \<times> file_store list" where
  "process_started io p = update_registry io (add_record (record_from p))"

definition process_group_members_updated ::
    "registry_io \<Rightarrow> owned_process \<Rightarrow> process_identity list \<Rightarrow> owned_registry \<Rightarrow> file_store
      \<Rightarrow> owned_registry \<times> unit res \<times> file_store list" where
  "process_group_members_updated io p members = update_registry io (set_members (op_session_id p) members)"

definition process_ended ::
    "registry_io \<Rightarrow> owned_process \<Rightarrow> owned_process_end \<Rightarrow> owned_registry \<Rightarrow> file_store
      \<Rightarrow> owned_registry \<times> unit res \<times> file_store list" where
  "process_ended io p ending = update_registry io (remove_record (op_session_id p))"

section \<open>Stale processes\<close>

text \<open>
  The recovery looks at a process table that changes while it runs: \<open>w t\<close> is the host at the moment of
  its \<open>t\<close>-th access.  An action takes the moment it starts at and returns the moment after it, the
  signals it sent with their moments, and its result; \<open>None\<close> stands for a loop that has run out of
  rounds.
\<close>

record host_view =
  hv_insp :: inspector
  hv_kernel :: kernel
  hv_now :: nat

type_synonym host = "nat \<Rightarrow> host_view"
type_synonym signal_trace = "(nat \<times> signal_effect) list"
type_synonym 'a action = "nat \<Rightarrow> (nat \<times> signal_trace \<times> 'a res) option"

definition act_return :: "'a \<Rightarrow> 'a action" where
  "act_return x t = Some (t, [], Inr x)"

definition act_bind :: "'a action \<Rightarrow> ('a \<Rightarrow> 'b action) \<Rightarrow> 'b action" where
  "act_bind m f t =
     (case m t of
        None \<Rightarrow> None
      | Some (t1, tr, Inl e) \<Rightarrow> Some (t1, tr, Inl e)
      | Some (t1, tr, Inr x) \<Rightarrow> map_option (\<lambda>(t2, tr', r). (t2, tr @ tr', r)) (f x t1))"

definition ask :: "host \<Rightarrow> (inspector \<Rightarrow> 'a res) \<Rightarrow> 'a action" where
  "ask w q t = Some (Suc t, [], q (hv_insp (w t)))"

definition ask_now :: "host \<Rightarrow> nat action" where
  "ask_now w t = Some (Suc t, [], Inr (hv_now (w t)))"

definition send_signal :: "host \<Rightarrow> (host_view \<Rightarrow> signal_effect list \<times> 'a res) \<Rightarrow> 'a action" where
  "send_signal w act t = (case act (w t) of (effs, r) \<Rightarrow> Some (Suc t, map (Pair t) effs, r))"

definition signal_group :: "host \<Rightarrow> int \<Rightarrow> process_signal \<Rightarrow> unit action" where
  "signal_group w p sig = send_signal w (\<lambda>v. signal_process_group (hv_kernel v) p sig)"

definition signal_matching :: "host \<Rightarrow> process_identity \<Rightarrow> process_signal \<Rightarrow> bool action" where
  "signal_matching w i sig = send_signal w (\<lambda>v. signal_process_if_matching (hv_kernel v) (hv_insp v) i sig)"

fun act_fold :: "('a \<Rightarrow> 's \<Rightarrow> 's action) \<Rightarrow> 'a list \<Rightarrow> 's \<Rightarrow> 's action" where
  "act_fold f [] s = act_return s"
| "act_fold f (x # xs) s = act_bind (f x s) (act_fold f xs)"

record stale_report =
  sr_signaled :: nat
  sr_force_killed :: nat
  sr_descendants_signaled :: nat
  sr_descendants_force_killed :: nat
  sr_already_gone :: nat
  sr_identity_mismatch :: nat
  sr_unresolved_leaderless_groups :: nat
  sr_survivors :: nat

definition empty_report :: stale_report where
  "empty_report =
     \<lparr>sr_signaled = 0, sr_force_killed = 0, sr_descendants_signaled = 0, sr_descendants_force_killed = 0,
      sr_already_gone = 0, sr_identity_mismatch = 0, sr_unresolved_leaderless_groups = 0, sr_survivors = 0\<rparr>"

text \<open>The local variables of \<^verbatim>\<open>terminate_matching_stale_processes_with_timing\<close>.\<close>

record stale_scan =
  ss_report :: stale_report
  ss_leaders :: "process_identity list"
  ss_discovered :: "process_identity list"

definition discover :: "process_identity \<Rightarrow> process_identity list \<Rightarrow> stale_scan \<Rightarrow> stale_scan" where
  "discover leader identities s =
     s\<lparr>ss_discovered := fold (\<lambda>i found. if i \<noteq> leader \<and> i \<notin> set found then found @ [i] else found)
        identities (ss_discovered s)\<rparr>"

definition claim_leader :: "host \<Rightarrow> process_identity \<Rightarrow> stale_scan \<Rightarrow> stale_scan action" where
  "claim_leader w leader s =
     act_bind (ask w (\<lambda>insp. identity_matches insp leader)) (\<lambda>matches.
       if \<not> matches then
         act_return (s\<lparr>ss_report := (ss_report s)\<lparr>sr_identity_mismatch := Suc (sr_identity_mismatch (ss_report s))\<rparr>\<rparr>)
       else act_bind (signal_group w (pid leader) Terminate) (\<lambda>_.
         act_return (s\<lparr>ss_leaders := ss_leaders s @ [leader],
           ss_report := (ss_report s)\<lparr>sr_signaled := Suc (sr_signaled (ss_report s))\<rparr>\<rparr>)))"

definition scan_leader :: "host \<Rightarrow> process_identity \<Rightarrow> stale_scan \<Rightarrow> stale_scan action" where
  "scan_leader w leader s =
     act_bind (ask w (\<lambda>insp. insp_group_members insp (pid leader) STALE_PROCESS_DISCOVERY_LIMIT)) (\<lambda>members.
     act_bind (ask w (\<lambda>insp. insp_descendants insp (pid leader) STALE_PROCESS_DISCOVERY_LIMIT)) (\<lambda>descendants.
       claim_leader w leader (discover leader (members @ descendants) s)))"

definition scan_leaderless :: "host \<Rightarrow> local_owned_process_record \<Rightarrow> stale_scan \<Rightarrow> stale_scan action" where
  "scan_leaderless w process s =
     act_bind (ask w (\<lambda>insp. insp_group_members insp (pid (lp_identity process)) STALE_PROCESS_DISCOVERY_LIMIT)) (\<lambda>members.
       if members = [] then
         act_return (s\<lparr>ss_report := (ss_report s)\<lparr>sr_already_gone := Suc (sr_already_gone (ss_report s))\<rparr>\<rparr>)
       else if \<exists>m \<in> set members. m \<in> set (lp_members process) then
         act_return (discover (lp_identity process) members s)
       else
         act_return (s\<lparr>ss_report := (ss_report s)\<lparr>sr_unresolved_leaderless_groups :=
           Suc (sr_unresolved_leaderless_groups (ss_report s))\<rparr>\<rparr>))"

definition scan_process :: "host \<Rightarrow> local_owned_process_record \<Rightarrow> stale_scan \<Rightarrow> stale_scan action" where
  "scan_process w process s0 =
     (let s = discover (lp_identity process) (lp_members process) s0 in
      act_bind (ask w (\<lambda>insp. insp_identity insp (pid (lp_identity process)))) (\<lambda>current.
        case current of
          None \<Rightarrow> scan_leaderless w process s
        | Some i \<Rightarrow>
            if i = lp_identity process then scan_leader w (lp_identity process) s
            else act_return (s\<lparr>ss_report := (ss_report s)\<lparr>sr_identity_mismatch :=
              Suc (sr_identity_mismatch (ss_report s))\<rparr>\<rparr>)))"

text \<open>\<^verbatim>\<open>try_fold\<close> with \<^verbatim>\<open>alive || identity_matches\<close>: nothing is asked once a live process was found.\<close>

definition any_alive :: "host \<Rightarrow> process_identity list \<Rightarrow> bool action" where
  "any_alive w identities =
     act_fold (\<lambda>i alive. if alive then act_return True else ask w (\<lambda>insp. identity_matches insp i)) identities False"

fun stale_wait_loop :: "nat \<Rightarrow> host \<Rightarrow> process_identity list \<Rightarrow> nat \<Rightarrow> unit action" where
  "stale_wait_loop 0 w identities deadline = (\<lambda>t. None)"
| "stale_wait_loop (Suc rounds) w identities deadline =
     act_bind (ask_now w) (\<lambda>now.
       if deadline \<le> now then act_return ()
       else act_bind (any_alive w identities) (\<lambda>alive.
         if \<not> alive then act_return ()
         else act_bind (ask_now w) (\<lambda>_. stale_wait_loop rounds w identities deadline)))"

definition wait_for_stale_processes :: "nat \<Rightarrow> host \<Rightarrow> process_identity list \<Rightarrow> process_identity list \<Rightarrow> nat \<Rightarrow> unit action" where
  "wait_for_stale_processes rounds w leaders descendants grace =
     act_bind (ask_now w) (\<lambda>now. stale_wait_loop rounds w (leaders @ descendants) (now + grace))"

definition signal_descendant ::
    "host \<Rightarrow> process_signal \<Rightarrow> process_identity \<Rightarrow> nat \<Rightarrow> nat action" where
  "signal_descendant w sig i sent =
     act_bind (signal_matching w i sig) (\<lambda>was_sent. act_return (if was_sent then Suc sent else sent))"

definition force_kill_leader :: "host \<Rightarrow> process_identity \<Rightarrow> nat \<Rightarrow> nat action" where
  "force_kill_leader w leader sent =
     act_bind (ask w (\<lambda>insp. identity_matches insp leader)) (\<lambda>matches.
       if matches then act_bind (signal_group w (pid leader) Kill) (\<lambda>_. act_return (Suc sent))
       else act_return sent)"

definition tally_survivor :: "host \<Rightarrow> process_identity \<Rightarrow> nat \<Rightarrow> nat action" where
  "tally_survivor w i n =
     act_bind (ask w (\<lambda>insp. identity_matches insp i)) (\<lambda>matches. act_return (if matches then Suc n else n))"

definition end_stale_processes :: "nat \<Rightarrow> host \<Rightarrow> nat \<Rightarrow> nat \<Rightarrow> stale_scan \<Rightarrow> stale_report action" where
  "end_stale_processes rounds w term_grace kill_grace s =
     (let leaders = ss_leaders s; discovered = filter (\<lambda>i. i \<notin> set leaders) (ss_discovered s) in
      act_bind (act_fold (signal_descendant w Terminate) discovered 0) (\<lambda>terminated.
      act_bind (wait_for_stale_processes rounds w leaders discovered term_grace) (\<lambda>_.
      act_bind (act_fold (force_kill_leader w) leaders 0) (\<lambda>killed.
      act_bind (act_fold (signal_descendant w Kill) discovered 0) (\<lambda>descendants_killed.
      act_bind (wait_for_stale_processes rounds w leaders discovered kill_grace) (\<lambda>_.
      act_bind (act_fold (tally_survivor w) (leaders @ discovered) 0) (\<lambda>survivors.
        act_return ((ss_report s)\<lparr>sr_descendants_signaled := terminated, sr_force_killed := killed,
          sr_descendants_force_killed := descendants_killed, sr_survivors := survivors\<rparr>))))))))"

definition stale_cleanup ::
    "nat \<Rightarrow> host \<Rightarrow> nat \<Rightarrow> nat \<Rightarrow> local_owned_process_record list \<Rightarrow> stale_report action" where
  "stale_cleanup rounds w term_grace kill_grace processes =
     act_bind (act_fold (scan_process w) processes \<lparr>ss_report = empty_report, ss_leaders = [], ss_discovered = []\<rparr>)
       (end_stale_processes rounds w term_grace kill_grace)"

definition terminate_matching_stale_processes_with_timing ::
    "nat \<Rightarrow> registry_io \<Rightarrow> file_store \<Rightarrow> rstr \<Rightarrow> rstr option \<Rightarrow> host \<Rightarrow> nat \<Rightarrow> nat \<Rightarrow> stale_report action" where
  "terminate_matching_stale_processes_with_timing rounds io st path expected w term_grace kill_grace =
     (if \<not> registry_exists io st path then act_return empty_report
      else case load_document io st path of
          Inl e \<Rightarrow> (\<lambda>t. Some (t, [], Inl e))
        | Inr document \<Rightarrow>
            (case expected of
               Some runtime_id \<Rightarrow>
                 if rd_runtime_id document \<noteq> [] \<and> rd_runtime_id document \<noteq> runtime_id then
                   (\<lambda>t. Some (t, [], Inl (''Local owned-process registry belongs to runtime '' @ rd_runtime_id document @
                      '' but lifecycle state expects '' @ runtime_id @ ''; refusing cross-runtime stale cleanup'')))
                 else stale_cleanup rounds w term_grace kill_grace (rd_processes document)
             | None \<Rightarrow> stale_cleanup rounds w term_grace kill_grace (rd_processes document)))"

definition terminate_matching_stale_processes ::
    "nat \<Rightarrow> registry_io \<Rightarrow> file_store \<Rightarrow> rstr \<Rightarrow> rstr option \<Rightarrow> host \<Rightarrow> stale_report action" where
  "terminate_matching_stale_processes rounds io st path expected w =
     terminate_matching_stale_processes_with_timing rounds io st path expected w
       STALE_PROCESS_TERM_GRACE STALE_PROCESS_KILL_GRACE"

section \<open>What is on disk\<close>

text \<open>The observer methods as one operation on the events of a session.\<close>

fun observe_event ::
    "registry_io \<Rightarrow> session_event \<Rightarrow> owned_registry \<Rightarrow> file_store \<Rightarrow> owned_registry \<times> unit res \<times> file_store list" where
  "observe_event io (ProcessStarted p) reg st = process_started io p reg st"
| "observe_event io (MembersUpdated p members) reg st = process_group_members_updated io p members reg st"
| "observe_event io (ProcessEnded p ending) reg st = process_ended io p ending reg st"
| "observe_event io _ reg st = (reg, Inr (), [st])"

text \<open>The processes that were started and have not ended: \<open>carried\<close> are those an event does not concern,
  \<open>note_live\<close> is the set after the event.  A start that could not be recorded is not admitted.\<close>

type_synonym live_processes = "nat \<Rightarrow> process_identity option"

fun carried :: "session_event \<Rightarrow> live_processes \<Rightarrow> live_processes" where
  "carried (ProcessStarted p) live = live(op_session_id p := None)"
| "carried (ProcessEnded p _) live = live(op_session_id p := None)"
| "carried _ live = live"

fun note_live :: "session_event \<Rightarrow> unit res \<Rightarrow> live_processes \<Rightarrow> live_processes" where
  "note_live (ProcessStarted p) (Inr _) live = live(op_session_id p \<mapsto> op_identity p)"
| "note_live ev _ live = carried ev live"

definition recorded_in :: "local_owned_process_record list \<Rightarrow> live_processes \<Rightarrow> bool" where
  "recorded_in records live \<longleftrightarrow>
     (\<forall>sid i. live sid = Some i \<longrightarrow> (\<exists>r \<in> set records. lp_session_id r = sid \<and> lp_identity r = i))"

definition on_disk :: "(rstr \<Rightarrow> registry_document res) \<Rightarrow> rstr \<Rightarrow> live_processes \<Rightarrow> file_store \<Rightarrow> bool" where
  "on_disk dec path live st \<longleftrightarrow>
     live = Map.empty \<or>
     (\<exists>entry document. st path = Some entry \<and> dec (fe_bytes entry) = Inr document \<and>
        rd_schema_version document = LOCAL_PROCESS_REGISTRY_SCHEMA_VERSION \<and> recorded_in (rd_processes document) live)"

definition codec_ok :: "(rstr \<Rightarrow> registry_document res) \<Rightarrow> registry_io \<Rightarrow> bool" where
  "codec_ok dec io \<longleftrightarrow> rg_decode io = dec \<and> (\<forall>document bytes. rg_encode io document = Inr bytes \<longrightarrow> dec bytes = Inr document)"

definition temp_apart :: "registry_io \<Rightarrow> rstr \<Rightarrow> bool" where
  "temp_apart io path \<longleftrightarrow> (\<forall>parent. path_parent path = Some parent \<longrightarrow> registry_temp io parent \<noteq> path)"

lemma record_from_sel [simp]:
  "lp_session_id (record_from p) = op_session_id p" "lp_identity (record_from p) = op_identity p"
  by (simp_all add: record_from_def)

lemma recorded_in_carried:
  assumes "recorded_in records live"
  shows "recorded_in (add_record (record_from p) records) (live(op_session_id p := None))"
    and "recorded_in (remove_record (op_session_id p) records) (live(op_session_id p := None))"
    and "recorded_in records (live(op_session_id p := None))"
  using assms by (auto simp: recorded_in_def add_record_def remove_record_def split: if_splits)

lemma recorded_in_started:
  assumes "recorded_in records live"
  shows "recorded_in (add_record (record_from p) records) (live(op_session_id p \<mapsto> op_identity p))"
  using assms by (fastforce simp: recorded_in_def add_record_def record_from_def)

lemma set_members_ids:
  "map (\<lambda>r. (lp_session_id r, lp_identity r)) (set_members sid members records) =
   map (\<lambda>r. (lp_session_id r, lp_identity r)) records"
  by (induction sid members records rule: set_members.induct) auto

lemma recorded_in_ids:
  "recorded_in records live \<longleftrightarrow>
     (\<forall>sid i. live sid = Some i \<longrightarrow> (sid, i) \<in> set (map (\<lambda>r. (lp_session_id r, lp_identity r)) records))"
  by (auto simp: recorded_in_def)

lemma recorded_in_members:
  "recorded_in (set_members sid members records) live \<longleftrightarrow> recorded_in records live"
  by (simp only: recorded_in_ids set_members_ids)

lemma recorded_in_Nil: "recorded_in [] live \<longleftrightarrow> live = Map.empty"
  by (auto simp: recorded_in_def)

lemma io_res_Inr: "io_res msg outcome = Inr x \<longleftrightarrow> outcome = None"
  by (auto simp: io_res_def split: option.splits)

text \<open>The registry file while \<open>records\<close> are persisted.\<close>

definition new_contents :: "registry_io \<Rightarrow> rstr \<Rightarrow> local_owned_process_record list \<Rightarrow> file_entry option \<Rightarrow> bool" where
  "new_contents io runtime_id records contents \<longleftrightarrow>
     (case contents of
        None \<Rightarrow> records = []
      | Some entry \<Rightarrow> records \<noteq> [] \<and>
          rg_encode io \<lparr>rd_schema_version = LOCAL_PROCESS_REGISTRY_SCHEMA_VERSION, rd_runtime_id = runtime_id,
            rd_processes = records\<rparr> = Inr (fe_bytes entry))"

lemma publish_states:
  assumes "publish_encoded io path temp encoded st = (r, states)" "temp \<noteq> path"
  shows "states \<noteq> []"
    and "s \<in> set states \<Longrightarrow> s path = st path \<or> (\<exists>mode kind. s path = Some \<lparr>fe_kind = kind, fe_bytes = encoded, fe_mode = mode\<rparr>)"
    and "r = Inr () \<Longrightarrow> \<exists>mode kind. last states path = Some \<lparr>fe_kind = kind, fe_bytes = encoded, fe_mode = mode\<rparr>"
  using assms
  by (auto simp: publish_encoded_def Let_def io_res_Inr split: sum.splits option.splits if_splits)

lemma persist_states:
  assumes "persist_records io path runtime_id records st = (r, states)" "temp_apart io path"
  shows "states \<noteq> []"
    and "s \<in> set states \<Longrightarrow> s path = st path \<or> new_contents io runtime_id records (s path)"
    and "r = Inr () \<Longrightarrow> records \<noteq> [] \<Longrightarrow> new_contents io runtime_id records (last states path)"
proof -
  consider (empty) "records = []"
    | (failed) e where "records \<noteq> []" "r = Inl e" "states = [st]"
    | (published) parent encoded where "records \<noteq> []" "path_parent path = Some parent"
        "rg_encode io \<lparr>rd_schema_version = LOCAL_PROCESS_REGISTRY_SCHEMA_VERSION, rd_runtime_id = runtime_id,
          rd_processes = records\<rparr> = Inr encoded"
        "publish_encoded io path (registry_temp io parent) encoded st = (r, states)"
    using assms(1)
    by (auto simp: persist_records_def and_then_Inr with_ctx_Inr split: if_splits option.splits sum.splits)
  note cases = this
  show "states \<noteq> []" and "s \<in> set states \<Longrightarrow> s path = st path \<or> new_contents io runtime_id records (s path)"
    and "r = Inr () \<Longrightarrow> records \<noteq> [] \<Longrightarrow> new_contents io runtime_id records (last states path)"
  proof (atomize (full), cases rule: cases)
    case empty
    then show "states \<noteq> [] \<and> (s \<in> set states \<longrightarrow> s path = st path \<or> new_contents io runtime_id records (s path)) \<and>
        (r = Inr () \<longrightarrow> records \<noteq> [] \<longrightarrow> new_contents io runtime_id records (last states path))"
      using assms(1) by (auto simp: persist_records_def new_contents_def split: if_splits sum.splits)
  next
    case failed
    then show "states \<noteq> [] \<and> (s \<in> set states \<longrightarrow> s path = st path \<or> new_contents io runtime_id records (s path)) \<and>
        (r = Inr () \<longrightarrow> records \<noteq> [] \<longrightarrow> new_contents io runtime_id records (last states path))" by simp
  next
    case published
    have apart: "registry_temp io parent \<noteq> path" using assms(2) published(2) by (simp add: temp_apart_def)
    note facts = publish_states [OF published(4) apart]
    show "states \<noteq> [] \<and> (s \<in> set states \<longrightarrow> s path = st path \<or> new_contents io runtime_id records (s path)) \<and>
        (r = Inr () \<longrightarrow> records \<noteq> [] \<longrightarrow> new_contents io runtime_id records (last states path))"
      using facts(1) facts(2) [of s] facts(3) published(1,3) by (auto simp: new_contents_def)
  qed
qed

lemma new_contents_on_disk:
  assumes "codec_ok dec io" "new_contents io runtime_id records (s path)" "recorded_in records live"
  shows "on_disk dec path live s"
  using assms by (auto simp: codec_ok_def new_contents_def on_disk_def recorded_in_Nil split: option.splits)

definition registry_ok :: "(rstr \<Rightarrow> registry_document res) \<Rightarrow> owned_registry \<Rightarrow> file_store \<Rightarrow> live_processes \<Rightarrow> bool" where
  "registry_ok dec reg st live \<longleftrightarrow> recorded_in (reg_records reg) live \<and> on_disk dec (reg_path reg) live st"

lemma on_disk_same: "on_disk dec path live st \<Longrightarrow> s path = st path \<Longrightarrow> on_disk dec path live s"
  by (simp add: on_disk_def)

lemma on_disk_fewer: "on_disk dec path live st \<Longrightarrow> on_disk dec path (live(sid := None)) st"
  by (fastforce simp: on_disk_def recorded_in_def)

lemma carried_on_disk: "on_disk dec path live st \<Longrightarrow> on_disk dec path (carried ev live) st"
  by (cases ev) (auto intro: on_disk_fewer)

text \<open>One update: what an event does not concern stays recorded in every state of the file.\<close>

lemma update_keeps:
  assumes "update_registry io mutate reg st = (reg', r, states)" "codec_ok dec io" "temp_apart io (reg_path reg)"
    and "on_disk dec (reg_path reg) live st" "recorded_in (mutate (reg_records reg)) live"
  shows "states \<noteq> []" "s \<in> set states \<Longrightarrow> on_disk dec (reg_path reg) live s"
    and "reg_path reg' = reg_path reg"
    and "reg_records reg' = (case r of Inl _ \<Rightarrow> reg_records reg | Inr _ \<Rightarrow> mutate (reg_records reg))"
proof -
  have p: "persist_records io (reg_path reg) (reg_runtime_id reg) (mutate (reg_records reg)) st = (r, states)"
    using assms(1) by (auto simp: update_registry_def Let_def split: prod.splits sum.splits)
  show "states \<noteq> []" using persist_states(1) [OF p assms(3)] .
  show "on_disk dec (reg_path reg) live s" if "s \<in> set states"
    using persist_states(2) [OF p assms(3) that] assms(2,4,5) on_disk_same new_contents_on_disk by metis
  show "reg_path reg' = reg_path reg"
    "reg_records reg' = (case r of Inl _ \<Rightarrow> reg_records reg | Inr _ \<Rightarrow> mutate (reg_records reg))"
    using assms(1) by (auto simp: update_registry_def Let_def split: prod.splits sum.splits)
qed

lemma update_adopts:
  assumes "update_registry io mutate reg st = (reg', Inr (), states)" "codec_ok dec io" "temp_apart io (reg_path reg)"
    and "mutate (reg_records reg) \<noteq> []" "recorded_in (mutate (reg_records reg)) live"
  shows "on_disk dec (reg_path reg) live (last states)"
proof -
  have p: "persist_records io (reg_path reg) (reg_runtime_id reg) (mutate (reg_records reg)) st = (Inr (), states)"
    using assms(1) by (auto simp: update_registry_def Let_def split: prod.splits sum.splits)
  show ?thesis
    using persist_states(3) [OF p assms(3) refl assms(4)] assms(2,5) new_contents_on_disk by metis
qed

lemma add_record_nonempty: "add_record r records \<noteq> []"
  by (simp add: add_record_def)

lemma observe_keeps:
  assumes "observe_event io ev reg st = (reg', r, states)" "codec_ok dec io" "temp_apart io (reg_path reg)"
    and "registry_ok dec reg st live"
  shows "reg_path reg' = reg_path reg" "states \<noteq> []"
    and "s \<in> set states \<Longrightarrow> on_disk dec (reg_path reg) (carried ev live) s"
    and "registry_ok dec reg' (last states) (note_live ev r live)"
proof -
  have disk: "on_disk dec (reg_path reg) (carried ev live) st"
    and mem: "recorded_in (reg_records reg) live"
    using assms(4) by (auto simp: registry_ok_def carried_on_disk)
  have quiet: "reg_path reg' = reg_path reg \<and> states \<noteq> [] \<and> (s \<in> set states \<longrightarrow> on_disk dec (reg_path reg) (carried ev live) s) \<and>
      registry_ok dec reg' (last states) (note_live ev r live)"
    if "observe_event io ev reg st = (reg, Inr (), [st])" "carried ev live = live" "note_live ev r live = live"
    using that assms(1,4) by (auto simp: registry_ok_def)
  have updated: "reg_path reg' = reg_path reg \<and> states \<noteq> [] \<and>
      (s \<in> set states \<longrightarrow> on_disk dec (reg_path reg) (carried ev live) s) \<and>
      registry_ok dec reg' (last states) (note_live ev r live)"
    if u: "update_registry io mutate reg st = (reg', r, states)"
      and carried: "recorded_in (mutate (reg_records reg)) (carried ev live)"
      and old: "recorded_in (reg_records reg) (carried ev live)"
      and adopted: "r = Inr () \<Longrightarrow> note_live ev r live = carried ev live \<or>
        mutate (reg_records reg) \<noteq> [] \<and> recorded_in (mutate (reg_records reg)) (note_live ev r live)"
    for mutate
  proof -
    note keeps = update_keeps [OF u assms(2,3) disk carried]
    have last: "on_disk dec (reg_path reg) (carried ev live) (last states)" using keeps(1,2) by simp
    have "registry_ok dec reg' (last states) (note_live ev r live)"
    proof (cases "r = Inr () \<and> note_live ev r live \<noteq> carried ev live")
      case True
      then have r: "r = Inr ()" and new: "mutate (reg_records reg) \<noteq> []" "recorded_in (mutate (reg_records reg)) (note_live ev r live)"
        using adopted by auto
      have "on_disk dec (reg_path reg) (note_live ev r live) (last states)"
        by (rule update_adopts [OF u [unfolded r] assms(2,3) new(1) new(2)])
      with keeps(3,4) new(2) r show ?thesis by (simp add: registry_ok_def)
    next
      case False
      then have "note_live ev r live = carried ev live" by (cases r; cases ev) auto
      with keeps(3,4) last old carried show ?thesis by (simp add: registry_ok_def split: sum.splits)
    qed
    with keeps show ?thesis by blast
  qed
  have "reg_path reg' = reg_path reg \<and> states \<noteq> [] \<and> (s \<in> set states \<longrightarrow> on_disk dec (reg_path reg) (carried ev live) s) \<and>
      registry_ok dec reg' (last states) (note_live ev r live)"
  proof (cases ev)
    case (ProcessStarted p)
    show ?thesis
      by (rule updated [of "add_record (record_from p)"])
        (use ProcessStarted assms(1) mem in \<open>auto simp: process_started_def recorded_in_carried recorded_in_started add_record_nonempty\<close>)
  next
    case (MembersUpdated p members)
    show ?thesis
      by (rule updated [of "set_members (op_session_id p) members"])
        (use MembersUpdated assms(1) mem in \<open>auto simp: process_group_members_updated_def recorded_in_members\<close>)
  next
    case (ProcessEnded p ending)
    show ?thesis
      by (rule updated [of "remove_record (op_session_id p)"])
        (use ProcessEnded assms(1) mem in \<open>auto simp: process_ended_def recorded_in_carried\<close>)
  qed (rule quiet; use assms(1) in simp)+
  then show "reg_path reg' = reg_path reg" "states \<noteq> []" "s \<in> set states \<Longrightarrow> on_disk dec (reg_path reg) (carried ev live) s"
    "registry_ok dec reg' (last states) (note_live ev r live)" by auto
qed

text \<open>A runtime: a fresh registry, then the events of its sessions with any outcome of the system calls.\<close>

inductive registry_run ::
    "(rstr \<Rightarrow> registry_document res) \<Rightarrow> rstr \<Rightarrow> owned_registry \<Rightarrow> file_store \<Rightarrow> live_processes \<Rightarrow> bool" for dec path where
  fresh: "fresh_registry io path runtime_id st = (st', Inr reg) \<Longrightarrow> registry_run dec path reg st' Map.empty"
| event: "registry_run dec path reg st live \<Longrightarrow> codec_ok dec io \<Longrightarrow> temp_apart io path \<Longrightarrow>
    observe_event io ev reg st = (reg', r, states) \<Longrightarrow>
    registry_run dec path reg' (last states) (note_live ev r live)"

lemma registry_run_ok:
  "registry_run dec path reg st live \<Longrightarrow> reg_path reg = path \<and> registry_ok dec reg st live"
proof (induction rule: registry_run.induct)
  case (fresh io runtime_id st st' reg)
  then have "reg = \<lparr>reg_path = path, reg_runtime_id = runtime_id, reg_records = []\<rparr>"
    by (auto simp: fresh_registry_def Let_def split: if_splits sum.splits)
  then show ?case by (simp add: registry_ok_def on_disk_def recorded_in_def)
next
  case (event reg st live io ev reg' r states)
  then show ?case using observe_keeps(1,4) [of io ev reg st reg' r states dec live] by simp
qed

text \<open>
  C10: Whatever fails, a process that was started and has not ended is on disk.  In every state the
  registry file passes through while an event is recorded, every process the event does not concern
  can be read back with its birth identity, and after a start that was acknowledged the new process
  can be read back as well.
\<close>

theorem started_processes_stay_on_disk:
  assumes "registry_run dec path reg st live" "codec_ok dec io" "temp_apart io path"
    and "observe_event io ev reg st = (reg', r, states)"
  shows "(\<forall>s \<in> set (st # states). on_disk dec path (carried ev live) s) \<and>
    on_disk dec path (note_live ev r live) (last states)"
proof -
  have ok: "reg_path reg = path" "registry_ok dec reg st live" using registry_run_ok [OF assms(1)] by auto
  then have st: "on_disk dec path (carried ev live) st" by (auto simp: registry_ok_def carried_on_disk)
  note keeps = observe_keeps [OF assms(4,2) _ ok(2), unfolded ok(1), OF assms(3)]
  from keeps(4) keeps(1) ok(1) have "on_disk dec path (note_live ev r live) (last states)"
    by (simp add: registry_ok_def)
  with st keeps(3) show ?thesis by auto
qed

section \<open>What the recovery signals\<close>

text \<open>\<open>A\<close> held at the moment before.\<close>

definition after :: "(nat \<Rightarrow> bool) \<Rightarrow> nat \<Rightarrow> bool" where
  "after A t \<longleftrightarrow> (\<exists>t0. t = Suc t0 \<and> A t0)"

lemma after_Suc [simp]: "after A (Suc t) \<longleftrightarrow> A t"
  by (simp add: after_def)

text \<open>Partial correctness of an action: started at a moment that satisfies \<open>P\<close>, every signal it sends
  satisfies \<open>S\<close>, and a value it returns satisfies \<open>Q\<close> at the moment it ends.\<close>

definition act_ok ::
    "(nat \<times> signal_effect \<Rightarrow> bool) \<Rightarrow> (nat \<Rightarrow> bool) \<Rightarrow> 'a action \<Rightarrow> ('a \<Rightarrow> nat \<Rightarrow> bool) \<Rightarrow> bool" where
  "act_ok S P m Q \<longleftrightarrow>
     (\<forall>t t' tr r. P t \<longrightarrow> m t = Some (t', tr, r) \<longrightarrow> (\<forall>x \<in> set tr. S x) \<and> (\<forall>x. r = Inr x \<longrightarrow> Q x t'))"

lemma act_ok_return: "(\<And>t. P t \<Longrightarrow> Q x t) \<Longrightarrow> act_ok S P (act_return x) Q"
  by (simp add: act_ok_def act_return_def)

lemma act_ok_fact: "(C \<Longrightarrow> act_ok S (\<lambda>_. True) m Q) \<Longrightarrow> act_ok S (\<lambda>_. C) m Q"
  by (simp add: act_ok_def)

lemma act_okD:
  assumes "act_ok S P m Q" "P t" "m t = Some (t', tr, r)"
  shows "x \<in> set tr \<Longrightarrow> S x" "r = Inr y \<Longrightarrow> Q y t'"
  using assms unfolding act_ok_def by blast+

lemma act_bindE:
  assumes "act_bind m f t = Some (t', tr, r)"
  obtains (error) e where "m t = Some (t', tr, Inl e)" "r = Inl e"
    | (more) t1 tr1 x tr2 where "m t = Some (t1, tr1, Inr x)" "f x t1 = Some (t', tr2, r)" "tr = tr1 @ tr2"
  using assms by (auto simp: act_bind_def split: option.splits sum.splits)

lemma act_bind_prefix:
  "act_bind m f t = Some (t', tr, r) \<Longrightarrow> m t = Some (t1, tr1, r1) \<Longrightarrow> set tr1 \<subseteq> set tr"
  by (auto elim!: act_bindE)

lemma act_ok_bind:
  assumes "act_ok S P m R" "\<And>x. act_ok S (R x) (f x) Q"
  shows "act_ok S P (act_bind m f) Q"
  unfolding act_ok_def
proof (intro allI impI)
  fix t t' tr r
  assume "P t" "act_bind m f t = Some (t', tr, r)"
  from this(2) show "(\<forall>x \<in> set tr. S x) \<and> (\<forall>x. r = Inr x \<longrightarrow> Q x t')"
  proof (cases rule: act_bindE)
    case (error e)
    with \<open>P t\<close> assms(1) show ?thesis by (auto simp: act_ok_def)
  next
    case (more t1 tr1 x tr2)
    with \<open>P t\<close> assms(1) have "\<forall>x \<in> set tr1. S x" "R x t1" by (auto simp: act_ok_def)
    with more assms(2) [of x] show ?thesis by (auto simp: act_ok_def)
  qed
qed

lemma act_ok_ask:
  "(\<And>t x. P t \<Longrightarrow> q (hv_insp (w t)) = Inr x \<Longrightarrow> Q x (Suc t)) \<Longrightarrow> act_ok S P (ask w q) Q"
  by (simp add: act_ok_def ask_def)


lemma act_ok_group:
  assumes "\<And>t. P t \<Longrightarrow> S (t, SignalGroup p sig)" "\<And>t. P t \<Longrightarrow> Q () (Suc t)"
  shows "act_ok S P (signal_group w p sig) Q"
  using assms by (auto simp: act_ok_def signal_group_def send_signal_def signal_process_group_def)



lemma act_ok_weaken: "act_ok S P m Q \<Longrightarrow> (\<And>t. P' t \<Longrightarrow> P t) \<Longrightarrow> (\<And>x t. Q x t \<Longrightarrow> Q' x t) \<Longrightarrow> act_ok S P' m Q'"
  unfolding act_ok_def by blast

text \<open>Evidence that a process belongs to a recorded one: it is a persisted member; it was a group member or
  descendant right after the recorded leader was seen alive; or the leader was gone and a persisted
  member was seen with it in the group.\<close>

definition seen_with_leader :: "host \<Rightarrow> local_owned_process_record \<Rightarrow> process_identity \<Rightarrow> bool" where
  "seen_with_leader w process i \<longleftrightarrow>
     (\<exists>t found. insp_identity (hv_insp (w t)) (pid (lp_identity process)) = Inr (Some (lp_identity process)) \<and> i \<in> set found \<and>
        (insp_group_members (hv_insp (w (Suc t))) (pid (lp_identity process)) STALE_PROCESS_DISCOVERY_LIMIT = Inr found \<or>
         insp_descendants (hv_insp (w (Suc (Suc t)))) (pid (lp_identity process)) STALE_PROCESS_DISCOVERY_LIMIT = Inr found))"

definition seen_with_member :: "host \<Rightarrow> local_owned_process_record \<Rightarrow> process_identity \<Rightarrow> bool" where
  "seen_with_member w process i \<longleftrightarrow>
     (\<exists>t found. insp_identity (hv_insp (w t)) (pid (lp_identity process)) = Inr None \<and> i \<in> set found \<and>
        (\<exists>m \<in> set found. m \<in> set (lp_members process)) \<and>
        insp_group_members (hv_insp (w (Suc t))) (pid (lp_identity process)) STALE_PROCESS_DISCOVERY_LIMIT = Inr found)"

definition owned_by :: "host \<Rightarrow> local_owned_process_record list \<Rightarrow> process_identity \<Rightarrow> bool" where
  "owned_by w processes i \<longleftrightarrow>
     (\<exists>r \<in> set processes. i \<in> set (lp_members r) \<or> seen_with_leader w r i \<or> seen_with_member w r i)"


definition scan_ok :: "host \<Rightarrow> local_owned_process_record list \<Rightarrow> stale_scan \<Rightarrow> bool" where
  "scan_ok w processes s \<longleftrightarrow>
     (\<forall>i \<in> set (ss_discovered s). owned_by w processes i) \<and> set (ss_leaders s) \<subseteq> lp_identity ` set processes"

lemma set_discover: "set (ss_discovered (discover leader is s)) = set (ss_discovered s) \<union> (set is - {leader})"
proof -
  have "set (fold (\<lambda>i found. if i \<noteq> leader \<and> i \<notin> set found then found @ [i] else found) is d) = set d \<union> (set is - {leader})" for d
    by (induction "is" arbitrary: d) auto
  then show ?thesis by (simp add: discover_def)
qed

lemma discover_rest [simp]:
  "ss_leaders (discover leader is s) = ss_leaders s" "ss_report (discover leader is s) = ss_report s"
  by (simp_all add: discover_def)


lemma scan_ok_report [simp]: "scan_ok w processes (s\<lparr>ss_report := r\<rparr>) \<longleftrightarrow> scan_ok w processes s"
  by (simp add: scan_ok_def)










section \<open>A clean report\<close>

definition gone :: "host \<Rightarrow> process_identity \<Rightarrow> bool" where
  "gone w i \<longleftrightarrow> (\<exists>t. identity_matches (hv_insp (w t)) i = Inr False)"

lemma goneI: "insp_identity (hv_insp (w t)) (pid i) = Inr None \<Longrightarrow> gone w i"
  unfolding gone_def by (rule exI [of _ t]) (simp add: identity_matches_def)

definition accounted :: "host \<Rightarrow> local_owned_process_record \<Rightarrow> stale_scan \<Rightarrow> bool" where
  "accounted w process s \<longleftrightarrow>
     (0 < sr_identity_mismatch (ss_report s) \<or> 0 < sr_unresolved_leaderless_groups (ss_report s) \<or>
      lp_identity process \<in> set (ss_leaders s) \<or> gone w (lp_identity process)) \<and>
     set (lp_members process) \<subseteq> insert (lp_identity process) (set (ss_discovered s))"

definition scan_le :: "stale_scan \<Rightarrow> stale_scan \<Rightarrow> bool" where
  "scan_le s s' \<longleftrightarrow>
     set (ss_leaders s) \<subseteq> set (ss_leaders s') \<and> set (ss_discovered s) \<subseteq> set (ss_discovered s') \<and>
     sr_identity_mismatch (ss_report s) \<le> sr_identity_mismatch (ss_report s') \<and>
     sr_unresolved_leaderless_groups (ss_report s) \<le> sr_unresolved_leaderless_groups (ss_report s')"

lemma accounted_mono: "accounted w process s \<Longrightarrow> scan_le s s' \<Longrightarrow> accounted w process s'"
  by (auto simp: accounted_def scan_le_def)

lemma accounted_gone:
  assumes "accounted w process s" "sr_identity_mismatch (ss_report s) = 0" "sr_unresolved_leaderless_groups (ss_report s) = 0"
    and "\<forall>i \<in> set (ss_leaders s) \<union> set (ss_discovered s). gone w i" "i \<in> insert (lp_identity process) (set (lp_members process))"
  shows "gone w i"
proof -
  have "gone w (lp_identity process)" using assms(1-4) by (auto simp: accounted_def)
  with assms(1,4,5) show ?thesis unfolding accounted_def by blast
qed

lemma act_ok_fold_prefix:
  assumes "\<And>ys x s. x \<in> set xs \<Longrightarrow> act_ok S (I ys s) (f x s) (I (ys @ [x]))"
  shows "act_ok S (I ys s) (act_fold f xs s) (I (ys @ xs))"
  using assms
proof (induction xs arbitrary: ys s)
  case (Cons x xs)
  have "act_ok S (I (ys @ [x]) s') (act_fold f xs s') (I ((ys @ [x]) @ xs))" for s'
    by (rule Cons.IH) (simp add: Cons.prems)
  then show ?case using Cons.prems [of x ys s] by (auto intro!: act_ok_bind [of _ _ _ "I (ys @ [x])"])
qed (simp add: act_ok_return)

lemma claim_leader_accounts:
  "act_ok (\<lambda>_. True) P (claim_leader w leader s)
     (\<lambda>s' _. scan_le s s' \<and> (0 < sr_identity_mismatch (ss_report s') \<or> leader \<in> set (ss_leaders s')))"
  unfolding claim_leader_def
  by (rule act_ok_bind, rule act_ok_ask [where Q = "\<lambda>_ _. True"])
    (auto intro!: act_ok_return act_ok_bind [OF act_ok_group [where Q = "\<lambda>_ _. True"]] simp: scan_le_def)

lemma scan_le_refl [simp]: "scan_le s s"
  by (simp add: scan_le_def)

lemma scan_le_trans: "scan_le s s' \<Longrightarrow> scan_le s' s'' \<Longrightarrow> scan_le s s''"
  by (auto simp: scan_le_def)

lemma scan_le_discover [simp]: "scan_le s (discover leader is s)"
  by (auto simp: scan_le_def set_discover)

lemma scan_le_discoverD: "scan_le (discover leader is s) s' \<Longrightarrow> scan_le s s'"
  by (rule scan_le_trans [OF scan_le_discover])

lemma scan_leader_accounts:
  "act_ok (\<lambda>_. True) P (scan_leader w leader s)
     (\<lambda>s' _. scan_le s s' \<and> (0 < sr_identity_mismatch (ss_report s') \<or> leader \<in> set (ss_leaders s')))"
  unfolding scan_leader_def
  by (rule act_ok_bind [OF act_ok_ask [where Q = "\<lambda>_ _. True"]], simp)+
    (rule act_ok_weaken [OF claim_leader_accounts], auto dest: scan_le_discoverD)

lemma scan_leaderless_accounts:
  "act_ok (\<lambda>_. True) P (scan_leaderless w process s) (\<lambda>s' _. scan_le s s')"
  unfolding scan_leaderless_def
  by (rule act_ok_bind [OF act_ok_ask [where Q = "\<lambda>_ _. True"]])
    (auto intro!: act_ok_return simp: scan_le_def set_discover)

lemma scan_process_accounts:
  "act_ok (\<lambda>_. True) P (scan_process w process s) (\<lambda>s' _. scan_le s s' \<and> accounted w process s')"
proof -
  let ?s = "discover (lp_identity process) (lp_members process) s"
  have start: "scan_le s ?s" "set (lp_members process) \<subseteq> insert (lp_identity process) (set (ss_discovered ?s))"
    by (auto simp: set_discover)
  have ends: "scan_le s s' \<and> accounted w process s'"
    if "scan_le ?s s'" "0 < sr_identity_mismatch (ss_report s') \<or> lp_identity process \<in> set (ss_leaders s') \<or> gone w (lp_identity process)" for s'
    using that start scan_le_trans [OF start(1) that(1)] by (auto simp: accounted_def scan_le_def)
  show ?thesis
    unfolding scan_process_def Let_def
  proof (rule act_ok_bind)
    show "act_ok (\<lambda>_. True) P (ask w (\<lambda>insp. insp_identity insp (pid (lp_identity process))))
        (\<lambda>current _. current = None \<longrightarrow> gone w (lp_identity process))"
      by (rule act_ok_ask) (auto intro: goneI)
    show "act_ok (\<lambda>_. True) (\<lambda>_. current = None \<longrightarrow> gone w (lp_identity process))
        (case current of None \<Rightarrow> scan_leaderless w process ?s
         | Some i \<Rightarrow> if i = lp_identity process then scan_leader w (lp_identity process) ?s
             else act_return (?s\<lparr>ss_report := (ss_report ?s)\<lparr>sr_identity_mismatch := Suc (sr_identity_mismatch (ss_report ?s))\<rparr>\<rparr>))
        (\<lambda>s' _. scan_le s s' \<and> accounted w process s')" for current
    proof (cases current)
      case None
      have "act_ok (\<lambda>_. True) (\<lambda>_. gone w (lp_identity process)) (scan_leaderless w process ?s)
          (\<lambda>s' _. scan_le s s' \<and> accounted w process s')"
        by (rule act_ok_fact, rule act_ok_weaken [OF scan_leaderless_accounts]) (simp_all add: ends)
      with None show ?thesis by simp
    next
      case (Some i)
      have "act_ok (\<lambda>_. True) (\<lambda>_. True) (scan_leader w (lp_identity process) ?s)
          (\<lambda>s' _. scan_le s s' \<and> accounted w process s')"
        by (rule act_ok_weaken [OF scan_leader_accounts]) (use ends in blast)+
      moreover have "act_ok (\<lambda>_. True) (\<lambda>_. True)
          (act_return (?s\<lparr>ss_report := (ss_report ?s)\<lparr>sr_identity_mismatch := Suc (sr_identity_mismatch (ss_report ?s))\<rparr>\<rparr>))
          (\<lambda>s' _. scan_le s s' \<and> accounted w process s')"
        by (rule act_ok_return, rule ends) (simp_all add: scan_le_def)
      ultimately show ?thesis using Some by simp
    qed
  qed
qed

lemma tally_gone:
  "act_ok (\<lambda>_. True) (\<lambda>_. n = 0 \<longrightarrow> (\<forall>i \<in> set ys. gone w i)) (tally_survivor w i n)
     (\<lambda>n _. n = 0 \<longrightarrow> (\<forall>i \<in> set (ys @ [i]). gone w i))"
  unfolding tally_survivor_def
  by (rule act_ok_bind, rule act_ok_ask [where Q = "\<lambda>matches _. (n = 0 \<longrightarrow> (\<forall>i \<in> set ys. gone w i)) \<and> (\<not> matches \<longrightarrow> gone w i)"])
    (auto simp: gone_def intro!: act_ok_return)

definition no_open_question :: "stale_report \<Rightarrow> bool" where
  "no_open_question report \<longleftrightarrow>
     sr_identity_mismatch report = 0 \<and> sr_unresolved_leaderless_groups report = 0 \<and> sr_survivors report = 0"

lemma end_stale_gone:
  "act_ok (\<lambda>_. True) P (end_stale_processes rounds w term_grace kill_grace s)
     (\<lambda>report _. no_open_question report \<longrightarrow>
        sr_identity_mismatch (ss_report s) = 0 \<and> sr_unresolved_leaderless_groups (ss_report s) = 0 \<and>
        (\<forall>i \<in> set (ss_leaders s) \<union> set (ss_discovered s). gone w i))"
proof -
  have any: "act_ok (\<lambda>_. True) P m (\<lambda>_ _. True)" for P and m :: "'a action" by (simp add: act_ok_def)
  have tally: "act_ok (\<lambda>_. True) P (act_fold (tally_survivor w) is 0) (\<lambda>n _. n = 0 \<longrightarrow> (\<forall>i \<in> set is. gone w i))" for P "is"
    by (rule act_ok_weaken, rule act_ok_fold_prefix [where I = "\<lambda>ys n _. n = 0 \<longrightarrow> (\<forall>i \<in> set ys. gone w i)" and ys = "[]"])
      (auto intro: tally_gone [simplified])
  show ?thesis
    unfolding end_stale_processes_def Let_def
    by (rule act_ok_bind [OF any], rule act_ok_bind [OF any], rule act_ok_bind [OF any], rule act_ok_bind [OF any],
        rule act_ok_bind [OF any], rule act_ok_bind [OF tally], rule act_ok_return)
      (auto simp: no_open_question_def)
qed

lemma stale_cleanup_gone:
  "act_ok (\<lambda>_. True) P (stale_cleanup rounds w term_grace kill_grace processes)
     (\<lambda>report _. no_open_question report \<longrightarrow>
        (\<forall>r \<in> set processes. \<forall>i \<in> insert (lp_identity r) (set (lp_members r)). gone w i))"
  unfolding stale_cleanup_def
proof (rule act_ok_bind)
  show "act_ok (\<lambda>_. True) P (act_fold (scan_process w) processes \<lparr>ss_report = empty_report, ss_leaders = [], ss_discovered = []\<rparr>)
      (\<lambda>s _. \<forall>r \<in> set processes. accounted w r s)"
  proof (rule act_ok_weaken, rule act_ok_fold_prefix [where I = "\<lambda>ys s _. \<forall>r \<in> set ys. accounted w r s" and ys = "[]"])
    show "act_ok (\<lambda>_. True) (\<lambda>_. \<forall>r \<in> set ys. accounted w r s) (scan_process w process s)
        (\<lambda>s _. \<forall>r \<in> set (ys @ [process]). accounted w r s)" for ys process s
    proof (rule act_ok_fact, rule act_ok_weaken [OF scan_process_accounts])
      fix s'
      assume "\<forall>r \<in> set ys. accounted w r s" "scan_le s s' \<and> accounted w process s'"
      then show "\<forall>r \<in> set (ys @ [process]). accounted w r s'" using accounted_mono by auto
    qed simp
  qed simp_all
  show "act_ok (\<lambda>_. True) (\<lambda>_. \<forall>r \<in> set processes. accounted w r s) (end_stale_processes rounds w term_grace kill_grace s)
      (\<lambda>report _. no_open_question report \<longrightarrow>
        (\<forall>r \<in> set processes. \<forall>i \<in> insert (lp_identity r) (set (lp_members r)). gone w i))" for s
    by (rule act_ok_fact, rule act_ok_weaken [OF end_stale_gone]) (use accounted_gone in blast)+
qed

text \<open>
  A report without open questions is true.  When the recovery reports no identity mismatch, no
  unresolved group and no survivor, every recorded leader and every recorded group member was seen,
  while the recovery ran, not to exist any more.
\<close>

theorem clean_report_means_gone:
  assumes "terminate_matching_stale_processes_with_timing rounds io st path expected w term_grace kill_grace 0 = Some (t', tr, Inr report)"
    and "no_open_question report" "registry_exists io st path" "load_document io st path = Inr document"
    and "r \<in> set (rd_processes document)" "i \<in> insert (lp_identity r) (set (lp_members r))"
  shows "\<exists>t. identity_matches (hv_insp (w t)) i = Inr False"
proof -
  have "stale_cleanup rounds w term_grace kill_grace (rd_processes document) 0 = Some (t', tr, Inr report)"
    using assms(1,3,4)
    by (auto simp: terminate_matching_stale_processes_with_timing_def split: if_splits option.splits)
  from act_okD(2) [OF stale_cleanup_gone TrueI this refl] assms(2,5,6) show ?thesis by (auto simp: gone_def)
qed

section \<open>The recovery ends\<close>

text \<open>A result that no longer changes once there are enough rounds.\<close>

definition settles :: "(nat \<Rightarrow> 'a option) \<Rightarrow> bool" where
  "settles f \<longleftrightarrow> (\<exists>x n. \<forall>rounds \<ge> n. f rounds = Some x)"

lemma settles_const [simp]: "settles (\<lambda>_. Some x)"
  by (auto simp: settles_def)

lemma settles_bind:
  assumes "settles (\<lambda>rounds. m rounds t)" "\<And>x t'. settles (\<lambda>rounds. f rounds x t')"
  shows "settles (\<lambda>rounds. act_bind (m rounds) (f rounds) t)"
proof -
  from assms(1) obtain y n where n: "\<forall>rounds \<ge> n. m rounds t = Some y" by (auto simp: settles_def)
  obtain t1 tr r where y: "y = (t1, tr, r)" by (cases y)
  show ?thesis
  proof (cases r)
    case (Inl e)
    with n y have "\<forall>rounds \<ge> n. act_bind (m rounds) (f rounds) t = Some (t1, tr, Inl e)" by (simp add: act_bind_def)
    then show ?thesis unfolding settles_def by blast
  next
    case (Inr x)
    from assms(2) [of x t1] obtain z k where k: "\<forall>rounds \<ge> k. f rounds x t1 = Some z" by (auto simp: settles_def)
    obtain t2 tr2 r2 where z: "z = (t2, tr2, r2)" by (cases z)
    have "\<forall>rounds \<ge> max n k. act_bind (m rounds) (f rounds) t = Some (t2, tr @ tr2, r2)"
      using n k y z Inr by (simp add: act_bind_def)
    then show ?thesis unfolding settles_def by blast
  qed
qed

definition total_action :: "'a action \<Rightarrow> bool" where
  "total_action m \<longleftrightarrow> (\<forall>t. \<exists>t' tr r. m t = Some (t', tr, r) \<and> t \<le> t')"

lemma total_action_bind:
  assumes "total_action m" "\<And>x. total_action (f x)"
  shows "total_action (act_bind m f)"
  unfolding total_action_def
proof
  fix t
  from assms(1) obtain t1 tr r where 1: "m t = Some (t1, tr, r)" "t \<le> t1" unfolding total_action_def by blast
  show "\<exists>t' tr r. act_bind m f t = Some (t', tr, r) \<and> t \<le> t'"
  proof (cases r)
    case (Inr x)
    from assms(2) [of x] obtain t2 tr2 r2 where "f x t1 = Some (t2, tr2, r2)" "t1 \<le> t2"
      unfolding total_action_def by blast
    with 1 Inr show ?thesis by (simp add: act_bind_def)
  qed (use 1 in \<open>simp add: act_bind_def\<close>)
qed

lemma total_action_basic [simp]:
  "total_action (act_return x)" "total_action (ask w q)" "total_action (ask_now w)" "total_action (send_signal w a)"
  by (auto simp: total_action_def act_return_def ask_def ask_now_def send_signal_def split: prod.splits)

lemma total_action_fold: "(\<And>x s. total_action (f x s)) \<Longrightarrow> total_action (act_fold f xs s)"
  by (induction xs arbitrary: s) (auto intro: total_action_bind)

lemma total_settles: "total_action m \<Longrightarrow> settles (\<lambda>_. m t)"
  unfolding total_action_def settles_def by metis

lemma total_any_alive: "total_action (any_alive w identities)"
  unfolding any_alive_def by (rule total_action_fold) simp

lemma total_scan: "total_action (act_fold (scan_process w) processes s)"
  by (rule total_action_fold)
    (auto simp: scan_process_def scan_leader_def scan_leaderless_def claim_leader_def signal_group_def Let_def
      intro!: total_action_bind split: option.splits)

lemma total_signals:
  "total_action (act_fold (signal_descendant w sig) is n)" "total_action (act_fold (force_kill_leader w) is n)"
  "total_action (act_fold (tally_survivor w) is n)"
  by (auto intro!: total_action_fold total_action_bind
      simp: signal_descendant_def force_kill_leader_def tally_survivor_def signal_matching_def signal_group_def)

text \<open>The clock of the host passes every deadline.\<close>

definition clock_advances :: "host \<Rightarrow> bool" where
  "clock_advances w \<longleftrightarrow> (\<forall>d. \<exists>t. \<forall>t' \<ge> t. d \<le> hv_now (w t'))"

lemma stale_wait_loop_ends:
  assumes "\<forall>t' \<ge> late. deadline \<le> hv_now (w t')" "late - t < rounds"
  shows "stale_wait_loop rounds w identities deadline t \<noteq> None \<and>
    stale_wait_loop (Suc rounds) w identities deadline t = stale_wait_loop rounds w identities deadline t"
  using assms(2)
proof (induction rounds arbitrary: t)
  case (Suc rounds)
  obtain t1 tr r where alive: "any_alive w identities (Suc t) = Some (t1, tr, r)" "Suc t \<le> t1"
    using total_any_alive [of w identities] unfolding total_action_def by blast
  show ?case
  proof (cases "deadline \<le> hv_now (w t)")
    case False
    then have "\<not> late \<le> t" using assms(1) by blast
    then have "late - Suc t1 < rounds" using Suc.prems alive(2) by linarith
    note IH = Suc.IH [OF this]
    show ?thesis
      using IH False alive by (auto simp: act_bind_def ask_now_def act_return_def split: sum.splits)
  qed (simp add: act_bind_def ask_now_def act_return_def)
qed simp

lemma wait_settles:
  assumes "clock_advances w"
  shows "settles (\<lambda>rounds. wait_for_stale_processes rounds w leaders discovered grace t)"
proof -
  let ?loop = "\<lambda>rounds t. stale_wait_loop rounds w (leaders @ discovered) (hv_now (w t) + grace) (Suc t)"
  from assms obtain late where late: "\<forall>t' \<ge> late. hv_now (w t) + grace \<le> hv_now (w t')"
    unfolding clock_advances_def by blast
  have ends: "?loop rounds t \<noteq> None \<and> ?loop (Suc rounds) t = ?loop rounds t" if "late < rounds" for rounds
    by (rule stale_wait_loop_ends [OF late]) (use that in simp)
  have "?loop rounds t = ?loop (Suc late) t" if "Suc late \<le> rounds" for rounds
    using that
  proof (induction rounds rule: dec_induct)
    case (step n)
    then show ?case using ends [of n] by simp
  qed simp
  moreover from ends [of "Suc late"] obtain x where "?loop (Suc late) t = Some x" by auto
  ultimately have "settles (\<lambda>rounds. ?loop rounds t)" unfolding settles_def by metis
  then have "settles (\<lambda>rounds. map_option (\<lambda>(t2, tr', r). (t2, tr', r)) (?loop rounds t))"
    by (simp add: settles_def)
  then show ?thesis
    by (simp add: wait_for_stale_processes_def act_bind_def ask_now_def)
qed

text \<open>
  C37: The recovery of stale processes ends.  On a host whose clock passes every deadline there is a
  number of rounds of its two waiting loops after which the recovery has returned, and its result
  does not depend on that number.
\<close>

theorem stale_recovery_ends:
  assumes "clock_advances w"
  shows "\<exists>result enough. \<forall>rounds \<ge> enough.
    terminate_matching_stale_processes rounds io st path expected w t = Some result"
proof -
  have ends: "settles (\<lambda>rounds. end_stale_processes rounds w term_grace kill_grace s t)" for term_grace kill_grace s t
    unfolding end_stale_processes_def Let_def
    by (intro settles_bind wait_settles assms total_settles total_signals total_action_basic)
  have "settles (\<lambda>rounds. stale_cleanup rounds w term_grace kill_grace processes t)" for term_grace kill_grace processes
    unfolding stale_cleanup_def by (intro settles_bind total_settles total_scan ends)
  note cleanup = this
  have "settles (\<lambda>rounds. terminate_matching_stale_processes rounds io st path expected w t)"
  proof (cases "registry_exists io st path \<and> (\<exists>document. load_document io st path = Inr document \<and>
      (\<forall>runtime_id. expected = Some runtime_id \<longrightarrow> rd_runtime_id document \<in> {[], runtime_id}))")
    case True
    then obtain document where document: "registry_exists io st path" "load_document io st path = Inr document"
        "\<And>runtime_id. expected = Some runtime_id \<Longrightarrow> rd_runtime_id document = [] \<or> rd_runtime_id document = runtime_id"
      by auto
    then have "terminate_matching_stale_processes rounds io st path expected w t =
        stale_cleanup rounds w STALE_PROCESS_TERM_GRACE STALE_PROCESS_KILL_GRACE (rd_processes document) t" for rounds
      by (auto simp: terminate_matching_stale_processes_def terminate_matching_stale_processes_with_timing_def split: option.splits)
    then show ?thesis by (simp add: cleanup)
  next
    case False
    then have "\<exists>x. \<forall>rounds. terminate_matching_stale_processes rounds io st path expected w t = Some x"
      by (cases "registry_exists io st path"; cases "load_document io st path")
        (auto simp: terminate_matching_stale_processes_def terminate_matching_stale_processes_with_timing_def act_return_def)
    then show ?thesis by (auto simp: settles_def)
  qed
  then show ?thesis by (simp add: settles_def)
qed

section \<open>Examples\<close>

definition example_leader :: process_identity where
  "example_leader = \<lparr>pid = 42, birth = LinuxProcStartTicks 7\<rparr>"

definition example_process :: owned_process where
  "example_process = \<lparr>op_session_id = 1, op_handle = ''Ab3'', op_identity = example_leader, op_created_by = default_context\<rparr>"

definition example_document :: registry_document where
  "example_document = \<lparr>rd_schema_version = 1, rd_runtime_id = ''r'', rd_processes = [record_from example_process]\<rparr>"

definition example_codec :: "rstr \<Rightarrow> registry_document res" where
  "example_codec bytes = (if bytes = ''doc'' then Inr example_document else Inl ''syntax'')"

definition example_io :: registry_io where
  "example_io =
     \<lparr>rg_encode = (\<lambda>d. if d = example_document then Inr ''doc'' else Inl ''no''), rg_decode = example_codec,
      rg_visible = True, rg_read = None, rg_missing = [], rg_remove = None, rg_create_dir = None, rg_chmod_dir = None,
      rg_pid = 9, rg_nonce = ''0'', rg_open = None, rg_write = None, rg_sync = None, rg_rename = None,
      rg_chmod_file = None, rg_temp_stays = False\<rparr>"

definition example_registry_path :: rstr where "example_registry_path = ''/r/owned.json''"

definition example_store :: file_store where
  "example_store = [example_registry_path \<mapsto> \<lparr>fe_kind = RegularFile, fe_bytes = ''doc'', fe_mode = 384\<rparr>]"

text \<open>The leader is alive until the third access and then gone.\<close>

definition example_host :: host where
  "example_host t =
     \<lparr>hv_insp = \<lparr>insp_identity = (\<lambda>p. Inr (if p = 42 \<and> t < 4 then Some example_leader else None)), insp_live_cwd = (\<lambda>_. None),
        insp_descendants = (\<lambda>_ _. Inr []), insp_group_members = (\<lambda>_ _. Inr [])\<rparr>,
      hv_kernel = (\<lambda>_. KillOk), hv_now = 1000 * t\<rparr>"

lemma example_load: "load_document example_io example_store example_registry_path = Inr example_document"
  by (simp add: load_document_def example_io_def example_store_def example_codec_def example_document_def
      LOCAL_PROCESS_REGISTRY_SCHEMA_VERSION_def)

lemma example_exists: "registry_exists example_io example_store example_registry_path"
  by (simp add: registry_exists_def example_io_def example_store_def)

lemma example_cleanup:
  "stale_cleanup 3 example_host 5000 1000 [record_from example_process] 0 =
     Some (12, [(4, SignalGroup 42 Terminate)], Inr (empty_report\<lparr>sr_signaled := 1\<rparr>))"
  by code_simp

lemma example_recovery:
  "terminate_matching_stale_processes_with_timing 3 example_io example_store example_registry_path (Some ''r'') example_host 5000 1000 0 =
     Some (12, [(4, SignalGroup 42 Terminate)], Inr (empty_report\<lparr>sr_signaled := 1\<rparr>))"
  using example_cleanup
  by (simp add: terminate_matching_stale_processes_with_timing_def example_load example_exists example_document_def)


theorem clean_report_means_gone_witness: "\<exists>t. identity_matches (hv_insp (example_host t)) example_leader = Inr False"
  by (rule clean_report_means_gone [OF example_recovery _ example_exists example_load, of "record_from example_process"])
    (simp_all add: no_open_question_def empty_report_def example_document_def example_process_def)

theorem stale_recovery_ends_witness:
  "\<exists>result enough. \<forall>rounds \<ge> enough.
    terminate_matching_stale_processes rounds example_io example_store example_registry_path None example_host 0 = Some result"
proof (rule stale_recovery_ends)
  have "\<forall>t' \<ge> d. d \<le> hv_now (example_host t')" for d by (simp add: example_host_def)
  then show "clock_advances example_host" unfolding clock_advances_def by blast
qed

theorem started_processes_stay_on_disk_witness:
  "\<exists>reg' states. observe_event example_io (ProcessStarted example_process)
       \<lparr>reg_path = example_registry_path, reg_runtime_id = ''r'', reg_records = []\<rparr> Map.empty = (reg', Inr (), states) \<and>
     on_disk example_codec example_registry_path [1 \<mapsto> example_leader] (last states)"
proof -
  let ?reg = "\<lparr>reg_path = example_registry_path, reg_runtime_id = ''r'', reg_records = []\<rparr>"
  have parent: "path_parent example_registry_path = Some ''/r''"
    by (simp add: example_registry_path_def path_parent_def path_body_def is_absolute_def strip_tail.simps Let_def path_of_body_def)
  have apart: "temp_apart example_io example_registry_path"
    by (simp add: temp_apart_def parent registry_temp_def example_io_def example_registry_path_def path_join_def is_absolute_def
        ends_with_def)
  have codec: "codec_ok example_codec example_io"
    by (simp add: codec_ok_def example_io_def example_codec_def)
  have fresh: "fresh_registry example_io example_registry_path ''r'' Map.empty = (Map.empty, Inr ?reg)"
  proof -
    have "trim ''r'' = ''r''" by code_simp
    then show ?thesis by (simp add: fresh_registry_def registry_exists_def Let_def)
  qed
  have added: "add_record (record_from example_process) [] = [record_from example_process]"
    by (simp add: add_record_def)
  have encoded: "rg_encode example_io \<lparr>rd_schema_version = LOCAL_PROCESS_REGISTRY_SCHEMA_VERSION, rd_runtime_id = ''r'',
      rd_processes = [record_from example_process]\<rparr> = Inr ''doc''"
    by (simp add: example_io_def example_document_def LOCAL_PROCESS_REGISTRY_SCHEMA_VERSION_def)
  obtain reg' states where run: "observe_event example_io (ProcessStarted example_process) ?reg Map.empty = (reg', Inr (), states)"
    using encoded
    by (auto simp: process_started_def update_registry_def added persist_records_def parent publish_encoded_def Let_def
        io_res_def example_io_def)
  from started_processes_stay_on_disk [OF registry_run.fresh [OF fresh] codec apart run] run
  show ?thesis by (auto simp: example_process_def)
qed

text \<open>
  C38: The group of a recycled leader is signalled.  When the recorded leader is still there at the first
  look, but the group read next is that of another process that has taken over the number, the check
  that follows notices the change and no group is signalled; the members read in between are kept
  all the same, and the recovery sends them SIGTERM one by one.
\<close>

theorem recycled_group_is_signalled:
  assumes "lp_members process = []" "foreign \<noteq> lp_identity process"
    and "insp_identity (hv_insp (w 0)) (pid (lp_identity process)) = Inr (Some (lp_identity process))"
    and "insp_group_members (hv_insp (w 1)) (pid (lp_identity process)) STALE_PROCESS_DISCOVERY_LIMIT = Inr [foreign]"
    and "insp_descendants (hv_insp (w 2)) (pid (lp_identity process)) STALE_PROCESS_DISCOVERY_LIMIT = Inr []"
    and "identity_matches (hv_insp (w 3)) (lp_identity process) = Inr False"
    and "identity_matches (hv_insp (w 4)) foreign = Inr True"
    and "stale_cleanup rounds w term_grace kill_grace [process] 0 = Some (t', tr, r)"
  shows "(4, SignalProcess (pid foreign) Terminate) \<in> set tr"
proof -
  let ?s = "\<lparr>ss_report = empty_report\<lparr>sr_identity_mismatch := 1\<rparr>, ss_leaders = [], ss_discovered = [foreign]\<rparr>"
  have scan: "act_fold (scan_process w) [process] \<lparr>ss_report = empty_report, ss_leaders = [], ss_discovered = []\<rparr> 0 =
      Some (4, [], Inr ?s)"
    using assms(1-6)
    by (simp add: scan_process_def scan_leader_def claim_leader_def act_bind_def ask_def act_return_def discover_def Let_def
        empty_report_def numeral_2_eq_2 numeral_3_eq_3 eval_nat_numeral)
  have sent: "act_fold (signal_descendant w Terminate) [foreign] 0 4 =
      Some (5, [(4, SignalProcess (pid foreign) Terminate)], r1)" if "r1 = (case hv_kernel (w 4) (SignalProcess (pid foreign) Terminate) of
        KillErr e \<Rightarrow> Inl (''failed to send '' @ signal_name Terminate @ '' to PID '' @ show_int (pid foreign) @ '': '' @ e) | _ \<Rightarrow> Inr 1)" for r1
    using assms(7) that
    by (simp add: signal_descendant_def signal_matching_def send_signal_def signal_process_if_matching_def signal_process_def
        act_bind_def act_return_def split: kill_result.splits)
  have "end_stale_processes rounds w term_grace kill_grace ?s 4 = Some (t', tr, r)"
    using assms(8) scan by (auto simp: stale_cleanup_def act_bind_def split: option.splits)
  moreover have "filter (\<lambda>i. i \<notin> set (ss_leaders ?s)) (ss_discovered ?s) = [foreign]" by simp
  then have "\<exists>f. end_stale_processes rounds w term_grace kill_grace ?s = act_bind (act_fold (signal_descendant w Terminate) [foreign] 0) f"
    unfolding end_stale_processes_def Let_def by metis
  ultimately show ?thesis using act_bind_prefix sent [OF refl] by fastforce
qed

text \<open>The leader 42 ends after the first look and its number is given to a group with the process 77.\<close>

definition recycled_host :: host where
  "recycled_host t =
     \<lparr>hv_insp = \<lparr>insp_identity = (\<lambda>p. Inr (if p = 42 \<and> t < 1 then Some example_leader
          else if p = 77 then Some \<lparr>pid = 77, birth = LinuxProcStartTicks 900\<rparr> else None)), insp_live_cwd = (\<lambda>_. None),
        insp_descendants = (\<lambda>_ _. Inr []),
        insp_group_members = (\<lambda>_ _. Inr [\<lparr>pid = 77, birth = LinuxProcStartTicks 900\<rparr>])\<rparr>,
      hv_kernel = (\<lambda>_. KillOk), hv_now = 1000 * t\<rparr>"

theorem recycled_group_is_signalled_witness:
  "\<exists>t' tr r. stale_cleanup 3 recycled_host 1 1 [record_from example_process] 0 = Some (t', tr, r) \<and>
    (4, SignalProcess 77 Terminate) \<in> set tr"
proof -
  let ?foreign = "\<lparr>pid = 77, birth = LinuxProcStartTicks 900\<rparr>"
  have "(case stale_cleanup 3 recycled_host 1 1 [record_from example_process] 0 of None \<Rightarrow> False | Some _ \<Rightarrow> True)"
    by code_simp
  then obtain t' tr r where run: "stale_cleanup 3 recycled_host 1 1 [record_from example_process] 0 = Some (t', tr, r)"
    by (auto split: option.splits)
  have "(4, SignalProcess (pid ?foreign) Terminate) \<in> set tr"
    by (rule recycled_group_is_signalled [OF _ _ _ _ _ _ _ run])
      (simp_all add: record_from_def example_process_def example_leader_def recycled_host_def identity_matches_def)
  with run show ?thesis by auto
qed

end
