(* ===== verification/Text_Diff.thy ===== *)
theory Text_Diff
  imports Presentation_Model
begin

text \<open>
  The line diff shown for a changed file (\<^verbatim>\<open>src/local/presentation/diff.rs\<close>).  The code cuts the unchanged
  head and tail off both texts, hands the remaining window to the crate \<^verbatim>\<open>similar\<close> and translates its
  answer back to the lines of the whole file.  The crate is the argument \<open>lib\<close>; what is used of its
  documented behaviour is the predicate \<open>diff_ok\<close>.
\<close>

section \<open>The diff library\<close>

datatype change_tag = TagEqual | TagDelete | TagInsert

record diff_change =
  dc_tag :: change_tag
  dc_old_index :: "nat option"
  dc_new_index :: "nat option"
  dc_value :: rstr

text \<open>All changes in order, and the changes of the groups of operations that \<^verbatim>\<open>grouped_ops(3)\<close> isolates.\<close>

record text_diff =
  td_changes :: "diff_change list"
  td_groups :: "diff_change list list list"

text \<open>The first argument says whether a deadline is configured.\<close>

type_synonym diff_lib = "bool \<Rightarrow> rstr \<Rightarrow> rstr \<Rightarrow> text_diff"

section \<open>The preview\<close>

definition MAX_DIFF_LINES :: nat where "MAX_DIFF_LINES = 500"
definition MAX_DIFF_PREVIEW_CHANGED_LINES :: nat where "MAX_DIFF_PREVIEW_CHANGED_LINES = 1000"
definition MAX_DIFF_LINE_CHARS :: nat where "MAX_DIFF_LINE_CHARS = 2048"
definition DIFF_CONTEXT_LINES :: nat where "DIFF_CONTEXT_LINES = 3"
definition DIFF_TIMEOUT_INPUT_LINES :: nat where "DIFF_TIMEOUT_INPUT_LINES = 1000"

record built_diff =
  bd_added :: nat
  bd_removed :: nat
  bd_truncated :: bool
  bd_lines :: "presentation_diff_line list"

definition common_prefix_len :: "'a list \<Rightarrow> 'a list \<Rightarrow> nat" where
  "common_prefix_len left right = length (takeWhile (\<lambda>(l, r). l = r) (zip left right))"

definition common_suffix_len :: "'a list \<Rightarrow> 'a list \<Rightarrow> nat" where
  "common_suffix_len left right = length (takeWhile (\<lambda>(l, r). l = r) (zip (rev left) (rev right)))"

fun tag_name :: "change_tag \<Rightarrow> rstr" where
  "tag_name TagEqual = ''context''"
| "tag_name TagDelete = ''remove''"
| "tag_name TagInsert = ''add''"

definition strip_end :: "char \<Rightarrow> rstr \<Rightarrow> rstr" where
  "strip_end c s = (case strip_suffix [c] s of None \<Rightarrow> s | Some s' \<Rightarrow> s')"

definition line_preview :: "(rstr \<Rightarrow> rstr) \<Rightarrow> rstr \<Rightarrow> rstr \<times> bool" where
  "line_preview strip_str line = sanitize_preview strip_str (strip_end cr (strip_end nl line)) MAX_DIFF_LINE_CHARS"

definition diff_line :: "(rstr \<Rightarrow> rstr) \<Rightarrow> nat \<Rightarrow> diff_change \<Rightarrow> presentation_diff_line" where
  "diff_line strip_str window_start change =
     \<lparr>dl_kind = tag_name (dc_tag change),
      dl_old_line = map_option (\<lambda>i. window_start + i + 1) (dc_old_index change),
      dl_new_line = map_option (\<lambda>i. window_start + i + 1) (dc_new_index change),
      dl_text = fst (line_preview strip_str (dc_value change))\<rparr>"

text \<open>The lines pushed so far are counted by the second argument.\<close>

fun push_lines ::
    "(rstr \<Rightarrow> rstr) \<Rightarrow> nat \<Rightarrow> nat \<Rightarrow> diff_change list \<Rightarrow> presentation_diff_line list \<times> bool" where
  "push_lines strip_str pushed window_start [] = ([], False)"
| "push_lines strip_str pushed window_start (change # changes) =
     (if MAX_DIFF_LINES \<le> pushed then ([], True)
      else (case push_lines strip_str (Suc pushed) window_start changes of
          (lines, truncated) \<Rightarrow>
            (diff_line strip_str window_start change # lines,
             snd (line_preview strip_str (dc_value change)) \<or> truncated)))"

record diff_window =
  dw_start :: nat
  dw_before :: "rstr list"
  dw_after :: "rstr list"

definition diff_window_of :: "rstr list \<Rightarrow> rstr list \<Rightarrow> diff_window" where
  "diff_window_of before_lines after_lines =
     (let prefix = common_prefix_len before_lines after_lines;
          suffix = common_suffix_len (drop prefix before_lines) (drop prefix after_lines);
          before_changed_end = length before_lines - suffix;
          after_changed_end = length after_lines - suffix;
          window_start = prefix - DIFF_CONTEXT_LINES;
          before_window_end = min (before_changed_end + DIFF_CONTEXT_LINES) (length before_lines);
          after_window_end = min (after_changed_end + DIFF_CONTEXT_LINES) (length after_lines)
      in \<lparr>dw_start = window_start,
          dw_before = drop window_start (take before_window_end before_lines),
          dw_after = drop window_start (take after_window_end after_lines)\<rparr>)"

definition tally_tag :: "change_tag \<Rightarrow> diff_change list \<Rightarrow> nat" where
  "tally_tag tag changes = length (filter (\<lambda>c. dc_tag c = tag) changes)"

definition window_diff :: "diff_lib \<Rightarrow> diff_window \<Rightarrow> text_diff" where
  "window_diff lib win =
     lib (DIFF_TIMEOUT_INPUT_LINES < length (dw_before win) + length (dw_after win))
       (concat (dw_before win)) (concat (dw_after win))"

definition build_text_diff :: "diff_lib \<Rightarrow> (rstr \<Rightarrow> rstr) \<Rightarrow> rstr \<Rightarrow> rstr \<Rightarrow> built_diff" where
  "build_text_diff lib strip_str before after =
     (let win = diff_window_of (split_inclusive nl before) (split_inclusive nl after);
          diff = window_diff lib win;
          added = tally_tag TagInsert (td_changes diff);
          removed = tally_tag TagDelete (td_changes diff);
          (lines, truncated) = push_lines strip_str 0 (dw_start win) (concat (concat (td_groups diff)))
      in \<lparr>bd_added = added, bd_removed = removed,
          bd_truncated = (MAX_DIFF_PREVIEW_CHANGED_LINES < added + removed \<or> truncated), bd_lines = lines\<rparr>)"

section \<open>What the library promises\<close>

text \<open>An edit script from the lines \<open>old\<close> to the lines \<open>new\<close>, read from the positions \<open>i\<close> and \<open>j\<close> on.\<close>

fun edit_script :: "rstr list \<Rightarrow> rstr list \<Rightarrow> nat \<Rightarrow> nat \<Rightarrow> diff_change list \<Rightarrow> bool" where
  "edit_script old new i j [] \<longleftrightarrow> i = length old \<and> j = length new"
| "edit_script old new i j (c # cs) \<longleftrightarrow>
     (case dc_tag c of
        TagEqual \<Rightarrow> i < length old \<and> j < length new \<and> old ! i = new ! j \<and> dc_value c = old ! i \<and>
          dc_old_index c = Some i \<and> dc_new_index c = Some j \<and> edit_script old new (Suc i) (Suc j) cs
      | TagDelete \<Rightarrow> i < length old \<and> dc_value c = old ! i \<and> dc_old_index c = Some i \<and> dc_new_index c = None \<and>
          edit_script old new (Suc i) j cs
      | TagInsert \<Rightarrow> j < length new \<and> dc_value c = new ! j \<and> dc_old_index c = None \<and> dc_new_index c = Some j \<and>
          edit_script old new i (Suc j) cs)"

text \<open>The answer for two texts given by their lines: an edit script, whose groups leave out unchanged lines
  only.\<close>

definition diff_ok :: "rstr list \<Rightarrow> rstr list \<Rightarrow> text_diff \<Rightarrow> bool" where
  "diff_ok old new diff \<longleftrightarrow>
     edit_script old new 0 0 (td_changes diff) \<and>
     set (concat (concat (td_groups diff))) \<subseteq> set (td_changes diff) \<and>
     filter (\<lambda>c. dc_tag c \<noteq> TagEqual) (concat (concat (td_groups diff))) =
       filter (\<lambda>c. dc_tag c \<noteq> TagEqual) (td_changes diff)"

lemma edit_script_member:
  assumes "edit_script old new i j cs" "c \<in> set cs"
  shows "(\<forall>k. dc_old_index c = Some k \<longrightarrow> k < length old \<and> dc_value c = old ! k) \<and>
    (\<forall>k. dc_new_index c = Some k \<longrightarrow> k < length new \<and> dc_value c = new ! k) \<and>
    (dc_tag c = TagInsert \<longleftrightarrow> dc_old_index c = None) \<and> (dc_tag c = TagDelete \<longleftrightarrow> dc_new_index c = None)"
  using assms
proof (induction old new i j cs rule: edit_script.induct)
  case (2 old new i j x cs)
  then show ?case by (cases "dc_tag x") auto
qed simp

lemma edit_script_balance:
  "edit_script old new i j cs \<Longrightarrow> i \<le> length old \<Longrightarrow> j \<le> length new \<Longrightarrow>
    (length new - j) + tally_tag TagDelete cs = (length old - i) + tally_tag TagInsert cs"
proof (induction old new i j cs rule: edit_script.induct)
  case (2 old new i j x cs)
  then show ?case by (cases "dc_tag x") (auto simp: tally_tag_def)
qed (simp add: tally_tag_def)

section \<open>The window\<close>

lemma common_prefix_take:
  "take (common_prefix_len xs ys) xs = take (common_prefix_len xs ys) ys"
  "common_prefix_len xs ys \<le> length xs" "common_prefix_len xs ys \<le> length ys"
proof -
  have "take (common_prefix_len xs ys) xs = take (common_prefix_len xs ys) ys \<and>
      common_prefix_len xs ys \<le> length xs \<and> common_prefix_len xs ys \<le> length ys"
    by (induction xs ys rule: list_induct2') (auto simp: common_prefix_len_def)
  then show "take (common_prefix_len xs ys) xs = take (common_prefix_len xs ys) ys"
    "common_prefix_len xs ys \<le> length xs" "common_prefix_len xs ys \<le> length ys" by auto
qed

lemma common_suffix_le: "common_suffix_len xs ys \<le> length xs" "common_suffix_len xs ys \<le> length ys"
  using common_prefix_take(2,3) [of "rev xs" "rev ys"] by (simp_all add: common_suffix_len_def common_prefix_len_def)

text \<open>The window cuts the same number of lines off both texts, at the start and at the end.\<close>

lemma diff_window_cut:
  fixes before_lines after_lines :: "rstr list"
  defines "win \<equiv> diff_window_of before_lines after_lines"
  obtains front tail tail' where "before_lines = front @ dw_before win @ tail" "after_lines = front @ dw_after win @ tail'"
    "length front = dw_start win" "length tail = length tail'"
proof -
  let ?p = "common_prefix_len before_lines after_lines"
  let ?s = "common_suffix_len (drop ?p before_lines) (drop ?p after_lines)"
  let ?a = "dw_start win"
  define e where "e = min (length before_lines - ?s + DIFF_CONTEXT_LINES) (length before_lines)"
  define e' where "e' = min (length after_lines - ?s + DIFF_CONTEXT_LINES) (length after_lines)"
  have p: "?p \<le> length before_lines" "?p \<le> length after_lines" by (rule common_prefix_take)+
  have s: "?s \<le> length before_lines - ?p" "?s \<le> length after_lines - ?p"
    using common_suffix_le [of "drop ?p before_lines" "drop ?p after_lines"] by simp_all
  have win: "?a = ?p - DIFF_CONTEXT_LINES" "dw_before win = drop ?a (take e before_lines)" "dw_after win = drop ?a (take e' after_lines)"
    by (simp_all add: win_def diff_window_of_def Let_def e_def e'_def)
  have a: "?a \<le> ?p" "?a \<le> e" "?a \<le> e'" using win(1) p s by (auto simp: e_def e'_def)
  have front: "take ?a before_lines = take ?a after_lines"
    using common_prefix_take(1) [of before_lines after_lines] a(1) by (metis min.absorb1 take_take)
  have split: "xs = take ?a xs @ drop ?a (take n xs) @ drop n xs" if "?a \<le> n" for xs :: "rstr list" and n
    using that by (metis append_assoc append_take_drop_id min.absorb1 take_take)
  show ?thesis
  proof (rule that [of "take ?a before_lines" "drop e before_lines" "drop e' after_lines"])
    show "before_lines = take ?a before_lines @ dw_before win @ drop e before_lines"
      using split [OF a(2), of before_lines] win(2) by simp
    show "after_lines = take ?a before_lines @ dw_after win @ drop e' after_lines"
      using split [OF a(3), of after_lines] win(3) front by simp
    show "length (take ?a before_lines) = ?a" using a(1) p by simp
    show "length (drop e before_lines) = length (drop e' after_lines)" using s p by (auto simp: e_def e'_def)
  qed
qed

section \<open>The preview is true\<close>

lemma push_lines_take:
  "fst (push_lines strip_str pushed start cs) = map (diff_line strip_str start) (take (MAX_DIFF_LINES - pushed) cs)"
proof (induction strip_str pushed start cs rule: push_lines.induct)
  case (2 strip_str pushed start c cs)
  show ?case
  proof (cases "MAX_DIFF_LINES \<le> pushed")
    case False
    then have "MAX_DIFF_LINES - pushed = Suc (MAX_DIFF_LINES - Suc pushed)" by simp
    with 2 False show ?thesis by (cases "push_lines strip_str (Suc pushed) start cs") simp
  qed simp
qed simp

lemma push_lines_complete:
  "\<not> snd (push_lines strip_str pushed start cs) \<Longrightarrow> pushed \<le> MAX_DIFF_LINES \<Longrightarrow> length cs \<le> MAX_DIFF_LINES - pushed"
proof (induction strip_str pushed start cs rule: push_lines.induct)
  case (2 strip_str pushed start c cs)
  from 2(2,3) have "\<not> MAX_DIFF_LINES \<le> pushed" "\<not> snd (push_lines strip_str (Suc pushed) start cs)"
    by (auto split: if_splits prod.splits)
  with 2(1) 2(3) show ?case by fastforce
qed simp

text \<open>A line of the preview stands for the line \<open>n\<close> (counted from one) of the file with the lines \<open>file_lines\<close>.\<close>

definition shows_line :: "(rstr \<Rightarrow> rstr) \<Rightarrow> rstr list \<Rightarrow> nat \<Rightarrow> presentation_diff_line \<Rightarrow> bool" where
  "shows_line strip_str file_lines n line \<longleftrightarrow>
     0 < n \<and> n \<le> length file_lines \<and> dl_text line = fst (line_preview strip_str (file_lines ! (n - 1)))"

lemma diff_line_shows:
  assumes "k < length win" "dc_value c = win ! k" "file_lines = front @ win @ tail" "length front = start"
  shows "shows_line strip_str file_lines (start + k + 1) (diff_line strip_str start c)"
  using assms by (simp add: shows_line_def diff_line_def nth_append)

text \<open>
  The diff preview of a file is true to the file, although it is computed on a window.  Every line of
  the preview carries the text of the line whose number it shows, in the old text and in the new; there
  are at most 500 of them; the counts of added and removed lines account for the difference in length;
  and a preview that is not marked as truncated shows every changed line.
\<close>

theorem diff_preview_is_true:
  assumes win: "win = diff_window_of (split_inclusive nl before) (split_inclusive nl after)"
    and d: "d = build_text_diff lib strip_str before after"
    and "diff_ok (dw_before win) (dw_after win) (window_diff lib win)"
  shows "(\<forall>line \<in> set (bd_lines d).
      (\<forall>n. dl_old_line line = Some n \<longrightarrow> shows_line strip_str (split_inclusive nl before) n line) \<and>
      (\<forall>n. dl_new_line line = Some n \<longrightarrow> shows_line strip_str (split_inclusive nl after) n line) \<and>
      (dl_kind line = ''add'' \<longleftrightarrow> dl_old_line line = None) \<and> (dl_kind line = ''remove'' \<longleftrightarrow> dl_new_line line = None)) \<and>
    length (bd_lines d) \<le> MAX_DIFF_LINES \<and>
    length (split_inclusive nl after) + bd_removed d = length (split_inclusive nl before) + bd_added d \<and>
    (\<not> bd_truncated d \<longrightarrow>
       length (filter (\<lambda>l. dl_kind l = ''add'') (bd_lines d)) = bd_added d \<and>
       length (filter (\<lambda>l. dl_kind l = ''remove'') (bd_lines d)) = bd_removed d)"
proof -
  let ?diff = "window_diff lib win"
  let ?flat = "concat (concat (td_groups ?diff))"
  obtain front tail tail' where cut: "split_inclusive nl before = front @ dw_before win @ tail"
    "split_inclusive nl after = front @ dw_after win @ tail'" "length front = dw_start win" "length tail = length tail'"
    unfolding win by (rule diff_window_cut)
  have fields: "bd_lines d = map (diff_line strip_str (dw_start win)) (take MAX_DIFF_LINES ?flat)"
    "bd_added d = tally_tag TagInsert (td_changes ?diff)" "bd_removed d = tally_tag TagDelete (td_changes ?diff)"
    "\<not> bd_truncated d \<Longrightarrow> \<not> snd (push_lines strip_str 0 (dw_start win) ?flat)"
    using push_lines_take [of strip_str 0 "dw_start win" ?flat]
    by (auto simp: d build_text_diff_def win Let_def split: prod.splits)
  have script: "edit_script (dw_before win) (dw_after win) 0 0 (td_changes ?diff)"
    and sub: "set ?flat \<subseteq> set (td_changes ?diff)"
    and changed: "filter (\<lambda>c. dc_tag c \<noteq> TagEqual) ?flat = filter (\<lambda>c. dc_tag c \<noteq> TagEqual) (td_changes ?diff)"
    using assms(3) by (simp_all add: diff_ok_def)
  have line: "(\<forall>n. dl_old_line (diff_line strip_str (dw_start win) c) = Some n \<longrightarrow>
        shows_line strip_str (split_inclusive nl before) n (diff_line strip_str (dw_start win) c)) \<and>
      (\<forall>n. dl_new_line (diff_line strip_str (dw_start win) c) = Some n \<longrightarrow>
        shows_line strip_str (split_inclusive nl after) n (diff_line strip_str (dw_start win) c)) \<and>
      (dl_kind (diff_line strip_str (dw_start win) c) = ''add'' \<longleftrightarrow> dl_old_line (diff_line strip_str (dw_start win) c) = None) \<and>
      (dl_kind (diff_line strip_str (dw_start win) c) = ''remove'' \<longleftrightarrow> dl_new_line (diff_line strip_str (dw_start win) c) = None)"
    if "c \<in> set ?flat" for c
  proof -
    have m: "(\<forall>k. dc_old_index c = Some k \<longrightarrow> k < length (dw_before win) \<and> dc_value c = dw_before win ! k) \<and>
      (\<forall>k. dc_new_index c = Some k \<longrightarrow> k < length (dw_after win) \<and> dc_value c = dw_after win ! k) \<and>
      (dc_tag c = TagInsert \<longleftrightarrow> dc_old_index c = None) \<and> (dc_tag c = TagDelete \<longleftrightarrow> dc_new_index c = None)"
      using edit_script_member [OF script] sub that by blast
    have "shows_line strip_str (split_inclusive nl before) (dw_start win + k + 1) (diff_line strip_str (dw_start win) c)"
      if "dc_old_index c = Some k" for k using m that diff_line_shows [OF _ _ cut(1,3)] by blast
    moreover have "shows_line strip_str (split_inclusive nl after) (dw_start win + k + 1) (diff_line strip_str (dw_start win) c)"
      if "dc_new_index c = Some k" for k using m that diff_line_shows [OF _ _ cut(2,3)] by blast
    ultimately show ?thesis using m by (cases "dc_tag c") (auto simp: diff_line_def)
  qed
  have balance: "length (split_inclusive nl after) + bd_removed d = length (split_inclusive nl before) + bd_added d"
    using edit_script_balance [OF script] cut by (simp add: fields)
  have shown: "length (filter (\<lambda>l. dl_kind l = tag_name tag) (bd_lines d)) = tally_tag tag (td_changes ?diff)"
    if "\<not> bd_truncated d" "tag \<noteq> TagEqual" for tag
  proof -
    have "length ?flat \<le> MAX_DIFF_LINES" using push_lines_complete [OF fields(4) [OF that(1)]] by simp
    then have "bd_lines d = map (diff_line strip_str (dw_start win)) ?flat" by (simp add: fields(1))
    moreover have "filter (\<lambda>c. dc_tag c = tag) ?flat = filter (\<lambda>c. dc_tag c = tag) (td_changes ?diff)"
      using arg_cong [OF changed, of "filter (\<lambda>c. dc_tag c = tag)"] that(2)
      by (simp only: filter_filter) (smt (verit) filter_cong)
    moreover have "tag_name a = tag_name tag \<longleftrightarrow> a = tag" for a by (cases a; cases tag) auto
    ultimately show ?thesis by (simp add: tally_tag_def filter_map comp_def diff_line_def)
  qed
  show ?thesis
    using line balance shown [of TagInsert] shown [of TagDelete] by (auto simp: fields dest!: in_set_takeD)
qed

text \<open>A library that removes every old line and adds every new one.\<close>

definition replace_all :: diff_lib where
  "replace_all deadline old new =
     (let changes =
        map (\<lambda>(i, l). \<lparr>dc_tag = TagDelete, dc_old_index = Some i, dc_new_index = None, dc_value = l\<rparr>)
          (enumerate 0 (split_inclusive nl old)) @
        map (\<lambda>(j, l). \<lparr>dc_tag = TagInsert, dc_old_index = None, dc_new_index = Some j, dc_value = l\<rparr>)
          (enumerate 0 (split_inclusive nl new))
      in \<lparr>td_changes = changes, td_groups = [[changes]]\<rparr>)"

definition example_before :: rstr where "example_before = ''a'' @ [nl] @ ''b'' @ [nl] @ ''c'' @ [nl] @ ''d'' @ [nl] @ ''e'' @ [nl]"
definition example_after :: rstr where "example_after = ''a'' @ [nl] @ ''b'' @ [nl] @ ''c'' @ [nl] @ ''d'' @ [nl] @ ''x'' @ [nl]"

theorem diff_preview_is_true_witness:
  "list_all (\<lambda>line. case dl_new_line line of Some n \<Rightarrow> shows_line (\<lambda>s. s) (split_inclusive nl example_after) n line | None \<Rightarrow> True)
     (bd_lines (build_text_diff replace_all (\<lambda>s. s) example_before example_after))"
proof -
  let ?win = "diff_window_of (split_inclusive nl example_before) (split_inclusive nl example_after)"
  have "diff_ok (dw_before ?win) (dw_after ?win) (window_diff replace_all ?win)" by code_simp
  from diff_preview_is_true [OF refl refl this] show ?thesis unfolding list_all_iff by (auto split: option.split)
qed

end
