(* ===== verification/File_Changes.thy ===== *)
theory File_Changes
  imports File_Evidence Text_Diff
begin

text \<open>
  The file changes shown for a tool call (\<^verbatim>\<open>build_file_changes\<close> and its helpers in
  \<^verbatim>\<open>src/local/presentation/build.rs\<close>).  A change is shown only when the plans parsed from the call agree one
  to one with the recorded snapshots, and then says what the snapshots say.
\<close>

section \<open>Stored evidence\<close>

record history_file_evidence =
  he_ordinal :: nat
  he_source_kind :: rstr
  he_operation_hint :: rstr
  he_path_before :: rstr
  he_path_after :: rstr
  he_before_state :: rstr
  he_before_text :: "rstr option"
  he_before_reason :: "rstr option"
  he_destination_before_state :: "rstr option"
  he_destination_before_text :: "rstr option"
  he_destination_before_reason :: "rstr option"
  he_after_state :: rstr
  he_after_text :: "rstr option"
  he_after_reason :: "rstr option"
  he_source_after_state :: "rstr option"
  he_source_after_text :: "rstr option"
  he_source_after_reason :: "rstr option"

fun source_as_str :: "file_evidence_source \<Rightarrow> rstr" where
  "source_as_str ApplyPatch = ''apply_patch''"
| "source_as_str ShellWrite = ''shell_write''"

fun operation_as_str :: "file_operation_hint \<Rightarrow> rstr" where
  "operation_as_str HCreate = ''create''"
| "operation_as_str HUpdate = ''update''"
| "operation_as_str HDelete = ''delete''"
| "operation_as_str HMove = ''move''"
| "operation_as_str HOverwrite = ''overwrite''"
| "operation_as_str HAppend = ''append''"

definition validate_file_change_identity :: "file_capture_plan \<Rightarrow> history_file_evidence \<Rightarrow> bool" where
  "validate_file_change_identity plan evidence \<longleftrightarrow>
     he_source_kind evidence = source_as_str (fp_source plan) \<and>
     he_operation_hint evidence = operation_as_str (fp_operation plan) \<and>
     components (he_path_before evidence) = components (fp_path_before plan) \<and>
     components (he_path_after evidence) = components (fp_path_after plan)"

definition text_state :: "rstr \<Rightarrow> rstr option \<Rightarrow> rstr option" where
  "text_state state contents = (if state = ''text'' then contents else None)"

definition missing_or_text :: "rstr \<Rightarrow> rstr option \<Rightarrow> rstr option" where
  "missing_or_text state contents =
     (if state = ''missing'' then Some [] else if state = ''text'' then contents else None)"

section \<open>Changes\<close>

definition change_with_diff ::
    "diff_lib \<Rightarrow> (rstr \<Rightarrow> rstr) \<Rightarrow> presentation_file_operation \<Rightarrow> rstr \<Rightarrow> rstr option \<Rightarrow> presentation_write_mode option
      \<Rightarrow> rstr \<Rightarrow> rstr \<Rightarrow> presentation_file_change" where
  "change_with_diff lib strip_str operation path old_path write_mode before after =
     (let diff = build_text_diff lib strip_str before after in
      \<lparr>fc_operation = operation, fc_path = sanitize_display_text strip_str path, fc_old_path = old_path,
       fc_write_mode = write_mode, fc_added = bd_added diff, fc_removed = bd_removed diff,
       fc_diff_truncated = bd_truncated diff, fc_diff_lines_included = True, fc_lines = bd_lines diff\<rparr>)"

definition build_file_change ::
    "diff_lib \<Rightarrow> (rstr \<Rightarrow> rstr) \<Rightarrow> file_capture_plan \<Rightarrow> history_file_evidence \<Rightarrow> presentation_file_change option" where
  "build_file_change lib strip_str plan evidence =
     (let hint = he_operation_hint evidence;
          change = (\<lambda>operation. change_with_diff lib strip_str operation (he_path_after evidence));
          before_text = text_state (he_before_state evidence) (he_before_text evidence);
          after_text = text_state (he_after_state evidence) (he_after_text evidence)
      in
      if \<not> validate_file_change_identity plan evidence then None
      else if hint = ''create'' then
        (if he_before_state evidence \<noteq> ''missing'' \<or> he_after_state evidence \<noteq> ''text'' then None
         else map_option (\<lambda>after. change Created None None [] after) (he_after_text evidence))
      else if hint = ''update'' then
        Option.bind before_text (\<lambda>before. map_option (\<lambda>after. change Edited None None before after) after_text)
      else if hint = ''delete'' then
        (if he_after_state evidence \<noteq> ''missing'' then None
         else map_option (\<lambda>before. change Deleted None None before []) before_text)
      else if hint = ''move'' then
        (if he_destination_before_state evidence \<noteq> Some ''missing'' \<or> he_source_after_state evidence \<noteq> Some ''missing''
         then None
         else Option.bind before_text (\<lambda>before. map_option (\<lambda>after.
           change Renamed (Some (sanitize_display_text strip_str (he_path_before evidence))) None before after) after_text))
      else if hint = ''overwrite'' \<or> hint = ''append'' then
        Option.bind (missing_or_text (he_before_state evidence) (he_before_text evidence)) (\<lambda>before.
          Option.bind after_text (\<lambda>after.
            if hint = ''append'' \<and> before \<noteq> [] \<and> \<not> starts_with after before then None
            else Some (change (if he_before_state evidence = ''missing'' then Created else Edited) None
                   (Some (if hint = ''append'' then Append else Overwrite)) before after)))
      else None)"

definition differs_from :: "history_file_evidence \<Rightarrow> history_file_evidence \<Rightarrow> bool" where
  "differs_from first candidate \<longleftrightarrow>
     he_path_before candidate \<noteq> he_path_before first \<or> he_path_after candidate \<noteq> he_path_after first \<or>
     he_before_state candidate \<noteq> he_before_state first \<or> he_before_text candidate \<noteq> he_before_text first \<or>
     he_after_state candidate \<noteq> he_after_state first \<or> he_after_text candidate \<noteq> he_after_text first \<or>
     he_destination_before_state candidate \<noteq> None \<or> he_destination_before_text candidate \<noteq> None \<or>
     he_destination_before_reason candidate \<noteq> None \<or> he_source_after_state candidate \<noteq> None \<or>
     he_source_after_text candidate \<noteq> None \<or> he_source_after_reason candidate \<noteq> None"

definition build_same_path_net_change ::
    "diff_lib \<Rightarrow> (rstr \<Rightarrow> rstr) \<Rightarrow> rstr \<Rightarrow> history_file_evidence list \<Rightarrow> presentation_file_change option" where
  "build_same_path_net_change lib strip_str path evidence =
     (case evidence of
        [] \<Rightarrow> None
      | first # _ \<Rightarrow>
          let change = (\<lambda>operation. change_with_diff lib strip_str operation path None None);
              states = (he_before_state first, he_after_state first)
          in if \<exists>candidate \<in> set evidence. differs_from first candidate then None
             else if states = (''missing'', ''text'') then
               map_option (\<lambda>after. change Created [] after) (he_after_text first)
             else if states = (''text'', ''missing'') then
               map_option (\<lambda>before. change Deleted before []) (he_before_text first)
             else if states = (''text'', ''text'') then
               Option.bind (he_before_text first) (\<lambda>before. map_option (\<lambda>after. change Edited before after) (he_after_text first))
             else None)"

definition same_paths :: "file_capture_plan \<Rightarrow> file_capture_plan \<Rightarrow> bool" where
  "same_paths plan candidate \<longleftrightarrow>
     components (fp_path_before candidate) = components (fp_path_before plan) \<and>
     components (fp_path_after candidate) = components (fp_path_after plan)"

definition touches :: "rstr \<Rightarrow> file_capture_plan \<Rightarrow> bool" where
  "touches path candidate \<longleftrightarrow>
     components (fp_path_before candidate) = components path \<or> components (fp_path_after candidate) = components path"

definition matching_plans :: "file_capture_plan list \<Rightarrow> nat \<Rightarrow> nat list" where
  "matching_plans plans index = filter (\<lambda>j. same_paths (plans ! index) (plans ! j)) [0..<length plans]"

text \<open>One round of the loop: the indices it consumes and the change it adds.\<close>

definition change_at ::
    "diff_lib \<Rightarrow> (rstr \<Rightarrow> rstr) \<Rightarrow> rstr \<Rightarrow> file_capture_plan list \<Rightarrow> history_file_evidence list \<Rightarrow> nat
      \<Rightarrow> (nat list \<times> presentation_file_change) option" where
  "change_at lib strip_str tool_name plans evidences index =
     (let plan = plans ! index; evidence = evidences ! index; matching = matching_plans plans index in
      if \<not> validate_file_change_identity plan evidence then None
      else if tool_name = ''apply_patch'' \<and> \<not> moves plan \<and> 1 < length matching then
        (if \<exists>j \<in> set [0..<length plans]. j \<notin> set matching \<and> touches (fp_path_before plan) (plans ! j) then None
         else if \<exists>j \<in> set matching. \<not> validate_file_change_identity (plans ! j) (evidences ! j) then None
         else map_option (Pair matching)
           (build_same_path_net_change lib strip_str (fp_path_before plan) (map ((!) evidences) matching)))
      else map_option (Pair [index]) (build_file_change lib strip_str plan evidence))"

fun changes_loop ::
    "diff_lib \<Rightarrow> (rstr \<Rightarrow> rstr) \<Rightarrow> rstr \<Rightarrow> file_capture_plan list \<Rightarrow> history_file_evidence list \<Rightarrow> nat list \<Rightarrow> nat list
      \<Rightarrow> presentation_file_change list \<Rightarrow> presentation_file_change list option" where
  "changes_loop lib strip_str tool_name plans evidences [] consumed changes = Some changes"
| "changes_loop lib strip_str tool_name plans evidences (index # indices) consumed changes =
     (if index \<in> set consumed then changes_loop lib strip_str tool_name plans evidences indices consumed changes
      else (case change_at lib strip_str tool_name plans evidences index of
          None \<Rightarrow> None
        | Some (used, change) \<Rightarrow>
            changes_loop lib strip_str tool_name plans evidences indices (used @ consumed) (changes @ [change])))"

definition build_file_changes ::
    "diff_lib \<Rightarrow> (rstr \<Rightarrow> rstr) \<Rightarrow> rstr \<Rightarrow> (rstr \<Rightarrow> rstr option) \<Rightarrow> rstr option \<Rightarrow> rstr option
      \<Rightarrow> history_file_evidence list \<Rightarrow> presentation_file_change list option" where
  "build_file_changes lib strip_str tool_name args outcome_kind result_status evidences =
     (if outcome_kind \<noteq> Some ''success'' \<or> evidences = [] then None
      else if tool_name = ''exec_command'' \<and> result_status \<noteq> Some ''exited'' then None
      else (case parse_file_capture_plans tool_name args of
          None \<Rightarrow> None
        | Some plans \<Rightarrow>
            if length plans \<noteq> length evidences then None
            else changes_loop lib strip_str tool_name plans evidences [0..<length plans] [] []))"

section \<open>Changes say what the snapshots say\<close>

text \<open>The operation agrees with the two states of the file.\<close>

fun operation_ok :: "presentation_file_operation \<Rightarrow> history_file_evidence \<Rightarrow> bool" where
  "operation_ok Created e \<longleftrightarrow> he_before_state e = ''missing'' \<and> he_after_state e = ''text''"
| "operation_ok Edited e \<longleftrightarrow> he_before_state e = ''text'' \<and> he_after_state e = ''text''"
| "operation_ok Deleted e \<longleftrightarrow> he_before_state e = ''text'' \<and> he_after_state e = ''missing''"
| "operation_ok Renamed e \<longleftrightarrow> he_before_state e = ''text'' \<and> he_after_state e = ''text'' \<and>
     he_destination_before_state e = Some ''missing'' \<and> he_source_after_state e = Some ''missing''"

text \<open>The change is the one the evidence \<open>e\<close> shows: its operation, its path, and the diff of the stored texts.\<close>

definition witnessed :: "diff_lib \<Rightarrow> (rstr \<Rightarrow> rstr) \<Rightarrow> history_file_evidence \<Rightarrow> presentation_file_change \<Rightarrow> bool" where
  "witnessed lib strip_str e change \<longleftrightarrow>
     operation_ok (fc_operation change) e \<and>
     (\<exists>path. fc_path change = sanitize_display_text strip_str path \<and> components path = components (he_path_after e)) \<and>
     (\<exists>before after. missing_or_text (he_before_state e) (he_before_text e) = Some before \<and>
        missing_or_text (he_after_state e) (he_after_text e) = Some after \<and>
        (let diff = build_text_diff lib strip_str before after in
         fc_added change = bd_added diff \<and> fc_removed change = bd_removed diff \<and>
         fc_diff_truncated change = bd_truncated diff \<and> fc_lines change = bd_lines diff))"

lemma witnessed_diff:
  assumes "operation_ok operation e" "components path = components (he_path_after e)"
    and "missing_or_text (he_before_state e) (he_before_text e) = Some before"
    and "missing_or_text (he_after_state e) (he_after_text e) = Some after"
  shows "witnessed lib strip_str e (change_with_diff lib strip_str operation path old_path mode before after)"
  using assms by (auto simp: witnessed_def change_with_diff_def Let_def)

lemma text_state_Some: "text_state state contents = Some t \<longleftrightarrow> state = ''text'' \<and> contents = Some t"
  by (simp add: text_state_def)

lemma build_file_change_witnessed:
  assumes "build_file_change lib strip_str plan evidence = Some change"
  shows "validate_file_change_identity plan evidence \<and> witnessed lib strip_str evidence change"
  using assms
  by (auto simp: build_file_change_def Let_def bind_eq_Some_conv text_state_Some missing_or_text_def
      split: if_splits intro!: witnessed_diff)

lemma net_change_witnessed:
  assumes "build_same_path_net_change lib strip_str path evidences = Some change"
    and "e \<in> set evidences" "components path = components (he_path_after e)"
  shows "witnessed lib strip_str e change"
proof -
  obtain first rest where evs: "evidences = first # rest" using assms(2) by (cases evidences) auto
  have same: "he_before_state e = he_before_state first" "he_before_text e = he_before_text first"
    "he_after_state e = he_after_state first" "he_after_text e = he_after_text first"
    using assms(1,2) unfolding evs
    by (auto simp: build_same_path_net_change_def Let_def differs_from_def split: if_splits)
  show ?thesis
    using assms(1,3) same unfolding evs
    by (auto simp: build_same_path_net_change_def Let_def bind_eq_Some_conv missing_or_text_def split: if_splits
        intro!: witnessed_diff)
qed

lemma change_at_cases:
  assumes "change_at lib strip_str tool_name plans evidences index = Some (used, change)"
  obtains (single) "used = [index]" "build_file_change lib strip_str (plans ! index) (evidences ! index) = Some change"
    | (net) "used = matching_plans plans index" "\<not> moves (plans ! index)"
        "\<forall>j \<in> set (matching_plans plans index). validate_file_change_identity (plans ! j) (evidences ! j)"
        "build_same_path_net_change lib strip_str (fp_path_before (plans ! index))
           (map ((!) evidences) (matching_plans plans index)) = Some change"
  using assms by (auto simp: change_at_def Let_def split: if_splits)

lemma change_at_witnessed:
  assumes "change_at lib strip_str tool_name plans evidences index = Some (used, change)" "index < length plans"
  shows "index \<in> set used"
    and "i \<in> set used \<Longrightarrow> i < length plans \<and> validate_file_change_identity (plans ! i) (evidences ! i) \<and>
      witnessed lib strip_str (evidences ! i) change"
proof -
  have self: "index \<in> set (matching_plans plans index)"
    using assms(2) by (simp add: matching_plans_def same_paths_def)
  show "index \<in> set used" using assms(1) by (cases rule: change_at_cases) (simp_all add: self)
  show "i < length plans \<and> validate_file_change_identity (plans ! i) (evidences ! i) \<and> witnessed lib strip_str (evidences ! i) change"
    if "i \<in> set used"
    using assms(1)
  proof (cases rule: change_at_cases)
    case single
    with that assms(2) build_file_change_witnessed [OF single(2)] show ?thesis by simp
  next
    case net
    with that have i: "i \<in> set (matching_plans plans index)" "i < length plans" "same_paths (plans ! index) (plans ! i)"
      by (auto simp: matching_plans_def)
    have valid: "validate_file_change_identity (plans ! i) (evidences ! i)" using net(3) i(1) by blast
    have "components (fp_path_before (plans ! index)) = components (he_path_after (evidences ! i))"
      using valid i(3) net(2) by (simp add: validate_file_change_identity_def same_paths_def moves_def)
    with net_change_witnessed [OF net(4), of "evidences ! i"] i valid show ?thesis by simp
  qed
qed

text \<open>What the loop has established for the indices it has consumed and the changes it has made.\<close>

definition changes_ok ::
    "diff_lib \<Rightarrow> (rstr \<Rightarrow> rstr) \<Rightarrow> file_capture_plan list \<Rightarrow> history_file_evidence list \<Rightarrow> nat set
      \<Rightarrow> presentation_file_change list \<Rightarrow> bool" where
  "changes_ok lib strip_str plans evidences consumed changes \<longleftrightarrow>
     (\<forall>i \<in> consumed. validate_file_change_identity (plans ! i) (evidences ! i) \<and>
        (\<exists>change \<in> set changes. witnessed lib strip_str (evidences ! i) change)) \<and>
     (\<forall>change \<in> set changes. \<exists>i < length plans. witnessed lib strip_str (evidences ! i) change)"

lemma changes_ok_subset:
  "changes_ok lib strip_str plans evidences A changes \<Longrightarrow> B \<subseteq> A \<Longrightarrow> changes_ok lib strip_str plans evidences B changes"
  unfolding changes_ok_def by blast

lemma changes_ok_add:
  assumes "changes_ok lib strip_str plans evidences (set consumed) changes" "used \<noteq> []"
    and "\<And>i. i \<in> set used \<Longrightarrow> i < length plans \<and> validate_file_change_identity (plans ! i) (evidences ! i) \<and>
      witnessed lib strip_str (evidences ! i) change"
  shows "changes_ok lib strip_str plans evidences (set (used @ consumed)) (changes @ [change])"
proof -
  have "\<exists>i < length plans. witnessed lib strip_str (evidences ! i) change"
    using assms(2) assms(3) [of "hd used"] by (cases used) auto
  then show ?thesis using assms(1,3) unfolding changes_ok_def by auto
qed

lemma changes_loop_ok:
  assumes "changes_loop lib strip_str tool_name plans evidences indices consumed changes = Some result"
    and "changes_ok lib strip_str plans evidences (set consumed) changes" "set indices \<subseteq> {..<length plans}"
  shows "changes_ok lib strip_str plans evidences (set indices \<union> set consumed) result"
  using assms
proof (induction lib strip_str tool_name plans evidences indices consumed changes rule: changes_loop.induct)
  case (2 lib strip_str tool_name plans evidences index indices consumed changes)
  show ?case
  proof (cases "index \<in> set consumed")
    case True
    then show ?thesis using 2 by (auto simp: insert_absorb)
  next
    case False
    then obtain used change where at: "change_at lib strip_str tool_name plans evidences index = Some (used, change)"
      and rest: "changes_loop lib strip_str tool_name plans evidences indices (used @ consumed) (changes @ [change]) = Some result"
      using "2.prems"(1) by (auto split: option.splits)
    note facts = change_at_witnessed [OF at]
    have "changes_ok lib strip_str plans evidences (set (used @ consumed)) (changes @ [change])"
      by (rule changes_ok_add [OF "2.prems"(2)]) (use facts "2.prems"(3) in auto)
    then have "changes_ok lib strip_str plans evidences (set indices \<union> set (used @ consumed)) result"
      using "2.IH"(2) [OF False at refl rest] "2.prems"(3) by simp
    then show ?thesis by (rule changes_ok_subset) (use facts(1) "2.prems"(3) in auto)
  qed
qed simp

text \<open>
  File changes are shown only on evidence.  When changes are shown for a tool call, the call
  succeeded, the plans parsed from its arguments agree one to one with the recorded evidence in
  source, operation and paths, every change shown is the one some evidence witnesses, with the diff of
  the stored texts, and no evidence is left without its change.
\<close>

theorem file_changes_are_witnessed:
  assumes "build_file_changes lib strip_str tool_name args outcome_kind result_status evidences = Some changes"
  shows "outcome_kind = Some ''success'' \<and> (tool_name = ''exec_command'' \<longrightarrow> result_status = Some ''exited'') \<and>
    (\<exists>plans. parse_file_capture_plans tool_name args = Some plans \<and>
       list_all2 validate_file_change_identity plans evidences) \<and>
    (\<forall>change \<in> set changes. \<exists>e \<in> set evidences. witnessed lib strip_str e change) \<and>
    (\<forall>e \<in> set evidences. \<exists>change \<in> set changes. witnessed lib strip_str e change)"
proof -
  obtain plans where plans: "parse_file_capture_plans tool_name args = Some plans" "length plans = length evidences"
    and loop: "changes_loop lib strip_str tool_name plans evidences [0..<length plans] [] [] = Some changes"
    and guards: "outcome_kind = Some ''success''" "tool_name = ''exec_command'' \<longrightarrow> result_status = Some ''exited''"
    using assms by (auto simp: build_file_changes_def split: if_splits option.splits)
  have "changes_ok lib strip_str plans evidences (set [0..<length plans] \<union> set []) changes"
    by (rule changes_loop_ok [OF loop]) (auto simp: changes_ok_def)
  then have ok: "changes_ok lib strip_str plans evidences {..<length evidences} changes"
    using plans(2) by (simp add: atLeast_upt)
  then have "list_all2 validate_file_change_identity plans evidences"
    using plans(2) by (simp add: list_all2_conv_all_nth changes_ok_def)
  moreover have "\<forall>change \<in> set changes. \<exists>e \<in> set evidences. witnessed lib strip_str e change"
    using ok plans(2) unfolding changes_ok_def by (metis nth_mem)
  moreover have "\<forall>e \<in> set evidences. \<exists>change \<in> set changes. witnessed lib strip_str e change"
    using ok unfolding changes_ok_def by (metis in_set_conv_nth lessThan_iff)
  ultimately show ?thesis using guards plans(1) by blast
qed

text \<open>The evidence of a patch that deletes a file.\<close>

definition example_evidence :: history_file_evidence where
  "example_evidence =
     \<lparr>he_ordinal = 0, he_source_kind = ''apply_patch'', he_operation_hint = ''delete'', he_path_before = ''/w/a'',
      he_path_after = ''/w/a'', he_before_state = ''text'', he_before_text = Some ''x'', he_before_reason = None,
      he_destination_before_state = None, he_destination_before_text = None, he_destination_before_reason = None,
      he_after_state = ''missing'', he_after_text = None, he_after_reason = None, he_source_after_state = None,
      he_source_after_text = None, he_source_after_reason = None\<rparr>"

lemma example_changes:
  "build_file_changes lib strip_str ''apply_patch'' example_patch_call (Some ''success'') None [example_evidence] =
     Some [change_with_diff lib strip_str Deleted ''/w/a'' None None ''x'' []]"
  by (simp add: build_file_changes_def parse_file_capture_plans_def example_patch_plans change_at_def Let_def moves_def
      matching_plans_def same_path_plan_def validate_file_change_identity_def example_evidence_def build_file_change_def
      text_state_def)

theorem file_changes_are_witnessed_witness:
  "witnessed replace_all (\<lambda>s. s) example_evidence (change_with_diff replace_all (\<lambda>s. s) Deleted ''/w/a'' None None ''x'' [])"
  using file_changes_are_witnessed [OF example_changes] by simp

end
