(* ===== verification/Presentation_Build.thy ===== *)
theory Presentation_Build
  imports File_Changes "HOL-Library.Multiset" "HOL-Library.Product_Lexorder"
begin

text \<open>
  The presentation of the history (\<^verbatim>\<open>src/local/presentation/build.rs\<close> and \<^verbatim>\<open>input.rs\<close>): one record per tool
  call, except that calls which only poll a running command are folded into the record of that
  command, or into one record per command when it is not among the inputs.
\<close>

section \<open>Inputs\<close>

text \<open>As much of \<^verbatim>\<open>serde_json::Value\<close> as the code distinguishes in the arguments of a call.\<close>

datatype arg_value = ArgString rstr | ArgBool bool | ArgNull | ArgOther

definition arg_str :: "(rstr \<Rightarrow> arg_value option) \<Rightarrow> rstr \<Rightarrow> rstr option" where
  "arg_str arguments name = (case arguments name of Some (ArgString s) \<Rightarrow> Some s | _ \<Rightarrow> None)"

record presentation_poll_aggregate_input =
  pa_count :: nat
  pa_final_status :: "rstr option"
  pa_final_cwd :: "rstr option"
  pa_final_exit_code :: "int option"
  pa_final_termination_reason :: "rstr option"
  pa_latest_completed_at_ms :: "int option"
  pa_caller_agent_ids :: "rstr list"
  pa_cross_agent :: bool
  pa_raw_invocation_ids :: "int list"
  pa_evidence :: presentation_evidence

record presentation_orphan_poll_input =
  po_primary_invocation_id :: int
  po_started_at_ms :: int
  po_aggregate :: presentation_poll_aggregate_input

record presentation_input =
  pi_id :: int
  pi_agent_id :: "rstr option"
  pi_tool_name :: rstr
  pi_arguments :: "rstr \<Rightarrow> arg_value option"
  pi_declared_workdir_exact :: "rstr option"
  pi_declared_workdir_normalized :: "rstr option"
  pi_is_new_workdir :: bool
  pi_started_at_ms :: int
  pi_completed_at_ms :: "int option"
  pi_duration_ms :: "int option"
  pi_outcome_kind :: "rstr option"
  pi_error :: "rstr option"
  pi_result_summary :: "rstr option"
  pi_result_output :: "rstr option"
  pi_evidence_state :: rstr
  pi_evidence_reason :: "rstr option"
  pi_capture_state :: rstr
  pi_capture_reason :: "rstr option"
  pi_target_session_handle :: "rstr option"
  pi_target_created_by_agent_id :: "rstr option"
  pi_target_created_by_invocation_id :: "int option"
  pi_target_command :: "rstr option"
  pi_continuation_kind :: "rstr option"
  pi_cross_agent :: "bool option"
  pi_result_status :: "rstr option"
  pi_result_cwd :: "rstr option"
  pi_result_session_handle :: "rstr option"
  pi_result_exit_code :: "int option"
  pi_result_termination_reason :: "rstr option"
  pi_process_state :: "rstr option"
  pi_process_started_at_ms :: "int option"
  pi_process_ended_at_ms :: "int option"
  pi_process_exit_code :: "int option"
  pi_process_termination_reason :: "rstr option"
  pi_process_cwd :: "rstr option"
  pi_process_incomplete_reason :: "rstr option"
  pi_output_preview :: "rstr option"
  pi_output_preview_truncated :: bool
  pi_file_evidence :: "history_file_evidence list"
  pi_folded_polls :: "presentation_poll_aggregate_input option"
  pi_orphan_poll_group :: "presentation_orphan_poll_input option"

text \<open>The crates used: the diff library and the removal of ANSI escape sequences.\<close>

record present_env =
  pe_diff :: diff_lib
  pe_strip :: "rstr \<Rightarrow> rstr"

abbreviation clean :: "present_env \<Rightarrow> rstr \<Rightarrow> rstr" where
  "clean env \<equiv> sanitize_display_text (pe_strip env)"

abbreviation preview_text :: "present_env \<Rightarrow> rstr \<Rightarrow> nat \<Rightarrow> rstr \<times> bool" where
  "preview_text env \<equiv> sanitize_preview (pe_strip env)"

definition MAX_COMMAND_PREVIEW_CHARS :: nat where "MAX_COMMAND_PREVIEW_CHARS = 4096"
definition MAX_OUTPUT_PREVIEW_CHARS :: nat where "MAX_OUTPUT_PREVIEW_CHARS = 16384"
definition MAX_STDIN_PREVIEW_CHARS :: nat where "MAX_STDIN_PREVIEW_CHARS = 4096"
definition MAX_GENERIC_SUMMARY_CHARS :: nat where "MAX_GENERIC_SUMMARY_CHARS = 2048"

text \<open>\<^verbatim>\<open>Option::or\<close> and \<^verbatim>\<open>i64::saturating_sub\<close>.\<close>

fun or_else :: "'a option \<Rightarrow> 'a option \<Rightarrow> 'a option" where
  "or_else (Some x) _ = Some x"
| "or_else None y = y"

definition sat_sub_i64 :: "int \<Rightarrow> int \<Rightarrow> int" where
  "sat_sub_i64 a b = max (- (2 ^ 63)) (min (2 ^ 63 - 1) (a - b))"

definition unwrap_str :: "rstr option \<Rightarrow> rstr \<Rightarrow> rstr" where
  "unwrap_str x d = (case x of None \<Rightarrow> d | Some s \<Rightarrow> s)"

section \<open>Kinds of calls\<close>

definition input_continuation_kind :: "presentation_input \<Rightarrow> rstr option" where
  "input_continuation_kind record =
     (if pi_tool_name record \<noteq> ''write_stdin'' then None
      else (case pi_continuation_kind record of
          Some kind \<Rightarrow> Some kind
        | None \<Rightarrow>
            if pi_arguments record ''kill_process'' = Some (ArgBool True) then Some ''kill''
            else (case pi_arguments record ''chars'' of
                Some (ArgString chars) \<Rightarrow> Some (if chars \<noteq> [] then ''stdin'' else ''poll'')
              | Some ArgNull \<Rightarrow> Some ''poll''
              | None \<Rightarrow> Some ''poll''
              | Some _ \<Rightarrow> None)))"

definition input_is_poll :: "presentation_input \<Rightarrow> bool" where
  "input_is_poll record \<longleftrightarrow> input_continuation_kind record = Some ''poll''"

definition status_for :: "presentation_input \<Rightarrow> rstr" where
  "status_for record =
     (case pi_result_status record of
        Some status \<Rightarrow> status
      | None \<Rightarrow>
          if pi_outcome_kind record = Some ''error'' then ''failed''
          else if pi_completed_at_ms record = None then ''in_progress''
          else ''completed'')"

fun unique_from :: "'a list \<Rightarrow> 'a list \<Rightarrow> 'a list" where
  "unique_from seen [] = []"
| "unique_from seen (a # as) = (if a \<in> set seen then unique_from seen as else a # unique_from (a # seen) as)"

definition unique_agent_ids :: "presentation_input list \<Rightarrow> rstr list" where
  "unique_agent_ids records = unique_from [] (List.map_filter pi_agent_id records)"

section \<open>Evidence\<close>

definition evidence_for :: "present_env \<Rightarrow> presentation_input \<Rightarrow> presentation_evidence" where
  "evidence_for env record =
     \<lparr>pv_evidence_state = pi_evidence_state record, pv_capture_state = pi_capture_state record,
      pv_degraded = (pi_evidence_state record = ''incomplete'' \<or> pi_capture_state record = ''incomplete'' \<or>
        pi_process_state record = Some ''incomplete''),
      pv_reason = map_option (clean env)
        (or_else (pi_evidence_reason record) (or_else (pi_capture_reason record) (pi_process_incomplete_reason record)))\<rparr>"

definition worst_evidence :: "rstr set \<Rightarrow> rstr" where
  "worst_evidence states =
     (if ''incomplete'' \<in> states then ''incomplete'' else if ''pending'' \<in> states then ''pending'' else ''complete'')"

definition worst_capture :: "rstr set \<Rightarrow> rstr" where
  "worst_capture states =
     (if ''incomplete'' \<in> states then ''incomplete'' else if ''pending'' \<in> states then ''pending''
      else if ''complete'' \<in> states then ''complete'' else ''not_applicable'')"

definition combined_evidence :: "present_env \<Rightarrow> presentation_input list \<Rightarrow> presentation_evidence" where
  "combined_evidence env records =
     \<lparr>pv_evidence_state = worst_evidence (set (map pi_evidence_state records)),
      pv_capture_state = worst_capture (set (map pi_capture_state records)),
      pv_degraded = (\<exists>r \<in> set records. pv_degraded (evidence_for env r)),
      pv_reason = (case List.map_filter (\<lambda>r. pv_reason (evidence_for env r)) records of [] \<Rightarrow> None | reason # _ \<Rightarrow> Some reason)\<rparr>"

definition combine_evidence_values :: "presentation_evidence \<Rightarrow> presentation_evidence \<Rightarrow> presentation_evidence" where
  "combine_evidence_values left right =
     \<lparr>pv_evidence_state = worst_evidence {pv_evidence_state left, pv_evidence_state right},
      pv_capture_state = worst_capture {pv_capture_state left, pv_capture_state right},
      pv_degraded = (pv_degraded left \<or> pv_degraded right),
      pv_reason = or_else (pv_reason left) (pv_reason right)\<rparr>"

section \<open>Records\<close>

record raw_identity =
  ri_primary :: int
  ri_count :: nat
  ri_ids :: "int list"
  ri_truncated :: bool

definition raw_identity_of :: "int \<Rightarrow> nat \<Rightarrow> int list \<Rightarrow> raw_identity" where
  "raw_identity_of primary_invocation_id raw_evidence_count ids =
     (let raw_invocation_ids = take PRESENTATION_RAW_INVOCATION_ID_SAMPLE_LIMIT ids in
      \<lparr>ri_primary = primary_invocation_id, ri_count = raw_evidence_count, ri_ids = raw_invocation_ids,
       ri_truncated = (length raw_invocation_ids < raw_evidence_count)\<rparr>)"

definition record_with_kind ::
    "present_env \<Rightarrow> presentation_input \<Rightarrow> raw_identity \<Rightarrow> int option \<Rightarrow> presentation_kind \<Rightarrow> presentation_record" where
  "record_with_kind env record identity duration_ms kind =
     \<lparr>pr_presentation_id = presentation_id_for_root (ri_primary identity),
      pr_primary_invocation_id = ri_primary identity, pr_raw_evidence_count = ri_count identity,
      pr_raw_invocation_ids = ri_ids identity, pr_raw_invocation_ids_truncated = ri_truncated identity,
      pr_agent_id = pi_agent_id record,
      pr_declared_workdir = map_option (clean env) (pi_declared_workdir_exact record),
      pr_normalized_workdir = map_option (clean env) (pi_declared_workdir_normalized record),
      pr_new_workdir = (if pi_is_new_workdir record
        then Some (clean env (unwrap_str (or_else (pi_declared_workdir_normalized record) (pi_declared_workdir_exact record))
          ''<unknown-workdir>''))
        else None),
      pr_started_at_ms = pi_started_at_ms record, pr_duration_ms = duration_ms,
      pr_evidence = evidence_for env record, pr_kind = kind\<rparr>"

definition single_identity :: "presentation_input \<Rightarrow> raw_identity" where
  "single_identity record = raw_identity_of (pi_id record) 1 [pi_id record]"

definition generic_record :: "present_env \<Rightarrow> presentation_input \<Rightarrow> presentation_record" where
  "generic_record env record =
     record_with_kind env record (single_identity record) (pi_duration_ms record)
       (Generic (clean env (pi_tool_name record)) (status_for record)
          (map_option (\<lambda>summary. fst (preview_text env summary MAX_GENERIC_SUMMARY_CHARS))
             (or_else (pi_error record) (pi_result_summary record))))"

definition lifecycle_duration :: "presentation_input \<Rightarrow> int option" where
  "lifecycle_duration record =
     Option.bind (pi_process_ended_at_ms record) (\<lambda>ended.
       map_option (\<lambda>started. sat_sub_i64 ended started) (pi_process_started_at_ms record))"

record command_facts =
  cf_status :: rstr
  cf_effective_cwd :: "rstr option"
  cf_exit_code :: "int option"
  cf_termination_reason :: "rstr option"
  cf_duration_ms :: "int option"

definition reported_facts :: "present_env \<Rightarrow> presentation_input \<Rightarrow> presentation_input \<Rightarrow> command_facts" where
  "reported_facts env record latest =
     \<lparr>cf_status = status_for latest,
      cf_effective_cwd = map_option (clean env) (or_else (pi_result_cwd latest) (pi_result_cwd record)),
      cf_exit_code = or_else (pi_result_exit_code latest) (pi_result_exit_code record),
      cf_termination_reason = or_else (pi_result_termination_reason latest) (pi_result_termination_reason record),
      cf_duration_ms = or_else
        (map_option (\<lambda>completed. sat_sub_i64 completed (pi_started_at_ms record)) (pi_completed_at_ms latest))
        (pi_duration_ms record)\<rparr>"

definition aggregate_facts ::
    "present_env \<Rightarrow> presentation_input \<Rightarrow> presentation_poll_aggregate_input \<Rightarrow> command_facts" where
  "aggregate_facts env record aggregate =
     \<lparr>cf_status = unwrap_str (pa_final_status aggregate) (status_for record),
      cf_effective_cwd = map_option (clean env) (or_else (pa_final_cwd aggregate) (pi_result_cwd record)),
      cf_exit_code = or_else (pa_final_exit_code aggregate) (pi_result_exit_code record),
      cf_termination_reason = or_else (pa_final_termination_reason aggregate) (pi_result_termination_reason record),
      cf_duration_ms = or_else
        (map_option (\<lambda>completed. sat_sub_i64 completed (pi_started_at_ms record)) (pa_latest_completed_at_ms aggregate))
        (pi_duration_ms record)\<rparr>"

definition command_facts_of ::
    "present_env \<Rightarrow> presentation_input \<Rightarrow> presentation_input option \<Rightarrow> presentation_poll_aggregate_input option \<Rightarrow> command_facts" where
  "command_facts_of env record latest_poll aggregate =
     (let lifecycle_cwd = map_option (clean env) (or_else (pi_process_cwd record) (pi_result_cwd record)) in
      if pi_process_state record = Some ''running'' then
        \<lparr>cf_status = ''running'', cf_effective_cwd = lifecycle_cwd, cf_exit_code = None, cf_termination_reason = None,
         cf_duration_ms = pi_duration_ms record\<rparr>
      else if pi_process_state record = Some ''exited'' then
        \<lparr>cf_status = ''exited'', cf_effective_cwd = lifecycle_cwd, cf_exit_code = pi_process_exit_code record,
         cf_termination_reason = pi_process_termination_reason record,
         cf_duration_ms = or_else (lifecycle_duration record) (pi_duration_ms record)\<rparr>
      else if pi_process_state record = Some ''incomplete'' then
        \<lparr>cf_status = ''incomplete'', cf_effective_cwd = lifecycle_cwd, cf_exit_code = None, cf_termination_reason = None,
         cf_duration_ms = pi_duration_ms record\<rparr>
      else (case aggregate of
          Some a \<Rightarrow>
            if 0 < pa_count a then aggregate_facts env record a
            else reported_facts env record (case latest_poll of None \<Rightarrow> record | Some poll \<Rightarrow> poll)
        | None \<Rightarrow> reported_facts env record (case latest_poll of None \<Rightarrow> record | Some poll \<Rightarrow> poll)))"

definition poll_summary_from_aggregate :: "presentation_poll_aggregate_input \<Rightarrow> presentation_poll_summary" where
  "poll_summary_from_aggregate aggregate =
     \<lparr>ps_count = pa_count aggregate, ps_final_status = pa_final_status aggregate,
      ps_caller_agent_ids = pa_caller_agent_ids aggregate, ps_cross_agent = pa_cross_agent aggregate\<rparr>"

definition last_of :: "'a list \<Rightarrow> 'a option" where
  "last_of xs = (if xs = [] then None else Some (last xs))"

definition crosses_agents :: "presentation_input list \<Rightarrow> bool" where
  "crosses_agents polls \<longleftrightarrow> (\<exists>poll \<in> set polls. pi_cross_agent poll = Some True)"

definition command_record :: "present_env \<Rightarrow> presentation_input \<Rightarrow> presentation_input list \<Rightarrow> presentation_record" where
  "command_record env record polls =
     (let command = fst (preview_text env (unwrap_str (arg_str (pi_arguments record) ''cmd'') ''<unavailable command>'')
            MAX_COMMAND_PREVIEW_CHARS);
          latest_poll = last_of polls;
          facts = command_facts_of env record latest_poll (pi_folded_polls record);
          shown = map_option (\<lambda>text. preview_text env text MAX_OUTPUT_PREVIEW_CHARS)
            (or_else (pi_output_preview record) (pi_result_output record));
          output = map_option fst shown;
          output_truncated = (case shown of None \<Rightarrow> False | Some (_, shortened) \<Rightarrow> shortened \<or> pi_output_preview_truncated record);
          (poll_summary, identity, poll_evidence) = (case pi_folded_polls record of
              Some aggregate \<Rightarrow>
                (if 0 < pa_count aggregate then Some (poll_summary_from_aggregate aggregate) else None,
                 raw_identity_of (pi_id record) (sat_add (pa_count aggregate) 1) (pi_id record # pa_raw_invocation_ids aggregate),
                 if 0 < pa_count aggregate then Some (pa_evidence aggregate) else None)
            | None \<Rightarrow>
                (if polls \<noteq> [] then Some \<lparr>ps_count = length polls, ps_final_status = map_option status_for latest_poll,
                   ps_caller_agent_ids = unique_agent_ids polls, ps_cross_agent = crosses_agents polls\<rparr> else None,
                 raw_identity_of (pi_id record) (sat_add (length polls) 1) (pi_id record # map pi_id polls),
                 None));
          presented = record_with_kind env record identity (cf_duration_ms facts)
            (Command command (cf_status facts) (cf_effective_cwd facts) (cf_exit_code facts) (cf_termination_reason facts)
               output output_truncated poll_summary)
      in case poll_evidence of
           Some e \<Rightarrow> presented\<lparr>pr_evidence := combine_evidence_values (pr_evidence presented) e\<rparr>
         | None \<Rightarrow>
             if polls \<noteq> [] then presented\<lparr>pr_evidence := combined_evidence env (record # polls)\<rparr>
             else presented)"

definition write_stdin_record :: "present_env \<Rightarrow> presentation_input \<Rightarrow> presentation_record" where
  "write_stdin_record env record =
     (let handle = clean env (unwrap_str (pi_target_session_handle record) ''<unknown-session>'');
          present = record_with_kind env record (single_identity record) (pi_duration_ms record);
          cross_agent = (pi_cross_agent record = Some True);
          kind = input_continuation_kind record
      in if kind = Some ''kill'' then
           present (Kill handle
             (map_option (\<lambda>command. fst (preview_text env command MAX_COMMAND_PREVIEW_CHARS)) (pi_target_command record))
             (pi_target_created_by_agent_id record) cross_agent (Some (status_for record)))
         else if kind = Some ''stdin'' then
           (case arg_str (pi_arguments record) ''chars'' of
              None \<Rightarrow> generic_record env record
            | Some chars \<Rightarrow>
                (case preview_text env chars MAX_STDIN_PREVIEW_CHARS of
                   (shown, shortened) \<Rightarrow>
                     present (Stdin handle shown shortened (pi_target_created_by_agent_id record) cross_agent
                       (Some (status_for record)))))
         else generic_record env record)"

text \<open>Called for groups that are not empty.\<close>

definition orphan_poll_record :: "present_env \<Rightarrow> presentation_input list \<Rightarrow> int option \<Rightarrow> presentation_record" where
  "orphan_poll_record env polls retained_parent_id =
     (let latest = last polls; earliest = hd polls;
          primary_invocation_id = (case retained_parent_id of None \<Rightarrow> pi_id earliest | Some parent_id \<Rightarrow> parent_id)
      in (record_with_kind env latest (raw_identity_of primary_invocation_id (length polls) (map pi_id polls))
            (pi_duration_ms latest)
            (PollAggregate (clean env (unwrap_str (pi_target_session_handle latest) ''<unknown-session>'')) (length polls)
               (Some (status_for latest)) (pi_target_created_by_agent_id latest) (unique_agent_ids polls)
               (crosses_agents polls)))
          \<lparr>pr_started_at_ms := pi_started_at_ms earliest, pr_evidence := combined_evidence env polls\<rparr>)"

definition orphan_poll_aggregate_record ::
    "present_env \<Rightarrow> presentation_input \<Rightarrow> presentation_orphan_poll_input \<Rightarrow> presentation_record" where
  "orphan_poll_aggregate_record env record orphan =
     (let aggregate = po_aggregate orphan in
      (record_with_kind env record
         (raw_identity_of (po_primary_invocation_id orphan) (pa_count aggregate) (pa_raw_invocation_ids aggregate))
         (pi_duration_ms record)
         (PollAggregate (clean env (unwrap_str (pi_target_session_handle record) ''<unknown-session>'')) (pa_count aggregate)
            (pa_final_status aggregate) (pi_target_created_by_agent_id record) (pa_caller_agent_ids aggregate)
            (pa_cross_agent aggregate)))
       \<lparr>pr_started_at_ms := po_started_at_ms orphan, pr_evidence := pa_evidence aggregate\<rparr>)"

section \<open>The document\<close>

definition is_command :: "presentation_input \<Rightarrow> bool" where
  "is_command record \<longleftrightarrow> pi_tool_name record = ''exec_command''"

definition command_ids :: "presentation_input list \<Rightarrow> int list" where
  "command_ids records = map pi_id (filter is_command records)"

definition parent_handles :: "presentation_input list \<Rightarrow> rstr list" where
  "parent_handles records = List.map_filter pi_result_session_handle (filter is_command records)"

definition sort_invocations :: "presentation_input list \<Rightarrow> presentation_input list" where
  "sort_invocations records = sort_key (\<lambda>record. (pi_started_at_ms record, pi_id record)) records"

text \<open>The entries of the maps \<^verbatim>\<open>polls_by_parent\<close> and \<^verbatim>\<open>legacy_polls_by_handle\<close>; a missing entry is the empty list.\<close>

definition polls_by_parent :: "presentation_input list \<Rightarrow> int \<Rightarrow> presentation_input list" where
  "polls_by_parent records parent_id =
     sort_invocations (filter (\<lambda>r. input_is_poll r \<and> pi_target_created_by_invocation_id r = Some parent_id) records)"

definition legacy_polls_by_handle :: "presentation_input list \<Rightarrow> rstr \<Rightarrow> presentation_input list" where
  "legacy_polls_by_handle records handle =
     sort_invocations (filter (\<lambda>r. input_is_poll r \<and> pi_target_created_by_invocation_id r = None \<and>
       pi_target_session_handle r = Some handle) records)"

text \<open>\<^verbatim>\<open>Vec::dedup_by_key\<close>\<close>

fun dedup_by_id :: "presentation_input list \<Rightarrow> presentation_input list" where
  "dedup_by_id (x # y # xs) = (if pi_id y = pi_id x then dedup_by_id (x # xs) else x # dedup_by_id (y # xs))"
| "dedup_by_id xs = xs"

definition polls_of_command :: "presentation_input list \<Rightarrow> presentation_input \<Rightarrow> presentation_input list" where
  "polls_of_command records record =
     dedup_by_id (sort_invocations (polls_by_parent records (pi_id record) @
       (case pi_result_session_handle record of None \<Rightarrow> [] | Some handle \<Rightarrow> legacy_polls_by_handle records handle)))"

definition file_changes_of :: "present_env \<Rightarrow> presentation_input \<Rightarrow> presentation_file_change list option" where
  "file_changes_of env record =
     build_file_changes (pe_diff env) (pe_strip env) (pi_tool_name record) (arg_str (pi_arguments record))
       (pi_outcome_kind record) (pi_result_status record) (pi_file_evidence record)"

text \<open>The record of a call that is not a poll.\<close>

definition present_call :: "present_env \<Rightarrow> presentation_input list \<Rightarrow> presentation_input \<Rightarrow> presentation_record" where
  "present_call env records record =
     (case file_changes_of env record of
        Some changes \<Rightarrow>
          record_with_kind env record (single_identity record) (pi_duration_ms record)
            (FileChanges (pi_tool_name record) changes)
      | None \<Rightarrow>
          if pi_tool_name record = ''exec_command'' then command_record env record (polls_of_command records record)
          else if pi_tool_name record = ''write_stdin'' then write_stdin_record env record
          else generic_record env record)"

fun present_loop ::
    "present_env \<Rightarrow> presentation_input list \<Rightarrow> int list \<Rightarrow> rstr list \<Rightarrow> presentation_input list \<Rightarrow> presentation_record list" where
  "present_loop env records parents handles [] = []"
| "present_loop env records parents handles (record # rest) =
     (case pi_orphan_poll_group record of
        Some orphan \<Rightarrow> orphan_poll_aggregate_record env record orphan # present_loop env records parents handles rest
      | None \<Rightarrow>
          if \<not> input_is_poll record then present_call env records record # present_loop env records parents handles rest
          else (case pi_target_created_by_invocation_id record of
              Some parent_id \<Rightarrow>
                if parent_id \<in> set (command_ids records) \<or> parent_id \<in> set parents
                then present_loop env records parents handles rest
                else orphan_poll_record env (polls_by_parent records parent_id) (Some parent_id) #
                  present_loop env records (parent_id # parents) handles rest
            | None \<Rightarrow>
                (case pi_target_session_handle record of
                   None \<Rightarrow> generic_record env record # present_loop env records parents handles rest
                 | Some handle \<Rightarrow>
                     if handle \<in> set (parent_handles records) \<or> handle \<in> set handles
                     then present_loop env records parents handles rest
                     else orphan_poll_record env (legacy_polls_by_handle records handle) None #
                       present_loop env records parents (handle # handles) rest)))"

record history_agent_summary =
  ha_id :: rstr
  ha_first_seen_at_ms :: int
  ha_last_seen_at_ms :: int
  ha_workdirs :: "history_agent_workdir list"

definition PRESENTATION_SCHEMA_VERSION :: nat where "PRESENTATION_SCHEMA_VERSION = 3"

definition present_agent :: "present_env \<Rightarrow> history_agent_summary \<Rightarrow> presentation_agent" where
  "present_agent env agent =
     \<lparr>pg_id = ha_id agent, pg_first_seen_at_ms = ha_first_seen_at_ms agent, pg_last_seen_at_ms = ha_last_seen_at_ms agent,
      pg_workdirs = map (\<lambda>w. \<lparr>pw_normalized_workdir = clean env (hw_normalized_workdir w),
        pw_first_seen_at_ms = hw_first_seen_at_ms w, pw_last_seen_at_ms = hw_last_seen_at_ms w,
        pw_first_invocation_id = hw_first_invocation_id w, pw_last_invocation_id = hw_last_invocation_id w,
        pw_retained_invocation_count = hw_retained_invocation_count w\<rparr>) (ha_workdirs agent)\<rparr>"

record presentation_document =
  pd_schema_version :: nat
  pd_agents :: "presentation_agent list"
  pd_records :: "presentation_record list"

definition build_presentation_inputs ::
    "present_env \<Rightarrow> presentation_input list \<Rightarrow> history_agent_summary list \<Rightarrow> presentation_document" where
  "build_presentation_inputs env records agents =
     \<lparr>pd_schema_version = PRESENTATION_SCHEMA_VERSION, pd_agents = map (present_agent env) agents,
      pd_records = present_loop env records [] [] records\<rparr>"

section \<open>Groups of invocations\<close>

text \<open>The record an invocation belongs to: the call itself, the command a poll refers to, or the command or
  session that is not among the inputs.\<close>

datatype group_key = OfCall int | OfParent int | OfHandle rstr

definition command_with_handle :: "presentation_input list \<Rightarrow> rstr \<Rightarrow> presentation_input option" where
  "command_with_handle records handle = find (\<lambda>r. is_command r \<and> pi_result_session_handle r = Some handle) records"

definition group_of :: "presentation_input list \<Rightarrow> presentation_input \<Rightarrow> group_key" where
  "group_of records r =
     (if \<not> input_is_poll r then OfCall (pi_id r)
      else (case pi_target_created_by_invocation_id r of
          Some parent_id \<Rightarrow> if parent_id \<in> set (command_ids records) then OfCall parent_id else OfParent parent_id
        | None \<Rightarrow>
            (case pi_target_session_handle r of
               None \<Rightarrow> OfCall (pi_id r)
             | Some handle \<Rightarrow>
                 (case command_with_handle records handle of
                    Some command \<Rightarrow> OfCall (pi_id command)
                  | None \<Rightarrow> OfHandle handle))))"

text \<open>The invocations of a group in the order in which they are listed.\<close>

fun group_members :: "present_env \<Rightarrow> presentation_input list \<Rightarrow> group_key \<Rightarrow> presentation_input list" where
  "group_members env records (OfCall i) =
     (case find (\<lambda>r. pi_id r = i) records of
        None \<Rightarrow> []
      | Some r \<Rightarrow> r # (if is_command r \<and> file_changes_of env r = None then polls_of_command records r else []))"
| "group_members env records (OfParent parent_id) = polls_by_parent records parent_id"
| "group_members env records (OfHandle handle) = legacy_polls_by_handle records handle"

text \<open>The polls that are folded into a command among the inputs.\<close>

definition folded :: "presentation_input list \<Rightarrow> presentation_input \<Rightarrow> bool" where
  "folded records r \<longleftrightarrow> input_is_poll r \<and>
     (case pi_target_created_by_invocation_id r of
        Some parent_id \<Rightarrow> parent_id \<in> set (command_ids records)
      | None \<Rightarrow> (case pi_target_session_handle r of None \<Rightarrow> False | Some handle \<Rightarrow> handle \<in> set (parent_handles records)))"

definition group_keys :: "presentation_input list \<Rightarrow> group_key list" where
  "group_keys records = unique_from [] (map (group_of records) (filter (\<lambda>r. \<not> folded records r) records))"

lemma unique_from_set: "set (unique_from seen xs) = set xs - set seen"
  by (induction seen xs rule: unique_from.induct) auto

lemma unique_from_distinct: "distinct (unique_from seen xs)"
  by (induction seen xs rule: unique_from.induct) (auto simp: unique_from_set)

lemma command_not_poll: "is_command r \<Longrightarrow> \<not> input_is_poll r"
  by (simp add: is_command_def input_is_poll_def input_continuation_kind_def)

lemma parent_handles_iff: "h \<in> set (parent_handles records) \<longleftrightarrow> command_with_handle records h \<noteq> None"
  by (auto simp: parent_handles_def command_with_handle_def find_None_iff map_filter_def image_iff)

lemma command_with_handle_Some:
  "command_with_handle records h = Some c \<Longrightarrow> c \<in> set records \<and> is_command c \<and> pi_result_session_handle c = Some h"
  by (auto simp: command_with_handle_def find_Some_iff)

lemma group_of_command: "is_command r \<Longrightarrow> group_of records r = OfCall (pi_id r)" "is_command r \<Longrightarrow> \<not> folded records r"
  by (simp_all add: group_of_def folded_def command_not_poll)

lemma folded_group:
  assumes "folded records r"
  obtains c where "c \<in> set records" "is_command c" "group_of records r = OfCall (pi_id c)"
proof (cases "pi_target_created_by_invocation_id r")
  case None
  with assms obtain h c where "pi_target_session_handle r = Some h" "command_with_handle records h = Some c"
    by (auto simp: folded_def parent_handles_iff split: option.splits)
  with None assms that [of c] command_with_handle_Some show ?thesis by (simp add: group_of_def folded_def)
next
  case (Some p)
  with assms obtain c where "c \<in> set records" "is_command c" "pi_id c = p"
    by (auto simp: folded_def command_ids_def)
  with Some assms that [of c] show ?thesis by (auto simp: group_of_def folded_def)
qed

lemma set_group_keys: "set (group_keys records) = group_of records ` set records"
proof -
  have "group_of records r \<in> group_of records ` {c \<in> set records. \<not> folded records c}" if "r \<in> set records" for r
  proof (cases "folded records r")
    case True
    then show ?thesis by (rule folded_group) (auto simp: group_of_command intro!: image_eqI)
  qed (use that in auto)
  then show ?thesis by (auto simp: group_keys_def unique_from_set)
qed

lemma mset_groups:
  "distinct ks \<Longrightarrow> mset (concat (map (\<lambda>k. filter (\<lambda>x. key x = k) xs) ks)) = mset (filter (\<lambda>x. key x \<in> set ks) xs)"
proof (induction ks)
  case (Cons k ks)
  have "mset (filter (\<lambda>x. key x = k \<or> key x \<in> set ks) xs) = mset (filter (\<lambda>x. key x = k) xs) + mset (filter (\<lambda>x. key x \<in> set ks) xs)"
    using Cons.prems by (induction xs) auto
  with Cons show ?case by simp
qed simp

section \<open>The members of a group\<close>

lemma mset_sort_invocations [simp]: "mset (sort_invocations xs) = mset xs"
  by (simp add: sort_invocations_def)

lemma set_sort_invocations [simp]: "set (sort_invocations xs) = set xs"
  by (simp add: sort_invocations_def)

lemma dedup_distinct: "distinct (map pi_id xs) \<Longrightarrow> dedup_by_id xs = xs"
  by (induction xs rule: dedup_by_id.induct) auto

lemma distinct_map_mset: "mset xs = mset ys \<Longrightarrow> distinct (map f xs) = distinct (map f ys)"
  by (metis distinct_count_atmost_1 mset_map set_mset_mset)

text \<open>The inputs of the raw history: invocations with ids of their own, nothing folded before, a session handle
  for one command only, and no polls of a command that is shown as a change of files (such a command had
  exited when the first call returned).\<close>

definition raw_inputs :: "present_env \<Rightarrow> presentation_input list \<Rightarrow> bool" where
  "raw_inputs env records \<longleftrightarrow>
     distinct (map pi_id records) \<and> length records \<le> usize_max \<and>
     (\<forall>r \<in> set records. pi_folded_polls r = None \<and> pi_orphan_poll_group r = None) \<and>
     (\<forall>a \<in> set records. \<forall>b \<in> set records. is_command a \<and> is_command b \<and> pi_result_session_handle a \<noteq> None \<and>
        pi_result_session_handle a = pi_result_session_handle b \<longrightarrow> a = b) \<and>
     (\<forall>r \<in> set records. is_command r \<and> file_changes_of env r \<noteq> None \<longrightarrow> polls_of_command records r = [])"

lemma same_id:
  assumes "raw_inputs env records" "a \<in> set records" "b \<in> set records" "pi_id a = pi_id b"
  shows "a = b"
  using assms by (auto simp: raw_inputs_def distinct_map inj_on_def)

lemma find_id: "raw_inputs env records \<Longrightarrow> r \<in> set records \<Longrightarrow> find (\<lambda>x. pi_id x = pi_id r) records = Some r"
  by (auto simp: find_Some_iff raw_inputs_def distinct_conv_nth in_set_conv_nth)

lemma command_with_own_handle:
  assumes "raw_inputs env records" "c \<in> set records" "is_command c"
  shows "command_with_handle records h = Some c \<longleftrightarrow> pi_result_session_handle c = Some h"
proof
  assume h: "pi_result_session_handle c = Some h"
  then have "command_with_handle records h \<noteq> None"
    using assms(2,3) by (auto simp: command_with_handle_def find_None_iff)
  then obtain d where d: "command_with_handle records h = Some d" by auto
  from command_with_handle_Some [OF d] assms h have "d = c" by (auto simp: raw_inputs_def)
  with d show "command_with_handle records h = Some c" by simp
qed (use command_with_handle_Some in blast)

text \<open>The polls that belong to the command \<open>c\<close>.\<close>

definition polls_at :: "presentation_input \<Rightarrow> presentation_input \<Rightarrow> bool" where
  "polls_at c x \<longleftrightarrow> input_is_poll x \<and>
     (pi_target_created_by_invocation_id x = Some (pi_id c) \<or>
      pi_target_created_by_invocation_id x = None \<and> pi_target_session_handle x \<noteq> None \<and>
        pi_target_session_handle x = pi_result_session_handle c)"

lemma polls_of_command_mset:
  assumes "distinct (map pi_id records)"
  shows "mset (polls_of_command records c) = mset (filter (polls_at c) records)"
proof -
  let ?own = "filter (\<lambda>r. input_is_poll r \<and> pi_target_created_by_invocation_id r = Some (pi_id c)) records"
  let ?legacy = "case pi_result_session_handle c of None \<Rightarrow> [] | Some h \<Rightarrow>
    filter (\<lambda>r. input_is_poll r \<and> pi_target_created_by_invocation_id r = None \<and> pi_target_session_handle r = Some h) records"
  let ?all = "polls_by_parent records (pi_id c) @
    (case pi_result_session_handle c of None \<Rightarrow> [] | Some h \<Rightarrow> legacy_polls_by_handle records h)"
  have all: "mset ?all = mset ?own + mset ?legacy"
    by (simp add: polls_by_parent_def legacy_polls_by_handle_def split: option.splits)
  also have "\<dots> = mset (filter (polls_at c) records)"
    by (cases "pi_result_session_handle c"; induction records) (auto simp: polls_at_def)
  finally have eq: "mset ?all = mset (filter (polls_at c) records)" .
  have "distinct (map pi_id (filter (polls_at c) records))" using assms by (rule distinct_map_filter)
  then have "distinct (map pi_id (sort_invocations ?all))"
    using distinct_map_mset [of "sort_invocations ?all" "filter (polls_at c) records" pi_id] eq by simp
  then show ?thesis using eq by (simp add: polls_of_command_def dedup_distinct)
qed

lemma group_of_call_iff:
  assumes ok: "raw_inputs env records" and c: "c \<in> set records" and x: "x \<in> set records"
  shows "group_of records x = OfCall (pi_id c) \<longleftrightarrow>
    x = c \<and> group_of records c = OfCall (pi_id c) \<or> is_command c \<and> polls_at c x"
proof -
  have ids: "pi_id x = pi_id c \<longleftrightarrow> x = c" using same_id [OF ok x c] by auto
  have cmd: "pi_id c \<in> set (command_ids records) \<longleftrightarrow> is_command c"
  proof
    assume "pi_id c \<in> set (command_ids records)"
    then obtain d where d: "d \<in> set records" "is_command d" "pi_id d = pi_id c" by (auto simp: command_ids_def)
    from same_id [OF ok d(1) c d(3)] d(2) show "is_command c" by simp
  next
    assume "is_command c"
    with c show "pi_id c \<in> set (command_ids records)" by (simp add: command_ids_def)
  qed
  have handle: "command_with_handle records h = Some c \<longleftrightarrow> is_command c \<and> pi_result_session_handle c = Some h" for h
    using command_with_own_handle [OF ok c, of h] command_with_handle_Some [of records h c] by auto
  have owner: "pi_id d = pi_id c \<longleftrightarrow> d = c" if "command_with_handle records h = Some d" for h d
    using command_with_handle_Some [OF that] same_id [OF ok _ c, of d] by auto
  consider (call) "\<not> input_is_poll x" | (parent) p where "input_is_poll x" "pi_target_created_by_invocation_id x = Some p"
    | (alone) "input_is_poll x" "pi_target_created_by_invocation_id x = None" "pi_target_session_handle x = None"
    | (legacy) h where "input_is_poll x" "pi_target_created_by_invocation_id x = None" "pi_target_session_handle x = Some h"
    by (cases "pi_target_created_by_invocation_id x"; cases "pi_target_session_handle x") auto
  then show ?thesis
  proof cases
    case call
    then show ?thesis using ids by (auto simp: group_of_def polls_at_def)
  next
    case parent
    then show ?thesis using cmd command_not_poll by (auto simp: group_of_def polls_at_def)
  next
    case alone
    then show ?thesis using ids by (auto simp: group_of_def polls_at_def)
  next
    case legacy
    then have x: "group_of records x = (case command_with_handle records h of Some d \<Rightarrow> OfCall (pi_id d) | None \<Rightarrow> OfHandle h)"
      by (simp add: group_of_def)
    have "is_command c \<and> polls_at c x \<longleftrightarrow> command_with_handle records h = Some c"
      unfolding handle using legacy by (auto simp: polls_at_def)
    moreover have "group_of records x = OfCall (pi_id c) \<longleftrightarrow> command_with_handle records h = Some c"
      using owner by (auto simp: x split: option.splits)
    ultimately show ?thesis by blast
  qed
qed

lemma filter_insert_mset:
  assumes "distinct xs" "c \<in> set xs" "\<not> Q c"
  shows "mset (filter (\<lambda>x. x = c \<or> Q x) xs) = add_mset c (mset (filter Q xs))"
  using assms
proof (induction xs)
  case (Cons y ys)
  have "c \<notin> set ys \<Longrightarrow> filter (\<lambda>x. x = c \<or> Q x) ys = filter Q ys" by (rule filter_cong) auto
  with Cons show ?case by (auto simp del: mset_filter)
qed simp

lemma group_members_mset:
  assumes ok: "raw_inputs env records" and k: "k \<in> group_of records ` set records"
  shows "mset (group_members env records k) = mset (filter (\<lambda>x. group_of records x = k) records)"
proof (cases k)
  case (OfParent p)
  with k have "p \<notin> set (command_ids records)" by (auto simp: group_of_def split: option.splits if_splits)
  then have "group_of records x = OfParent p \<longleftrightarrow> input_is_poll x \<and> pi_target_created_by_invocation_id x = Some p" for x
    by (auto simp: group_of_def split: option.splits)
  with OfParent show ?thesis by (simp add: polls_by_parent_def)
next
  case (OfHandle h)
  with k have "command_with_handle records h = None" by (auto simp: group_of_def split: option.splits if_splits)
  then have "group_of records x = OfHandle h \<longleftrightarrow>
      input_is_poll x \<and> pi_target_created_by_invocation_id x = None \<and> pi_target_session_handle x = Some h" for x
    by (auto simp: group_of_def split: option.splits)
  with OfHandle show ?thesis by (simp add: legacy_polls_by_handle_def)
next
  case (OfCall i)
  have "\<exists>c \<in> set records. pi_id c = i \<and> group_of records c = OfCall i"
  proof -
    from k OfCall obtain y where y: "y \<in> set records" "group_of records y = OfCall i" by auto
    show ?thesis
    proof (cases "folded records y")
      case True
      then show ?thesis by (rule folded_group) (use y in \<open>auto simp: group_of_command\<close>)
    next
      case False
      with y have "pi_id y = i" by (auto simp: group_of_def folded_def parent_handles_iff split: option.splits if_splits)
      with y show ?thesis by blast
    qed
  qed
  then obtain c where c: "c \<in> set records" "pi_id c = i" "group_of records c = OfCall i" by blast
  have members: "group_members env records k =
      c # (if is_command c \<and> file_changes_of env c = None then polls_of_command records c else [])"
    using find_id [OF ok c(1)] c(2) OfCall by simp
  have filt: "filter (\<lambda>x. group_of records x = k) records = filter (\<lambda>x. x = c \<or> is_command c \<and> polls_at c x) records"
    using group_of_call_iff [OF ok c(1)] c(2,3) OfCall by (intro filter_cong) auto
  have distinct: "distinct records" "distinct (map pi_id records)" using ok by (auto simp: raw_inputs_def distinct_map)
  have polls: "mset (polls_of_command records c) = mset (filter (polls_at c) records)"
    by (rule polls_of_command_mset [OF distinct(2)])
  have none: "file_changes_of env c \<noteq> None \<Longrightarrow> is_command c \<Longrightarrow> polls_of_command records c = []"
    using ok c(1) by (auto simp: raw_inputs_def)
  have "\<not> (is_command c \<and> polls_at c c)" using command_not_poll by (auto simp: polls_at_def)
  then have "mset (filter (\<lambda>x. group_of records x = k) records) = add_mset c (mset (filter (\<lambda>x. is_command c \<and> polls_at c x) records))"
    unfolding filt by (rule filter_insert_mset [OF distinct(1) c(1)])
  also have "mset (filter (\<lambda>x. is_command c \<and> polls_at c x) records) =
      mset (if is_command c \<and> file_changes_of env c = None then polls_of_command records c else [])"
    using polls none by (cases "is_command c") auto
  finally show ?thesis by (simp add: members)
qed

lemma groups_partition:
  assumes "raw_inputs env records"
  shows "mset (concat (map (group_members env records) (group_keys records))) = mset records"
proof -
  have "mset (concat (map (group_members env records) ks)) = mset (concat (map (\<lambda>k. filter (\<lambda>x. group_of records x = k) records) ks))"
    if "set ks \<subseteq> group_of records ` set records" for ks
    using that by (induction ks) (simp_all add: group_members_mset [OF assms])
  then have "mset (concat (map (group_members env records) (group_keys records))) =
      mset (concat (map (\<lambda>k. filter (\<lambda>x. group_of records x = k) records) (group_keys records)))"
    by (simp add: set_group_keys)
  also have "\<dots> = mset (filter (\<lambda>x. group_of records x \<in> set (group_keys records)) records)"
    by (rule mset_groups) (simp add: group_keys_def unique_from_distinct)
  also have "filter (\<lambda>x. group_of records x \<in> set (group_keys records)) records = records"
    by (simp add: set_group_keys filter_id_conv)
  finally show ?thesis .
qed

section \<open>Records stand for groups\<close>

definition represents :: "presentation_input list \<Rightarrow> presentation_record \<Rightarrow> bool" where
  "represents members p \<longleftrightarrow>
     pr_raw_evidence_count p = length members \<and>
     pr_raw_invocation_ids p = take PRESENTATION_RAW_INVOCATION_ID_SAMPLE_LIMIT (map pi_id members) \<and>
     (pr_raw_invocation_ids_truncated p \<longleftrightarrow> PRESENTATION_RAW_INVOCATION_ID_SAMPLE_LIMIT < length members)"

lemma represents_identity:
  assumes "identity = raw_identity_of primary (length members) (map pi_id members)"
  shows "represents members (record_with_kind env r identity duration kind)"
  using assms by (auto simp: represents_def record_with_kind_def raw_identity_of_def Let_def)

lemma represents_update [simp]:
  "represents members (p\<lparr>pr_evidence := e\<rparr>) \<longleftrightarrow> represents members p"
  "represents members (p\<lparr>pr_started_at_ms := t\<rparr>) \<longleftrightarrow> represents members p"
  by (simp_all add: represents_def)

lemma represents_single: "represents [r] (record_with_kind env r (single_identity r) duration kind)"
  by (rule represents_identity [of _ "pi_id r"]) (simp add: single_identity_def)

lemma represents_generic: "represents [r] (generic_record env r)"
  by (simp add: generic_record_def represents_single)

lemma represents_stdin: "represents [r] (write_stdin_record env r)"
  by (simp add: write_stdin_record_def Let_def represents_single represents_generic split: option.splits prod.splits)

lemma represents_orphan: "represents polls (orphan_poll_record env polls parent)"
  by (simp add: orphan_poll_record_def Let_def represents_identity [OF refl])

lemma represents_command:
  assumes "pi_folded_polls r = None" "Suc (length polls) \<le> usize_max"
  shows "represents (r # polls) (command_record env r polls)"
proof -
  have "raw_identity_of (pi_id r) (sat_add (length polls) 1) (pi_id r # map pi_id polls) =
      raw_identity_of (pi_id r) (length (r # polls)) (map pi_id (r # polls))"
    using assms(2) by (simp add: sat_add_def)
  then have "represents (r # polls)
      (record_with_kind env r (raw_identity_of (pi_id r) (sat_add (length polls) 1) (pi_id r # map pi_id polls)) duration kind)"
    for duration kind by (rule represents_identity)
  with assms(1) show ?thesis by (cases "polls = []") (simp_all add: command_record_def Let_def)
qed

lemma polls_of_command_length:
  assumes "raw_inputs env records" "r \<in> set records" "is_command r"
  shows "Suc (length (polls_of_command records r)) \<le> usize_max"
proof -
  have "length (polls_of_command records r) = length (filter (polls_at r) records)"
    by (rule mset_eq_length, rule polls_of_command_mset) (use assms(1) in \<open>simp add: raw_inputs_def\<close>)
  also have "\<dots> < length records"
    using assms(2,3) command_not_poll by (intro length_filter_less [of r]) (auto simp: polls_at_def)
  finally show ?thesis using assms(1) by (simp add: raw_inputs_def)
qed

lemma represents_call:
  assumes "raw_inputs env records" "r \<in> set records"
  shows "represents (group_members env records (OfCall (pi_id r))) (present_call env records r)"
proof -
  have none: "pi_folded_polls r = None" using assms by (simp add: raw_inputs_def)
  show ?thesis
  proof (cases "is_command r \<and> file_changes_of env r = None")
    case True
    with represents_command [OF none polls_of_command_length [OF assms]] show ?thesis
      by (simp add: find_id [OF assms] present_call_def is_command_def)
  next
    case False
    then show ?thesis
      by (auto simp: find_id [OF assms] present_call_def is_command_def represents_single represents_stdin represents_generic
          split: option.splits)
  qed
qed

lemma represents_lone_poll:
  assumes "raw_inputs env records" "r \<in> set records" "input_is_poll r"
  shows "represents (group_members env records (OfCall (pi_id r))) (generic_record env r)"
  using assms command_not_poll by (auto simp: find_id [OF assms(1,2)] represents_generic)

lemma present_loop_represents:
  assumes "raw_inputs env records" "set rest \<subseteq> set records" "distinct (map pi_id rest)"
    and "\<And>p. OfParent p \<in> set seen \<longleftrightarrow> p \<in> set parents" "\<And>h. OfHandle h \<in> set seen \<longleftrightarrow> h \<in> set handles"
    and "\<And>r. r \<in> set rest \<Longrightarrow> OfCall (pi_id r) \<notin> set seen"
  shows "list_all2 (\<lambda>k p. represents (group_members env records k) p)
    (unique_from seen (map (group_of records) (filter (\<lambda>r. \<not> folded records r) rest)))
    (present_loop env records parents handles rest)"
  using assms(2-)
proof (induction rest arbitrary: seen parents handles)
  case (Cons r rest)
  have r: "r \<in> set records" "pi_orphan_poll_group r = None" using Cons.prems(1) assms(1) by (auto simp: raw_inputs_def)
  note key = folded_def [of records r] group_of_def [of records r]
  note tail = Cons.IH [of "k # seen" for k]
  have other: "pi_id x \<noteq> pi_id r" if "x \<in> set rest" for x
    using Cons.prems(2) image_eqI [OF refl that, of pi_id] by auto
  have skip: "list_all2 (\<lambda>k p. represents (group_members env records k) p)
      (unique_from seen (map (group_of records) (filter (\<lambda>r. \<not> folded records r) rest)))
      (present_loop env records parents handles rest)"
    by (rule Cons.IH) (use Cons.prems in auto)
  have own: "list_all2 (\<lambda>k p. represents (group_members env records k) p)
      (unique_from (OfCall (pi_id r) # seen) (map (group_of records) (filter (\<lambda>r. \<not> folded records r) rest)))
      (present_loop env records parents handles rest)"
    by (rule tail) (use Cons.prems other in auto)
  have orphan: "list_all2 (\<lambda>k p. represents (group_members env records k) p)
      (unique_from (OfParent q # seen) (map (group_of records) (filter (\<lambda>r. \<not> folded records r) rest)))
      (present_loop env records (q # parents) handles rest)" for q
    by (rule tail) (use Cons.prems in auto)
  have handle: "list_all2 (\<lambda>k p. represents (group_members env records k) p)
      (unique_from (OfHandle h # seen) (map (group_of records) (filter (\<lambda>r. \<not> folded records r) rest)))
      (present_loop env records parents (h # handles) rest)" for h
    by (rule tail) (use Cons.prems in auto)
  have fresh: "OfCall (pi_id r) \<notin> set seen" using Cons.prems(5) by simp
  consider (call) "\<not> input_is_poll r" | (parent) p where "input_is_poll r" "pi_target_created_by_invocation_id r = Some p"
    | (alone) "input_is_poll r" "pi_target_created_by_invocation_id r = None" "pi_target_session_handle r = None"
    | (legacy) h where "input_is_poll r" "pi_target_created_by_invocation_id r = None" "pi_target_session_handle r = Some h"
    by (cases "pi_target_created_by_invocation_id r"; cases "pi_target_session_handle r") auto
  then show ?case
  proof cases
    case call
    then show ?thesis using own fresh r represents_call [OF assms(1) r(1)] by (simp add: key del: group_members.simps(1))
  next
    case parent
    then show ?thesis
      using skip Cons.prems(3) orphan r
      by (auto simp: key represents_orphan simp del: group_members.simps(1))
  next
    case alone
    then show ?thesis using own fresh r represents_lone_poll [OF assms(1) r(1)] by (simp add: key del: group_members.simps(1))
  next
    case legacy
    then show ?thesis
      using skip Cons.prems(4) handle r by (auto simp: key represents_orphan parent_handles_iff simp del: group_members.simps(1) split: option.splits)
  qed
qed simp

text \<open>
  C14: No invocation is lost and none is shown twice.  The invocations of the raw history can be divided
  into groups, one for every record of the presentation, such that every invocation is in exactly one
  group, and each record counts the invocations of its group, lists the first 32 of their ids and says
  when there are more.
\<close>

theorem every_invocation_is_presented_once:
  assumes "raw_inputs env records"
  shows "\<exists>groups. mset (concat groups) = mset records \<and>
    list_all2 represents groups (pd_records (build_presentation_inputs env records agents))"
proof -
  let ?groups = "map (group_members env records) (group_keys records)"
  have "list_all2 (\<lambda>k p. represents (group_members env records k) p) (group_keys records) (present_loop env records [] [] records)"
    unfolding group_keys_def
    by (rule present_loop_represents [OF assms]) (use assms in \<open>auto simp: raw_inputs_def\<close>)
  then have "list_all2 represents ?groups (pd_records (build_presentation_inputs env records agents))"
    by (simp add: build_presentation_inputs_def list_all2_map1)
  with groups_partition [OF assms] show ?thesis by blast
qed

definition example_input :: "int \<Rightarrow> rstr \<Rightarrow> int option \<Rightarrow> presentation_input" where
  "example_input i tool parent_id =
     \<lparr>pi_id = i, pi_agent_id = None, pi_tool_name = tool, pi_arguments = Map.empty, pi_declared_workdir_exact = None,
      pi_declared_workdir_normalized = None, pi_is_new_workdir = False, pi_started_at_ms = i, pi_completed_at_ms = None,
      pi_duration_ms = None, pi_outcome_kind = None, pi_error = None, pi_result_summary = None, pi_result_output = None,
      pi_evidence_state = ''complete'', pi_evidence_reason = None, pi_capture_state = ''complete'', pi_capture_reason = None,
      pi_target_session_handle = None, pi_target_created_by_agent_id = None, pi_target_created_by_invocation_id = parent_id,
      pi_target_command = None, pi_continuation_kind = None, pi_cross_agent = None, pi_result_status = None,
      pi_result_cwd = None, pi_result_session_handle = None, pi_result_exit_code = None, pi_result_termination_reason = None,
      pi_process_state = None, pi_process_started_at_ms = None, pi_process_ended_at_ms = None, pi_process_exit_code = None,
      pi_process_termination_reason = None, pi_process_cwd = None, pi_process_incomplete_reason = None,
      pi_output_preview = None, pi_output_preview_truncated = False, pi_file_evidence = [], pi_folded_polls = None,
      pi_orphan_poll_group = None\<rparr>"

definition example_inputs :: "presentation_input list" where
  "example_inputs = [example_input 1 ''exec_command'' None, example_input 2 ''write_stdin'' (Some 1),
     example_input 3 ''write_stdin'' (Some 9), example_input 4 ''write_stdin'' (Some 9)]"

definition example_env :: present_env where "example_env = \<lparr>pe_diff = replace_all, pe_strip = (\<lambda>s. s)\<rparr>"

theorem every_invocation_is_presented_once_witness:
  "\<exists>groups. mset (concat groups) = mset example_inputs \<and>
    list_all2 represents groups (pd_records (build_presentation_inputs example_env example_inputs []))"
proof (rule every_invocation_is_presented_once)
  show "raw_inputs example_env example_inputs"
    by (simp add: raw_inputs_def example_inputs_def example_input_def is_command_def file_changes_of_def build_file_changes_def
        usize_max_def)
qed

end
