(* ===== verification/Keyed_List.thy ===== *)
theory Keyed_List
  imports Zodex_Prelude "HOL-Library.Multiset" "HOL-Library.Char_ord" "HOL-Library.List_Lexorder" "HOL-Library.Option_ord" "HOL-Library.Product_Lexorder"
begin

text \<open>
  Lists of records that are looked up by a key, the shape in which the operator's command line keeps
  its Sprites and the grants of a GitHub mode: the contract of \<^emph>\<open>replace the record with this key or
  append it\<close>, and what follows from it for a whole batch of updates and for the sorting the code does
  afterwards.  Strings are ordered byte by byte, \<^verbatim>\<open>None\<close> before \<^verbatim>\<open>Some\<close>, tuples by their components,
  as \<^verbatim>\<open>Ord\<close> does.
\<close>

definition find_key :: "('a \<Rightarrow> 'k) \<Rightarrow> 'k \<Rightarrow> 'a list \<Rightarrow> 'a option" where
  "find_key key k xs = find (\<lambda>x. key x = k) xs"

lemma find_key_Nil [simp]: "find_key key k [] = None"
  by (simp add: find_key_def)

lemma find_key_Cons [simp]: "find_key key k (x # xs) = (if key x = k then Some x else find_key key k xs)"
  by (simp add: find_key_def)

lemma find_key_None: "find_key key k xs = None \<longleftrightarrow> k \<notin> key ` set xs"
  by (induction xs) auto

lemma find_key_Some:
  assumes "distinct (map key xs)"
  shows "find_key key k xs = Some x \<longleftrightarrow> x \<in> set xs \<and> key x = k"
  using assms by (induction xs) (auto simp: find_key_None rev_image_eqI)

lemma find_key_in: "find_key key k xs = Some x \<Longrightarrow> x \<in> set xs \<and> key x = k"
  by (induction xs) (auto split: if_splits)

lemma find_key_cong:
  assumes "distinct (map key xs)" "distinct (map key ys)" "set xs = set ys"
  shows "find_key key k xs = find_key key k ys"
  using find_key_Some [OF assms(1)] find_key_Some [OF assms(2)] assms(3) by (metis option.exhaust)

lemma distinct_keys_sort: "distinct (map key (sort_key f xs)) = distinct (map key xs)"
  by (metis mset_map mset_sort mset_eq_imp_distinct_iff)

lemma find_key_sort: "distinct (map key xs) \<Longrightarrow> find_key key k (sort_key f xs) = find_key key k xs"
  by (intro find_key_cong) (simp_all add: distinct_keys_sort)

lemma find_key_filter:
  assumes "distinct (map key xs)"
  shows "find_key key k (filter P xs) = (case find_key key k xs of Some x \<Rightarrow> if P x then Some x else None | None \<Rightarrow> None)"
  using assms by (induction xs) (auto simp: find_key_Some find_key_None image_iff split: option.splits)

text \<open>The loop the code writes, over any key.\<close>

fun upsert_by :: "('a \<Rightarrow> 'k) \<Rightarrow> 'a \<Rightarrow> 'a list \<Rightarrow> 'a list" where
  "upsert_by key new [] = [new]"
| "upsert_by key new (x # xs) = (if key x = key new then new # xs else x # upsert_by key new xs)"

lemma find_upsert_by: "find_key key k (upsert_by key new xs) = (if k = key new then Some new else find_key key k xs)"
  by (induction xs) auto

lemma keys_upsert_by: "key ` set (upsert_by key new xs) = insert (key new) (key ` set xs)"
  by (induction xs) auto

lemma distinct_upsert_by: "distinct (map key xs) \<Longrightarrow> distinct (map key (upsert_by key new xs))"
  by (induction xs) (auto simp del: image_iff simp: keys_upsert_by)

locale keyed_upsert =
  fixes key :: "'a \<Rightarrow> 'k" and upsert :: "'a \<Rightarrow> 'a list \<Rightarrow> 'a list"
  assumes find_upsert: "find_key key k (upsert x xs) = (if k = key x then Some x else find_key key k xs)"
    and distinct_upsert: "distinct (map key xs) \<Longrightarrow> distinct (map key (upsert x xs))"
begin

lemma upsert_new [simp]: "find_key key (key x) (upsert x xs) = Some x"
  by (simp add: find_upsert)

lemma upsert_other: "k \<noteq> key x \<Longrightarrow> find_key key k (upsert x xs) = find_key key k xs"
  by (simp add: find_upsert)

lemma keys_upsert: "key ` set (upsert x xs) = insert (key x) (key ` set xs)"
proof -
  have "k \<in> key ` set (upsert x xs) \<longleftrightarrow> k = key x \<or> k \<in> key ` set xs" for k
    using find_upsert [of k x xs] by (metis find_key_None option.distinct(1))
  then show ?thesis by blast
qed

lemma distinct_upserts: "distinct (map key xs) \<Longrightarrow> distinct (map key (fold upsert ys xs))"
  by (induction ys arbitrary: xs) (simp_all add: distinct_upsert)

lemma find_upserts:
  "find_key key k (fold upsert ys xs) = (case find_key key k (rev ys) of Some y \<Rightarrow> Some y | None \<Rightarrow> find_key key k xs)"
proof (induction ys rule: rev_induct)
  case (snoc y ys)
  then show ?case by (auto simp: find_upsert)
qed simp

lemma find_sorted_upsert:
  assumes "distinct (map key xs)"
  shows "find_key key k (sort_key f (upsert x xs)) = (if k = key x then Some x else find_key key k xs)"
  by (simp add: find_key_sort distinct_upsert assms find_upsert)

end

end
