(* ===== verification/Operator_Sprites.thy ===== *)
theory Operator_Sprites
  imports Keyed_List Redaction Publisher_Server Host_Paths
begin

text \<open>
  The operator's command line: running a program and reporting its outcome (\<^verbatim>\<open>bin/zodex/command.rs\<close>),
  calls of the \<^verbatim>\<open>sprite\<close> program (\<^verbatim>\<open>bin/zodex/proxy_worker.rs\<close>), and the registry of the Sprites that
  have been set up (\<^verbatim>\<open>bin/zodex/credentials.rs\<close>, records of \<^verbatim>\<open>bin/zodex/prelude.rs\<close>).  The program that is
  run, the file of the registry and its JSON are parameters.
\<close>

section \<open>Programs\<close>

definition run_command_capture :: "rstr \<Rightarrow> rstr list \<Rightarrow> process_output res \<Rightarrow> rstr res" where
  "run_command_capture program args outcome =
     and_then (with_ctx (''failed to run '' @ program) outcome)
     (\<lambda>output.
        let stdout = redact_api_key_query_params (from_utf8_lossy (out_stdout output));
            stderr = redact_api_key_query_params (from_utf8_lossy (out_stderr output))
        in if out_code output = Some 0 then Inr stdout
           else
             let status = (case out_code output of None \<Rightarrow> ''terminated by signal'' | Some code \<Rightarrow> show_nat code);
                 details = (if trim stdout = [] then
                     (if trim stderr = [] then ''no output'' else ''stderr:'' @ [nl] @ trim_end stderr)
                   else if trim stderr = [] then ''stdout:'' @ [nl] @ trim_end stdout
                   else ''stdout:'' @ [nl] @ trim_end stdout @ [nl, nl] @ ''stderr:'' @ [nl] @ trim_end stderr)
             in Inl (program @ '' '' @ join_with '' '' args @ '' failed (status: '' @ status @ '')'' @ [nl] @ details))"

definition shell_escape_single_quotes :: "rstr \<Rightarrow> rstr" where
  "shell_escape_single_quotes text =
     [CHR 39] @ concat (map (\<lambda>c. if c = CHR 39 then [CHR 39, CHR 34, CHR 39, CHR 34, CHR 39] else [c]) text) @ [CHR 39]"

definition build_sprite_scope_args :: "rstr \<Rightarrow> rstr option \<Rightarrow> rstr list" where
  "build_sprite_scope_args sprite org =
     (case org of Some o' \<Rightarrow> [''-o'', o'] | None \<Rightarrow> []) @ [''-s'', sprite]"

definition sprite_exec_args :: "rstr \<Rightarrow> rstr option \<Rightarrow> rstr list \<Rightarrow> (rstr \<times> rstr) list \<Rightarrow> rstr list" where
  "sprite_exec_args sprite org exec_args uploads =
     build_sprite_scope_args sprite org @ [''exec''] @
     concat (map (\<lambda>(local, remote). [''--file'', local @ '':'' @ remote]) uploads) @ [''--''] @ exec_args"

text \<open>\<open>'s\<close> is the state of the remote machine; the \<^verbatim>\<open>sprite\<close> program is a parameter that may change it.\<close>

type_synonym 's sprite_program = "rstr list \<Rightarrow> 's \<Rightarrow> process_output res \<times> 's"

definition run_sprite_exec ::
    "'s sprite_program \<Rightarrow> rstr \<Rightarrow> rstr option \<Rightarrow> rstr list \<Rightarrow> (rstr \<times> rstr) list \<Rightarrow> 's \<Rightarrow> rstr res \<times> 's" where
  "run_sprite_exec run sprite org exec_args uploads s =
     (let args = sprite_exec_args sprite org exec_args uploads;
          (outcome, s') = run args s
      in (run_command_capture ''sprite'' args outcome, s'))"

section \<open>The registry of Sprites\<close>

definition OPERATOR_SPRITES_REGISTRY_VERSION :: nat where "OPERATOR_SPRITES_REGISTRY_VERSION = 2"
definition OPERATOR_SPRITES_REGISTRY_RELATIVE_PATH :: rstr where
  "OPERATOR_SPRITES_REGISTRY_RELATIVE_PATH = ''.config/zodex/sprites.json''"
definition OPERATOR_DEFAULT_CONFIG_PATH :: rstr where "OPERATOR_DEFAULT_CONFIG_PATH = ''/etc/zodex/config.toml''"

record operator_sprite_proxy_record =
  px_cloudflare_account_id :: rstr
  px_worker_name :: rstr
  px_worker_url :: rstr
  px_worker_version :: rstr
  px_worker_build :: rstr
  px_deployed_at :: rstr

record operator_sprite_record =
  sp_name :: rstr
  sp_org :: "rstr option"
  sp_remote_config :: rstr
  sp_last_setup_at :: rstr
  sp_proxy :: "operator_sprite_proxy_record option"

record operator_sprite_registry =
  sg_version :: nat
  sg_sprites :: "operator_sprite_record list"

record resolved_sprite =
  rs_name :: rstr
  rs_org :: "rstr option"

definition default_registry :: operator_sprite_registry where
  "default_registry = \<lparr>sg_version = OPERATOR_SPRITES_REGISTRY_VERSION, sg_sprites = []\<rparr>"

text \<open>The file of the registry: its content, and what each system call on it answers.\<close>

record registry_file_io =
  rf_read :: "rstr \<Rightarrow> rstr res"
  rf_decode :: "rstr \<Rightarrow> operator_sprite_registry res"
  rf_encode :: "operator_sprite_registry \<Rightarrow> rstr res"
  rf_create_dir :: "unit res"
  rf_create :: "unit res"
  rf_written :: "(nat \<times> rstr) option"

definition load_operator_sprite_registry_from_path ::
    "registry_file_io \<Rightarrow> rstr \<Rightarrow> rstr option \<Rightarrow> operator_sprite_registry res" where
  "load_operator_sprite_registry_from_path io path content =
     (case content of
        None \<Rightarrow> Inr default_registry
      | Some bytes \<Rightarrow>
          and_then (with_ctx (''failed to read Sprite registry at '' @ path) (rf_read io bytes))
          (\<lambda>raw. and_then (with_ctx (''failed to parse Sprite registry at '' @ path) (rf_decode io raw))
          (\<lambda>registry.
             if sg_version registry = 1 then Inr (registry\<lparr>sg_version := OPERATOR_SPRITES_REGISTRY_VERSION\<rparr>)
             else if sg_version registry = OPERATOR_SPRITES_REGISTRY_VERSION then Inr registry
             else Inl (''unsupported Sprite registry version '' @ show_nat (sg_version registry) @ '' at '' @ path @
               ''; expected <= '' @ show_nat OPERATOR_SPRITES_REGISTRY_VERSION))))"

definition save_operator_sprite_registry_to_path ::
    "registry_file_io \<Rightarrow> rstr \<Rightarrow> operator_sprite_registry \<Rightarrow> rstr option \<Rightarrow> unit res \<times> rstr option" where
  "save_operator_sprite_registry_to_path io path registry content =
     (if sg_version registry \<noteq> OPERATOR_SPRITES_REGISTRY_VERSION then
        (Inl (''refusing to write Sprite registry version '' @ show_nat (sg_version registry) @ ''; expected '' @
          show_nat OPERATOR_SPRITES_REGISTRY_VERSION), content)
      else case (case path_parent path of
              Some parent \<Rightarrow> with_ctx (''failed to create '' @ parent) (rf_create_dir io) | None \<Rightarrow> Inr ()) of
          Inl e \<Rightarrow> (Inl e, content)
        | Inr _ \<Rightarrow>
            (case with_ctx ''failed to encode Sprite registry'' (rf_encode io registry) of
               Inl e \<Rightarrow> (Inl e, content)
             | Inr raw \<Rightarrow>
                 (case with_ctx (''failed to write '' @ path) (rf_create io) of
                    Inl e \<Rightarrow> (Inl e, content)
                  | Inr _ \<Rightarrow>
                      (case rf_written io of
                         Some (n, e) \<Rightarrow> (Inl (''failed to write '' @ path @ '': '' @ e), Some (take n raw))
                       | None \<Rightarrow> (Inr (), Some raw)))))"

definition sprite_key :: "operator_sprite_record \<Rightarrow> rstr \<times> rstr option" where
  "sprite_key record = (sp_name record, sp_org record)"

definition sprite_order :: "operator_sprite_record \<Rightarrow> rstr option \<times> rstr" where
  "sprite_order record = (sp_org record, sp_name record)"

fun replace_or_push_sprite :: "operator_sprite_record \<Rightarrow> operator_sprite_record list \<Rightarrow> operator_sprite_record list" where
  "replace_or_push_sprite record [] = [record]"
| "replace_or_push_sprite record (candidate # rest) =
     (if sp_name candidate = sp_name record \<and> sp_org candidate = sp_org record then record # rest
      else candidate # replace_or_push_sprite record rest)"

definition upsert_operator_sprite_record ::
    "operator_sprite_registry \<Rightarrow> operator_sprite_record \<Rightarrow> operator_sprite_registry" where
  "upsert_operator_sprite_record registry record =
     registry\<lparr>sg_sprites := sort_key sprite_order (replace_or_push_sprite record (sg_sprites registry))\<rparr>"

definition find_sprite :: "operator_sprite_registry \<Rightarrow> rstr \<Rightarrow> rstr option \<Rightarrow> operator_sprite_record option" where
  "find_sprite registry sprite org =
     find (\<lambda>candidate. sp_name candidate = sprite \<and> sp_org candidate = org) (sg_sprites registry)"

definition operator_sprite_record_of :: "operator_sprite_registry \<Rightarrow> resolved_sprite \<Rightarrow> operator_sprite_record option" where
  "operator_sprite_record_of registry sprite = find_sprite registry (rs_name sprite) (rs_org sprite)"

definition update_operator_sprite_setup_record ::
    "operator_sprite_registry \<Rightarrow> rstr \<Rightarrow> rstr option \<Rightarrow> rstr \<Rightarrow> rstr \<Rightarrow> operator_sprite_registry" where
  "update_operator_sprite_setup_record registry sprite org remote_config setup_at =
     (let existing_proxy = Option.bind (find_sprite registry sprite org) sp_proxy;
          record = \<lparr>sp_name = sprite, sp_org = org, sp_remote_config = remote_config,
            sp_last_setup_at = setup_at, sp_proxy = existing_proxy\<rparr>
      in upsert_operator_sprite_record registry record)"

fun set_first_proxy ::
    "resolved_sprite \<Rightarrow> operator_sprite_proxy_record \<Rightarrow> operator_sprite_record list \<Rightarrow> operator_sprite_record list option" where
  "set_first_proxy sprite proxy [] = None"
| "set_first_proxy sprite proxy (candidate # rest) =
     (if sp_name candidate = rs_name sprite \<and> sp_org candidate = rs_org sprite
      then Some (candidate\<lparr>sp_proxy := Some proxy\<rparr> # rest)
      else map_option (Cons candidate) (set_first_proxy sprite proxy rest))"

definition update_operator_sprite_proxy_record ::
    "operator_sprite_registry \<Rightarrow> resolved_sprite \<Rightarrow> operator_sprite_proxy_record \<Rightarrow> operator_sprite_registry" where
  "update_operator_sprite_proxy_record registry sprite proxy =
     (case set_first_proxy sprite proxy (sg_sprites registry) of
        Some sprites \<Rightarrow> registry\<lparr>sg_sprites := sprites\<rparr>
      | None \<Rightarrow>
          registry\<lparr>sg_sprites := sort_key sprite_order (sg_sprites registry @
            [\<lparr>sp_name = rs_name sprite, sp_org = rs_org sprite, sp_remote_config = OPERATOR_DEFAULT_CONFIG_PATH,
              sp_last_setup_at = [], sp_proxy = Some proxy\<rparr>])\<rparr>)"

text \<open>\<open>setup_time\<close> is the formatted current time, with the errors of the clock and of the formatting.\<close>

definition register_operator_sprite ::
    "registry_file_io \<Rightarrow> rstr \<Rightarrow> rstr res \<Rightarrow> rstr \<Rightarrow> rstr option \<Rightarrow> rstr \<Rightarrow> rstr option \<Rightarrow> unit res \<times> rstr option" where
  "register_operator_sprite io path setup_time sprite org remote_config content =
     (case load_operator_sprite_registry_from_path io path content of
        Inl e \<Rightarrow> (Inl e, content)
      | Inr registry \<Rightarrow>
          (case setup_time of
             Inl e \<Rightarrow> (Inl e, content)
           | Inr setup_at \<Rightarrow>
               save_operator_sprite_registry_to_path io path
                 (update_operator_sprite_setup_record registry sprite org remote_config setup_at) content))"

definition save_operator_sprite_proxy_record ::
    "registry_file_io \<Rightarrow> rstr \<Rightarrow> resolved_sprite \<Rightarrow> operator_sprite_proxy_record \<Rightarrow> rstr option \<Rightarrow> unit res \<times> rstr option" where
  "save_operator_sprite_proxy_record io path sprite proxy content =
     (case load_operator_sprite_registry_from_path io path content of
        Inl e \<Rightarrow> (Inl e, content)
      | Inr registry \<Rightarrow>
          save_operator_sprite_registry_to_path io path
            (update_operator_sprite_proxy_record registry sprite proxy) content)"

definition resolve_remote_sprite_from_registry ::
    "rstr option \<Rightarrow> rstr option \<Rightarrow> rstr option \<Rightarrow> operator_sprite_registry \<Rightarrow> resolved_sprite res" where
  "resolve_remote_sprite_from_registry explicit_sprite explicit_org env_sprite registry =
     (case explicit_sprite of
        Some sprite \<Rightarrow> Inr \<lparr>rs_name = sprite, rs_org = explicit_org\<rparr>
      | None \<Rightarrow>
          (case Option.bind env_sprite (\<lambda>text. if trim text \<noteq> [] then Some text else None) of
             Some sprite \<Rightarrow> Inr \<lparr>rs_name = sprite, rs_org = explicit_org\<rparr>
           | None \<Rightarrow>
               (case filter (\<lambda>candidate. case explicit_org of Some org \<Rightarrow> sp_org candidate = Some org | None \<Rightarrow> True)
                       (sg_sprites registry) of
                  [candidate] \<Rightarrow> Inr \<lparr>rs_name = sp_name candidate, rs_org = sp_org candidate\<rparr>
                | [] \<Rightarrow> Inl ''pass `--sprite <name>`, set `ZODEX_SPRITE`, or run `zodex sprite setup` once to register a default Sprite''
                | many \<Rightarrow>
                    Inl (''multiple Sprites are configured ('' @
                      join_with '', '' (map (\<lambda>candidate. case sp_org candidate of
                          Some org \<Rightarrow> org @ ''/'' @ sp_name candidate | None \<Rightarrow> sp_name candidate) many) @
                      ''); pass `--sprite <name>` or set `ZODEX_SPRITE`''))))"

section \<open>What the registry keeps\<close>

definition registry_wf :: "operator_sprite_registry \<Rightarrow> bool" where
  "registry_wf registry \<longleftrightarrow> sg_version registry = OPERATOR_SPRITES_REGISTRY_VERSION \<and>
     distinct (map sprite_key (sg_sprites registry)) \<and> sorted (map sprite_order (sg_sprites registry))"

lemma sprite_key_eq [simp]: "sprite_key x = (n, org) \<longleftrightarrow> sp_name x = n \<and> sp_org x = org"
  by (auto simp: sprite_key_def)

lemma same_sprite_key: "sprite_key x = sprite_key y \<longleftrightarrow> sp_name x = sp_name y \<and> sp_org x = sp_org y"
  by (auto simp: sprite_key_def)

lemma find_sprite_key: "find_sprite registry sprite org = find_key sprite_key (sprite, org) (sg_sprites registry)"
  by (simp add: find_sprite_def find_key_def)

lemma replace_or_push_sprite_upsert: "replace_or_push_sprite = upsert_by sprite_key"
proof (intro ext)
  fix new xs
  show "replace_or_push_sprite new xs = upsert_by sprite_key new xs"
    by (induction xs) (simp_all add: same_sprite_key)
qed

interpretation sprites: keyed_upsert sprite_key replace_or_push_sprite
  by unfold_locales (simp_all add: replace_or_push_sprite_upsert find_upsert_by distinct_upsert_by)

lemma set_first_proxy_Some:
  assumes "set_first_proxy sprite proxy xs = Some ys"
  shows "map sprite_key ys = map sprite_key xs \<and> map sprite_order ys = map sprite_order xs \<and>
    (\<exists>old. find_key sprite_key (rs_name sprite, rs_org sprite) xs = Some old \<and>
       (\<forall>k. find_key sprite_key k ys = (if k = (rs_name sprite, rs_org sprite) then Some (old\<lparr>sp_proxy := Some proxy\<rparr>)
         else find_key sprite_key k xs)))"
  using assms
proof (induction xs arbitrary: ys)
  case (Cons x xs)
  have [simp]: "sprite_key (x\<lparr>sp_proxy := p\<rparr>) = sprite_key x" "sprite_order (x\<lparr>sp_proxy := p\<rparr>) = sprite_order x" for p
    by (simp_all add: sprite_key_def sprite_order_def)
  show ?case
  proof (cases "sprite_key x = (rs_name sprite, rs_org sprite)")
    case True
    with Cons.prems show ?thesis by auto
  next
    case False
    with Cons.prems obtain zs where "set_first_proxy sprite proxy xs = Some zs" "ys = x # zs" by auto
    with Cons.IH [of zs] False show ?thesis by auto
  qed
qed simp

lemma set_first_proxy_None:
  "set_first_proxy sprite proxy xs = None \<longleftrightarrow> find_key sprite_key (rs_name sprite, rs_org sprite) xs = None"
  by (induction xs) auto

lemma find_key_snoc:
  "find_key key k (xs @ [x]) = (case find_key key k xs of Some y \<Rightarrow> Some y | None \<Rightarrow> if key x = k then Some x else None)"
  by (induction xs) (auto split: option.splits)

definition registered :: "operator_sprite_registry \<Rightarrow> rstr \<Rightarrow> rstr option \<Rightarrow> rstr \<Rightarrow> rstr \<Rightarrow> operator_sprite_record" where
  "registered registry sprite org remote_config setup_at =
     \<lparr>sp_name = sprite, sp_org = org, sp_remote_config = remote_config, sp_last_setup_at = setup_at,
      sp_proxy = Option.bind (find_sprite registry sprite org) sp_proxy\<rparr>"

lemma setup_record_update:
  assumes "registry_wf registry"
    and registry': "registry' = update_operator_sprite_setup_record registry sprite org remote_config setup_at"
  shows "registry_wf registry'"
    and "find_sprite registry' n o' =
      (if n = sprite \<and> o' = org then Some (registered registry sprite org remote_config setup_at) else find_sprite registry n o')"
  using assms
  by (simp_all add: registry' update_operator_sprite_setup_record_def upsert_operator_sprite_record_def registry_wf_def Let_def
      find_sprite_key distinct_keys_sort sprites.distinct_upsert sprites.find_sorted_upsert registered_def sprite_key_def)

definition proxied :: "operator_sprite_registry \<Rightarrow> resolved_sprite \<Rightarrow> operator_sprite_proxy_record \<Rightarrow> operator_sprite_record" where
  "proxied registry sprite proxy =
     (case operator_sprite_record_of registry sprite of
        Some old \<Rightarrow> old\<lparr>sp_proxy := Some proxy\<rparr>
      | None \<Rightarrow> \<lparr>sp_name = rs_name sprite, sp_org = rs_org sprite, sp_remote_config = OPERATOR_DEFAULT_CONFIG_PATH,
          sp_last_setup_at = [], sp_proxy = Some proxy\<rparr>)"

lemma proxy_record_update:
  assumes wf: "registry_wf registry"
    and registry': "registry' = update_operator_sprite_proxy_record registry sprite proxy"
  shows "registry_wf registry' \<and> find_sprite registry' n o' =
    (if n = rs_name sprite \<and> o' = rs_org sprite then Some (proxied registry sprite proxy) else find_sprite registry n o')"
proof (cases "set_first_proxy sprite proxy (sg_sprites registry)")
  case None
  let ?new = "\<lparr>sp_name = rs_name sprite, sp_org = rs_org sprite, sp_remote_config = OPERATOR_DEFAULT_CONFIG_PATH,
          sp_last_setup_at = [], sp_proxy = Some proxy\<rparr>"
  have new: "sprite_key ?new = (rs_name sprite, rs_org sprite)" by simp
  have absent: "find_key sprite_key (rs_name sprite, rs_org sprite) (sg_sprites registry) = None"
    using None by (simp add: set_first_proxy_None)
  then have distinct: "distinct (map sprite_key (sg_sprites registry @ [?new]))"
    using wf by (auto simp: registry_wf_def find_key_None sprite_key_def)
  then show ?thesis
    using None wf absent
    by (auto simp: registry' update_operator_sprite_proxy_record_def registry_wf_def distinct_keys_sort find_sprite_key
        find_key_sort find_key_snoc proxied_def operator_sprite_record_of_def sprite_key_def split: option.splits)
next
  case (Some ys)
  show ?thesis
    using set_first_proxy_Some [OF Some] wf Some
    by (auto simp: registry' update_operator_sprite_proxy_record_def registry_wf_def find_sprite_key proxied_def
        operator_sprite_record_of_def)
qed

definition registry_codec :: "registry_file_io \<Rightarrow> bool" where
  "registry_codec io \<longleftrightarrow> (\<forall>r raw. rf_encode io r = Inr raw \<longrightarrow> rf_read io raw = Inr raw \<and> rf_decode io raw = Inr r)"

lemma saved_registry_is_loaded:
  assumes "registry_codec io" and "save_operator_sprite_registry_to_path io path registry content = (Inr (), content')"
  shows "load_operator_sprite_registry_from_path io path content' = Inr registry"
  using assms
  by (auto simp: save_operator_sprite_registry_to_path_def load_operator_sprite_registry_from_path_def registry_codec_def
      OPERATOR_SPRITES_REGISTRY_VERSION_def split: if_splits sum.splits option.splits prod.splits)

text \<open>
  The registry of Sprites stays well-formed, and an update concerns one Sprite only.  When a Sprite is
  registered or its proxy is recorded, and the command succeeds, what the next command loads from the
  file has version 2, no Sprite twice and its Sprites in order; the Sprite in question has the new
  set-up time and keeps its proxy (or has the new proxy and keeps the rest), and every other Sprite is
  found exactly as before.
\<close>

theorem sprite_registry_updates_are_local:
  assumes "registry_codec io"
    and "load_operator_sprite_registry_from_path io path content = Inr registry" "registry_wf registry"
    and "update = register_operator_sprite io path (Inr setup_at) sprite org remote_config content \<and>
           new = registered registry sprite org remote_config setup_at \<or>
         update = save_operator_sprite_proxy_record io path \<lparr>rs_name = sprite, rs_org = org\<rparr> proxy content \<and>
           new = proxied registry \<lparr>rs_name = sprite, rs_org = org\<rparr> proxy"
    and "update = (Inr (), content')"
  shows "\<exists>registry'. load_operator_sprite_registry_from_path io path content' = Inr registry' \<and> registry_wf registry' \<and>
    (\<forall>n o'. find_sprite registry' n o' = (if n = sprite \<and> o' = org then Some new else find_sprite registry n o'))"
  using assms(4)
proof
  let ?r = "update_operator_sprite_setup_record registry sprite org remote_config setup_at"
  assume "update = register_operator_sprite io path (Inr setup_at) sprite org remote_config content \<and>
           new = registered registry sprite org remote_config setup_at"
  then have "save_operator_sprite_registry_to_path io path ?r content = (Inr (), content')"
    and "new = registered registry sprite org remote_config setup_at"
    using assms by (simp_all add: register_operator_sprite_def)
  then show ?thesis
    using saved_registry_is_loaded [OF assms(1)] setup_record_update [OF assms(3) refl] by (intro exI [of _ ?r]) simp
next
  let ?r = "update_operator_sprite_proxy_record registry \<lparr>rs_name = sprite, rs_org = org\<rparr> proxy"
  assume "update = save_operator_sprite_proxy_record io path \<lparr>rs_name = sprite, rs_org = org\<rparr> proxy content \<and>
           new = proxied registry \<lparr>rs_name = sprite, rs_org = org\<rparr> proxy"
  then have "save_operator_sprite_registry_to_path io path ?r content = (Inr (), content')"
    and "new = proxied registry \<lparr>rs_name = sprite, rs_org = org\<rparr> proxy"
    using assms by (simp_all add: save_operator_sprite_proxy_record_def)
  then show ?thesis
    using saved_registry_is_loaded [OF assms(1)] proxy_record_update [OF assms(3) refl] by (intro exI [of _ ?r]) simp
qed

definition example_sprites :: operator_sprite_registry where
  "example_sprites = update_operator_sprite_setup_record default_registry ''dev'' None ''/etc/zodex/config.toml'' ''2025-01-01''"

definition example_sprites_io :: registry_file_io where
  "example_sprites_io =
     \<lparr>rf_read = Inr, rf_decode = (\<lambda>raw. if raw = ''{}'' then Inr example_sprites else Inl ''expected value''),
      rf_encode = (\<lambda>r. if r = example_sprites then Inr ''{}'' else Inl ''unexpected''),
      rf_create_dir = Inr (), rf_create = Inr (), rf_written = None\<rparr>"

theorem sprite_registry_updates_are_local_witness:
  "\<exists>registry'. load_operator_sprite_registry_from_path example_sprites_io ''sprites.json'' (Some ''{}'') = Inr registry' \<and>
     registry_wf registry' \<and> find_sprite registry' ''dev'' None =
       Some (registered default_registry ''dev'' None ''/etc/zodex/config.toml'' ''2025-01-01'')"
proof -
  let ?update = "register_operator_sprite example_sprites_io ''sprites.json'' (Inr ''2025-01-01'') ''dev'' None ''/etc/zodex/config.toml'' None"
  have codec: "registry_codec example_sprites_io" by (simp add: registry_codec_def example_sprites_io_def)
  have load: "load_operator_sprite_registry_from_path example_sprites_io ''sprites.json'' None = Inr default_registry"
    by (simp add: load_operator_sprite_registry_from_path_def)
  have wf: "registry_wf default_registry" by (simp add: registry_wf_def default_registry_def)
  have ok: "?update = (Inr (), Some ''{}'')"
    by (simp add: register_operator_sprite_def load_operator_sprite_registry_from_path_def save_operator_sprite_registry_to_path_def
        example_sprites_io_def flip: example_sprites_def split: option.split)
      (simp add: example_sprites_def update_operator_sprite_setup_record_def upsert_operator_sprite_record_def default_registry_def)
  from sprite_registry_updates_are_local [OF codec load wf disjI1 [OF conjI [OF refl refl]] ok] show ?thesis by (metis (no_types))
qed

end
