(* ===== verification/Github_Mode.thy ===== *)
theory Github_Mode
  imports Operator_Sprites
begin

text \<open>
  The GitHub mode of a Sprite as the operator sets it (\<^verbatim>\<open>bin/zodex/github_mode.rs\<close>, with the repository
  names and times of \<^verbatim>\<open>bin/zodex/credentials.rs\<close> and the records of \<^verbatim>\<open>bin/zodex/prelude.rs\<close>): building and
  merging the record of granted repositories, writing it to the machine, removing it and reporting it.
  The record is what the publisher daemon of \<^verbatim>\<open>Publisher_Validation\<close> reads before a direct push.  The
  \<^verbatim>\<open>sprite\<close> program, JSON, the clock and the calendar of the \<^verbatim>\<open>time\<close> crate are parameters.
\<close>

section \<open>Constants\<close>

definition GITHUB_MODE_DIR :: rstr where "GITHUB_MODE_DIR = ''/var/lib/zodex/mode''"
definition GITHUB_MODE_STATE_PATH :: rstr where "GITHUB_MODE_STATE_PATH = ''/var/lib/zodex/mode/state.json''"
definition GITHUB_MODE_REMOTE_TMP_PATH :: rstr where "GITHUB_MODE_REMOTE_TMP_PATH = ''/tmp/zodex-github-mode.json''"
definition ZODEX_AGENT_BINARY_PATH :: rstr where "ZODEX_AGENT_BINARY_PATH = ''/usr/local/bin/zodex-agent''"
definition ZODEX_AGENT_USER :: rstr where "ZODEX_AGENT_USER = ''zodex-agent''"
definition ZODEX_AGENT_HOME :: rstr where "ZODEX_AGENT_HOME = ''/home/zodex-agent''"
definition GITHUB_PUSH_REWRITE_SOURCE :: rstr where "GITHUB_PUSH_REWRITE_SOURCE = ''https://github.com/''"
definition GITHUB_PUSH_REWRITE_TARGET :: rstr where "GITHUB_PUSH_REWRITE_TARGET = ''zodex::https://github.com/''"

section \<open>Times\<close>

record local_time =
  lt_day :: nat
  lt_month :: nat
  lt_year :: int
  lt_hour :: nat
  lt_minute :: nat

record time_lib =
  tl_from_unix_timestamp :: "int \<Rightarrow> unit res"
  tl_rfc3339 :: "int \<Rightarrow> rstr res"
  tl_to_offset :: "int \<Rightarrow> int \<Rightarrow> local_time"
  tl_local_offset :: "int option"

definition u64_as_i64 :: "nat \<Rightarrow> int" where
  "u64_as_i64 n = (if n < 2 ^ 63 then int n else int n - 2 ^ 64)"

definition checked_add_u64 :: "nat \<Rightarrow> nat \<Rightarrow> nat option" where
  "checked_add_u64 a b = (if a + b \<le> u64_max then Some (a + b) else None)"

definition format_epoch_seconds_rfc3339 :: "time_lib \<Rightarrow> nat \<Rightarrow> rstr res" where
  "format_epoch_seconds_rfc3339 lib epoch_seconds =
     and_then (with_ctx ''failed to build RFC3339 timestamp from epoch seconds'' (tl_from_unix_timestamp lib (u64_as_i64 epoch_seconds)))
       (\<lambda>_. with_ctx ''failed to format RFC3339 timestamp'' (tl_rfc3339 lib (u64_as_i64 epoch_seconds)))"

definition month_name :: "nat \<Rightarrow> rstr" where
  "month_name month =
     [''January'', ''February'', ''March'', ''April'', ''May'', ''June'', ''July'', ''August'', ''September'',
      ''October'', ''November'', ''December''] ! (month - 1)"

definition two_digits :: "nat \<Rightarrow> rstr" where
  "two_digits n = (if n < 10 then ''0'' @ show_nat n else show_nat n)"

definition local_offset_label :: "int \<Rightarrow> rstr" where
  "local_offset_label total_seconds =
     (if total_seconds = 0 then ''UTC''
      else if total_seconds = 5 * 60 * 60 + 30 * 60 then ''IST''
      else
        let absolute = nat (abs total_seconds)
        in ''UTC'' @ (if 0 \<le> total_seconds then ''+'' else ''-'') @ two_digits (absolute div 3600) @ '':'' @
           two_digits (absolute mod 3600 div 60))"

definition format_epoch_seconds_local_display :: "time_lib \<Rightarrow> nat \<Rightarrow> rstr res" where
  "format_epoch_seconds_local_display lib epoch_seconds =
     (let offset = unwrap_or (tl_local_offset lib) 0
      in and_then (with_ctx ''failed to build local display timestamp from epoch seconds''
             (tl_from_unix_timestamp lib (u64_as_i64 epoch_seconds)))
         (\<lambda>_. let local = tl_to_offset lib (u64_as_i64 epoch_seconds) offset;
                  display_hour = (if lt_hour local mod 12 = 0 then 12 else lt_hour local mod 12);
                  meridiem = (if lt_hour local < 12 then ''AM'' else ''PM'')
              in Inr (show_nat (lt_day local) @ '' '' @ month_name (lt_month local) @ '' '' @ show_int (lt_year local) @ '' '' @
                   show_nat display_hour @ '':'' @ two_digits (lt_minute local) @ '' '' @ meridiem @ '' '' @ local_offset_label offset)))"

section \<open>Repositories\<close>

text \<open>\<^verbatim>\<open>credentials.rs\<close> has its own copy of the function of the publisher.\<close>

definition normalize_operator_repo :: "rstr \<Rightarrow> rstr option" where
  "normalize_operator_repo path =
     (let trimmed = trim_matches (CHR ''/'') path;
          trimmed = unwrap_or (strip_suffix ''.git'' trimmed) trimmed
      in case split_on (CHR ''/'') trimmed of
           [owner, repo] \<Rightarrow> if owner = [] \<or> repo = [] then None else Some (owner @ ''/'' @ repo)
         | _ \<Rightarrow> None)"

fun normalize_repos_loop :: "rstr list \<Rightarrow> rstr list \<Rightarrow> rstr list res" where
  "normalize_repos_loop normalized [] = Inr normalized"
| "normalize_repos_loop normalized (repo # rest) =
     (case normalize_operator_repo repo of
        None \<Rightarrow> Inl (''repo must be in owner/repo form: '' @ repo)
      | Some r \<Rightarrow> normalize_repos_loop (if r \<in> set normalized then normalized else normalized @ [r]) rest)"

definition normalize_github_repos :: "rstr list \<Rightarrow> rstr list res" where
  "normalize_github_repos repos = normalize_repos_loop [] repos"

section \<open>Mode records\<close>

record yolo_grant =
  yg_repo :: rstr
  yg_created_at :: rstr
  yg_expires_at :: "rstr option"
  yg_expires_at_epoch_seconds :: "nat option"

record mode_state =
  ms_mode :: rstr
  ms_all_installed :: bool
  ms_repos :: "rstr list"
  ms_repo_grants :: "yolo_grant list"
  ms_created_at :: rstr
  ms_expires_at :: "rstr option"
  ms_expires_at_epoch_seconds :: "nat option"
  ms_enabled_by :: rstr
  ms_token_source :: rstr

definition github_yolo_expiration_from :: "time_lib \<Rightarrow> nat \<Rightarrow> nat option \<Rightarrow> (rstr option \<times> nat option) res" where
  "github_yolo_expiration_from lib created_at_epoch_seconds active_ttl =
     (case active_ttl of
        Some ttl \<Rightarrow>
          and_then (ok_or (checked_add_u64 created_at_epoch_seconds ttl) ''YOLO mode expiration overflowed'')
          (\<lambda>expires. and_then (format_epoch_seconds_rfc3339 lib expires) (\<lambda>text. Inr (Some text, Some expires)))
      | None \<Rightarrow> Inr (None, None))"

definition build_github_yolo_mode_record_at :: "time_lib \<Rightarrow> rstr list \<Rightarrow> nat option \<Rightarrow> nat \<Rightarrow> mode_state res" where
  "build_github_yolo_mode_record_at lib repos active_ttl created_at_epoch_seconds =
     and_then (format_epoch_seconds_rfc3339 lib created_at_epoch_seconds)
     (\<lambda>created_at. and_then (github_yolo_expiration_from lib created_at_epoch_seconds active_ttl)
     (\<lambda>(expires_at, expires_at_epoch_seconds).
        Inr \<lparr>ms_mode = ''yolo'', ms_all_installed = (repos = []), ms_repos = repos,
          ms_repo_grants = map (\<lambda>repo. \<lparr>yg_repo = repo, yg_created_at = created_at, yg_expires_at = expires_at,
            yg_expires_at_epoch_seconds = expires_at_epoch_seconds\<rparr>) repos,
          ms_created_at = created_at, ms_expires_at = expires_at, ms_expires_at_epoch_seconds = expires_at_epoch_seconds,
          ms_enabled_by = ''operator-cli'', ms_token_source = ''publisher-app-installation-token''\<rparr>))"

definition build_github_yolo_mode_record :: "time_lib \<Rightarrow> nat option \<Rightarrow> rstr list \<Rightarrow> nat option \<Rightarrow> mode_state res" where
  "build_github_yolo_mode_record lib clock repos active_ttl =
     and_then (normalize_github_repos repos)
     (\<lambda>repos. and_then (current_epoch_seconds clock)
     (\<lambda>now. build_github_yolo_mode_record_at lib repos active_ttl now))"

definition yolo_repo_grant_expired :: "yolo_grant \<Rightarrow> nat \<Rightarrow> bool" where
  "yolo_repo_grant_expired grant now =
     (case yg_expires_at_epoch_seconds grant of Some expires \<Rightarrow> expires \<le> now | None \<Rightarrow> False)"

definition mode_all_installed_active :: "mode_state \<Rightarrow> nat \<Rightarrow> bool" where
  "mode_all_installed_active record now =
     (if \<not> ms_all_installed record then False
      else \<not> (case ms_expires_at_epoch_seconds record of Some expires \<Rightarrow> expires \<le> now | None \<Rightarrow> False))"

definition active_repo_grants :: "mode_state \<Rightarrow> nat \<Rightarrow> yolo_grant list" where
  "active_repo_grants record now =
     (if ms_repo_grants record \<noteq> [] then filter (\<lambda>grant. \<not> yolo_repo_grant_expired grant now) (ms_repo_grants record)
      else if ms_all_installed record
        \<or> (case ms_expires_at_epoch_seconds record of Some expires \<Rightarrow> expires \<le> now | None \<Rightarrow> False) then []
      else map (\<lambda>repo. \<lparr>yg_repo = repo, yg_created_at = ms_created_at record, yg_expires_at = ms_expires_at record,
        yg_expires_at_epoch_seconds = ms_expires_at_epoch_seconds record\<rparr>) (ms_repos record))"

definition mode_has_active_scope :: "mode_state \<Rightarrow> nat \<Rightarrow> bool" where
  "mode_has_active_scope record now \<longleftrightarrow> mode_all_installed_active record now \<or> active_repo_grants record now \<noteq> []"

definition mode_expired :: "mode_state \<Rightarrow> nat \<Rightarrow> bool" where
  "mode_expired record now \<longleftrightarrow> \<not> mode_has_active_scope record now"

fun replace_or_push_grant :: "yolo_grant \<Rightarrow> yolo_grant list \<Rightarrow> yolo_grant list" where
  "replace_or_push_grant grant [] = [grant]"
| "replace_or_push_grant grant (existing # rest) =
     (if yg_repo existing = yg_repo grant then grant # rest else existing # replace_or_push_grant grant rest)"

definition merge_github_yolo_mode_records :: "mode_state option \<Rightarrow> mode_state \<Rightarrow> nat \<Rightarrow> mode_state" where
  "merge_github_yolo_mode_records existing next now =
     (case existing of
        None \<Rightarrow> next
      | Some merged \<Rightarrow>
          if \<not> (ms_mode merged = ''yolo'' \<and> \<not> mode_expired merged now) then next
          else
            let grants = sort_key yg_repo (fold replace_or_push_grant (ms_repo_grants next) (active_repo_grants merged now));
                merged = (if ms_all_installed next then
                    merged\<lparr>ms_all_installed := True, ms_created_at := ms_created_at next, ms_expires_at := ms_expires_at next,
                      ms_expires_at_epoch_seconds := ms_expires_at_epoch_seconds next, ms_enabled_by := ms_enabled_by next,
                      ms_token_source := ms_token_source next\<rparr>
                  else if \<not> mode_all_installed_active merged now then
                    merged\<lparr>ms_all_installed := False, ms_expires_at := None, ms_expires_at_epoch_seconds := None\<rparr>
                  else merged)
            in merged\<lparr>ms_repo_grants := grants, ms_repos := map yg_repo grants\<rparr>)"

section \<open>What the daemon makes of a record\<close>

text \<open>The publisher reads the fields it needs from the same JSON object.\<close>

definition published :: "mode_state \<Rightarrow> github_mode_record" where
  "published record =
     \<lparr>gm_mode = ms_mode record, gm_all_installed = ms_all_installed record, gm_repos = ms_repos record,
      gm_repo_grants = map (\<lambda>g. \<lparr>grant_repo = yg_repo g, grant_expires_at = yg_expires_at_epoch_seconds g\<rparr>) (ms_repo_grants record),
      gm_expires_at = ms_expires_at_epoch_seconds record\<rparr>"

definition grant_holds :: "yolo_grant \<Rightarrow> nat \<Rightarrow> bool" where
  "grant_holds g t = not_expired (yg_expires_at_epoch_seconds g) t"

lemma yolo_repo_grant_expired_iff: "yolo_repo_grant_expired g t \<longleftrightarrow> \<not> grant_holds g t"
  by (auto simp: yolo_repo_grant_expired_def grant_holds_def not_expired_def split: option.splits)

lemma mode_all_installed_active_iff:
  "mode_all_installed_active r t \<longleftrightarrow> ms_all_installed r \<and> not_expired (ms_expires_at_epoch_seconds r) t"
  by (auto simp: mode_all_installed_active_def not_expired_def split: option.splits)

lemma active_repo_grants_eq:
  "active_repo_grants r t =
     (if ms_repo_grants r \<noteq> [] then filter (\<lambda>g. grant_holds g t) (ms_repo_grants r)
      else if ms_all_installed r \<or> \<not> not_expired (ms_expires_at_epoch_seconds r) t then []
      else map (\<lambda>repo. \<lparr>yg_repo = repo, yg_created_at = ms_created_at r, yg_expires_at = ms_expires_at r,
        yg_expires_at_epoch_seconds = ms_expires_at_epoch_seconds r\<rparr>) (ms_repos r))"
  by (auto simp: active_repo_grants_def yolo_repo_grant_expired_iff not_expired_def split: option.splits)

lemma not_expired_antimono: "not_expired e t' \<Longrightarrow> t \<le> t' \<Longrightarrow> not_expired e t"
  by (auto simp: not_expired_def split: option.splits)

text \<open>At any time the daemon lets a push through exactly when the operator's own reading of the record has
  an active scope for the repository.\<close>

lemma publisher_allows:
  "github_mode_allows_repo (Some t) (published r) repo \<longleftrightarrow>
     mode_all_installed_active r t \<or> (\<exists>g \<in> set (active_repo_grants r t). yg_repo g = repo)"
  by (auto simp: github_mode_allows_repo_Some published_def mode_all_installed_active_iff active_repo_grants_eq grant_holds_def)

lemma later_grants:
  assumes "now \<le> t"
  shows "(\<exists>g \<in> set (active_repo_grants r t). yg_repo g = repo) \<longleftrightarrow>
    (\<exists>g \<in> set (active_repo_grants r now). yg_repo g = repo \<and> grant_holds g t)"
  using assms by (auto simp: active_repo_grants_eq grant_holds_def intro: not_expired_antimono)

lemma mode_expired_published: "mode_expired r t \<longleftrightarrow> github_mode_expired (published r) t"
proof -
  have "mode_has_active_scope r t \<longleftrightarrow> (\<exists>repo. github_mode_allows_repo (Some t) (published r) repo)"
    by (cases "active_repo_grants r t") (auto simp: mode_has_active_scope_def publisher_allows)
  then show ?thesis by (simp add: mode_expired_def mode_expired_iff_nothing_allowed)
qed

section \<open>Merging\<close>

lemma replace_or_push_grant_upsert: "replace_or_push_grant = upsert_by yg_repo"
proof (intro ext)
  fix g xs
  show "replace_or_push_grant g xs = upsert_by yg_repo g xs" by (induction xs) simp_all
qed

interpretation yolo_grants: keyed_upsert yg_repo replace_or_push_grant
  by unfold_locales (simp_all add: replace_or_push_grant_upsert find_upsert_by distinct_upsert_by)

definition mode_wf :: "mode_state \<Rightarrow> bool" where
  "mode_wf r \<longleftrightarrow> ms_mode r = ''yolo'' \<and> distinct (map yg_repo (ms_repo_grants r)) \<and> distinct (ms_repos r)"

lemma distinct_active: "mode_wf r \<Longrightarrow> distinct (map yg_repo (active_repo_grants r now))"
  by (auto simp: mode_wf_def active_repo_grants_eq comp_def distinct_map_filter)

definition merged_grants :: "mode_state \<Rightarrow> mode_state \<Rightarrow> nat \<Rightarrow> yolo_grant list" where
  "merged_grants e n now = fold replace_or_push_grant (ms_repo_grants n) (active_repo_grants e now)"

lemma merged_grants_find:
  assumes "mode_wf e" "mode_wf n"
  shows "find_key yg_repo repo (merged_grants e n now) =
    (case find_key yg_repo repo (ms_repo_grants n) of Some g \<Rightarrow> Some g | None \<Rightarrow> find_key yg_repo repo (active_repo_grants e now))"
proof -
  have "find_key yg_repo repo (rev (ms_repo_grants n)) = find_key yg_repo repo (ms_repo_grants n)"
    using assms(2) by (intro find_key_cong) (simp_all add: mode_wf_def flip: rev_map)
  then show ?thesis by (simp add: merged_grants_def yolo_grants.find_upserts)
qed

lemma merged_grants_distinct: "mode_wf e \<Longrightarrow> distinct (map yg_repo (merged_grants e n now))"
  by (simp add: merged_grants_def yolo_grants.distinct_upserts distinct_active)

lemma merge_fields:
  assumes "ms_mode e = ''yolo''" "\<not> mode_expired e now"
    and m: "m = merge_github_yolo_mode_records (Some e) n now"
  shows "ms_mode m = ''yolo''" "ms_repo_grants m = sort_key yg_repo (merged_grants e n now)"
    "ms_repos m = map yg_repo (ms_repo_grants m)"
    "mode_all_installed_active m t \<longleftrightarrow>
       (if ms_all_installed n then not_expired (ms_expires_at_epoch_seconds n) t
        else mode_all_installed_active e now \<and> mode_all_installed_active e t)"
  using assms
  by (simp_all add: m merge_github_yolo_mode_records_def merged_grants_def mode_all_installed_active_iff Let_def)

lemma exists_key:
  assumes "distinct (map key xs)"
  shows "(\<exists>x \<in> set xs. key x = k \<and> P x) \<longleftrightarrow> (case find_key key k xs of Some x \<Rightarrow> P x | None \<Rightarrow> False)"
  using assms by (induction xs) (auto simp: image_iff split: option.splits)

lemma merge_sound:
  assumes "now \<le> t" "github_mode_allows_repo (Some t) (published (merge_github_yolo_mode_records existing n now)) repo"
  shows "github_mode_allows_repo (Some t) (published n) repo \<or>
    (\<exists>e. existing = Some e \<and> github_mode_allows_repo (Some t) (published e) repo)"
proof (cases "\<exists>e. existing = Some e \<and> ms_mode e = ''yolo'' \<and> \<not> mode_expired e now")
  case True
  then obtain e where e: "existing = Some e" "ms_mode e = ''yolo''" "\<not> mode_expired e now" by blast
  let ?m = "merge_github_yolo_mode_records (Some e) n now"
  note fields = merge_fields [OF e(2,3) refl, of n]
  have kept: "set (fold replace_or_push_grant ns gs) \<subseteq> set ns \<union> set gs" for ns gs
  proof (induction ns arbitrary: gs)
    case (Cons x ns)
    have "set (replace_or_push_grant x gs) \<subseteq> insert x (set gs)" by (induction gs) auto
    with Cons [of "replace_or_push_grant x gs"] show ?case by auto
  qed simp
  have grants: "set (ms_repo_grants ?m) \<subseteq> set (ms_repo_grants n) \<union> set (active_repo_grants e now)"
    using kept by (simp add: fields(2) merged_grants_def)
  from assms(2) have "mode_all_installed_active ?m t \<or> (\<exists>g \<in> set (active_repo_grants ?m t). yg_repo g = repo)"
    by (simp add: publisher_allows e(1))
  then show ?thesis
  proof
    assume "mode_all_installed_active ?m t"
    then show ?thesis
      unfolding fields(4) publisher_allows e(1) by (auto simp: mode_all_installed_active_iff split: if_splits)
  next
    assume "\<exists>g \<in> set (active_repo_grants ?m t). yg_repo g = repo"
    then obtain g where g: "g \<in> set (ms_repo_grants ?m)" "yg_repo g = repo" "grant_holds g t"
      using fields(3) by (auto simp: active_repo_grants_eq split: if_splits)
    with grants consider "g \<in> set (ms_repo_grants n)" | "g \<in> set (active_repo_grants e now)" by blast
    then show ?thesis
    proof cases
      case 1
      then have "active_repo_grants n t = filter (\<lambda>g. grant_holds g t) (ms_repo_grants n)"
        by (cases "ms_repo_grants n") (simp_all add: active_repo_grants_eq)
      with 1 g have "\<exists>g \<in> set (active_repo_grants n t). yg_repo g = repo" by auto
      then show ?thesis by (simp add: publisher_allows)
    next
      case 2
      with g have "\<exists>g \<in> set (active_repo_grants e t). yg_repo g = repo" unfolding later_grants [OF assms(1)] by blast
      then show ?thesis by (auto simp: publisher_allows e(1))
    qed
  qed
next
  case False
  with assms(2) show ?thesis by (auto simp: merge_github_yolo_mode_records_def split: option.splits if_splits)
qed

lemma merge_complete:
  assumes "github_mode_allows_repo (Some t) (published n) repo" "ms_all_installed n \<or> ms_repo_grants n \<noteq> []" "distinct (map yg_repo (ms_repo_grants n))"
  shows "github_mode_allows_repo (Some t) (published (merge_github_yolo_mode_records existing n now)) repo"
proof (cases "\<exists>e. existing = Some e \<and> ms_mode e = ''yolo'' \<and> \<not> mode_expired e now")
  case True
  then obtain e where e: "existing = Some e" "ms_mode e = ''yolo''" "\<not> mode_expired e now" by blast
  let ?m = "merge_github_yolo_mode_records (Some e) n now"
  note fields = merge_fields [OF e(2,3) refl, of n]
  from assms(1) have "mode_all_installed_active n t \<or> (\<exists>g \<in> set (active_repo_grants n t). yg_repo g = repo)"
    by (simp add: publisher_allows)
  then show ?thesis
  proof
    assume "mode_all_installed_active n t"
    then have "mode_all_installed_active ?m t" unfolding fields(4) by (simp add: mode_all_installed_active_iff)
    then show ?thesis by (simp add: publisher_allows e(1))
  next
    assume "\<exists>g \<in> set (active_repo_grants n t). yg_repo g = repo"
    then obtain g where g: "g \<in> set (ms_repo_grants n)" "yg_repo g = repo" "grant_holds g t"
      using assms(2) by (auto simp: active_repo_grants_eq split: if_splits)
    have "find_key yg_repo repo (rev (ms_repo_grants n)) = Some g"
      using g assms(3) by (subst find_key_Some) (simp_all flip: rev_map)
    then have "find_key yg_repo repo (merged_grants e n now) = Some g"
      by (simp add: merged_grants_def yolo_grants.find_upserts)
    then have "g \<in> set (ms_repo_grants ?m)" by (auto simp: fields(2) dest: find_key_in)
    with g have "\<exists>g \<in> set (active_repo_grants ?m t). yg_repo g = repo" by (auto simp: active_repo_grants_eq)
    then show ?thesis by (simp add: publisher_allows e(1))
  qed
next
  case False
  with assms(1) show ?thesis by (auto simp: merge_github_yolo_mode_records_def split: option.splits)
qed

lemma normalize_repos_loop_distinct:
  "normalize_repos_loop acc repos = Inr out \<Longrightarrow> distinct acc \<Longrightarrow> distinct out"
  by (induction acc repos rule: normalize_repos_loop.induct) (auto split: option.splits if_splits)

lemma built_record:
  assumes "build_github_yolo_mode_record lib clock repos ttl = Inr n"
  shows "ms_mode n = ''yolo''" "ms_all_installed n \<or> ms_repo_grants n \<noteq> []" "distinct (map yg_repo (ms_repo_grants n))"
  using assms normalize_repos_loop_distinct [of "[]" repos]
  by (auto simp: build_github_yolo_mode_record_def build_github_yolo_mode_record_at_def normalize_github_repos_def and_then_Inr comp_def)

text \<open>
  C15: Enabling YOLO mode again adds to what is already granted, and to nothing else.  Let a record that
  still grants something be merged with the record of a new command, and let some time pass.  Then the
  daemon allows a direct push to a repository exactly when the new command, if it concerned all
  installed repositories, has not expired, or else the old record still grants all of them; or when the
  new command named the repository and has not expired, or, if it did not name it, the old record
  still grants that repository.  A repository that is named again has the new expiry only.  The merged
  record is well-formed: its repositories are distinct and sorted and agree with its grants.
\<close>

theorem yolo_merge_grants_exactly:
  assumes wf: "mode_wf e" "mode_wf n" and active: "\<not> mode_expired e now" and "now \<le> t"
    and m: "m = merge_github_yolo_mode_records (Some e) n now"
  shows "(github_mode_allows_repo (Some t) (published m) repo \<longleftrightarrow>
      (if ms_all_installed n then not_expired (ms_expires_at_epoch_seconds n) t else mode_all_installed_active e t) \<or>
      (case find_key yg_repo repo (ms_repo_grants n) of
         Some g \<Rightarrow> grant_holds g t
       | None \<Rightarrow> \<exists>g \<in> set (active_repo_grants e t). yg_repo g = repo)) \<and>
    mode_wf m \<and> sorted (map yg_repo (ms_repo_grants m)) \<and> ms_repos m = map yg_repo (ms_repo_grants m)"
proof -
  have yolo: "ms_mode e = ''yolo''" using wf by (simp add: mode_wf_def)
  note fields = merge_fields [OF yolo active m]
  have none: "ms_repo_grants m = [] \<Longrightarrow> active_repo_grants m t = []"
    using fields(3) by (simp add: active_repo_grants_eq)
  have "(\<exists>g \<in> set (active_repo_grants m t). yg_repo g = repo) \<longleftrightarrow>
      (\<exists>g \<in> set (merged_grants e n now). yg_repo g = repo \<and> grant_holds g t)"
  proof (cases "ms_repo_grants m = []")
    case True
    then have "merged_grants e n now = []" using fields(2) by (metis length_0_conv length_sort)
    with none [OF True] show ?thesis by simp
  qed (auto simp: active_repo_grants_eq fields(2))
  also have "\<dots> \<longleftrightarrow> (case find_key yg_repo repo (merged_grants e n now) of Some g \<Rightarrow> grant_holds g t | None \<Rightarrow> False)"
    by (rule exists_key) (simp add: merged_grants_distinct wf)
  also have "\<dots> \<longleftrightarrow> (case find_key yg_repo repo (ms_repo_grants n) of
         Some g \<Rightarrow> grant_holds g t
       | None \<Rightarrow> \<exists>g \<in> set (active_repo_grants e t). yg_repo g = repo)"
    unfolding later_grants [OF \<open>now \<le> t\<close>] exists_key [OF distinct_active [OF wf(1)]]
    by (simp add: merged_grants_find wf split: option.splits)
  finally have named: "(\<exists>g \<in> set (active_repo_grants m t). yg_repo g = repo) \<longleftrightarrow>
    (case find_key yg_repo repo (ms_repo_grants n) of
         Some g \<Rightarrow> grant_holds g t
       | None \<Rightarrow> \<exists>g \<in> set (active_repo_grants e t). yg_repo g = repo)" .
  have "mode_all_installed_active e t \<Longrightarrow> mode_all_installed_active e now"
    using \<open>now \<le> t\<close> by (auto simp: mode_all_installed_active_iff intro: not_expired_antimono)
  then have allows: "github_mode_allows_repo (Some t) (published m) repo \<longleftrightarrow>
      (if ms_all_installed n then not_expired (ms_expires_at_epoch_seconds n) t else mode_all_installed_active e t) \<or>
      (case find_key yg_repo repo (ms_repo_grants n) of
         Some g \<Rightarrow> grant_holds g t
       | None \<Rightarrow> \<exists>g \<in> set (active_repo_grants e t). yg_repo g = repo)"
    unfolding publisher_allows named fields(4) by auto
  moreover have "mode_wf m \<and> sorted (map yg_repo (ms_repo_grants m)) \<and> ms_repos m = map yg_repo (ms_repo_grants m)"
    using fields(1-3) merged_grants_distinct [OF wf(1), of n now] by (simp add: mode_wf_def distinct_keys_sort)
  ultimately show ?thesis by (rule conjI)
qed

definition example_mode :: "rstr list \<Rightarrow> nat \<Rightarrow> mode_state" where
  "example_mode repos expires =
     \<lparr>ms_mode = ''yolo'', ms_all_installed = (repos = []), ms_repos = repos,
      ms_repo_grants = map (\<lambda>repo. \<lparr>yg_repo = repo, yg_created_at = [], yg_expires_at = None,
        yg_expires_at_epoch_seconds = Some expires\<rparr>) repos,
      ms_created_at = [], ms_expires_at = None, ms_expires_at_epoch_seconds = Some expires,
      ms_enabled_by = ''operator-cli'', ms_token_source = ''publisher-app-installation-token''\<rparr>"

theorem yolo_merge_grants_exactly_witness:
  "github_mode_allows_repo (Some 20) (published
       (merge_github_yolo_mode_records (Some (example_mode [''o/a'', ''o/b''] 30)) (example_mode [''o/b''] 15) 10)) ''o/a'' \<and>
   \<not> github_mode_allows_repo (Some 20) (published
       (merge_github_yolo_mode_records (Some (example_mode [''o/a'', ''o/b''] 30)) (example_mode [''o/b''] 15) 10)) ''o/b''"
proof -
  have wf: "mode_wf (example_mode [''o/a'', ''o/b''] 30)" "mode_wf (example_mode [''o/b''] 15)"
    by (simp_all add: mode_wf_def example_mode_def)
  have active: "\<not> mode_expired (example_mode [''o/a'', ''o/b''] 30) 10" by code_simp
  have late: "(10::nat) \<le> 20" by simp
  note exactly = yolo_merge_grants_exactly [OF wf active late refl, THEN conjunct1]
  show ?thesis unfolding exactly by code_simp
qed

end
