(* ===== verification/Mode_Commands.thy ===== *)
theory Mode_Commands
  imports Github_Mode
begin

text \<open>
  The commands that put a GitHub mode on a Sprite, take it away, reconcile the agent's git configuration
  with it and report it (\<^verbatim>\<open>bin/zodex/github_mode.rs\<close>).  Every command is a sequence of calls of the
  \<^verbatim>\<open>sprite\<close> program, which runs a \<^verbatim>\<open>bash\<close> script on the machine; the result is what the command prints,
  whether it succeeds, and the machine afterwards.  What \<^verbatim>\<open>bash\<close> makes of a script is written out below:
  it runs the lines in order and reports the status of the last.
\<close>

section \<open>Scripts\<close>

text \<open>\<^verbatim>\<open>{:?}\<close> of a string without quotes, backslashes or control characters.\<close>

definition dquoted :: "rstr \<Rightarrow> rstr" where
  "dquoted text = [CHR 34] @ text @ [CHR 34]"

definition expected_zodex_agent_git_helper :: rstr where
  "expected_zodex_agent_git_helper =
     ZODEX_AGENT_BINARY_PATH @ '' --config '' @ OPERATOR_DEFAULT_CONFIG_PATH @ '' git-credential-helper''"

definition agent_git_config :: rstr where
  "agent_git_config = ''sudo -u '' @ ZODEX_AGENT_USER @ '' env HOME='' @ dquoted ZODEX_AGENT_HOME @ '' git config --global ''"

definition repair_common_lines :: "rstr list" where
  "repair_common_lines =
     [''helper_cmd='' @ dquoted expected_zodex_agent_git_helper,
      agent_git_config @ ''--replace-all credential.https://github.com.helper '' @ dquoted ''$helper_cmd'',
      agent_git_config @ ''credential.https://github.com.useHttpPath true'']"

definition script_text :: "rstr list \<Rightarrow> rstr" where
  "script_text ls = concat (map (\<lambda>l. l @ [nl]) ls)"

definition yolo_repair_lines :: "rstr list" where
  "yolo_repair_lines = repair_common_lines @
     [agent_git_config @ ''--replace-all url.'' @ dquoted GITHUB_PUSH_REWRITE_TARGET @ ''.pushInsteadOf '' @ dquoted GITHUB_PUSH_REWRITE_SOURCE]"

definition github_yolo_agent_git_repair_script :: rstr where
  "github_yolo_agent_git_repair_script = script_text yolo_repair_lines"

definition default_repair_lines :: "rstr list" where
  "default_repair_lines = repair_common_lines @
     [agent_git_config @ ''--unset-all url.'' @ dquoted GITHUB_PUSH_REWRITE_TARGET @ ''.pushInsteadOf || true'']"

definition github_default_agent_git_repair_script :: rstr where
  "github_default_agent_git_repair_script = script_text default_repair_lines"

definition read_mode_script :: rstr where
  "read_mode_script = ''if sudo test -f '' @ GITHUB_MODE_STATE_PATH @ ''; then sudo cat '' @ GITHUB_MODE_STATE_PATH @ ''; fi''"

definition install_mode_line :: rstr where
  "install_mode_line =
     ''sudo install -d -m 0750 -o zodex-publisher -g zodex '' @ GITHUB_MODE_DIR @
     '' && sudo install -m 0640 -o zodex-publisher -g zodex '' @ GITHUB_MODE_REMOTE_TMP_PATH @ '' '' @ GITHUB_MODE_STATE_PATH @
     '' && rm -f '' @ GITHUB_MODE_REMOTE_TMP_PATH"

definition remove_mode_line :: rstr where
  "remove_mode_line = ''sudo rm -f '' @ GITHUB_MODE_STATE_PATH"

definition inspect_git_line :: "rstr \<Rightarrow> rstr \<Rightarrow> rstr" where
  "inspect_git_line variable query = variable @ ''='' @ dquoted (''$('' @ agent_git_config @ query @ '' || true)'')"

definition print_variable_line :: "rstr \<Rightarrow> rstr" where
  "print_variable_line variable =
     ''printf '' @ [CHR 39] @ variable @ ''=%s'' @ [CHR 92] @ ''n'' @ [CHR 39] @ '' '' @ dquoted (''$'' @ variable)"

definition inspect_lines :: "rstr list" where
  "inspect_lines =
      [inspect_git_line ''helper'' ''--get credential.https://github.com.helper'',
       inspect_git_line ''use_http_path'' ''--get credential.https://github.com.useHttpPath'',
       inspect_git_line ''push_rewrite'' (''--get-all url.'' @ dquoted GITHUB_PUSH_REWRITE_TARGET @ ''.pushInsteadOf''),
       print_variable_line ''helper'', print_variable_line ''use_http_path'', print_variable_line ''push_rewrite'']"

definition github_yolo_agent_git_inspect_script :: rstr where
  "github_yolo_agent_git_inspect_script = script_text inspect_lines"

section \<open>The agent's git configuration\<close>

record agent_git_status =
  ag_helper :: rstr
  ag_use_http_path :: rstr
  ag_push_rewrite :: rstr

definition empty_git_status :: agent_git_status where
  "empty_git_status = \<lparr>ag_helper = [], ag_use_http_path = [], ag_push_rewrite = []\<rparr>"

definition helper_ok :: "agent_git_status \<Rightarrow> bool" where
  "helper_ok status \<longleftrightarrow> ag_helper status = expected_zodex_agent_git_helper"

definition use_http_path_ok :: "agent_git_status \<Rightarrow> bool" where
  "use_http_path_ok status \<longleftrightarrow> to_ascii_lowercase (ag_use_http_path status) = ''true''"

definition push_rewrite_ok :: "agent_git_status \<Rightarrow> bool" where
  "push_rewrite_ok status = list_ex (\<lambda>l. l = GITHUB_PUSH_REWRITE_SOURCE) (str_lines (ag_push_rewrite status))"

definition direct_push_ready :: "agent_git_status \<Rightarrow> bool" where
  "direct_push_ready status \<longleftrightarrow> helper_ok status \<and> use_http_path_ok status \<and> push_rewrite_ok status"

definition parse_git_status_line ::
    "rstr \<Rightarrow> agent_git_status \<times> rstr option \<Rightarrow> agent_git_status \<times> rstr option" where
  "parse_git_status_line line = (\<lambda>(status, current_key).
     case split_once ''='' line of
       None \<Rightarrow>
         (if current_key = Some ''push_rewrite'' then
            status\<lparr>ag_push_rewrite := (if ag_push_rewrite status \<noteq> [] then ag_push_rewrite status @ [nl] else ag_push_rewrite status) @ line\<rparr>
          else status, current_key)
     | Some (key, text) \<Rightarrow>
         if key = ''helper'' then (status\<lparr>ag_helper := text\<rparr>, Some ''helper'')
         else if key = ''use_http_path'' then (status\<lparr>ag_use_http_path := text\<rparr>, Some ''use_http_path'')
         else if key = ''push_rewrite'' then (status\<lparr>ag_push_rewrite := text\<rparr>, Some ''push_rewrite'')
         else (status, current_key))"

definition parse_github_yolo_agent_git_status :: "rstr \<Rightarrow> agent_git_status" where
  "parse_github_yolo_agent_git_status raw = fst (fold parse_git_status_line (str_lines raw) (empty_git_status, None))"

definition build_github_yolo_agent_git_status_lines :: "agent_git_status \<Rightarrow> rstr list" where
  "build_github_yolo_agent_git_status_lines status =
     [''agent-git-helper: '' @ (if helper_ok status then ''ok'' else ''missing-or-mismatched''),
      ''agent-git-use-http-path: '' @ (if use_http_path_ok status then ''ok'' else ''missing-or-mismatched''),
      ''agent-git-push-rewrite: '' @ (if push_rewrite_ok status then ''ok'' else ''missing'')]"

section \<open>Reports\<close>

definition epoch_local_line :: "time_lib \<Rightarrow> rstr \<Rightarrow> nat option \<Rightarrow> rstr" where
  "epoch_local_line lib label epoch_seconds =
     label @ '': '' @
     (case epoch_seconds of
        Some e \<Rightarrow> (case format_epoch_seconds_local_display lib e of Inr shown \<Rightarrow> shown | Inl _ \<Rightarrow> ''unavailable'')
      | None \<Rightarrow> ''none'')"

definition grant_lines :: "time_lib \<Rightarrow> yolo_grant \<Rightarrow> rstr list" where
  "grant_lines lib grant =
     [''repo: '' @ yg_repo grant,
      ''repo-expires-at: '' @ yg_repo grant @ '' '' @ unwrap_or (yg_expires_at grant) ''none'',
      ''repo-expires-at-local: '' @ yg_repo grant @ '' '' @
        (case yg_expires_at_epoch_seconds grant of
           Some e \<Rightarrow> (case format_epoch_seconds_local_display lib e of Inr shown \<Rightarrow> shown | Inl _ \<Rightarrow> ''unavailable'')
         | None \<Rightarrow> ''none'')]"

definition github_yolo_scope_lines :: "time_lib \<Rightarrow> mode_state \<Rightarrow> nat \<Rightarrow> rstr list" where
  "github_yolo_scope_lines lib record now =
     (if mode_all_installed_active record now then
        [''scope: all-installed'', ''expires-at: '' @ unwrap_or (ms_expires_at record) ''none'',
         epoch_local_line lib ''expires-at-local'' (ms_expires_at_epoch_seconds record)]
      else []) @
     (let grants = active_repo_grants record now
      in if grants \<noteq> [] then ''scope: repo-allowlist'' # concat (map (grant_lines lib) grants) else [])"

definition sprite_lines :: "resolved_sprite \<Rightarrow> rstr list" where
  "sprite_lines resolved =
     (''sprite: '' @ rs_name resolved) # (case rs_org resolved of Some org \<Rightarrow> [''org: '' @ org] | None \<Rightarrow> [])"

definition direct_push_lines :: "agent_git_status \<Rightarrow> rstr list" where
  "direct_push_lines status =
     [''token-exposure: none''] @ build_github_yolo_agent_git_status_lines status @
     [''direct-git-push: '' @ (if direct_push_ready status then ''enabled-via-zodex-remote-helper'' else ''broken-missing-agent-git-config''),
      ''direct-git-push-refs: refs/heads/* refs/tags/*'', ''push-grants: covered-by-yolo-mode'']"

section \<open>Commands\<close>

type_synonym 's machine = "(rstr \<rightharpoonup> rstr) \<Rightarrow> 's sprite_program"

type_synonym 's command = "rstr list \<times> unit res \<times> 's"

definition run_script :: "'s machine \<Rightarrow> resolved_sprite \<Rightarrow> rstr \<Rightarrow> 's \<Rightarrow> rstr res \<times> 's" where
  "run_script run resolved script s =
     run_sprite_exec (run Map.empty) (rs_name resolved) (rs_org resolved) [''bash'', ''-lc'', script] [] s"

definition inspect_github_yolo_agent_git_status ::
    "'s machine \<Rightarrow> resolved_sprite \<Rightarrow> 's \<Rightarrow> agent_git_status res \<times> 's" where
  "inspect_github_yolo_agent_git_status run resolved s =
     (case run_script run resolved github_yolo_agent_git_inspect_script s of
        (Inl e, s') \<Rightarrow> (Inl e, s')
      | (Inr raw, s') \<Rightarrow> (Inr (parse_github_yolo_agent_git_status raw), s'))"

record mode_env =
  me_time :: time_lib
  me_decode :: "rstr \<Rightarrow> mode_state res"
  me_encode :: "mode_state \<Rightarrow> rstr res"
  me_temp :: "rstr res"
  me_temp_write :: "unit res"
  me_clock1 :: "nat option"
  me_clock2 :: "nat option"
  me_clock3 :: "nat option"



definition enable_script :: rstr where
  "enable_script = install_mode_line @ [nl] @ github_yolo_agent_git_repair_script"



definition disable_script :: rstr where
  "disable_script = remove_mode_line @ [nl] @ github_default_agent_git_repair_script"

definition disable_github_yolo_mode :: "'s machine \<Rightarrow> resolved_sprite \<Rightarrow> 's \<Rightarrow> 's command" where
  "disable_github_yolo_mode run resolved s =
     (case run_script run resolved disable_script s of
        (Inl e, s') \<Rightarrow> ([], Inl e, s')
      | (Inr _, s') \<Rightarrow>
          ([''github-mode: default''] @ sprite_lines resolved @ [''yolo-state: removed'', ''push-grants: unchanged''], Inr (), s'))"

definition reconcile_github_agent_git_for_mode :: "mode_env \<Rightarrow> 's machine \<Rightarrow> resolved_sprite \<Rightarrow> 's \<Rightarrow> unit res \<times> 's" where
  "reconcile_github_agent_git_for_mode env run resolved s =
     (case run_script run resolved read_mode_script s of
        (Inl e, s1) \<Rightarrow> (Inl e, s1)
      | (Inr raw, s1) \<Rightarrow>
          (case (if trim raw = [] then Inr False
                 else and_then (with_ctx ''failed to parse remote GitHub mode state while reconciling agent Git'' (me_decode env raw))
                   (\<lambda>record. if ms_mode record = ''yolo''
                      then and_then (current_epoch_seconds (me_clock1 env)) (\<lambda>now. Inr (\<not> mode_expired record now))
                      else Inr False)) of
             Inl e \<Rightarrow> (Inl e, s1)
           | Inr yolo_active \<Rightarrow>
               (case run_script run resolved
                       (if yolo_active then github_yolo_agent_git_repair_script else github_default_agent_git_repair_script) s1 of
                  (Inl e, s2) \<Rightarrow> (Inl e, s2)
                | (Inr _, s2) \<Rightarrow> (Inr (), s2))))"

definition default_mode_lines :: "rstr list \<Rightarrow> rstr list" where
  "default_mode_lines reason =
     [''github-mode: default''] @ reason @ [''direct-git-push: disabled'', ''push-grants: separate'']"

definition print_github_mode_status :: "mode_env \<Rightarrow> 's machine \<Rightarrow> resolved_sprite \<Rightarrow> 's \<Rightarrow> 's command" where
  "print_github_mode_status env run resolved s =
     (case run_script run resolved read_mode_script s of
        (Inl e, s1) \<Rightarrow> ([], Inl e, s1)
      | (Inr raw, s1) \<Rightarrow>
          let first = sprite_lines resolved in
          if trim raw = [] then (first @ default_mode_lines [], Inr (), s1)
          else (case with_ctx ''failed to parse remote GitHub mode state'' (me_decode env raw) of
              Inl e \<Rightarrow> (first, Inl e, s1)
            | Inr record \<Rightarrow>
                if ms_mode record \<noteq> ''yolo'' then (first @ default_mode_lines [''mode-state: '' @ ms_mode record], Inr (), s1)
                else (case current_epoch_seconds (me_clock1 env) of
                    Inl e \<Rightarrow> (first, Inl e, s1)
                  | Inr now \<Rightarrow>
                      if mode_expired record now then
                        (first @ default_mode_lines ([''yolo-state: expired''] @
                           (case ms_expires_at record of Some e \<Rightarrow> [''expired-at: '' @ e] | None \<Rightarrow> []) @
                           [epoch_local_line (me_time env) ''expired-at-local'' (ms_expires_at_epoch_seconds record)]), Inr (), s1)
                      else (case inspect_github_yolo_agent_git_status run resolved s1 of
                          (Inl e, s2) \<Rightarrow> (first, Inl e, s2)
                        | (Inr status, s2) \<Rightarrow>
                            (first @ [''github-mode: yolo''] @ github_yolo_scope_lines (me_time env) record now @
                               direct_push_lines status, Inr (), s2)))))"

section \<open>What bash makes of a script\<close>

type_synonym 's shell = "rstr \<Rightarrow> 's \<Rightarrow> bool \<times> rstr \<times> 's"

fun bash_run :: "'s shell \<Rightarrow> rstr list \<Rightarrow> 's \<Rightarrow> bool \<times> rstr \<times> 's" where
  "bash_run sh [] s = (True, [], s)"
| "bash_run sh [l] s = sh l s"
| "bash_run sh (l # k # ls) s =
     (let (_, out, s1) = sh l s; (ok, rest, s2) = bash_run sh (k # ls) s1 in (ok, out @ rest, s2))"

text \<open>A machine that can be reached: the uploads arrive, then the script runs and its status is reported.\<close>

definition bash_machine :: "'s shell \<Rightarrow> ((rstr \<rightharpoonup> rstr) \<Rightarrow> rstr list \<Rightarrow> 's \<Rightarrow> 's) \<Rightarrow> 's machine" where
  "bash_machine sh upload files args s =
     (let (ok, out, s') = bash_run sh (str_lines (last args)) (upload files args s)
      in (Inr \<lparr>out_code = Some (if ok then 0 else 1), out_stdout = out, out_stderr = []\<rparr>, s'))"



text \<open>
  What the lines of the scripts do to the mode file, and what an upload does: reading prints the file,
  installing moves the uploaded file there if it succeeds, and nothing but the two lines that are about
  the mode file changes it.
\<close>

definition mode_laws ::
    "resolved_sprite \<Rightarrow> 's shell \<Rightarrow> ((rstr \<rightharpoonup> rstr) \<Rightarrow> rstr list \<Rightarrow> 's \<Rightarrow> 's) \<Rightarrow> ('s \<Rightarrow> rstr option) \<Rightarrow> ('s \<Rightarrow> rstr option) \<Rightarrow> bool" where
  "mode_laws resolved sh upload mode_file tmp_file \<longleftrightarrow>
     (\<forall>s ok out s'. sh read_mode_script s = (ok, out, s') \<longrightarrow> ok \<longrightarrow> out = unwrap_or (mode_file s) []) \<and>
     (\<forall>s out s'. sh install_mode_line s = (True, out, s') \<longrightarrow> mode_file s' = tmp_file s) \<and>
     (\<forall>l s. l \<noteq> install_mode_line \<longrightarrow> l \<noteq> remove_mode_line \<longrightarrow> mode_file (snd (snd (sh l s))) = mode_file s) \<and>
     (\<forall>files args s. mode_file (upload files args s) = mode_file s) \<and>
     (\<forall>exec_args tmp raw s.
        tmp_file (upload [tmp \<mapsto> raw] (sprite_exec_args (rs_name resolved) (rs_org resolved) exec_args [(tmp, GITHUB_MODE_REMOTE_TMP_PATH)]) s) = Some raw)"

lemma mode_lawsD:
  assumes "mode_laws resolved sh upload mode_file tmp_file"
  shows "sh read_mode_script s = (True, out, s') \<Longrightarrow> out = unwrap_or (mode_file s) []"
    and "sh install_mode_line s = (True, out, s') \<Longrightarrow> mode_file s' = tmp_file s"
    and "install_mode_line \<noteq> l \<Longrightarrow> remove_mode_line \<noteq> l \<Longrightarrow> mode_file (snd (snd (sh l s))) = mode_file s"
    and "mode_file (upload files args s) = mode_file s"
    and "tmp_file (upload [tmp \<mapsto> raw] (sprite_exec_args (rs_name resolved) (rs_org resolved) exec_args [(tmp, GITHUB_MODE_REMOTE_TMP_PATH)]) s) = Some raw"
  using assms unfolding mode_laws_def by metis+


lemma str_lines_cons: "nl \<notin> set l \<Longrightarrow> l = [] \<or> last l \<noteq> cr \<Longrightarrow> str_lines (l @ nl # rest) = l # str_lines rest"
proof -
  assume "nl \<notin> set l" "l = [] \<or> last l \<noteq> cr"
  have "split_inclusive nl (l @ nl # rest) = (l @ [nl]) # split_inclusive nl rest"
    using \<open>nl \<notin> set l\<close> by (induction l) auto
  moreover have "strip_suffix [cr] l = None"
    using \<open>l = [] \<or> last l \<noteq> cr\<close> by (auto simp: strip_suffix_def ends_with_iff)
  ultimately show ?thesis by (simp add: str_lines_def strip_line_ending_def)
qed

definition one_line :: "rstr \<Rightarrow> bool" where
  "one_line l \<longleftrightarrow> nl \<notin> set l \<and> (l = [] \<or> last l \<noteq> cr)"

lemma str_lines_script: "list_all one_line ls \<Longrightarrow> str_lines (script_text ls) = ls"
proof (induction ls)
  case (Cons l ls)
  then show ?case using str_lines_cons [of l "script_text ls"] by (simp add: one_line_def script_text_def)
qed (simp add: script_text_def str_lines_def)

lemmas script_lines_def = repair_common_lines_def yolo_repair_lines_def default_repair_lines_def inspect_lines_def
  agent_git_config_def inspect_git_line_def print_variable_line_def dquoted_def ZODEX_AGENT_USER_def ZODEX_AGENT_HOME_def
  expected_zodex_agent_git_helper_def ZODEX_AGENT_BINARY_PATH_def OPERATOR_DEFAULT_CONFIG_PATH_def
  GITHUB_PUSH_REWRITE_TARGET_def GITHUB_PUSH_REWRITE_SOURCE_def install_mode_line_def remove_mode_line_def
  GITHUB_MODE_DIR_def GITHUB_MODE_REMOTE_TMP_PATH_def GITHUB_MODE_STATE_PATH_def

lemma script_lines_ok:
  "list_all one_line yolo_repair_lines" "list_all one_line default_repair_lines" "list_all one_line inspect_lines"
  "one_line install_mode_line" "one_line remove_mode_line"
  by (simp_all add: one_line_def script_lines_def)

lemma str_lines_scripts:
  "str_lines github_yolo_agent_git_repair_script = yolo_repair_lines"
  "str_lines github_default_agent_git_repair_script = default_repair_lines"
  "str_lines github_yolo_agent_git_inspect_script = inspect_lines"
  "str_lines enable_script = install_mode_line # yolo_repair_lines"
  "str_lines disable_script = remove_mode_line # default_repair_lines"
  using script_lines_ok
  by (simp_all add: github_yolo_agent_git_repair_script_def github_default_agent_git_repair_script_def
      github_yolo_agent_git_inspect_script_def enable_script_def disable_script_def str_lines_script str_lines_cons one_line_def)

lemma mode_lines_apart:
  "install_mode_line \<notin> set (read_mode_script # yolo_repair_lines @ default_repair_lines @ inspect_lines)"
  "remove_mode_line \<notin> set (read_mode_script # yolo_repair_lines @ default_repair_lines @ inspect_lines)"
  by (simp_all add: script_lines_def read_mode_script_def)

lemma repair_nonempty: "yolo_repair_lines \<noteq> []" "default_repair_lines \<noteq> []"
  by (simp_all add: script_lines_def)

lemma bash_run_Cons:
  "ls \<noteq> [] \<Longrightarrow> bash_run sh (l # ls) s = (let (_, out, s1) = sh l s; (ok, rest, s2) = bash_run sh ls s1 in (ok, out @ rest, s2))"
  by (cases ls) simp_all

lemma bash_run_keeps_mode:
  assumes "mode_laws resolved sh upload mode_file tmp_file" "install_mode_line \<notin> set ls" "remove_mode_line \<notin> set ls"
  shows "mode_file (snd (snd (bash_run sh ls s))) = mode_file s"
  using assms(2,3)
proof (induction ls arbitrary: s)
  case (Cons l ls)
  have line: "mode_file (snd (snd (sh l s))) = mode_file s" for s
    using mode_lawsD(3) [OF assms(1)] Cons.prems by simp
  show ?case
  proof (cases "ls = []")
    case False
    obtain ok out s1 where sh: "sh l s = (ok, out, s1)" by (cases "sh l s")
    have "mode_file (snd (snd (bash_run sh ls s1))) = mode_file s1" using Cons by simp
    also have "\<dots> = mode_file s" using line [of s] sh by simp
    finally show ?thesis by (cases "bash_run sh ls s1") (simp add: bash_run_Cons [OF False] sh)
  qed (simp add: line)
qed simp

lemma last_exec_args [simp]: "last (sprite_exec_args name org [''bash'', ''-lc'', script] uploads) = script"
  by (simp add: sprite_exec_args_def)






text \<open>
  C40: Switching YOLO mode off can report a success it did not have.  The script that removes the mode file
  goes on after a failed removal, and its last line ends in \<^verbatim>\<open>|| true\<close>.  On a machine where the removal
  fails, the command therefore succeeds and prints \<^verbatim>\<open>yolo-state: removed\<close>, while the mode file, and with
  it every grant in it, is still there.
\<close>

theorem failed_removal_is_reported_as_removed:
  assumes "mode_laws resolved sh upload mode_file tmp_file"
    and "\<forall>s. \<exists>out. sh remove_mode_line s = (False, out, s)"
    and "\<forall>s. fst (sh (last default_repair_lines) s)"
  shows "\<exists>printed s'. disable_github_yolo_mode (bash_machine sh upload) resolved s = (printed, Inr (), s') \<and>
    ''yolo-state: removed'' \<in> set printed \<and> mode_file s' = mode_file s"
proof -
  have last: "fst (bash_run sh ls s) = fst (sh (last ls) s1) \<or> (\<exists>s2. fst (bash_run sh ls s) = fst (sh (last ls) s2))" if "ls \<noteq> []" for ls s s1
    using that
  proof (induction ls arbitrary: s)
    case (Cons l ls)
    show ?case
    proof (cases "ls = []")
      case False
      with Cons show ?thesis by (simp add: bash_run_Cons split: prod.splits) (metis fst_conv)
    qed auto
  qed simp
  let ?args = "sprite_exec_args (rs_name resolved) (rs_org resolved) [''bash'', ''-lc'', disable_script] []"
  let ?s = "upload Map.empty ?args s"
  obtain out where failed: "sh remove_mode_line ?s = (False, out, ?s)" using assms(2) by blast
  obtain ok rest s' where repair: "bash_run sh default_repair_lines ?s = (ok, rest, s')" by (cases "bash_run sh default_repair_lines ?s")
  have ok using last [OF repair_nonempty(2), of ?s] assms(3) repair by auto
  moreover have "mode_file s' = mode_file ?s"
    using bash_run_keeps_mode [OF assms(1), of default_repair_lines ?s] mode_lines_apart repair by simp
  moreover have "mode_file ?s = mode_file s" by (rule mode_lawsD(4) [OF assms(1)])
  ultimately show ?thesis
    by (simp add: disable_github_yolo_mode_def run_script_def run_sprite_exec_def bash_machine_def str_lines_scripts
        bash_run_Cons [OF repair_nonempty(2)] failed repair run_command_capture_def Let_def)
qed

lemma printed_default:
  "''github-mode: yolo'' \<notin> set (sprite_lines resolved)"
  "''github-mode: yolo'' \<in> set (default_mode_lines reason) \<longleftrightarrow> ''github-mode: yolo'' \<in> set reason"
  by (auto simp: sprite_lines_def default_mode_lines_def split: option.splits)

text \<open>
  C39: The status the operator sees is the one the daemon acts on.  When \<^verbatim>\<open>print_github_mode_status\<close>
  succeeds, it prints \<^verbatim>\<open>github-mode: yolo\<close> exactly if at that moment the publisher, reading the same
  file, accepts the mode as active.
\<close>

theorem mode_status_is_truthful:
  assumes codec: "\<forall>raw r. me_decode env raw = Inr r \<longrightarrow> from_json raw = Inr (published r)"
    and blank: "\<forall>raw. trim raw = [] \<longrightarrow> (\<exists>e. from_json raw = Inl e)"
    and read: "run_script run resolved read_mode_script s = (Inr raw, s1)"
    and clock: "me_clock1 env \<noteq> None"
    and status: "print_github_mode_status env run resolved s = (printed, Inr (), s2)"
  shows "''github-mode: yolo'' \<in> set printed \<longleftrightarrow>
    (\<exists>mode. load_active_github_yolo_mode (Inr raw) from_json (me_clock1 env) = Inr mode)"
proof (cases "trim raw = []")
  case True
  then obtain e where "from_json raw = Inl e" using blank by blast
  with True status show ?thesis
    by (auto simp: print_github_mode_status_def read Let_def load_active_github_yolo_mode_def printed_default)
next
  case False
  then obtain r where r: "me_decode env raw = Inr r"
    using status by (auto simp: print_github_mode_status_def read Let_def split: sum.splits)
  obtain now where now: "me_clock1 env = Some now" using clock by blast
  have decoded: "from_json raw = Inr (published r)" using codec r by blast
  show ?thesis
  proof (cases "ms_mode r = ''yolo'' \<and> \<not> mode_expired r now")
    case True
    have "gm_mode (published r) = ms_mode r" by (simp add: published_def)
    with True False status show ?thesis
      by (auto simp: print_github_mode_status_def read Let_def r now current_epoch_seconds_def ok_or_def load_active_github_yolo_mode_def
          decoded mode_expired_published split: prod.splits sum.splits)
  next
    case inactive: False
    have "gm_mode (published r) = ms_mode r" by (simp add: published_def)
    with inactive False status show ?thesis
      by (auto simp: print_github_mode_status_def read Let_def r now current_epoch_seconds_def ok_or_def load_active_github_yolo_mode_def
          decoded mode_expired_published printed_default epoch_local_line_def split: prod.splits sum.splits if_splits option.splits)
  qed
qed

section \<open>Examples\<close>

type_synonym example_machine = "rstr option \<times> rstr option"

definition example_shell :: "bool \<Rightarrow> example_machine shell" where
  "example_shell removes l s =
     (if l = read_mode_script then (True, unwrap_or (fst s) [], s)
      else if l = install_mode_line then (True, [], (snd s, snd s))
      else if l = remove_mode_line then (removes, [], if removes then (None, snd s) else s)
      else (True, [], s))"

definition example_upload :: "(rstr \<rightharpoonup> rstr) \<Rightarrow> rstr list \<Rightarrow> example_machine \<Rightarrow> example_machine" where
  "example_upload files args s =
     (fst s, if 4 < length args then files (take (length (args ! 4) - Suc (length GITHUB_MODE_REMOTE_TMP_PATH)) (args ! 4)) else None)"

definition example_sprite :: resolved_sprite where
  "example_sprite = \<lparr>rs_name = ''dev'', rs_org = None\<rparr>"

lemma example_laws: "mode_laws example_sprite (example_shell removes) example_upload fst snd"
  using mode_lines_apart
  by (auto simp: mode_laws_def example_shell_def example_upload_def example_sprite_def sprite_exec_args_def
      build_sprite_scope_args_def split: if_splits)


theorem failed_removal_is_reported_as_removed_witness:
  "\<exists>printed s'. disable_github_yolo_mode (bash_machine (example_shell False) example_upload) example_sprite (Some ''{}'', None) =
     (printed, Inr (), s') \<and> ''yolo-state: removed'' \<in> set printed \<and> fst s' = Some ''{}''"
proof -
  have "\<exists>printed s'. disable_github_yolo_mode (bash_machine (example_shell False) example_upload) example_sprite (Some ''{}'', None) =
     (printed, Inr (), s') \<and> ''yolo-state: removed'' \<in> set printed \<and> fst s' = fst (Some ''{}'', None :: rstr option)"
  proof (rule failed_removal_is_reported_as_removed [OF example_laws])
    show "\<forall>s. \<exists>out. example_shell False remove_mode_line s = (False, out, s)"
      using mode_lines_apart by (auto simp: example_shell_def script_lines_def)
    show "\<forall>s. fst (example_shell False (last default_repair_lines) s)"
      by (simp add: example_shell_def script_lines_def read_mode_script_def)
  qed
  then show ?thesis by simp
qed

definition example_time :: time_lib where
  "example_time = \<lparr>tl_from_unix_timestamp = (\<lambda>_. Inr ()), tl_rfc3339 = (\<lambda>_. Inr ''t''),
     tl_to_offset = (\<lambda>_ _. \<lparr>lt_day = 1, lt_month = 1, lt_year = 2025, lt_hour = 0, lt_minute = 0\<rparr>), tl_local_offset = None\<rparr>"

definition example_granted :: mode_state where
  "example_granted =
     \<lparr>ms_mode = ''yolo'', ms_all_installed = False, ms_repos = [''o/r''],
      ms_repo_grants = [\<lparr>yg_repo = ''o/r'', yg_created_at = ''t'', yg_expires_at = Some ''t'', yg_expires_at_epoch_seconds = Some 160\<rparr>],
      ms_created_at = ''t'', ms_expires_at = Some ''t'', ms_expires_at_epoch_seconds = Some 160,
      ms_enabled_by = ''operator-cli'', ms_token_source = ''publisher-app-installation-token''\<rparr>"

definition example_mode_env :: mode_env where
  "example_mode_env =
     \<lparr>me_time = example_time, me_decode = (\<lambda>raw. if raw = ''{}'' then Inr example_granted else Inl ''json''),
      me_encode = (\<lambda>r. if r = example_granted then Inr ''{}'' else Inl ''json''), me_temp = Inr ''/tmp/x'', me_temp_write = Inr (),
      me_clock1 = Some 100, me_clock2 = Some 100, me_clock3 = Some 100\<rparr>"

definition example_from_json :: "rstr \<Rightarrow> github_mode_record res" where
  "example_from_json raw = (if raw = ''{}'' then Inr (published example_granted) else Inl ''json'')"



lemma plain_output:
  "redact_api_key_query_params (from_utf8_lossy []) = []" "redact_api_key_query_params (from_utf8_lossy ''{}'') = ''{}''"
proof -
  have "from_utf8_lossy [] = []" "from_utf8_lossy ''{}'' = ''{}''"
    by (simp_all add: from_utf8_lossy_def lossy.simps scan_def)
  then show "redact_api_key_query_params (from_utf8_lossy []) = []" "redact_api_key_query_params (from_utf8_lossy ''{}'') = ''{}''"
    by (simp_all add: redact_api_key_scan redact_scan.simps)
qed

lemma example_active:
  "ms_mode example_granted = ''yolo''" "\<not> mode_expired example_granted 100"
  "github_mode_allows_repo (Some 120) (published example_granted) ''o/r''"
  "\<not> github_mode_allows_repo (Some 160) (published example_granted) ''o/r''"
  by (simp_all add: example_granted_def mode_expired_def mode_has_active_scope_def publisher_allows mode_all_installed_active_iff
      active_repo_grants_eq grant_holds_def not_expired_def)



definition example_status_machine :: "unit machine" where
  "example_status_machine files args s =
     (Inr \<lparr>out_code = Some 0, out_stdout = (if last args = read_mode_script then ''{}'' else []), out_stderr = []\<rparr>, s)"

theorem mode_status_is_truthful_witness:
  "\<exists>printed. print_github_mode_status example_mode_env example_status_machine example_sprite () = (printed, Inr (), ()) \<and>
     ''github-mode: yolo'' \<in> set printed \<and>
     load_active_github_yolo_mode (Inr ''{}'') example_from_json (Some 100) = Inr (published example_granted)"
proof -
  note braces = plain_output(2)
  have read: "run_script example_status_machine example_sprite read_mode_script () = (Inr ''{}'', ())"
    by (simp add: run_script_def run_sprite_exec_def example_status_machine_def run_command_capture_def braces Let_def)
  have codec: "\<forall>raw r. me_decode example_mode_env raw = Inr r \<longrightarrow> example_from_json raw = Inr (published r)"
    by (simp add: example_mode_env_def example_from_json_def)
  have "trim ''{}'' = ''{}''" by code_simp
  then have blank: "\<forall>raw. trim raw = [] \<longrightarrow> (\<exists>e. example_from_json raw = Inl e)"
    by (auto simp: example_from_json_def)
  have clock: "me_clock1 example_mode_env = Some 100" by (simp add: example_mode_env_def)
  have active: "load_active_github_yolo_mode (Inr ''{}'') example_from_json (Some 100) = Inr (published example_granted)"
  proof -
    have "gm_mode (published example_granted) = ''yolo''" "\<not> github_mode_expired (published example_granted) 100"
      using example_active(2) by (simp_all add: mode_expired_published published_def example_granted_def)
    then show ?thesis by (simp add: load_active_github_yolo_mode_def example_from_json_def current_epoch_seconds_def ok_or_def)
  qed
  have "\<exists>printed. print_github_mode_status example_mode_env example_status_machine example_sprite () = (printed, Inr (), ())"
  proof -
    note example_active(1,2)
    moreover have "me_decode example_mode_env ''{}'' = Inr example_granted" by (simp add: example_mode_env_def)
    moreover have "inspect_github_yolo_agent_git_status example_status_machine example_sprite () =
        (Inr (parse_github_yolo_agent_git_status (redact_api_key_query_params (from_utf8_lossy []))), ())"
      using mode_lines_apart
      by (simp add: inspect_github_yolo_agent_git_status_def run_script_def run_sprite_exec_def example_status_machine_def
          run_command_capture_def Let_def read_mode_script_def github_yolo_agent_git_inspect_script_def inspect_lines_def
          script_text_def inspect_git_line_def)
    ultimately show ?thesis
      using \<open>trim ''{}'' = ''{}''\<close> by (simp add: print_github_mode_status_def read Let_def clock current_epoch_seconds_def ok_or_def)
  qed
  then obtain printed where status: "print_github_mode_status example_mode_env example_status_machine example_sprite () = (printed, Inr (), ())"
    by blast
  have "''github-mode: yolo'' \<in> set printed"
    using mode_status_is_truthful [OF codec blank read _ status] active by (simp add: clock)
  with status active show ?thesis by blast
qed

end
