(* ===== verification/Push_Grants.thy ===== *)
theory Push_Grants
  imports Github_Mode Process_Identity
begin

text \<open>
  The push grants on an agent's machine (\<^verbatim>\<open>bin/zodexd/github.rs\<close>): the files that hold them, the device
  flow that obtains a token for them, granting, revoking and listing.  GitHub, JSON, the clock, the
  browser and the clipboard are parameters; a file system is a map from paths to contents, and every
  system call on it may fail.
\<close>

section \<open>Records and files\<close>

definition PUSH_GRANTS_DIR :: rstr where "PUSH_GRANTS_DIR = ''/var/lib/zodex/push-grants''"
definition GITHUB_PUSH_GRANT_DEVICE_CACHE_DIR :: rstr where
  "GITHUB_PUSH_GRANT_DEVICE_CACHE_DIR = ''.config/zodex/github-device-flow''"
definition MAX_GITHUB_ERROR_DETAIL_CHARS :: nat where "MAX_GITHUB_ERROR_DETAIL_CHARS = 2048"

record push_grant_record =
  pgr_repo :: rstr
  pgr_token :: rstr
  pgr_expires_at :: "rstr option"
  pgr_expires_at_epoch_seconds :: "nat option"
  pgr_token_source :: "rstr option"

record cached_device_flow_grant =
  dg_client_id :: rstr
  dg_repo :: rstr
  dg_refresh_token :: rstr

definition push_grant_file_name :: "rstr \<Rightarrow> rstr" where
  "push_grant_file_name repo = concat (map (\<lambda>c. if c = CHR ''/'' then ''__'' else [c]) repo) @ ''.json''"

definition push_grant_path :: "rstr \<Rightarrow> rstr" where
  "push_grant_path repo = path_join PUSH_GRANTS_DIR (push_grant_file_name repo)"

definition push_grant_expired :: "push_grant_record \<Rightarrow> nat \<Rightarrow> bool" where
  "push_grant_expired grant now =
     (case pgr_expires_at_epoch_seconds grant of Some expires \<Rightarrow> expires \<le> now | None \<Rightarrow> False)"


text \<open>\<^verbatim>\<open>str::parse::<u64>()\<close> with the texts of its errors; a leading plus sign is accepted.\<close>

fun parse_ttl_amount_loop :: "nat \<Rightarrow> rstr \<Rightarrow> nat res" where
  "parse_ttl_amount_loop acc [] = Inr acc"
| "parse_ttl_amount_loop acc (c # s) =
     (if \<not> is_ascii_digit c then Inl ''invalid digit found in string''
      else if u64_max < 10 * acc + (byte c - 48) then Inl ''number too large to fit in target type''
      else parse_ttl_amount_loop (10 * acc + (byte c - 48)) s)"

definition parse_ttl_amount :: "rstr \<Rightarrow> nat res" where
  "parse_ttl_amount s =
     (if s = [] then Inl ''cannot parse integer from empty string''
      else if s = ''+'' then Inl ''invalid digit found in string''
      else parse_ttl_amount_loop 0 (if hd s = CHR ''+'' then tl s else s))"

definition parse_push_grant_ttl :: "rstr \<Rightarrow> nat res" where
  "parse_push_grant_ttl raw =
     (let trimmed = trim raw in
      if trimmed = [] then Inl ''push grant TTL must not be empty''
      else
        let unit = last trimmed;
            is_unit = is_ascii_upper unit \<or> is_ascii_lower unit
        in and_then
            (if is_unit then
               (if unit \<in> set ''sS'' then Inr (butlast trimmed, 1)
                else if unit \<in> set ''mM'' then Inr (butlast trimmed, 60)
                else if unit \<in> set ''hH'' then Inr (butlast trimmed, 60 * 60)
                else if unit \<in> set ''dD'' then Inr (butlast trimmed, 60 * 60 * 24)
                else Inl (''unsupported push grant TTL unit `'' @ [unit] @ ''`; use s, m, h, or d''))
             else Inr (trimmed, 1))
          (\<lambda>(value_part, multiplier_seconds).
             and_then (with_ctx (''failed to parse push grant TTL `'' @ raw @ ''`'') (parse_ttl_amount value_part))
             (\<lambda>amount. if amount = 0 then Inl ''push grant TTL must be greater than zero''
                else ok_or (checked_mul_u64 amount multiplier_seconds) ''push grant TTL is too large'')))"

section \<open>The store\<close>

type_synonym grant_store = "rstr \<rightharpoonup> rstr"

record grant_io =
  gi_encode :: "push_grant_record \<Rightarrow> rstr res"
  gi_decode :: "rstr \<Rightarrow> push_grant_record res"
  gi_encode_cached :: "cached_device_flow_grant \<Rightarrow> rstr res"
  gi_decode_cached :: "rstr \<Rightarrow> cached_device_flow_grant res"
  gi_read :: "rstr \<Rightarrow> rstr \<Rightarrow> rstr res"
  gi_create_dir :: "unit res"
  gi_create :: "unit res"
  gi_written :: "(nat \<times> rstr) option"
  gi_chmod :: "unit res"
  gi_remove :: "unit res"
  gi_clock :: "nat option"



definition load_push_grant_from_dir ::
    "grant_io \<Rightarrow> rstr \<Rightarrow> rstr \<Rightarrow> grant_store \<Rightarrow> push_grant_record option res \<times> grant_store" where
  "load_push_grant_from_dir io repo grants_dir st =
     (let path = path_join grants_dir (push_grant_file_name repo) in
      case st path of
        None \<Rightarrow> (Inr None, st)
      | Some bytes \<Rightarrow>
          (case and_then (with_ctx (''failed to read '' @ path) (gi_read io path bytes))
                 (\<lambda>raw. with_ctx (''failed to parse '' @ path) (gi_decode io raw)) of
             Inl e \<Rightarrow> (Inl e, st)
           | Inr grant \<Rightarrow>
               (case current_epoch_seconds (gi_clock io) of
                  Inl e \<Rightarrow> (Inl e, st)
                | Inr now \<Rightarrow>
                    if push_grant_expired grant now
                    then (Inr None, if isl (gi_remove io) then st else st(path := None))
                    else (Inr (Some grant), st))))"

definition push_grant_cache_path :: "rstr res \<Rightarrow> rstr \<Rightarrow> rstr res" where
  "push_grant_cache_path home repo =
     and_then (with_ctx ''HOME must be set to use GitHub App device flow'' home)
     (\<lambda>home. Inr (path_join (path_join home GITHUB_PUSH_GRANT_DEVICE_CACHE_DIR) (push_grant_file_name repo)))"



definition remove_file_if_there :: "grant_io \<Rightarrow> rstr \<Rightarrow> grant_store \<Rightarrow> bool res \<times> grant_store" where
  "remove_file_if_there io path st =
     (if st path = None then (Inr False, st)
      else case with_ctx (''failed to remove '' @ path) (gi_remove io) of
          Inl e \<Rightarrow> (Inl e, st)
        | Inr _ \<Rightarrow> (Inr True, st(path := None)))"

definition remove_cached_device_flow_grant :: "grant_io \<Rightarrow> rstr res \<Rightarrow> rstr \<Rightarrow> grant_store \<Rightarrow> bool res \<times> grant_store" where
  "remove_cached_device_flow_grant io home repo st =
     (case push_grant_cache_path home repo of Inl e \<Rightarrow> (Inl e, st) | Inr path \<Rightarrow> remove_file_if_there io path st)"

section \<open>GitHub\<close>

text \<open>An answer of GitHub: the status code and the body, or the error of the connection.\<close>

record github_answer =
  ga_status :: nat
  ga_status_text :: rstr
  ga_body :: rstr

record token_response =
  tr_access_token :: "rstr option"
  tr_expires_in :: "nat option"
  tr_refresh_token :: "rstr option"
  tr_error :: "rstr option"
  tr_error_description :: "rstr option"
  tr_interval :: "nat option"

record device_code_response =
  dc_device_code :: rstr
  dc_user_code :: rstr
  dc_verification_uri :: rstr
  dc_expires_in :: nat
  dc_interval :: "nat option"

record user_access_grant =
  ua_access_token :: rstr
  ua_expires_in_seconds :: "nat option"
  ua_refresh_token :: "rstr option"

record github_json =
  gj_is_json :: "rstr \<Rightarrow> bool"
  gj_repo_id :: "rstr \<Rightarrow> nat res"
  gj_device_code :: "rstr \<Rightarrow> device_code_response res"
  gj_token :: "rstr \<Rightarrow> token_response res"

fun take_chars :: "nat \<Rightarrow> rstr \<Rightarrow> rstr" where
  "take_chars n [] = []"
| "take_chars n (c # s) =
     (if is_cont c then c # take_chars n s else if n = 0 then [] else c # take_chars (n - 1) s)"

definition summarize_github_error_body :: "github_json \<Rightarrow> rstr \<Rightarrow> rstr" where
  "summarize_github_error_body json body =
     (if trim body = [] then ''empty response body''
      else if \<not> gj_is_json json body then ''non-JSON response body ('' @ show_nat (length body) @ '' bytes)''
      else
        let normalized = join_with '' '' (split_whitespace body);
            preview = take_chars MAX_GITHUB_ERROR_DETAIL_CHARS normalized
        in if MAX_GITHUB_ERROR_DETAIL_CHARS < chars_count normalized then
             preview @ [CHR 32, CHR 0xE2, CHR 0x80, CHR 0xA6] @ '' [truncated]'' else preview)"

definition success_status :: "nat \<Rightarrow> bool" where
  "success_status status \<longleftrightarrow> 200 \<le> status \<and> status < 300"

definition github_request ::
    "github_json \<Rightarrow> rstr \<Rightarrow> rstr \<Rightarrow> rstr \<Rightarrow> (rstr \<Rightarrow> 'a res) \<Rightarrow> github_answer res \<Rightarrow> 'a res" where
  "github_request json send_context failed decode_context decode answer =
     and_then (with_ctx send_context answer)
     (\<lambda>response.
        if \<not> success_status (ga_status response) then
          Inl (failed @ '' ('' @ ga_status_text response @ ''): '' @ summarize_github_error_body json (ga_body response))
        else with_ctx decode_context (decode (ga_body response)))"



definition poll_device_flow_access_token :: "github_json \<Rightarrow> github_answer res \<Rightarrow> token_response res" where
  "poll_device_flow_access_token json =
     github_request json ''failed to poll GitHub device flow token'' ''GitHub device flow token request failed''
       ''failed to decode GitHub device flow token response'' (gj_token json)"


text \<open>
  The polling loop: it sleeps for the current interval and asks again; the list holds the answers, and
  running out of it (\<open>None\<close>) means that the loop is still waiting.  The first result is the list of the
  intervals slept, which are natural numbers: they are taken to stay below 2 to the 64 seconds.
\<close>

definition slow_down :: "token_response \<Rightarrow> nat \<Rightarrow> nat" where
  "slow_down response interval = max (unwrap_or (tr_interval response) (interval + 5)) (interval + 1)"

fun device_flow_loop ::
    "github_json \<Rightarrow> nat \<Rightarrow> github_answer res list \<Rightarrow> nat list \<times> user_access_grant res option" where
  "device_flow_loop json interval [] = ([], None)"
| "device_flow_loop json interval (answer # rest) =
     (let (slept, outcome) =
        (case poll_device_flow_access_token json answer of
           Inl e \<Rightarrow> ([], Some (Inl e))
         | Inr response \<Rightarrow>
             (case tr_error response of
                None \<Rightarrow>
                  ([], Some (and_then (ok_or (tr_access_token response) ''GitHub device flow completed without an access token'')
                    (\<lambda>token. Inr \<lparr>ua_access_token = token, ua_expires_in_seconds = tr_expires_in response,
                      ua_refresh_token = tr_refresh_token response\<rparr>)))
              | Some error \<Rightarrow>
                  if error = ''authorization_pending'' then device_flow_loop json interval rest
                  else if error = ''slow_down'' then device_flow_loop json (slow_down response interval) rest
                  else ([], Some (Inl
                    (if error = ''expired_token'' \<or> error = ''token_expired'' then
                       ''GitHub device flow code expired before authorization completed''
                     else if error = ''access_denied'' then ''GitHub device flow authorization was cancelled''
                     else if error = ''device_flow_disabled'' then
                       ''GitHub App device flow is disabled; enable device flow in the app settings''
                     else ''GitHub device flow failed with '' @ error @ '': '' @
                       unwrap_or (tr_error_description response) ''no description'')))))
      in (interval # slept, outcome))"


section \<open>Granting, revoking, listing\<close>











definition revoke_push_access ::
    "grant_io \<Rightarrow> rstr res \<Rightarrow> rstr \<Rightarrow> bool \<Rightarrow> grant_store \<Rightarrow> rstr list \<times> unit res \<times> grant_store" where
  "revoke_push_access io home repo forget_local_auth st =
     (case ok_or (normalize_operator_repo repo) ''repo must be in owner/repo form'' of
        Inl e \<Rightarrow> ([], Inl e, st)
      | Inr repo \<Rightarrow>
          (case remove_file_if_there io (push_grant_path repo) st of
             (Inl e, st1) \<Rightarrow> ([], Inl e, st1)
           | (Inr removed, st1) \<Rightarrow>
               let first = [''grant-location: local'', ''push-grant-file: '' @ (if removed then ''removed'' else ''not-found''),
                 ''push-grant: revoked'', ''repo: '' @ repo]
               in if forget_local_auth then
                    (case remove_cached_device_flow_grant io home repo st1 of
                       (Inl e, st2) \<Rightarrow> (first, Inl e, st2)
                     | (Inr forgotten, st2) \<Rightarrow>
                         (first @ [''local-device-flow-state: '' @ (if forgotten then ''removed'' else ''not-found'')], Inr (), st2))
                  else (first @ [''local-device-flow-state: retained'',
                    ''note: pass --forget-local-auth to remove the cached local refresh token too''], Inr (), st1)))"

text \<open>\<open>entries\<close> is what \<^verbatim>\<open>read_dir\<close> yields, \<open>stream\<close> the reading of concatenated JSON objects.\<close>

definition path_extension :: "rstr \<Rightarrow> rstr option" where
  "path_extension path =
     (case Option.bind (path_file_name path) (rsplit_once (CHR ''.'')) of
        Some (stem, extension) \<Rightarrow> if stem = [] then None else Some extension
      | None \<Rightarrow> None)"

fun read_grant_blobs :: "grant_io \<Rightarrow> grant_store \<Rightarrow> rstr res list \<Rightarrow> rstr list res" where
  "read_grant_blobs io st [] = Inr []"
| "read_grant_blobs io st (entry # rest) =
     and_then (with_ctx (''failed to read '' @ PUSH_GRANTS_DIR) entry)
     (\<lambda>path. if path_extension path \<noteq> Some ''json''
        then read_grant_blobs io st rest
        else and_then (with_ctx (''failed to read '' @ path) (gi_read io path (unwrap_or (st path) [])))
          (\<lambda>blob. and_then (read_grant_blobs io st rest) (\<lambda>blobs. Inr (blob # blobs))))"

definition list_push_grants ::
    "grant_io \<Rightarrow> (rstr \<Rightarrow> push_grant_record list res) \<Rightarrow> rstr res list option res \<Rightarrow> grant_store \<Rightarrow> rstr list \<times> unit res" where
  "list_push_grants io stream dir st =
     (let first = [''grant-location: local''] in
      case and_then (with_ctx (''failed to read '' @ PUSH_GRANTS_DIR) dir)
             (\<lambda>entries. and_then (read_grant_blobs io st (unwrap_or entries []))
             (\<lambda>blobs. and_then (with_ctx ''failed to parse push grant'' (stream (join_with [nl] blobs)))
             (\<lambda>grants. if grants = [] then Inr []
                else and_then (current_epoch_seconds (gi_clock io))
                  (\<lambda>now. Inr (filter (\<lambda>g. \<not> push_grant_expired g now) grants))))) of
        Inl e \<Rightarrow> (first, Inl e)
      | Inr [] \<Rightarrow> (first @ [''push-grants: none''], Inr ())
      | Inr grants \<Rightarrow>
          (first @ concat (map (\<lambda>g. [''repo: '' @ pgr_repo g] @
             (case pgr_token_source g of Some source \<Rightarrow> [''token-source: '' @ source] | None \<Rightarrow> []) @
             [''expires-at: '' @ unwrap_or (pgr_expires_at g) ''unknown'', []]) grants), Inr ()))"

section \<open>File names\<close>

text \<open>
  The owner part of a repository name as GitHub allows it: no slash, no two underscores in a row and none
  at the end.
\<close>

definition plain_owner :: "rstr \<Rightarrow> bool" where
  "plain_owner owner \<longleftrightarrow> CHR ''/'' \<notin> set owner \<and> find_sub ''__'' (owner @ ''_'') = None"

definition escaped :: "rstr \<Rightarrow> rstr" where
  "escaped s = concat (map (\<lambda>c. if c = CHR ''/'' then ''__'' else [c]) s)"

lemma escaped_plain: "CHR ''/'' \<notin> set s \<Longrightarrow> escaped s = s"
  by (induction s) (auto simp: escaped_def)

lemma push_grant_file_name_slash:
  assumes "CHR ''/'' \<notin> set owner" "CHR ''/'' \<notin> set name"
  shows "push_grant_file_name (owner @ ''/'' @ name) = owner @ ''__'' @ name @ ''.json''"
  using escaped_plain [OF assms(1)] escaped_plain [OF assms(2)] by (simp add: push_grant_file_name_def escaped_def)

lemma find_sub_plain_owner:
  assumes "find_sub ''__'' (owner @ ''_'') = None"
  shows "find_sub ''__'' (owner @ ''__'' @ rest) = Some (length owner)"
  using assms
proof (induction owner)
  case (Cons c owner)
  have "\<not> starts_with (c # owner @ ''__'' @ rest) ''__''"
    using Cons.prems by (cases owner) (auto split: if_splits)
  with Cons show ?case by (auto split: if_splits)
qed (simp add: starts_with_def)

lemma push_grant_file_name_inj:
  assumes "plain_owner owner" "plain_owner owner'" "CHR ''/'' \<notin> set name" "CHR ''/'' \<notin> set name'"
  shows "push_grant_file_name (owner @ ''/'' @ name) = push_grant_file_name (owner' @ ''/'' @ name') \<longleftrightarrow>
    owner @ ''/'' @ name = owner' @ ''/'' @ name'"
proof
  assume "push_grant_file_name (owner @ ''/'' @ name) = push_grant_file_name (owner' @ ''/'' @ name')"
  then have eq: "owner @ ''__'' @ name @ ''.json'' = owner' @ ''__'' @ name' @ ''.json''"
    using push_grant_file_name_slash [of owner name] push_grant_file_name_slash [of owner' name'] assms
    unfolding plain_owner_def by simp
  have "Some (length owner) = Some (length owner')"
    using find_sub_plain_owner [of owner "name @ ''.json''"] find_sub_plain_owner [of owner' "name' @ ''.json''"] assms(1,2) eq
    by (metis plain_owner_def)
  with eq show "owner @ ''/'' @ name = owner' @ ''/'' @ name'" by auto
qed simp

lemma two_underscores_collide: "push_grant_file_name ''a/b__c'' = push_grant_file_name ''a__b/c''"
  by (simp add: push_grant_file_name_def)

definition repo_parts :: "rstr \<Rightarrow> rstr \<Rightarrow> rstr \<Rightarrow> bool" where
  "repo_parts repo owner name \<longleftrightarrow> repo = owner @ ''/'' @ name \<and> CHR ''/'' \<notin> set name"

definition plain_repo :: "rstr \<Rightarrow> bool" where
  "plain_repo repo \<longleftrightarrow> (\<exists>owner name. repo_parts repo owner name \<and> plain_owner owner)"

lemma push_grant_file_name_no_slash: "CHR ''/'' \<notin> set (push_grant_file_name repo)"
  by (auto simp: push_grant_file_name_def)

lemma push_grant_path_eq: "push_grant_path repo = PUSH_GRANTS_DIR @ ''/'' @ push_grant_file_name repo"
proof -
  have "\<not> is_absolute (push_grant_file_name repo)"
    using push_grant_file_name_no_slash [of repo] by (auto simp: is_absolute_def starts_with_iff)
  then show ?thesis by (simp add: push_grant_path_def path_join_def PUSH_GRANTS_DIR_def ends_with_def)
qed

lemma push_grant_path_inj:
  assumes "plain_repo repo" "plain_repo repo'"
  shows "push_grant_path repo = push_grant_path repo' \<longleftrightarrow> repo = repo'"
proof -
  obtain owner name owner' name' where "repo = owner @ ''/'' @ name" "repo' = owner' @ ''/'' @ name'"
    "plain_owner owner" "plain_owner owner'" "CHR ''/'' \<notin> set name" "CHR ''/'' \<notin> set name'"
    using assms unfolding plain_repo_def repo_parts_def by blast
  then show ?thesis
    using push_grant_file_name_inj [of owner owner' name name'] unfolding push_grant_path_eq by simp
qed

section \<open>The life of a grant\<close>

text \<open>What a later reader finds for a repository, at the time \<open>t\<close>.\<close>

definition grant_at :: "grant_io \<Rightarrow> nat \<Rightarrow> rstr \<Rightarrow> grant_store \<Rightarrow> push_grant_record option res" where
  "grant_at io t repo st = fst (load_push_grant_from_dir (io\<lparr>gi_clock := Some t\<rparr>) repo PUSH_GRANTS_DIR st)"


lemma grant_at_eq:
  "grant_at io t repo st =
     (case st (push_grant_path repo) of
        None \<Rightarrow> Inr None
      | Some bytes \<Rightarrow>
          (case and_then (with_ctx (''failed to read '' @ push_grant_path repo) (gi_read io (push_grant_path repo) bytes))
                 (\<lambda>raw. with_ctx (''failed to parse '' @ push_grant_path repo) (gi_decode io raw)) of
             Inl e \<Rightarrow> Inl e
           | Inr grant \<Rightarrow> Inr (if push_grant_expired grant t then None else Some grant)))"
  by (simp add: grant_at_def load_push_grant_from_dir_def push_grant_path_def Let_def current_epoch_seconds_def ok_or_def
      split: option.splits sum.splits)

lemma grant_at_cong: "st' (push_grant_path repo) = st (push_grant_path repo) \<Longrightarrow> grant_at io t repo st' = grant_at io t repo st"
  by (simp add: grant_at_eq)



lemma last_slash:
  assumes "a @ ''/'' @ x = b @ ''/'' @ y" "CHR ''/'' \<notin> set x" "CHR ''/'' \<notin> set y"
  shows "a = b"
proof -
  have "rev x @ CHR ''/'' # rev a = rev y @ CHR ''/'' # rev b"
    using arg_cong [OF assms(1), of rev] by simp
  from arg_cong [OF this, of "dropWhile (\<lambda>c. c \<noteq> CHR ''/'')"] have "CHR ''/'' # rev a = CHR ''/'' # rev b"
    using assms(2,3) by (subst (asm) (1 2) dropWhile_append2) auto
  then show ?thesis by simp
qed

lemma path_join_suffix: "\<exists>q. path_join base p = q @ p"
proof -
  have "path_join base p = [] @ p \<or> path_join base p = base @ p \<or> path_join base p = (base @ ''/'') @ p"
    by (simp add: path_join_def)
  then show ?thesis by blast
qed

lemma cache_path_apart: "push_grant_cache_path home repo = Inr path \<Longrightarrow> path \<noteq> push_grant_path other"
proof
  assume cache: "push_grant_cache_path home repo = Inr path" and same: "path = push_grant_path other"
  have relative: "\<not> is_absolute (push_grant_file_name repo)"
    using push_grant_file_name_no_slash [of repo] by (auto simp: is_absolute_def starts_with_iff)
  obtain prefix where "path = (prefix @ ''github-device-flow'') @ ''/'' @ push_grant_file_name repo"
  proof -
    obtain home' where path: "path = path_join (path_join home' ''.config/zodex/github-device-flow'') (push_grant_file_name repo)"
      using cache by (auto simp: push_grant_cache_path_def and_then_Inr GITHUB_PUSH_GRANT_DEVICE_CACHE_DIR_def)
    obtain p where dir: "path_join home' ''.config/zodex/github-device-flow'' = p @ ''.config/zodex/github-device-flow''"
      using path_join_suffix by blast
    have "\<not> ends_with (p @ ''.config/zodex/github-device-flow'') ''/''" by (auto simp: ends_with_iff)
    then have "path = (p @ ''.config/zodex/github-device-flow'') @ ''/'' @ push_grant_file_name repo"
      unfolding path dir using relative by (subst path_join_def) simp
    then show thesis by (intro that [of "p @ ''.config/zodex/''"]) simp
  qed
  with same have "(prefix @ ''github-device-flow'') @ ''/'' @ push_grant_file_name repo = PUSH_GRANTS_DIR @ ''/'' @ push_grant_file_name other"
    by (simp add: push_grant_path_eq)
  then have "prefix @ ''github-device-flow'' = PUSH_GRANTS_DIR"
    by (rule last_slash) (rule push_grant_file_name_no_slash)+
  then have "rev ''github-device-flow'' @ rev prefix = rev PUSH_GRANTS_DIR" by (metis rev_append)
  then show False by (simp add: PUSH_GRANTS_DIR_def)
qed

lemma remove_cached_other:
  "snd (remove_cached_device_flow_grant io home repo st) (push_grant_path other) = st (push_grant_path other)"
  using cache_path_apart [of home repo _ other]
  by (auto simp: remove_cached_device_flow_grant_def remove_file_if_there_def split: sum.splits)







text \<open>
  C19: Revoking takes effect at once, and on one repository only.  When \<^verbatim>\<open>revoke_push_access\<close> succeeds, no
  later reader finds a grant for the repository at any time, and what is found for any other repository
  is as before.
\<close>

theorem revoked_access_is_gone:
  assumes revoked: "revoke_push_access io home input forget st = (printed, Inr (), st')"
    and repo: "normalize_operator_repo input = Some repo" "plain_repo repo"
  shows "grant_at io t repo st' = Inr None \<and>
    (\<forall>other. plain_repo other \<longrightarrow> other \<noteq> repo \<longrightarrow> grant_at io t other st' = grant_at io t other st)"
proof -
  obtain removed st1 where first: "remove_file_if_there io (push_grant_path repo) st = (Inr removed, st1)"
    and rest: "st' = st1 \<or> (\<exists>r. remove_cached_device_flow_grant io home repo st1 = (Inr r, st'))"
    using revoked repo(1) by (auto simp: revoke_push_access_def Let_def split: sum.splits prod.splits if_splits)
  have st1: "st1 = st(push_grant_path repo := None)"
    using first by (auto simp: remove_file_if_there_def split: if_splits sum.splits)
  have same: "st' (push_grant_path other) = st1 (push_grant_path other)" for other
    using rest remove_cached_other [of io home repo st1 other] by auto
  have "grant_at io t repo st' = Inr None" by (simp add: grant_at_eq same st1)
  moreover have "grant_at io t other st' = grant_at io t other st" if "plain_repo other" "other \<noteq> repo" for other
  proof (rule grant_at_cong)
    have "push_grant_path other \<noteq> push_grant_path repo" using push_grant_path_inj that repo(2) by blast
    then show "st' (push_grant_path other) = st (push_grant_path other)" by (simp add: same st1)
  qed
  ultimately show ?thesis by blast
qed

section \<open>The device flow\<close>

definition still_waiting :: "github_json \<Rightarrow> github_answer res \<Rightarrow> bool" where
  "still_waiting json answer =
     (case poll_device_flow_access_token json answer of
        Inr response \<Rightarrow> tr_error response = Some ''authorization_pending'' \<or> tr_error response = Some ''slow_down''
      | Inl _ \<Rightarrow> False)"

text \<open>
  The device flow polls politely and ends.  The intervals it sleeps never get shorter; it goes on
  exactly while GitHub answers that the authorisation is pending or that it should slow down, so it ends
  with the first other answer and has slept once for every answer; and a token it returns is the token of
  that last answer, which carries no error.
\<close>

theorem device_flow_polls_until_answered:
  assumes "device_flow_loop json interval answers = (slept, outcome)"
  shows "sorted (interval # slept) \<and> length slept = min (length answers) (Suc (length (takeWhile (still_waiting json) answers))) \<and>
    (outcome = None \<longleftrightarrow> list_all (still_waiting json) answers) \<and>
    (\<forall>token. outcome = Some (Inr token) \<longrightarrow>
       (\<exists>response. poll_device_flow_access_token json (answers ! length (takeWhile (still_waiting json) answers)) = Inr response \<and>
          tr_error response = None \<and> tr_access_token response = Some (ua_access_token token)))"
  using assms
proof (induction answers arbitrary: interval slept outcome)
  case (Cons answer rest)
  show ?case
  proof (cases "still_waiting json answer")
    case True
    then obtain response where poll: "poll_device_flow_access_token json answer = Inr response"
      and waiting: "tr_error response = Some ''authorization_pending'' \<or> tr_error response = Some ''slow_down''"
      by (auto simp: still_waiting_def split: sum.splits)
    obtain interval' slept' where loop: "device_flow_loop json interval' rest = (slept', outcome)"
      and slept: "slept = interval # slept'" and le: "interval \<le> interval'"
      using Cons.prems waiting
      by (auto simp: poll Let_def slow_down_def split: prod.splits)
    with Cons.IH [OF loop] True show ?thesis by auto
  next
    case False
    have stop: "slept = [interval] \<and> outcome \<noteq> None \<and>
      (\<forall>token. outcome = Some (Inr token) \<longrightarrow> (\<exists>response. poll_device_flow_access_token json answer = Inr response \<and>
          tr_error response = None \<and> tr_access_token response = Some (ua_access_token token)))"
    proof (cases "poll_device_flow_access_token json answer")
      case (Inl e)
      with Cons.prems show ?thesis by auto
    next
      case (Inr response)
      show ?thesis
      proof (cases "tr_error response")
        case None
        then show ?thesis using Cons.prems Inr by (auto simp: and_then_Inr)
      next
        case (Some error)
        then have "error \<noteq> ''authorization_pending''" "error \<noteq> ''slow_down''"
          using False Inr by (simp_all add: still_waiting_def)
        then show ?thesis using Cons.prems Inr Some by (auto simp del: list.inject)
      qed
    qed
    with False show ?thesis by simp
  qed
qed simp

section \<open>The claims at concrete inputs\<close>

definition sample_grant :: push_grant_record where
  "sample_grant = \<lparr>pgr_repo = ''o/r'', pgr_token = ''t'', pgr_expires_at = Some ''later'', pgr_expires_at_epoch_seconds = Some 160,
     pgr_token_source = Some ''github-app-user-token''\<rparr>"

definition sample_grant_io :: grant_io where
  "sample_grant_io = \<lparr>gi_encode = (\<lambda>g. if g = sample_grant then Inr ''{}'' else Inl ''json''),
     gi_decode = (\<lambda>raw. if raw = ''{}'' then Inr sample_grant else Inl ''json''), gi_encode_cached = (\<lambda>_. Inl ''json''),
     gi_decode_cached = (\<lambda>_. Inl ''json''), gi_read = (\<lambda>_ bytes. Inr bytes), gi_create_dir = Inr (), gi_create = Inr (),
     gi_written = None, gi_chmod = Inr (), gi_remove = Inr (), gi_clock = Some 100\<rparr>"

definition sample_token :: token_response where
  "sample_token = \<lparr>tr_access_token = Some ''t'', tr_expires_in = None, tr_refresh_token = None, tr_error = None,
     tr_error_description = None, tr_interval = None\<rparr>"

definition sample_github_json :: github_json where
  "sample_github_json = \<lparr>gj_is_json = (\<lambda>_. True), gj_repo_id = (\<lambda>_. Inl ''json''),
     gj_device_code = (\<lambda>_. Inr \<lparr>dc_device_code = ''d'', dc_user_code = ''u'', dc_verification_uri = ''v'', dc_expires_in = 900,
       dc_interval = None\<rparr>),
     gj_token = (\<lambda>body. if body = ''wait'' then Inr (sample_token\<lparr>tr_access_token := None, tr_error := Some ''slow_down''\<rparr>)
       else Inr sample_token)\<rparr>"

definition sample_answer :: "nat \<Rightarrow> rstr \<Rightarrow> github_answer res" where
  "sample_answer status body = Inr \<lparr>ga_status = status, ga_status_text = show_nat status, ga_body = body\<rparr>"


lemma sample_poll:
  "poll_device_flow_access_token sample_github_json (sample_answer 200 ''wait'') =
     Inr (sample_token\<lparr>tr_access_token := None, tr_error := Some ''slow_down''\<rparr>)"
  "poll_device_flow_access_token sample_github_json (sample_answer 200 ''token'') = Inr sample_token"
  by (simp_all add: poll_device_flow_access_token_def github_request_def sample_github_json_def sample_answer_def success_status_def)

lemma sample_loop:
  "device_flow_loop sample_github_json 5 [sample_answer 200 ''wait'', sample_answer 200 ''token''] =
     ([5, 10], Some (Inr \<lparr>ua_access_token = ''t'', ua_expires_in_seconds = None, ua_refresh_token = None\<rparr>))"
  by (simp add: sample_poll) (simp add: sample_token_def slow_down_def unwrap_or_def ok_or_def)

lemma sample_repo: "normalize_operator_repo ''o/r'' = Some ''o/r''" "plain_repo ''o/r''"
proof -
  show "normalize_operator_repo ''o/r'' = Some ''o/r''" by code_simp
  have "repo_parts ''o/r'' ''o'' ''r''" "plain_owner ''o''" by (simp_all add: repo_parts_def plain_owner_def)
  then show "plain_repo ''o/r''" unfolding plain_repo_def by blast
qed




theorem revoked_access_is_gone_witness:
  "\<exists>st'. snd (snd (revoke_push_access sample_grant_io (Inr ''/h'') ''o/r'' False [push_grant_path ''o/r'' \<mapsto> ''{}''])) = st' \<and>
     grant_at sample_grant_io 100 ''o/r'' st' = Inr None"
proof -
  obtain printed where "revoke_push_access sample_grant_io (Inr ''/h'') ''o/r'' False [push_grant_path ''o/r'' \<mapsto> ''{}''] =
      (printed, Inr (), Map.empty)"
    by (simp add: revoke_push_access_def sample_repo ok_or_def remove_file_if_there_def sample_grant_io_def Let_def)
  from this revoked_access_is_gone [OF this sample_repo, of 100] show ?thesis by simp
qed

theorem device_flow_polls_until_answered_witness:
  "sorted ([5, 5, 10] :: nat list) \<and>
   list_all (still_waiting sample_github_json) [sample_answer 200 ''wait'', sample_answer 200 ''token''] = False"
  using device_flow_polls_until_answered [OF sample_loop] by simp

end
