(* ===== verification/Git_Helpers.thy ===== *)
theory Git_Helpers
  imports Push_Grants "HOL-Library.Sublist"
begin

text \<open>
  The two programs git calls on an agent's machine (\<^verbatim>\<open>bin/zodexd/git_remote.rs\<close>): the credential helper,
  which hands out the token of a push grant or a read-only token, and the remote helper, which turns
  \<^verbatim>\<open>git push\<close> into requests to the publisher daemon of \<^verbatim>\<open>Publisher_Server\<close>.  Git itself, its input and
  the minting of tokens are parameters; writes to the standard output are taken to succeed.
\<close>

section \<open>Credential requests\<close>

record git_credential_request =
  gc_protocol :: "rstr option"
  gc_host :: "rstr option"
  gc_path :: "rstr option"
  gc_url :: "rstr option"
  gc_username :: "rstr option"

definition default_credential_request :: git_credential_request where
  "default_credential_request = \<lparr>gc_protocol = None, gc_host = None, gc_path = None, gc_url = None, gc_username = None\<rparr>"

definition parse_credential_line :: "rstr \<Rightarrow> git_credential_request \<Rightarrow> git_credential_request" where
  "parse_credential_line line request =
     (case split_once ''='' line of
        None \<Rightarrow> request
      | Some (key, text) \<Rightarrow>
          if key = ''protocol'' then request\<lparr>gc_protocol := Some text\<rparr>
          else if key = ''host'' then request\<lparr>gc_host := Some text\<rparr>
          else if key = ''path'' then request\<lparr>gc_path := Some text\<rparr>
          else if key = ''url'' then request\<lparr>gc_url := Some text\<rparr>
          else if key = ''username'' then request\<lparr>gc_username := Some text\<rparr>
          else request)"

definition parse_git_credential_request :: "rstr \<Rightarrow> git_credential_request" where
  "parse_git_credential_request raw =
     fold parse_credential_line (filter (\<lambda>l. trim l \<noteq> []) (str_lines raw)) default_credential_request"

definition credential_url_protocol :: "rstr \<Rightarrow> rstr option" where
  "credential_url_protocol url = map_option fst (split_once ''://'' url)"

definition credential_url_host :: "rstr \<Rightarrow> rstr option" where
  "credential_url_host url =
     map_option (\<lambda>(_, rest). last (split_on (CHR ''@'') (hd (split_on (CHR ''/'') rest)))) (split_once ''://'' url)"

definition credential_url_path :: "rstr \<Rightarrow> rstr option" where
  "credential_url_path url =
     Option.bind (split_once ''://'' url) (\<lambda>(_, rest). map_option snd (split_once ''/'' rest))"

definition credential_host_is_github :: "rstr \<Rightarrow> bool" where
  "credential_host_is_github host =
     (let normalized = to_ascii_lowercase (trim_end_matches (CHR ''.'') (hd (split_on (CHR '':'') host)))
      in normalized = ''github.com'' \<or> normalized = ''www.github.com'')"

definition or_else :: "'a option \<Rightarrow> 'a option \<Rightarrow> 'a option" where
  "or_else x y = (case x of Some v \<Rightarrow> Some v | None \<Rightarrow> y)"

definition git_credential_request_targets_github :: "git_credential_request \<Rightarrow> bool" where
  "git_credential_request_targets_github request =
     (let protocol = or_else (gc_protocol request) (Option.bind (gc_url request) credential_url_protocol);
          host = or_else (gc_host request) (Option.bind (gc_url request) credential_url_host)
      in (case protocol of Some p \<Rightarrow> to_ascii_lowercase p = ''https'' | None \<Rightarrow> False) \<and>
         (case host of Some h \<Rightarrow> credential_host_is_github h | None \<Rightarrow> False))"

definition git_credential_request_repo :: "git_credential_request \<Rightarrow> rstr option" where
  "git_credential_request_repo request =
     Option.bind (or_else (gc_path request) (Option.bind (gc_url request) credential_url_path)) normalize_operator_repo"

definition load_matching_push_grant ::
    "grant_io \<Rightarrow> git_credential_request \<Rightarrow> rstr \<Rightarrow> grant_store \<Rightarrow> push_grant_record option res \<times> grant_store" where
  "load_matching_push_grant io request grants_dir st =
     (case git_credential_request_repo request of
        None \<Rightarrow> (Inr None, st)
      | Some repo \<Rightarrow> load_push_grant_from_dir io repo grants_dir st)"

definition ensure_reader_ready_for_start :: "(rstr \<Rightarrow> bool) \<Rightarrow> config \<Rightarrow> unit res" where
  "ensure_reader_ready_for_start exists cfg =
     (case reader_app_id cfg of
        None \<Rightarrow> Inl ''reader_app_id must be configured before start''
      | Some app_id \<Rightarrow>
          if app_id = 0 then Inl ''reader_app_id must be non-zero''
          else (case reader_installation_id cfg of
              None \<Rightarrow> Inl ''reader_installation_id must be configured before start''
            | Some installation_id \<Rightarrow>
                if installation_id = 0 then Inl ''reader_installation_id must be non-zero''
                else if trim (reader_private_key_path cfg) = [] then Inl ''reader_private_key_path must be configured''
                else if \<not> exists (reader_private_key_path cfg) then
                  Inl (''reader private key file not found: '' @ reader_private_key_path cfg)
                else Inr ()))"

definition credential_lines :: "rstr \<Rightarrow> rstr list" where
  "credential_lines token = [''username=x-access-token'', ''password='' @ token, []]"

definition handle_git_credential_helper ::
    "grant_io \<Rightarrow> (rstr \<Rightarrow> bool) \<Rightarrow> (nat \<Rightarrow> rstr \<Rightarrow> nat \<Rightarrow> rstr res) \<Rightarrow> config \<Rightarrow> rstr \<Rightarrow> rstr res \<Rightarrow> grant_store
      \<Rightarrow> rstr list \<times> unit res \<times> grant_store" where
  "handle_git_credential_helper io exists mint cfg operation input st =
     (case with_ctx ''failed to read git credential request from stdin'' input of
        Inl e \<Rightarrow> ([], Inl e, st)
      | Inr raw \<Rightarrow>
          let request = parse_git_credential_request raw in
          if operation \<noteq> ''get'' \<or> \<not> git_credential_request_targets_github request then ([], Inr (), st)
          else (case load_matching_push_grant io request PUSH_GRANTS_DIR st of
              (Inl e, st') \<Rightarrow> ([], Inl e, st')
            | (Inr (Some grant), st') \<Rightarrow> (credential_lines (pgr_token grant), Inr (), st')
            | (Inr None, st') \<Rightarrow>
                (case and_then (ensure_reader_ready_for_start exists cfg)
                       (\<lambda>_. mint (unwrap_or (reader_app_id cfg) 0) (reader_private_key_path cfg) (unwrap_or (reader_installation_id cfg) 0)) of
                   Inl e \<Rightarrow> ([], Inl e, st')
                 | Inr token \<Rightarrow> (credential_lines token, Inr (), st'))))"

section \<open>Pushes\<close>



text \<open>One push sees one state of the repository and of the machine.\<close>

record push_env =
  pe_tempdir :: "rstr res"
  pe_git :: "rstr list \<Rightarrow> process_output res"
  pe_stat :: "rstr \<Rightarrow> nat res"
  pe_contents :: "rstr \<Rightarrow> rstr res"
  pe_client :: client_env
  pe_bare_json :: "rstr \<Rightarrow> direct_push_response res"







definition split_force :: "rstr \<Rightarrow> bool \<times> rstr" where
  "split_force raw_spec = (case strip_prefix ''+'' raw_spec of Some stripped \<Rightarrow> (True, stripped) | None \<Rightarrow> (False, raw_spec))"


definition submit_push :: "push_env \<Rightarrow> config \<Rightarrow> direct_push_request \<Rightarrow> (rstr \<times> nat) option \<Rightarrow> direct_push_response io" where
  "submit_push pe cfg request bundle =
     submit_direct_push_request (pe_client pe) (pe_bare_json pe) (publisher_max_bundle_bytes cfg) request
       (map_option (\<lambda>(path, _). \<lparr>bf_path = path, bf_stat = pe_stat pe path, bf_contents = pe_contents pe path\<rparr>) bundle)"





section \<open>The remote helper\<close>




text \<open>
  The loop over the commands of git.  \<open>refs k\<close> and \<open>pushes k\<close> are what git and the machine answer after \<open>k\<close>
  pushes.  The result is the lines printed, what was sent for every push, and how the helper ends.
\<close>

type_synonym helper_result = "rstr list \<times> effect list list \<times> unit res"




section \<open>Which token git gets\<close>

text \<open>
  C6: The credential helper gives out only tokens that are meant for the request.  If a password is
  printed, git asked to \<^verbatim>\<open>get\<close> a credential for GitHub over https, and the password is either the token
  of the push grant that is stored for the repository asked for and has not expired at that moment, or,
  when there is no such grant, a read-only token minted with the configured reader application.
\<close>

theorem credential_is_meant_for_the_request:
  assumes "handle_git_credential_helper io exists mint cfg operation (Inr raw) st = (printed, outcome, st')"
    and "printed \<noteq> []"
  shows "operation = ''get'' \<and> git_credential_request_targets_github (parse_git_credential_request raw) \<and> outcome = Inr () \<and>
    (\<exists>token. printed = credential_lines token \<and>
      ((\<exists>repo grant now. git_credential_request_repo (parse_git_credential_request raw) = Some repo \<and> gi_clock io = Some now \<and>
          grant_at io now repo st = Inr (Some grant) \<and> token = pgr_token grant \<and> \<not> push_grant_expired grant now) \<or>
       (\<exists>app_id installation_id. reader_app_id cfg = Some app_id \<and> app_id \<noteq> 0 \<and> reader_installation_id cfg = Some installation_id \<and>
          installation_id \<noteq> 0 \<and> mint app_id (reader_private_key_path cfg) installation_id = Inr token \<and>
          (\<forall>repo now. git_credential_request_repo (parse_git_credential_request raw) = Some repo \<longrightarrow> gi_clock io = Some now \<longrightarrow>
             grant_at io now repo st = Inr None))))"
proof -
  let ?request = "parse_git_credential_request raw"
  have asked: "operation = ''get''" "git_credential_request_targets_github ?request" "outcome = Inr ()"
    using assms by (auto simp: handle_git_credential_helper_def Let_def split: if_splits prod.splits sum.splits option.splits)
  obtain found where load: "fst (load_matching_push_grant io ?request PUSH_GRANTS_DIR st) = Inr found"
    using assms asked by (auto simp: handle_git_credential_helper_def Let_def split: prod.splits sum.splits)
  have stored: "grant_at io now repo st = Inr found" if "git_credential_request_repo ?request = Some repo" "gi_clock io = Some now" for repo now
  proof -
    have "io\<lparr>gi_clock := Some now\<rparr> = io" using that(2) by simp
    then show ?thesis using load that(1) by (simp add: grant_at_def load_matching_push_grant_def)
  qed
  show ?thesis
  proof (cases found)
    case None
    then obtain token where "and_then (ensure_reader_ready_for_start exists cfg)
        (\<lambda>_. mint (unwrap_or (reader_app_id cfg) 0) (reader_private_key_path cfg) (unwrap_or (reader_installation_id cfg) 0)) = Inr token"
      and printed: "printed = credential_lines token"
      using assms asked load by (auto simp: handle_git_credential_helper_def Let_def split: prod.splits sum.splits)
    then have "\<exists>app_id installation_id. reader_app_id cfg = Some app_id \<and> app_id \<noteq> 0 \<and> reader_installation_id cfg = Some installation_id \<and>
          installation_id \<noteq> 0 \<and> mint app_id (reader_private_key_path cfg) installation_id = Inr token"
      by (auto simp: ensure_reader_ready_for_start_def and_then_Inr unwrap_or_def split: option.splits if_splits)
    with printed stored None asked show ?thesis by blast
  next
    case (Some grant)
    then have printed: "printed = credential_lines (pgr_token grant)"
      using assms asked load by (auto simp: handle_git_credential_helper_def Let_def split: prod.splits)
    obtain repo where repo: "git_credential_request_repo ?request = Some repo"
      using load Some by (auto simp: load_matching_push_grant_def split: option.splits)
    obtain now where now: "gi_clock io = Some now" "\<not> push_grant_expired grant now"
      using load Some repo
      by (auto simp: load_matching_push_grant_def load_push_grant_from_dir_def Let_def current_epoch_seconds_def ok_or_def
          split: option.splits sum.splits if_splits)
    with printed stored [OF repo now(1)] repo Some asked show ?thesis by blast
  qed
qed

section \<open>What is pushed\<close>

text \<open>What a request must look like to be the one the refspec \<open>spec\<close> asks for.\<close>

definition asked_by :: "config \<Rightarrow> rstr \<Rightarrow> rstr \<Rightarrow> direct_push_request \<Rightarrow> (rstr \<times> nat) option \<Rightarrow> bool" where
  "asked_by cfg repo spec request bundle \<longleftrightarrow>
     split_once '':'' (snd (split_force spec)) = Some (dp_src request, dp_dst request) \<and> trim (dp_dst request) \<noteq> [] \<and>
     dp_repo request = repo \<and> dp_force request = fst (split_force spec) \<and>
     (dp_src_oid request = None \<longleftrightarrow> dp_src request = []) \<and> (dp_src request = [] \<longrightarrow> bundle = None) \<and>
     (case bundle of Some (path, len) \<Rightarrow> len \<le> publisher_max_bundle_bytes cfg | None \<Rightarrow> True)"


text \<open>What may be sent for the refspec \<open>spec\<close>: nothing, or one submission of the request it asks for.\<close>

definition sent_for :: "config \<Rightarrow> rstr \<Rightarrow> rstr \<Rightarrow> effect list \<Rightarrow> bool" where
  "sent_for cfg repo spec sent \<longleftrightarrow> sent = [] \<or>
     (\<exists>pe request bundle. sent = fst (submit_push pe cfg request bundle []) \<and> asked_by cfg repo spec request bundle)"

definition answers_push :: "rstr \<Rightarrow> bool" where
  "answers_push line \<longleftrightarrow> starts_with line ''ok '' \<or> starts_with line ''error ''"



text \<open>The refspecs git asks to push, in its order.\<close>

definition asked_pushes :: "rstr res list \<Rightarrow> rstr list" where
  "asked_pushes = List.map_filter (\<lambda>input. case input of Inr line \<Rightarrow> strip_prefix ''push '' line | Inl _ \<Rightarrow> None)"

lemma asked_pushes_simps [simp]:
  "asked_pushes [] = []"
  "asked_pushes (Inl e # rest) = asked_pushes rest"
  "asked_pushes (Inr line # rest) =
     (case strip_prefix ''push '' line of Some spec \<Rightarrow> spec # asked_pushes rest | None \<Rightarrow> asked_pushes rest)"
  by (simp_all add: asked_pushes_def map_filter_simps split: option.split)


definition pushed_in_order :: "config \<Rightarrow> rstr \<Rightarrow> rstr res list \<Rightarrow> helper_result \<Rightarrow> bool" where
  "pushed_in_order cfg repo input = (\<lambda>(printed, sent, outcome).
     \<exists>specs. list_all2 (sent_for cfg repo) specs sent \<and> prefix specs (asked_pushes input) \<and>
       length sent \<le> length (filter answers_push printed))"





lemma pushed_nothing [simp]: "pushed_in_order cfg repo input (printed, [], outcome)"
  by (auto simp: pushed_in_order_def)




section \<open>The claims at concrete inputs\<close>

definition sample_credential_input :: rstr where
  "sample_credential_input = ''protocol=https'' @ [nl] @ ''host=github.com'' @ [nl] @ ''path=o/r.git'' @ [nl]"

lemma sample_credential_request:
  "parse_git_credential_request sample_credential_input =
     \<lparr>gc_protocol = Some ''https'', gc_host = Some ''github.com'', gc_path = Some ''o/r.git'', gc_url = None, gc_username = None\<rparr>"
  "git_credential_request_targets_github (parse_git_credential_request sample_credential_input)"
  "git_credential_request_repo (parse_git_credential_request sample_credential_input) = Some ''o/r''"
  by code_simp+

lemma sample_credential:
  "handle_git_credential_helper sample_grant_io (\<lambda>_. False) (\<lambda>_ _ _. Inl ''offline'') default_config ''get''
     (Inr sample_credential_input) [push_grant_path ''o/r'' \<mapsto> ''{}''] =
   (credential_lines ''t'', Inr (), [push_grant_path ''o/r'' \<mapsto> ''{}''])"
  using sample_credential_request(2,3)
  by (simp add: handle_git_credential_helper_def load_matching_push_grant_def load_push_grant_from_dir_def Let_def
      push_grant_path_def [symmetric] sample_grant_io_def sample_grant_def push_grant_expired_def current_epoch_seconds_def ok_or_def)

theorem credential_is_meant_for_the_request_witness:
  "\<exists>grant. grant_at sample_grant_io 100 ''o/r'' [push_grant_path ''o/r'' \<mapsto> ''{}''] = Inr (Some grant) \<and> pgr_token grant = ''t''"
  using credential_is_meant_for_the_request [OF sample_credential]
  by (auto simp: credential_lines_def sample_credential_request(3) sample_grant_io_def default_config_def)







end
